(* ===== verification/Prelude.thy ===== *)
theory Prelude
imports
  Complex_Main
  "HOL-Library.Sublist"
begin

text \<open>
  What every component shares: the collections of simplification rules, JavaScript string and
  array operations the source uses, and generic facts on them.

  Conventions. A JavaScript string is a \<^typ>\<open>string\<close>, one \<^typ>\<open>char\<close> per UTF-16 code unit below
  256; an instant (\<^verbatim>\<open>Date\<close>, \<^verbatim>\<open>Date.now()\<close>) is an \<^typ>\<open>int\<close> in milliseconds; \<^verbatim>\<open>null\<close> and
  \<^verbatim>\<open>undefined\<close> are \<^term>\<open>None\<close>; a thrown exception is the left side of a sum.
\<close>

named_theorems ctem_simps \<open>unfolding rules of the components' small helpers\<close>

named_theorems step_defs \<open>definitions of the state transitions\<close>

type_synonym instant = int
type_synonym ident = string


section \<open>Characters and strings\<close>

definition ccode :: "char \<Rightarrow> nat" where
  "ccode c = of_char c"

text \<open>\<^verbatim>\<open>String.prototype.trim\<close>: tab, line feed, vertical tab, form feed, carriage return, space and
  no-break space.\<close>

definition js_ws :: "char \<Rightarrow> bool" where
  "js_ws c = (ccode c \<in> {9, 10, 11, 12, 13, 32, 160})"

definition js_trim :: "string \<Rightarrow> string" where
  "js_trim s = rev (dropWhile js_ws (rev (dropWhile js_ws s)))"

definition is_digit :: "char \<Rightarrow> bool" where
  "is_digit c = (48 \<le> ccode c \<and> ccode c \<le> 57)"

definition is_upper :: "char \<Rightarrow> bool" where
  "is_upper c = (65 \<le> ccode c \<and> ccode c \<le> 90)"

definition is_lower :: "char \<Rightarrow> bool" where
  "is_lower c = (97 \<le> ccode c \<and> ccode c \<le> 122)"

text \<open>The regular expression \<^verbatim>\<open>/^[0-9]+$/\<close> and \<^verbatim>\<open>Number\<close> on what it accepts.\<close>

definition all_digits :: "string \<Rightarrow> bool" where
  "all_digits s = (s \<noteq> [] \<and> list_all is_digit s)"

definition digits_val :: "string \<Rightarrow> nat" where
  "digits_val s = foldl (\<lambda>n c. 10 * n + (ccode c - 48)) 0 s"

definition js_lower :: "string \<Rightarrow> string" where
  "js_lower s = map (\<lambda>c. if is_upper c then char_of (ccode c + 32) else c) s"

definition js_upper :: "string \<Rightarrow> string" where
  "js_upper s = map (\<lambda>c. if is_lower c then char_of (ccode c - 32) else c) s"

text \<open>\<^verbatim>\<open>s.includes(p)\<close> for strings and \<^verbatim>\<open>s.startsWith(p)\<close>.\<close>

fun has_infix :: "string \<Rightarrow> string \<Rightarrow> bool" where
  "has_infix p [] = (p = [])"
| "has_infix p (c # s) = (prefix p (c # s) \<or> has_infix p s)"

text \<open>\<^verbatim>\<open>s.split(d)\<close> for a one-character separator: never empty.\<close>

fun split_on :: "char \<Rightarrow> string \<Rightarrow> string list" where
  "split_on d [] = [[]]"
| "split_on d (c # s) =
     (if c = d then [] # split_on d s
      else (case split_on d s of [] \<Rightarrow> [[c]] | w # ws \<Rightarrow> (c # w) # ws))"

text \<open>\<^verbatim>\<open>parts.join(d)\<close>.\<close>

fun join_with :: "string \<Rightarrow> string list \<Rightarrow> string" where
  "join_with d [] = []"
| "join_with d [x] = x"
| "join_with d (x # y # zs) = x @ d @ join_with d (y # zs)"

text \<open>\<^verbatim>\<open>[...new Set(xs)]\<close>: the first occurrence of each element, in order.\<close>

fun uniq_acc :: "'a list \<Rightarrow> 'a list \<Rightarrow> 'a list" where
  "uniq_acc seen [] = []"
| "uniq_acc seen (x # xs) = (if x \<in> set seen then uniq_acc seen xs else x # uniq_acc (x # seen) xs)"

definition uniq :: "'a list \<Rightarrow> 'a list" where
  "uniq xs = uniq_acc [] xs"

text \<open>The truthiness of an optional string: \<^verbatim>\<open>undefined\<close>, \<^verbatim>\<open>null\<close> and \<^verbatim>\<open>''\<close> are false.\<close>

definition truthy :: "string option \<Rightarrow> bool" where
  "truthy x = (case x of None \<Rightarrow> False | Some s \<Rightarrow> s \<noteq> [])"


section \<open>Facts on the string operations\<close>

lemma split_on_not_Nil [simp]: "split_on d s \<noteq> []"
  by (induction s) (auto split: list.splits)

lemma split_on_no_sep: "d \<notin> set s \<Longrightarrow> split_on d s = [s]"
  by (induction s) auto

lemma split_on_append_sep:
  "d \<notin> set x \<Longrightarrow> split_on d (x @ d # s) = x # split_on d s"
  by (induction x) auto

lemma split_on_join:
  "\<lbrakk>xs \<noteq> []; \<forall>x \<in> set xs. d \<notin> set x\<rbrakk> \<Longrightarrow> split_on d (join_with [d] xs) = xs"
proof (induction "[d]" xs rule: join_with.induct)
  case (3 x y zs)
  then show ?case by (simp add: split_on_append_sep)
qed (simp_all add: split_on_no_sep)

lemma join_with_inj:
  assumes "join_with [d] xs = join_with [d] ys"
    and "xs \<noteq> []" and "ys \<noteq> []"
    and "\<forall>x \<in> set xs. d \<notin> set x" and "\<forall>y \<in> set ys. d \<notin> set y"
  shows "xs = ys"
  using assms split_on_join[of xs d] split_on_join[of ys d] by metis

lemma split_on_sep_free: "w \<in> set (split_on d s) \<Longrightarrow> d \<notin> set w"
proof (induction s arbitrary: w)
  case (Cons c s)
  then show ?case by (cases "split_on d s") (auto split: if_splits)
qed simp

lemma set_uniq_acc: "set (uniq_acc seen xs) = set xs - set seen"
  by (induction seen xs rule: uniq_acc.induct) auto

lemma set_uniq [simp]: "set (uniq xs) = set xs"
  by (simp add: uniq_def set_uniq_acc)

lemma distinct_uniq_acc: "distinct (uniq_acc seen xs)"
  by (induction seen xs rule: uniq_acc.induct) (auto simp: set_uniq_acc)

lemma distinct_uniq [simp]: "distinct (uniq xs)"
  by (simp add: uniq_def distinct_uniq_acc)

lemma uniq_acc_distinct:
  "\<lbrakk>distinct xs; set xs \<inter> set seen = {}\<rbrakk> \<Longrightarrow> uniq_acc seen xs = xs"
  by (induction seen xs rule: uniq_acc.induct) auto

lemma uniq_distinct: "distinct xs \<Longrightarrow> uniq xs = xs"
  by (simp add: uniq_def uniq_acc_distinct)

lemma uniq_Nil [simp]: "uniq [] = []"
  by (simp add: uniq_def)

lemma uniq_snoc: "uniq (xs @ [x]) = (if x \<in> set xs then uniq xs else uniq xs @ [x])"
proof -
  have "uniq_acc seen (xs @ [x]) =
      (if x \<in> set xs \<union> set seen then uniq_acc seen xs else uniq_acc seen xs @ [x])" for seen
    by (induction xs arbitrary: seen) auto
  then show ?thesis by (simp add: uniq_def)
qed

lemma uniq_Nil_iff [simp]: "uniq xs = [] \<longleftrightarrow> xs = []"
  by (metis set_empty set_uniq)


lemma in_map_filter: "y \<in> set (List.map_filter g xs) \<longleftrightarrow> (\<exists>x \<in> set xs. g x = Some y)"
  by (induction xs) (auto simp: List.map_filter_simps split: option.splits)


section \<open>Numbers as text\<close>

text \<open>\<^verbatim>\<open>String(n)\<close> for a natural number.\<close>

fun string_of_nat :: "nat \<Rightarrow> string" where
  "string_of_nat n =
     (if n < 10 then [char_of (48 + n)] else string_of_nat (n div 10) @ [char_of (48 + n mod 10)])"

declare string_of_nat.simps [simp del]


lemma find_distinct_key:
  "\<lbrakk>distinct (map f xs); x \<in> set xs\<rbrakk> \<Longrightarrow> find (\<lambda>a. f a = f x) xs = Some x"
  by (induction xs) (auto simp: rev_image_eqI)


section \<open>Stable sorting by a key\<close>

text \<open>
  \<^verbatim>\<open>Array.prototype.sort\<close> with a comparator on a numeric key is stable, as \<^const>\<open>sort_key\<close> is. The
  first element of the sorted list is the leftmost one with the least key.
\<close>

definition leftmost_min :: "('a \<Rightarrow> 'k::linorder) \<Rightarrow> 'a list \<Rightarrow> nat \<Rightarrow> bool" where
  "leftmost_min f xs i =
     (i < length xs \<and> (\<forall>j < length xs. f (xs ! i) \<le> f (xs ! j)) \<and> (\<forall>j < i. f (xs ! i) < f (xs ! j)))"

lemma leftmost_min_unique:
  assumes "leftmost_min f xs i" and "leftmost_min f xs j"
  shows "i = j"
proof -
  have "\<not> i < j" using assms by (meson leftmost_min_def leD)
  moreover have "\<not> j < i" using assms by (meson leftmost_min_def leD)
  ultimately show ?thesis by simp
qed

lemma hd_insort_key:
  "hd (insort_key f a zs) = (if zs = [] \<or> f a \<le> f (hd zs) then a else hd zs)"
  by (cases zs) auto

lemma hd_sort_key:
  assumes "xs \<noteq> []"
  shows "\<exists>i. leftmost_min f xs i \<and> hd (sort_key f xs) = xs ! i"
  using assms
proof (induction xs)
  case (Cons x xs)
  show ?case
  proof (cases "xs = []")
    case True
    then show ?thesis by (auto simp: leftmost_min_def intro!: exI[of _ 0])
  next
    case False
    then obtain i where i: "leftmost_min f xs i" "hd (sort_key f xs) = xs ! i" using Cons.IH by blast
    have ne: "sort_key f xs \<noteq> []" using False by (metis length_0_conv length_sort)
    show ?thesis
    proof (cases "f x \<le> f (xs ! i)")
      case True
      have "leftmost_min f (x # xs) 0"
        using i(1) True by (auto simp: leftmost_min_def nth_Cons split: nat.splits dest: order_trans)
      then show ?thesis using True i(2) ne by (auto simp: hd_insort_key intro!: exI[of _ 0])
    next
      case nle: False
      have "leftmost_min f (x # xs) (Suc i)"
        using i(1) nle by (auto simp: leftmost_min_def nth_Cons split: nat.splits)
      then show ?thesis using nle i(2) ne by (auto simp: hd_insort_key intro!: exI[of _ "Suc i"])
    qed
  qed
qed simp

lemma find_sort_key:
  "find P (sort_key f xs) = (case sort_key f (filter P xs) of [] \<Rightarrow> None | y # _ \<Rightarrow> Some y)"
proof -
  have "find P ys = (case filter P ys of [] \<Rightarrow> None | y # _ \<Rightarrow> Some y)" for ys
    by (induction ys) auto
  then show ?thesis by (simp add: filter_sort)
qed

text \<open>What a search in the sorted list finds: the leftmost of the least among those that qualify.\<close>

lemma find_sort_key_min:
  "find P (sort_key f xs) = Some x \<longleftrightarrow> (\<exists>i. leftmost_min f (filter P xs) i \<and> x = filter P xs ! i)"
proof (cases "filter P xs = []")
  case True
  then show ?thesis by (simp add: find_sort_key leftmost_min_def)
next
  case False
  then obtain i where i: "leftmost_min f (filter P xs) i" "hd (sort_key f (filter P xs)) = filter P xs ! i"
    using hd_sort_key by blast
  have "sort_key f (filter P xs) \<noteq> []" using False by (metis length_0_conv length_sort)
  then have "find P (sort_key f xs) = Some (filter P xs ! i)"
    using i(2) by (simp add: find_sort_key neq_Nil_conv) (auto simp: neq_Nil_conv)
  then show ?thesis using i(1) leftmost_min_unique by auto
qed

end
