(* ===== verification/Resilience.thy ===== *)
theory Resilience
imports Prelude
begin

text \<open>
  The circuit breaker and retry budget of \<^verbatim>\<open>libs/resilience/src\<close>: the configuration loader
  (\<^verbatim>\<open>config.ts\<close>), the breaker and its registry (\<^verbatim>\<open>circuit-breaker.ts\<close>), the retry
  classification and back-off (\<^verbatim>\<open>retry.ts\<close>) and \<^verbatim>\<open>InternalHttpPolicy.execute\<close>
  (\<^verbatim>\<open>http-policy.ts\<close>). A method of the breaker runs without an \<^verbatim>\<open>await\<close>, so each is one
  transition, given the instant at which it runs.
\<close>


section \<open>Configuration (config.ts)\<close>

record cb_config =
  failureThreshold :: nat
  windowMs :: nat
  cooldownMs :: nat
  maxAttempts :: nat
  baseDelayMs :: nat
  timeoutMs :: nat

record cb_bound =
  bnd_key :: string
  bnd_min :: nat
  bnd_max :: nat

type_synonym env_source = "(string \<times> string) list"

datatype config_error = Unknown_env string | Invalid_env string

definition ctem_cb_known_keys :: "string list" where
  "ctem_cb_known_keys =
     [''CTEM_CB_FAILURE_THRESHOLD'', ''CTEM_CB_WINDOW_MS'', ''CTEM_CB_COOLDOWN_MS'',
      ''CTEM_CB_MAX_ATTEMPTS'', ''CTEM_CB_BASE_DELAY_MS'', ''CTEM_CB_TIMEOUT_MS'']"

text \<open>\<^verbatim>\<open>CTEM_CB_ENV_ALLOWLIST\<close>, the regular expression \<^verbatim>\<open>/^CTEM_CB_[A-Z0-9_]+$/\<close>.\<close>

definition cb_env_name :: "string \<Rightarrow> bool" where
  "cb_env_name k =
     (let p = ''CTEM_CB_''; r = drop (length p) k
      in prefix p k \<and> r \<noteq> [] \<and> list_all (\<lambda>c. is_upper c \<or> is_digit c \<or> c = CHR ''_'') r)"

definition default_cb_config :: cb_config where
  "default_cb_config =
     \<lparr>failureThreshold = 5, windowMs = 30000, cooldownMs = 15000, maxAttempts = 3,
      baseDelayMs = 100, timeoutMs = 30000\<rparr>"

definition bound_failureThreshold :: cb_bound where
  "bound_failureThreshold = \<lparr>bnd_key = ''CTEM_CB_FAILURE_THRESHOLD'', bnd_min = 1, bnd_max = 100\<rparr>"

definition bound_windowMs :: cb_bound where
  "bound_windowMs = \<lparr>bnd_key = ''CTEM_CB_WINDOW_MS'', bnd_min = 100, bnd_max = 600000\<rparr>"

definition bound_cooldownMs :: cb_bound where
  "bound_cooldownMs = \<lparr>bnd_key = ''CTEM_CB_COOLDOWN_MS'', bnd_min = 100, bnd_max = 600000\<rparr>"

definition bound_maxAttempts :: cb_bound where
  "bound_maxAttempts = \<lparr>bnd_key = ''CTEM_CB_MAX_ATTEMPTS'', bnd_min = 1, bnd_max = 8\<rparr>"

definition bound_baseDelayMs :: cb_bound where
  "bound_baseDelayMs = \<lparr>bnd_key = ''CTEM_CB_BASE_DELAY_MS'', bnd_min = 1, bnd_max = 10000\<rparr>"

definition bound_timeoutMs :: cb_bound where
  "bound_timeoutMs = \<lparr>bnd_key = ''CTEM_CB_TIMEOUT_MS'', bnd_min = 100, bnd_max = 120000\<rparr>"

text \<open>
  \<^verbatim>\<open>readInt\<close>. A digit string at or above \<open>2 ^ 53\<close> is not a safe integer; smaller ones convert
  exactly.
\<close>

definition readInt :: "env_source \<Rightarrow> cb_bound \<Rightarrow> nat \<Rightarrow> config_error + nat" where
  "readInt source bound fallback =
     (case map_of source (bnd_key bound) of
        None \<Rightarrow> Inr fallback
      | Some raw \<Rightarrow>
          (let trimmed = js_trim raw in
           if \<not> all_digits trimmed then Inl (Invalid_env (bnd_key bound))
           else
             (let n = digits_val trimmed in
              if n \<ge> 2 ^ 53 \<or> n < bnd_min bound \<or> n > bnd_max bound
              then Inl (Invalid_env (bnd_key bound)) else Inr n)))"

fun first_unknown_key :: "string list \<Rightarrow> string option" where
  "first_unknown_key [] = None"
| "first_unknown_key (k # ks) =
     (if \<not> cb_env_name k then first_unknown_key ks
      else if k \<notin> set ctem_cb_known_keys then Some k
      else first_unknown_key ks)"

fun bind_sum :: "'e + 'a \<Rightarrow> ('a \<Rightarrow> 'e + 'b) \<Rightarrow> 'e + 'b" where
  "bind_sum (Inl e) f = Inl e"
| "bind_sum (Inr x) f = f x"

definition loadCircuitBreakerConfig :: "env_source \<Rightarrow> config_error + cb_config" where
  "loadCircuitBreakerConfig source =
     (case first_unknown_key (map fst source) of
        Some k \<Rightarrow> Inl (Unknown_env k)
      | None \<Rightarrow>
          bind_sum (readInt source bound_failureThreshold (failureThreshold default_cb_config)) (\<lambda>ft.
          bind_sum (readInt source bound_windowMs (windowMs default_cb_config)) (\<lambda>w.
          bind_sum (readInt source bound_cooldownMs (cooldownMs default_cb_config)) (\<lambda>c.
          bind_sum (readInt source bound_maxAttempts (maxAttempts default_cb_config)) (\<lambda>m.
          bind_sum (readInt source bound_baseDelayMs (baseDelayMs default_cb_config)) (\<lambda>b.
          bind_sum (readInt source bound_timeoutMs (timeoutMs default_cb_config)) (\<lambda>t.
            Inr \<lparr>failureThreshold = ft, windowMs = w, cooldownMs = c, maxAttempts = m,
                 baseDelayMs = b, timeoutMs = t\<rparr>)))))))"

definition in_bound :: "cb_bound \<Rightarrow> nat \<Rightarrow> bool" where
  "in_bound b n = (bnd_min b \<le> n \<and> n \<le> bnd_max b)"

definition wf_cb_config :: "cb_config \<Rightarrow> bool" where
  "wf_cb_config c =
     (in_bound bound_failureThreshold (failureThreshold c) \<and>
      in_bound bound_windowMs (windowMs c) \<and>
      in_bound bound_cooldownMs (cooldownMs c) \<and>
      in_bound bound_maxAttempts (maxAttempts c) \<and>
      in_bound bound_baseDelayMs (baseDelayMs c) \<and>
      in_bound bound_timeoutMs (timeoutMs c))"

lemmas bound_defs = bound_failureThreshold_def bound_windowMs_def bound_cooldownMs_def
  bound_maxAttempts_def bound_baseDelayMs_def bound_timeoutMs_def

lemma bind_sum_Inr: "bind_sum x f = Inr y \<longleftrightarrow> (\<exists>a. x = Inr a \<and> f a = Inr y)"
  by (cases x) auto

lemma readInt_Inr:
  "readInt source b d = Inr n \<Longrightarrow> in_bound b d \<Longrightarrow> in_bound b n"
  by (auto simp: readInt_def in_bound_def Let_def split: option.splits if_splits)

lemma first_unknown_key_None:
  "first_unknown_key ks = None \<longleftrightarrow>
     (\<forall>k \<in> set ks. cb_env_name k \<longrightarrow> k \<in> set ctem_cb_known_keys)"
  by (induction ks) auto

lemma default_in_bounds: "wf_cb_config default_cb_config"
  by (simp add: wf_cb_config_def default_cb_config_def bound_defs in_bound_def)


text \<open>Where a knob comes from: the default when its variable is absent, otherwise the digits set.\<close>

definition knob_from_env :: "env_source \<Rightarrow> cb_bound \<Rightarrow> nat \<Rightarrow> nat \<Rightarrow> bool" where
  "knob_from_env source b fallback n =
     (case map_of source (bnd_key b) of
        None \<Rightarrow> n = fallback
      | Some raw \<Rightarrow> all_digits (js_trim raw) \<and> n = digits_val (js_trim raw))"

lemma readInt_from_env: "readInt source b d = Inr n \<Longrightarrow> knob_from_env source b d n"
  by (auto simp: readInt_def knob_from_env_def Let_def split: option.splits if_splits)

lemma default_bounds [simp]:
  "in_bound bound_failureThreshold (failureThreshold default_cb_config)"
  "in_bound bound_windowMs (windowMs default_cb_config)"
  "in_bound bound_cooldownMs (cooldownMs default_cb_config)"
  "in_bound bound_maxAttempts (maxAttempts default_cb_config)"
  "in_bound bound_baseDelayMs (baseDelayMs default_cb_config)"
  "in_bound bound_timeoutMs (timeoutMs default_cb_config)"
  using default_in_bounds by (simp_all add: wf_cb_config_def)

text \<open>
  Configuration. A configuration that loads has every knob inside its bounds, each knob
  is the default or the decimal the environment gives, and no variable that looks like a breaker
  knob is unknown; anything else is an error, never a silent default.\<close>

theorem load_config_fail_closed:
  assumes "loadCircuitBreakerConfig source = Inr c"
  shows "wf_cb_config c \<and>
    (\<forall>k \<in> fst ` set source. cb_env_name k \<longrightarrow> k \<in> set ctem_cb_known_keys) \<and>
    knob_from_env source bound_failureThreshold 5 (failureThreshold c) \<and>
    knob_from_env source bound_windowMs 30000 (windowMs c) \<and>
    knob_from_env source bound_cooldownMs 15000 (cooldownMs c) \<and>
    knob_from_env source bound_maxAttempts 3 (maxAttempts c) \<and>
    knob_from_env source bound_baseDelayMs 100 (baseDelayMs c) \<and>
    knob_from_env source bound_timeoutMs 30000 (timeoutMs c)"
proof -
  from assms have unk: "first_unknown_key (map fst source) = None"
    by (simp add: loadCircuitBreakerConfig_def split: option.splits)
  with assms obtain ft w cd m b t where
    "readInt source bound_failureThreshold (failureThreshold default_cb_config) = Inr ft"
    "readInt source bound_windowMs (windowMs default_cb_config) = Inr w"
    "readInt source bound_cooldownMs (cooldownMs default_cb_config) = Inr cd"
    "readInt source bound_maxAttempts (maxAttempts default_cb_config) = Inr m"
    "readInt source bound_baseDelayMs (baseDelayMs default_cb_config) = Inr b"
    "readInt source bound_timeoutMs (timeoutMs default_cb_config) = Inr t"
    "c = \<lparr>failureThreshold = ft, windowMs = w, cooldownMs = cd, maxAttempts = m, baseDelayMs = b,
          timeoutMs = t\<rparr>"
    by (auto simp: loadCircuitBreakerConfig_def bind_sum_Inr)
  note knobs = this
  have "wf_cb_config c"
    using knobs(7) knobs(1-6)[THEN readInt_Inr] by (simp add: wf_cb_config_def)
  moreover have "\<forall>k \<in> fst ` set source. cb_env_name k \<longrightarrow> k \<in> set ctem_cb_known_keys"
    using unk by (simp add: first_unknown_key_None)
  moreover note knobs(1-6)[THEN readInt_from_env]
  ultimately show ?thesis by (simp add: knobs(7) default_cb_config_def)
qed

lemma load_config_fail_closed_witness:
  "\<exists>c. loadCircuitBreakerConfig [(''CTEM_CB_MAX_ATTEMPTS'', '' 8 ''), (''HOME'', ''/root'')] = Inr c \<and>
     wf_cb_config c \<and> maxAttempts c = 8 \<and> windowMs c = 30000"
proof -
  let ?src = "[(''CTEM_CB_MAX_ATTEMPTS'', '' 8 ''), (''HOME'', ''/root'')]"
  have d: "js_trim '' 8 '' = ''8''" by (simp add: js_trim_def js_ws_def ccode_def)
  have "all_digits ''8''" "digits_val ''8'' = 8"
    by (simp_all add: all_digits_def is_digit_def digits_val_def ccode_def)
  then have m: "readInt ?src bound_maxAttempts 3 = Inr 8"
    by (simp add: readInt_def d bound_defs)
  have "first_unknown_key (map fst ?src) = None"
    by (simp add: cb_env_name_def ctem_cb_known_keys_def Let_def)
  then have "\<exists>c. loadCircuitBreakerConfig ?src = Inr c"
    using m by (simp add: loadCircuitBreakerConfig_def readInt_def[of _ _ "_ _"] bound_defs
        default_cb_config_def)
  then obtain c where c: "loadCircuitBreakerConfig ?src = Inr c" ..
  from load_config_fail_closed[OF c] show ?thesis
    using c by (auto simp: knob_from_env_def bound_defs d \<open>digits_val ''8'' = 8\<close>)
qed


section \<open>The circuit breaker (circuit-breaker.ts)\<close>

datatype circuit_state = Closed | Open | Half_Open

text \<open>The log lines \<^verbatim>\<open>emit\<close> writes, by their \<^verbatim>\<open>state\<close> binding.\<close>

datatype circuit_event = Ev_reject | Ev_closed | Ev_half_open | Ev_open

record breaker =
  current :: circuit_state
  failures :: "instant list"
  openedAt :: instant
  probeInFlight :: bool
  emitted :: "circuit_event list"

definition new_breaker :: breaker where
  "new_breaker = \<lparr>current = Closed, failures = [], openedAt = 0, probeInFlight = False, emitted = []\<rparr>"

definition emit :: "circuit_event \<Rightarrow> breaker \<Rightarrow> breaker" where
  "emit e b = b\<lparr>emitted := emitted b @ [e]\<rparr>"

definition transitionIfCooldownElapsed :: "cb_config \<Rightarrow> instant \<Rightarrow> breaker \<Rightarrow> breaker" where
  "transitionIfCooldownElapsed c now b =
     (if current b = Open \<and> now - openedAt b \<ge> int (cooldownMs c)
      then emit Ev_half_open (b\<lparr>current := Half_Open\<rparr>) else b)"

text \<open>The getter \<^verbatim>\<open>state\<close>.\<close>

definition read_state :: "cb_config \<Rightarrow> instant \<Rightarrow> breaker \<Rightarrow> circuit_state \<times> breaker" where
  "read_state c now b =
     (let b' = transitionIfCooldownElapsed c now b in (current b', b'))"

text \<open>\<^verbatim>\<open>enter\<close>: \<^term>\<open>False\<close> is the throw of \<^verbatim>\<open>CircuitOpenError\<close>.\<close>

definition enter :: "cb_config \<Rightarrow> instant \<Rightarrow> breaker \<Rightarrow> bool \<times> breaker" where
  "enter c now b0 =
     (let b = transitionIfCooldownElapsed c now b0 in
      case current b of
        Open \<Rightarrow> (False, emit Ev_reject b)
      | Half_Open \<Rightarrow>
          (if probeInFlight b then (False, emit Ev_reject b)
           else (True, b\<lparr>probeInFlight := True\<rparr>))
      | Closed \<Rightarrow> (True, b))"

definition leave :: "breaker \<Rightarrow> breaker" where
  "leave b = b\<lparr>probeInFlight := False\<rparr>"

definition prune :: "cb_config \<Rightarrow> instant \<Rightarrow> breaker \<Rightarrow> breaker" where
  "prune c now b =
     (let cutoff = now - int (windowMs c) in
      if failures b = [] then b else b\<lparr>failures := filter (\<lambda>ts. ts > cutoff) (failures b)\<rparr>)"

definition open_circuit :: "instant \<Rightarrow> breaker \<Rightarrow> breaker" where
  "open_circuit now b =
     (let b' = b\<lparr>current := Open, openedAt := now, failures := []\<rparr>
      in if current b = Open then b' else emit Ev_open b')"

definition recordSuccess :: "cb_config \<Rightarrow> instant \<Rightarrow> breaker \<Rightarrow> breaker" where
  "recordSuccess c now b =
     (if current b = Half_Open \<or> current b = Open
      then emit Ev_closed (b\<lparr>current := Closed, failures := []\<rparr>)
      else prune c now b)"

definition recordFailure :: "cb_config \<Rightarrow> instant \<Rightarrow> breaker \<Rightarrow> breaker" where
  "recordFailure c now b =
     (if current b = Half_Open then open_circuit now b
      else
        (let b1 = prune c now b; b2 = b1\<lparr>failures := failures b1 @ [now]\<rparr> in
         if length (failures b2) \<ge> failureThreshold c then open_circuit now b2 else b2))"

text \<open>The registry: one breaker per name, created closed on first use.\<close>

type_synonym registry = "string \<rightharpoonup> breaker"

definition registry_for :: "string \<Rightarrow> registry \<Rightarrow> breaker \<times> registry" where
  "registry_for name r =
     (case r name of Some b \<Rightarrow> (b, r) | None \<Rightarrow> (new_breaker, r(name \<mapsto> new_breaker)))"

lemmas breaker_defs = transitionIfCooldownElapsed_def read_state_def enter_def leave_def prune_def
  open_circuit_def recordSuccess_def recordFailure_def emit_def Let_def


subsection \<open>Invariant of a breaker\<close>

text \<open>
  A breaker always holds fewer failures than its threshold: reaching it opens the circuit, which
  forgets them. Failures recorded while open count again, so an open circuit can re-open (and
  restart its cool-down).
\<close>

definition wf_breaker :: "cb_config \<Rightarrow> breaker \<Rightarrow> bool" where
  "wf_breaker c b = (length (failures b) < failureThreshold c)"

datatype breaker_op =
    Op_enter instant | Op_leave | Op_success instant | Op_failure instant | Op_state instant

fun run_op :: "cb_config \<Rightarrow> breaker \<Rightarrow> breaker_op \<Rightarrow> breaker" where
  "run_op c b (Op_enter t) = snd (enter c t b)"
| "run_op c b Op_leave = leave b"
| "run_op c b (Op_success t) = recordSuccess c t b"
| "run_op c b (Op_failure t) = recordFailure c t b"
| "run_op c b (Op_state t) = snd (read_state c t b)"

definition run_ops :: "cb_config \<Rightarrow> breaker \<Rightarrow> breaker_op list \<Rightarrow> breaker" where
  "run_ops c b ops = foldl (run_op c) b ops"

lemma run_ops_simps [simp]:
  "run_ops c b [] = b"
  "run_ops c b (x # xs) = run_ops c (run_op c b x) xs"
  "run_ops c b (xs @ ys) = run_ops c (run_ops c b xs) ys"
  by (simp_all add: run_ops_def)

lemma length_filter_less: "length xs < n \<Longrightarrow> length (filter P xs) < n"
  by (rule le_less_trans[OF length_filter_le])

lemma wf_new_breaker: "0 < failureThreshold c \<Longrightarrow> wf_breaker c new_breaker"
  by (simp add: wf_breaker_def new_breaker_def)

lemma wf_run_op:
  assumes "wf_breaker c b"
  shows "wf_breaker c (run_op c b x)"
proof -
  have "0 < failureThreshold c" using assms by (simp add: wf_breaker_def)
  then show ?thesis using assms
    by (cases x)
      (auto simp: wf_breaker_def breaker_defs length_filter_less split: circuit_state.splits)
qed

lemma wf_run_ops: "wf_breaker c b \<Longrightarrow> wf_breaker c (run_ops c b ops)"
  by (induction ops arbitrary: b) (auto simp: wf_run_op)


subsection \<open>The sliding window\<close>

text \<open>The outcomes recorded on a closed circuit, as a history: the reference the window is checked
  against.\<close>

fun fail_times :: "breaker_op list \<Rightarrow> instant list" where
  "fail_times [] = []"
| "fail_times (Op_failure t # xs) = t # fail_times xs"
| "fail_times (_ # xs) = fail_times xs"

fun op_times :: "breaker_op list \<Rightarrow> instant list" where
  "op_times [] = []"
| "op_times (Op_failure t # xs) = t # op_times xs"
| "op_times (Op_success t # xs) = t # op_times xs"
| "op_times (Op_enter t # xs) = t # op_times xs"
| "op_times (Op_state t # xs) = t # op_times xs"
| "op_times (Op_leave # xs) = op_times xs"

text \<open>How many failures of a history lie in the window that ends at \<open>t\<close>.\<close>

definition window_count :: "cb_config \<Rightarrow> breaker_op list \<Rightarrow> instant \<Rightarrow> nat" where
  "window_count c ops t = length (filter (\<lambda>s. s > t - int (windowMs c)) (fail_times ops))"

text \<open>No failure of the history completes a full window.\<close>

fun quiet :: "cb_config \<Rightarrow> breaker_op list \<Rightarrow> breaker_op list \<Rightarrow> bool" where
  "quiet c past [] = True"
| "quiet c past (Op_failure t # xs) =
     (window_count c past t + 1 < failureThreshold c \<and> quiet c (past @ [Op_failure t]) xs)"
| "quiet c past (x # xs) = quiet c (past @ [x]) xs"

text \<open>A closed breaker's list agrees with the history on every window that ends now or later.\<close>

definition window_agrees :: "cb_config \<Rightarrow> breaker_op list \<Rightarrow> instant \<Rightarrow> breaker \<Rightarrow> bool" where
  "window_agrees c past now b =
     (current b = Closed \<and>
      (\<forall>t \<ge> now. filter (\<lambda>s. s > t - int (windowMs c)) (failures b) =
                 filter (\<lambda>s. s > t - int (windowMs c)) (fail_times past)))"

lemma fail_times_append [simp]: "fail_times (xs @ ys) = fail_times xs @ fail_times ys"
  by (induction xs rule: fail_times.induct) auto

lemma filter_window_mono:
  "(s::int) \<le> t \<Longrightarrow> filter (\<lambda>x. x > t - w) (filter (\<lambda>x. x > s - w) xs) = filter (\<lambda>x. x > t - w) xs"
  by (induction xs) auto

lemma prune_failures: "failures (prune c t b) = filter (\<lambda>ts. ts > t - int (windowMs c)) (failures b)"
  by (simp add: prune_def Let_def)

lemma prune_other [simp]:
  "current (prune c t b) = current b" "openedAt (prune c t b) = openedAt b"
  "probeInFlight (prune c t b) = probeInFlight b" "emitted (prune c t b) = emitted b"
  by (simp_all add: prune_def Let_def)

lemma open_circuit_fields [simp]:
  "current (open_circuit t b) = Open" "openedAt (open_circuit t b) = t"
  "failures (open_circuit t b) = []" "probeInFlight (open_circuit t b) = probeInFlight b"
  by (simp_all add: open_circuit_def emit_def Let_def)

lemma recordFailure_closed:
  assumes "current b = Closed"
  shows "current (recordFailure c t b) =
     (if length (filter (\<lambda>s. s > t - int (windowMs c)) (failures b)) + 1 \<ge> failureThreshold c
      then Open else Closed)"
  using assms by (simp add: recordFailure_def Let_def prune_failures)

lemma recordFailure_closed_list:
  assumes "current b = Closed" "current (recordFailure c t b) = Closed"
  shows "failures (recordFailure c t b) = filter (\<lambda>s. s > t - int (windowMs c)) (failures b) @ [t]"
  using assms by (auto simp: recordFailure_def Let_def prune_failures split: if_splits)

lemma window_agrees_step:
  assumes "window_agrees c past now b" and "now \<le> t'" and "op_times [x] = [t'] \<or> x = Op_leave"
    and "quiet c past [x]"
  shows "window_agrees c (past @ [x]) (if x = Op_leave then now else t') (run_op c b x)"
proof (cases x)
  case (Op_failure t)
  with assms have t: "t' = t" by simp
  have cl: "current b = Closed" using assms(1) by (simp add: window_agrees_def)
  have "length (filter (\<lambda>s. s > t - int (windowMs c)) (failures b)) = window_count c past t"
    using assms(1,2) t by (simp add: window_agrees_def window_count_def)
  with assms(4) Op_failure have cl': "current (recordFailure c t b) = Closed"
    by (simp add: recordFailure_closed[OF cl])
  show ?thesis
    using assms(1,2) t Op_failure cl'
    by (auto simp: window_agrees_def recordFailure_closed_list[OF cl cl'] filter_window_mono
        simp del: filter_filter)
next
  case (Op_success t)
  with assms show ?thesis
    by (auto simp: window_agrees_def recordSuccess_def prune_failures filter_window_mono
        simp del: filter_filter)
next
  case (Op_enter t)
  with assms show ?thesis
    by (auto simp: window_agrees_def enter_def transitionIfCooldownElapsed_def)
next
  case Op_leave
  with assms show ?thesis by (auto simp: window_agrees_def leave_def)
next
  case (Op_state t)
  with assms show ?thesis
    by (auto simp: window_agrees_def read_state_def transitionIfCooldownElapsed_def)
qed

lemma window_agrees_run:
  assumes "window_agrees c past now b" and "sorted (now # op_times ops)" and "quiet c past ops"
  shows "window_agrees c (past @ ops) (last (now # op_times ops)) (run_ops c b ops)"
  using assms
proof (induction ops arbitrary: past now b)
  case (Cons x ops)
  have q: "quiet c past [x]" "quiet c (past @ [x]) ops"
    using Cons.prems(3) by (cases x; simp)+
  show ?case
  proof (cases "x = Op_leave")
    case True
    have "window_agrees c (past @ [x]) now (run_op c b x)"
      using window_agrees_step[OF Cons.prems(1) order_refl _ q(1)] True by simp
    from Cons.IH[OF this _ q(2)] Cons.prems(2) True show ?thesis by simp
  next
    case False
    then obtain t where t: "op_times (x # ops) = t # op_times ops" "op_times [x] = [t]"
      by (cases x) auto
    with Cons.prems(2) have "now \<le> t" by simp
    from window_agrees_step[OF Cons.prems(1) this _ q(1)] t False
    have "window_agrees c (past @ [x]) t (run_op c b x)" by simp
    from Cons.IH[OF this _ q(2)] Cons.prems(2) t show ?thesis by simp
  qed
qed simp

lemma window_agrees_new: "window_agrees c [] now new_breaker"
  by (simp add: window_agrees_def new_breaker_def)

text \<open>C29 (sliding window). From a new breaker, after any history of admissions, releases, successes
  and failures with non-decreasing times that never completed a window, the circuit is still
  closed, and one more failure opens it exactly when the failures of the history inside the
  window that ends at it, together with itself, reach the threshold.\<close>

theorem sliding_window_trips:
  assumes "sorted (op_times (ops @ [Op_failure t]))" and "quiet c [] ops"
  shows "current (run_ops c new_breaker ops) = Closed \<and>
    current (run_ops c new_breaker (ops @ [Op_failure t])) =
      (if window_count c ops t + 1 \<ge> failureThreshold c then Open else Closed)"
proof -
  define now where "now = (case op_times ops of [] \<Rightarrow> t | x # _ \<Rightarrow> x)"
  have app: "op_times (ops @ [Op_failure t]) = op_times ops @ [t]"
    by (induction ops rule: op_times.induct) auto
  have srt: "sorted (now # op_times ops)" and le: "last (now # op_times ops) \<le> t"
    using assms(1) by (cases "op_times ops"; auto simp: app now_def sorted_append)+
  from window_agrees_run[OF window_agrees_new srt assms(2)]
  have wa: "window_agrees c ops (last (now # op_times ops)) (run_ops c new_breaker ops)" by simp
  then have "filter (\<lambda>s. s > t - int (windowMs c)) (failures (run_ops c new_breaker ops)) =
    filter (\<lambda>s. s > t - int (windowMs c)) (fail_times ops)"
    and cl: "current (run_ops c new_breaker ops) = Closed"
    using le by (auto simp: window_agrees_def)
  then show ?thesis by (simp add: recordFailure_closed window_count_def)
qed

lemma sliding_window_trips_witness:
  "current (run_ops default_cb_config new_breaker
     ([Op_failure 0, Op_failure 10, Op_success 20, Op_failure 20, Op_failure 29999] @ [Op_failure 29999])) = Open
   \<and> current (run_ops default_cb_config new_breaker
     ([Op_failure 0, Op_failure 10, Op_success 20, Op_failure 20, Op_failure 29999] @ [Op_failure 30000])) = Closed"
  using sliding_window_trips[of "[Op_failure 0, Op_failure 10, Op_success 20, Op_failure 20, Op_failure 29999]"
      29999 default_cb_config]
    sliding_window_trips[of "[Op_failure 0, Op_failure 10, Op_success 20, Op_failure 20, Op_failure 29999]"
      30000 default_cb_config]
  by (simp add: window_count_def default_cb_config_def)


subsection \<open>Fail fast and the half-open probe\<close>

fun is_success :: "breaker_op \<Rightarrow> bool" where
  "is_success (Op_success _) = True"
| "is_success _ = False"

fun is_leave :: "breaker_op \<Rightarrow> bool" where
  "is_leave Op_leave = True"
| "is_leave _ = False"

lemma open_op:
  assumes "current b = Open" and "t0 \<le> openedAt b" and "\<not> is_success x"
    and "\<forall>t \<in> set (op_times [x]). t0 \<le> t \<and> t < t0 + int (cooldownMs c)"
  shows "current (run_op c b x) = Open \<and> t0 \<le> openedAt (run_op c b x)"
  using assms by (cases x) (auto simp: breaker_defs)

lemma op_times_Cons: "set (op_times (x # xs)) = set (op_times [x]) \<union> set (op_times xs)"
  by (cases x) auto

lemma open_run:
  assumes "current b = Open" and "t0 \<le> openedAt b" and "\<forall>x \<in> set ops. \<not> is_success x"
    and "\<forall>t \<in> set (op_times ops). t0 \<le> t \<and> t < t0 + int (cooldownMs c)"
  shows "current (run_ops c b ops) = Open \<and> t0 \<le> openedAt (run_ops c b ops)"
  using assms
proof (induction ops arbitrary: b)
  case (Cons x ops)
  have times: "\<forall>t \<in> set (op_times [x]). t0 \<le> t \<and> t < t0 + int (cooldownMs c)"
    "\<forall>t \<in> set (op_times ops). t0 \<le> t \<and> t < t0 + int (cooldownMs c)"
    using Cons.prems(4) op_times_Cons[of x ops] by auto
  from open_op[OF Cons.prems(1,2) _ times(1)] Cons.prems(3)
  have "current (run_op c b x) = Open" "t0 \<le> openedAt (run_op c b x)" by auto
  from Cons.IH[OF this _ times(2)] Cons.prems(3) show ?case by simp
qed simp

text \<open>Fail fast. Once a failure has opened the circuit at \<open>t0\<close>, every call that asks to enter
  before the cool-down has passed is rejected, whatever admissions, releases and further
  failures happen meanwhile, as long as no success is recorded.\<close>

theorem open_fails_fast:
  assumes "current b = Open" and "openedAt b = t0" and "\<forall>x \<in> set ops. \<not> is_success x"
    and "\<forall>s \<in> set (op_times (ops @ [Op_enter t])). t0 \<le> s \<and> s < t0 + int (cooldownMs c)"
  shows "\<not> fst (enter c t (run_ops c b ops))"
proof -
  have app: "set (op_times (ops @ [Op_enter t])) = insert t (set (op_times ops))"
    by (induction ops rule: op_times.induct) auto
  from open_run[OF assms(1) _ assms(3)] assms(2,4)
  have "current (run_ops c b ops) = Open" "t0 \<le> openedAt (run_ops c b ops)" by (auto simp: app)
  moreover have "t < t0 + int (cooldownMs c)" using assms(4) by (simp add: app)
  ultimately show ?thesis by (simp add: enter_def transitionIfCooldownElapsed_def)
qed

definition opened_at_100 :: breaker where
  "opened_at_100 = new_breaker\<lparr>current := Open, openedAt := 100\<rparr>"

lemma open_fails_fast_witness:
  "\<not> fst (enter default_cb_config 15099 (run_ops default_cb_config opened_at_100
      [Op_enter 100, Op_failure 200, Op_leave, Op_state 300]))"
  using open_fails_fast[of opened_at_100 100 "[Op_enter 100, Op_failure 200, Op_leave, Op_state 300]"
      15099 default_cb_config]
  by (simp add: opened_at_100_def new_breaker_def default_cb_config_def)

lemma probe_op:
  assumes "probeInFlight b" and "current b \<noteq> Closed" and "\<not> is_success x" and "\<not> is_leave x"
  shows "probeInFlight (run_op c b x) \<and> current (run_op c b x) \<noteq> Closed"
  using assms by (cases x) (auto simp: breaker_defs split: circuit_state.splits)

lemma probe_run:
  assumes "probeInFlight b" and "current b \<noteq> Closed"
    and "\<forall>x \<in> set ops. \<not> is_success x \<and> \<not> is_leave x"
  shows "probeInFlight (run_ops c b ops) \<and> current (run_ops c b ops) \<noteq> Closed"
  using assms by (induction ops arbitrary: b) (auto simp: probe_op)

lemma enter_blocked:
  assumes "probeInFlight b" and "current b \<noteq> Closed"
  shows "\<not> fst (enter c t b)"
  using assms
  by (cases "current b") (auto simp: enter_def transitionIfCooldownElapsed_def emit_def)

text \<open>One probe. A half-open circuit admits one call; from then on, until some call leaves or
  records a success, every other call is rejected, however long the probe takes.\<close>

theorem half_open_single_probe:
  assumes "fst (enter c t b)" and "current (snd (enter c t b)) = Half_Open"
    and "\<forall>x \<in> set ops. \<not> is_success x \<and> \<not> is_leave x"
  shows "\<not> fst (enter c t' (run_ops c (snd (enter c t b)) ops))"
proof -
  have "probeInFlight (snd (enter c t b))"
    using assms(1,2) by (auto simp: enter_def Let_def split: circuit_state.splits if_splits)
  from probe_run[OF this _ assms(3)] assms(2) show ?thesis by (simp add: enter_blocked)
qed

lemma half_open_single_probe_witness:
  "\<not> fst (enter default_cb_config 90000
     (run_ops default_cb_config (snd (enter default_cb_config 15100 opened_at_100))
       [Op_enter 15101, Op_failure 16000, Op_state 40000]))"
proof (rule half_open_single_probe)
  show "fst (enter default_cb_config 15100 opened_at_100)"
    "current (snd (enter default_cb_config 15100 opened_at_100)) = Half_Open"
    by (simp_all add: opened_at_100_def new_breaker_def default_cb_config_def enter_def
        transitionIfCooldownElapsed_def emit_def)
qed simp


subsection \<open>Concurrent calls over one breaker\<close>

text \<open>
  Calls of \<^verbatim>\<open>InternalHttpPolicy.execute\<close> on one circuit run interleaved: a call is admitted by
  \<^const>\<open>enter\<close>, and when its upstream answers it records an outcome and leaves, in one step. The
  state keeps, per call in flight, whether it was admitted as the half-open probe.
\<close>

record cb_system =
  circuit :: breaker
  in_flight :: "nat \<rightharpoonup> bool"

definition finish_call :: "cb_config \<Rightarrow> instant \<Rightarrow> bool \<Rightarrow> breaker \<Rightarrow> breaker" where
  "finish_call c t ok b = leave (if ok then recordSuccess c t b else recordFailure c t b)"

inductive cb_step :: "cb_config \<Rightarrow> cb_system \<Rightarrow> cb_system \<Rightarrow> bool" for c where
  begin_call: "\<lbrakk>in_flight s i = None; enter c t (circuit s) = (True, b)\<rbrakk> \<Longrightarrow>
     cb_step c s \<lparr>circuit = b, in_flight = (in_flight s)(i \<mapsto> current b = Half_Open)\<rparr>"
| reject_call: "enter c t (circuit s) = (False, b) \<Longrightarrow> cb_step c s (s\<lparr>circuit := b\<rparr>)"
| end_call: "in_flight s i = Some p \<Longrightarrow>
     cb_step c s \<lparr>circuit = finish_call c t ok (circuit s), in_flight = (in_flight s)(i := None)\<rparr>"

inductive cb_reachable :: "cb_config \<Rightarrow> cb_system \<Rightarrow> bool" for c where
  cb_start: "cb_reachable c \<lparr>circuit = new_breaker, in_flight = Map.empty\<rparr>"
| cb_next: "\<lbrakk>cb_reachable c s; cb_step c s s'\<rbrakk> \<Longrightarrow> cb_reachable c s'"

text \<open>A step that is not the end of a call admitted while the circuit was closed, taken while a
  probe is still out (a straggler).\<close>

definition probes :: "cb_system \<Rightarrow> nat set" where
  "probes s = {i. in_flight s i = Some True}"

inductive cb_calm :: "cb_config \<Rightarrow> cb_system \<Rightarrow> bool" for c where
  calm_start: "cb_calm c \<lparr>circuit = new_breaker, in_flight = Map.empty\<rparr>"
| calm_next: "\<lbrakk>cb_calm c s; cb_step c s s';
     \<forall>i. in_flight s i = Some False \<and> in_flight s' i = None \<longrightarrow> probes s = {}\<rbrakk> \<Longrightarrow> cb_calm c s'"

definition one_probe_inv :: "cb_system \<Rightarrow> bool" where
  "one_probe_inv s =
     (if probeInFlight (circuit s) then (\<exists>i. probes s \<subseteq> {i}) else probes s = {})"

lemma enter_admits:
  assumes "enter c t b = (True, b')"
  shows "current b' = Closed \<and> probeInFlight b' = probeInFlight b \<or>
    current b' = Half_Open \<and> probeInFlight b' \<and> \<not> probeInFlight b"
  using assms
  by (cases "current (transitionIfCooldownElapsed c t b)")
    (auto simp: enter_def transitionIfCooldownElapsed_def emit_def Let_def split: if_splits)

lemma enter_rejects: "enter c t b = (False, b') \<Longrightarrow> probeInFlight b' = probeInFlight b"
  by (cases "current (transitionIfCooldownElapsed c t b)")
    (auto simp: enter_def transitionIfCooldownElapsed_def emit_def Let_def split: if_splits)

lemma finish_clears [simp]: "\<not> probeInFlight (finish_call c t ok b)"
  by (simp add: finish_call_def leave_def)

lemma one_probe_step:
  assumes "cb_step c s s'" and "one_probe_inv s"
    and "\<forall>i. in_flight s i = Some False \<and> in_flight s' i = None \<longrightarrow> probes s = {}"
  shows "one_probe_inv s'"
  using assms(1)
proof (cases rule: cb_step.cases)
  case (begin_call i t b)
  note bc = begin_call
  from enter_admits[OF bc(3)] show ?thesis
  proof
    assume h: "current b = Closed \<and> probeInFlight b = probeInFlight (circuit s)"
    then have "probes s' = probes s" using bc by (auto simp: probes_def)
    then show ?thesis using assms(2) bc h by (simp add: one_probe_inv_def)
  next
    assume h: "current b = Half_Open \<and> probeInFlight b \<and> \<not> probeInFlight (circuit s)"
    then have "probes s = {}" using assms(2) by (simp add: one_probe_inv_def)
    then have "probes s' \<subseteq> {i}" using bc h by (auto simp: probes_def)
    then show ?thesis using bc h by (auto simp: one_probe_inv_def)
  qed
next
  case (reject_call t b)
  then have "probes s' = probes s" by (simp add: probes_def)
  then show ?thesis using assms(2) reject_call enter_rejects[OF reject_call(2)]
    by (simp add: one_probe_inv_def)
next
  case (end_call i p t ok)
  have "probes s' = probes s - {i}" using end_call by (auto simp: probes_def)
  moreover have "probes s \<subseteq> {i}"
  proof (cases p)
    case True
    then have "i \<in> probes s" using end_call by (simp add: probes_def)
    then show ?thesis using assms(2) by (auto simp: one_probe_inv_def split: if_splits)
  next
    case False
    then show ?thesis using assms(3) end_call by auto
  qed
  ultimately show ?thesis using end_call by (auto simp: one_probe_inv_def)
qed

text \<open>C28 (probe exclusion). In every interleaving in which no call admitted before the circuit
  opened finishes while a probe is out, at most one half-open probe is in flight.\<close>

theorem at_most_one_probe:
  assumes "cb_calm c s" and "in_flight s i = Some True" and "in_flight s j = Some True"
  shows "i = j"
proof -
  from assms(1) have "one_probe_inv s"
  proof induction
    case calm_start
    show ?case by (simp add: one_probe_inv_def probes_def new_breaker_def)
  next
    case (calm_next s s')
    then show ?case by (blast intro: one_probe_step)
  qed
  moreover have "i \<in> probes s" "j \<in> probes s" using assms(2,3) by (simp_all add: probes_def)
  ultimately show ?thesis by (auto simp: one_probe_inv_def split: if_splits)
qed

text \<open>An executable run of the call system.\<close>

datatype call_act = Begin nat instant | Finish nat instant bool

fun run_call :: "cb_config \<Rightarrow> cb_system \<Rightarrow> call_act \<Rightarrow> cb_system option" where
  "run_call c s (Begin i t) =
     (case in_flight s i of
        Some _ \<Rightarrow> None
      | None \<Rightarrow>
          (case enter c t (circuit s) of
             (True, b) \<Rightarrow> Some \<lparr>circuit = b, in_flight = (in_flight s)(i \<mapsto> current b = Half_Open)\<rparr>
           | (False, b) \<Rightarrow> Some (s\<lparr>circuit := b\<rparr>)))"
| "run_call c s (Finish i t ok) =
     (case in_flight s i of
        None \<Rightarrow> None
      | Some p \<Rightarrow> Some \<lparr>circuit = finish_call c t ok (circuit s), in_flight = (in_flight s)(i := None)\<rparr>)"

fun run_calls :: "cb_config \<Rightarrow> cb_system \<Rightarrow> call_act list \<Rightarrow> cb_system option" where
  "run_calls c s [] = Some s"
| "run_calls c s (a # as) = (case run_call c s a of None \<Rightarrow> None | Some s' \<Rightarrow> run_calls c s' as)"

definition cb_init :: cb_system where
  "cb_init = \<lparr>circuit = new_breaker, in_flight = Map.empty\<rparr>"

lemma run_call_step: "run_call c s a = Some s' \<Longrightarrow> cb_step c s s'"
  by (cases a) (auto split: option.splits prod.splits bool.splits intro: cb_step.intros)

lemma run_calls_reachable: "\<lbrakk>cb_reachable c s; run_calls c s as = Some s'\<rbrakk> \<Longrightarrow> cb_reachable c s'"
  by (induction as arbitrary: s) (auto split: option.splits intro: cb_next dest: run_call_step)

lemma init_reachable: "cb_reachable c cb_init"
  by (simp add: cb_init_def cb_start)

text \<open>A call admitted at time 0 outlives the opening of the circuit.\<close>

definition straggler_prefix :: "call_act list" where
  "straggler_prefix =
     [Begin 0 0, Begin 1 0, Begin 2 0, Begin 3 0, Begin 4 0, Begin 5 0,
      Finish 1 0 False, Finish 2 0 False, Finish 3 0 False, Finish 4 0 False, Finish 5 0 False]"

definition after_straggler_prefix :: cb_system where
  "after_straggler_prefix =
     \<lparr>circuit = \<lparr>current = Open, failures = [], openedAt = 0, probeInFlight = False,
                emitted = [Ev_open]\<rparr>,
      in_flight = [0 \<mapsto> False]\<rparr>"

lemma run_straggler_prefix:
  "run_calls default_cb_config cb_init straggler_prefix = Some after_straggler_prefix"
  by (simp add: straggler_prefix_def after_straggler_prefix_def cb_init_def new_breaker_def
      default_cb_config_def enter_def transitionIfCooldownElapsed_def finish_call_def
      recordFailure_def prune_def open_circuit_def leave_def emit_def fun_eq_iff)

text \<open>
  Stragglers. With the default knobs, a call admitted while the circuit was closed and still
  in flight when it opened breaks both promises of the breaker: its failure releases the probe
  slot of another call, so two half-open probes are in flight at once; and its success closes an
  open circuit in the middle of the cool-down, with no probe.\<close>

theorem stragglers_break_the_breaker:
  "(\<exists>s. cb_reachable default_cb_config s \<and>
        in_flight s 6 = Some True \<and> in_flight s 7 = Some True) \<and>
   (\<exists>s. cb_reachable default_cb_config s \<and> current (circuit s) = Open \<and> openedAt (circuit s) = 0 \<and>
        in_flight s 0 = Some False \<and>
        current (finish_call default_cb_config 1 True (circuit s)) = Closed)"
proof -
  have r: "cb_reachable default_cb_config after_straggler_prefix"
    by (rule run_calls_reachable[OF init_reachable run_straggler_prefix])
  define s6 where "s6 = the (run_call default_cb_config after_straggler_prefix (Begin 6 15000))"
  have e6: "run_call default_cb_config after_straggler_prefix (Begin 6 15000) = Some s6"
    and f6: "in_flight s6 = [0 \<mapsto> False, 6 \<mapsto> True]" "current (circuit s6) = Half_Open"
    by (simp_all add: s6_def after_straggler_prefix_def default_cb_config_def enter_def
        transitionIfCooldownElapsed_def emit_def)
  define s0 where "s0 = the (run_call default_cb_config s6 (Finish 0 15001 False))"
  have e0: "run_call default_cb_config s6 (Finish 0 15001 False) = Some s0"
    and f0: "in_flight s0 = [6 \<mapsto> True]" "current (circuit s0) = Open" "openedAt (circuit s0) = 15001"
    by (simp_all add: s0_def f6 finish_call_def recordFailure_def leave_def fun_eq_iff)
  have p0: "\<not> probeInFlight (circuit s0)" using e0 f6 by (auto simp: f6)
  define s7 where "s7 = the (run_call default_cb_config s0 (Begin 7 30001))"
  have e7: "run_call default_cb_config s0 (Begin 7 30001) = Some s7"
    and f7: "in_flight s7 6 = Some True" "in_flight s7 7 = Some True"
    using p0 by (simp_all add: s7_def f0 default_cb_config_def enter_def
        transitionIfCooldownElapsed_def emit_def)
  have "run_calls default_cb_config after_straggler_prefix
      [Begin 6 15000, Finish 0 15001 False, Begin 7 30001] = Some s7"
    by (simp only: run_calls.simps e6 e0 e7 option.simps)
  from run_calls_reachable[OF r this] f7
  have "\<exists>s. cb_reachable default_cb_config s \<and> in_flight s 6 = Some True \<and> in_flight s 7 = Some True"
    by blast
  moreover have "current (circuit after_straggler_prefix) = Open"
    "openedAt (circuit after_straggler_prefix) = 0" "in_flight after_straggler_prefix 0 = Some False"
    "current (finish_call default_cb_config 1 True (circuit after_straggler_prefix)) = Closed"
    by (simp_all add: after_straggler_prefix_def finish_call_def recordSuccess_def leave_def emit_def)
  ultimately show ?thesis using r by blast
qed

definition touchy_config :: cb_config where
  "touchy_config = default_cb_config\<lparr>failureThreshold := 1\<rparr>"

lemma calm_run:
  assumes "cb_calm c s" and "run_call c s a = Some s'"
    and "\<forall>i. in_flight s i = Some False \<and> in_flight s' i = None \<longrightarrow> probes s = {}"
  shows "cb_calm c s'"
  by (rule calm_next[OF assms(1) run_call_step[OF assms(2)] assms(3)])

lemma at_most_one_probe_witness:
  "\<exists>s. cb_calm touchy_config s \<and> in_flight s 2 = Some True \<and> (\<forall>j. in_flight s j = Some True \<longrightarrow> 2 = j)"
proof -
  define s1 where "s1 = the (run_call touchy_config cb_init (Begin 1 0))"
  define s2 where "s2 = the (run_call touchy_config s1 (Finish 1 0 False))"
  define s3 where "s3 = the (run_call touchy_config s2 (Begin 2 15000))"
  have c0: "cb_calm touchy_config cb_init" by (simp add: cb_init_def calm_start)
  have e1: "run_call touchy_config cb_init (Begin 1 0) = Some s1"
    and f1: "in_flight s1 = [1 \<mapsto> False]" "circuit s1 = new_breaker"
    by (simp_all add: s1_def cb_init_def new_breaker_def enter_def transitionIfCooldownElapsed_def)
  have c1: "cb_calm touchy_config s1"
    by (rule calm_run[OF c0 e1]) (simp add: cb_init_def probes_def)
  have e2: "run_call touchy_config s1 (Finish 1 0 False) = Some s2"
    and f2: "in_flight s2 = Map.empty" "current (circuit s2) = Open" "openedAt (circuit s2) = 0"
      "\<not> probeInFlight (circuit s2)"
    by (simp_all add: s2_def f1 new_breaker_def touchy_config_def default_cb_config_def
        recordFailure_def prune_def finish_call_def leave_def fun_eq_iff)
  have c2: "cb_calm touchy_config s2"
    by (rule calm_run[OF c1 e2]) (simp add: f1 probes_def)
  have e3: "run_call touchy_config s2 (Begin 2 15000) = Some s3"
    and f3: "in_flight s3 2 = Some True"
    using f2 by (simp_all add: s3_def touchy_config_def default_cb_config_def enter_def
        transitionIfCooldownElapsed_def emit_def)
  have c3: "cb_calm touchy_config s3"
    by (rule calm_run[OF c2 e3]) (simp add: f2)
  show ?thesis using c3 f3 at_most_one_probe[OF c3 f3] by blast
qed

section \<open>Retry classification and back-off (retry.ts)\<close>

text \<open>
  A thrown value, as far as the classifiers look at it. \<^verbatim>\<open>e_type_error\<close> is
  \<^verbatim>\<open>err instanceof TypeError\<close>; \<^term>\<open>None\<close> is a property that is not there.
\<close>

datatype js_err =
    Not_object
  | Err_obj (e_type_error: bool) (e_name: "string option") (e_code: "string option")
      (e_message: "string option") (e_cause: "js_err option")

definition isRetryableHttpStatus :: "nat \<Rightarrow> bool" where
  "isRetryableHttpStatus st = (st \<in> {502, 503, 504})"

fun isTimeoutError :: "js_err \<Rightarrow> bool" where
  "isTimeoutError Not_object = False"
| "isTimeoutError (Err_obj te nm cd msg cause) =
     (let name = (case nm of None \<Rightarrow> [] | Some x \<Rightarrow> x);
          code = (case cd of None \<Rightarrow> [] | Some x \<Rightarrow> x) in
      if name = ''TimeoutError'' \<or> name = ''AbortError'' then True
      else if code = ''ABORT_ERR'' \<or> code = ''UND_ERR_CONNECT_TIMEOUT'' then True
      else (case cause of None \<Rightarrow> False | Some e \<Rightarrow> isTimeoutError e))"

definition network_words :: "string list" where
  "network_words = [''fetch'', ''network'', ''econnrefused'', ''enotfound'', ''econnreset'',
     ''etimedout'', ''eai_again'']"

definition network_codes :: "string list" where
  "network_codes = [''ECONNREFUSED'', ''ENOTFOUND'', ''ECONNRESET'', ''ETIMEDOUT'', ''EAI_AGAIN'']"

text \<open>The case-insensitive alternation on the message.\<close>

definition network_message :: "string option \<Rightarrow> bool" where
  "network_message msg =
     (let m = js_lower (case msg of None \<Rightarrow> [] | Some x \<Rightarrow> x)
      in list_ex (\<lambda>w. has_infix w m) network_words)"

fun isRetryableError :: "js_err \<Rightarrow> bool" where
  "isRetryableError Not_object = False"
| "isRetryableError (Err_obj te nm cd msg cause) =
     (if isTimeoutError (Err_obj te nm cd msg cause) then True
      else if te \<and> network_message msg then True
      else
        (case cause of
           None \<Rightarrow> False
         | Some e \<Rightarrow>
             (case e of
                Err_obj _ _ (Some code) _ _ \<Rightarrow> code \<in> set network_codes
              | _ \<Rightarrow> False) \<or> isRetryableError e))"

text \<open>\<^verbatim>\<open>retryDelayMs\<close>; \<open>random\<close> is what \<^verbatim>\<open>Math.random()\<close> returned, in \<open>[0, 1)\<close>.\<close>

definition retryDelayMs :: "nat \<Rightarrow> nat \<Rightarrow> rat \<Rightarrow> nat" where
  "retryDelayMs attempt base random =
     (let cap = base * 2 ^ (attempt - 1) in nat (floor (random * of_nat (cap + 1))))"

lemma retryDelayMs_le:
  assumes "0 \<le> r" and "r < 1"
  shows "retryDelayMs k base r \<le> base * 2 ^ (k - 1)"
proof -
  let ?n = "base * 2 ^ (k - 1) + 1"
  have "(0 :: rat) < of_nat ?n" by (simp only: of_nat_0_less_iff)
  then have "r * of_nat ?n < 1 * of_nat ?n" by (rule mult_strict_right_mono[OF assms(2)])
  then have "r * of_nat ?n < of_nat ?n" by (simp only: mult_1)
  then have "floor (r * of_nat ?n) < int ?n"
    by (simp only: floor_less_iff of_int_of_nat_eq)
  then show ?thesis by (simp add: retryDelayMs_def Let_def nat_le_iff)
qed


section \<open>The HTTP policy (http-policy.ts)\<close>

text \<open>What one call of \<^verbatim>\<open>attempt\<close> gives: a response with its status, or a rejection.\<close>

datatype attempt_result = Response nat | Failure js_err

datatype exec_result = Returned nat | Threw js_err | Threw_exhausted | Threw_circuit_open

definition res_ok :: "nat \<Rightarrow> bool" where
  "res_ok st = (200 \<le> st \<and> st \<le> 299)"

text \<open>\<^verbatim>\<open>recordHttpOutcome\<close>: \<^term>\<open>True\<close> is \<^verbatim>\<open>recordSuccess\<close>.\<close>

definition recordHttpOutcome :: "nat \<Rightarrow> bool" where
  "recordHttpOutcome st = (\<not> st \<ge> 500)"

text \<open>
  The loop of \<^verbatim>\<open>execute\<close>, from attempt \<open>i\<close>: the result, whether the circuit records a success,
  the positive delays slept, and the number of the last attempt made. \<open>att k\<close> and \<open>rnd k\<close> are what
  the \<open>k\<close>-th attempt and the \<open>k\<close>-th draw give.
\<close>

function http_loop :: "nat \<Rightarrow> nat \<Rightarrow> (nat \<Rightarrow> attempt_result) \<Rightarrow> (nat \<Rightarrow> rat) \<Rightarrow> js_err option \<Rightarrow> nat \<Rightarrow>
    exec_result \<times> bool \<times> nat list \<times> nat" where
  "http_loop base budget att rnd lastError i =
     (if i > budget
      then ((case lastError of Some e \<Rightarrow> Threw e | None \<Rightarrow> Threw_exhausted), False, [], i - 1)
      else
        (let delay = retryDelayMs i base (rnd i);
             continue = (\<lambda>le.
               case http_loop base budget att rnd le (Suc i) of
                 (r, ok, sl, n) \<Rightarrow> (r, ok, (if delay > 0 then delay # sl else sl), n))
         in case att i of
              Response st \<Rightarrow>
                (if res_ok st \<or> \<not> isRetryableHttpStatus st then (Returned st, recordHttpOutcome st, [], i)
                 else if i = budget then (Returned st, False, [], i)
                 else continue lastError)
            | Failure err \<Rightarrow>
                (if \<not> isRetryableError err \<or> i = budget then (Threw err, False, [], i)
                 else continue (Some err))))"
  by pat_completeness auto
termination
  by (relation "measure (\<lambda>(base, budget, att, rnd, le, i). Suc budget - i)") auto

declare http_loop.simps [simp del]

text \<open>
  One call of \<^verbatim>\<open>execute\<close> that starts at \<open>t0\<close> and whose outcome is recorded at \<open>t1\<close>, with no other
  call in between; interleavings are the steps of \<^const>\<open>cb_step\<close>.
\<close>

definition exec_budget :: "cb_config \<Rightarrow> circuit_state \<Rightarrow> nat" where
  "exec_budget c st = (if st = Half_Open then 1 else maxAttempts c)"

definition execute :: "cb_config \<Rightarrow> instant \<Rightarrow> instant \<Rightarrow> (nat \<Rightarrow> attempt_result) \<Rightarrow> (nat \<Rightarrow> rat) \<Rightarrow>
    breaker \<Rightarrow> (exec_result \<times> nat list \<times> nat) \<times> breaker" where
  "execute c t0 t1 att rnd b =
     (case enter c t0 b of
        (False, b1) \<Rightarrow> ((Threw_circuit_open, [], 0), b1)
      | (True, b1) \<Rightarrow>
          (case read_state c t0 b1 of
             (st, b2) \<Rightarrow>
               (case http_loop (baseDelayMs c) (exec_budget c st) att rnd None 1 of
                  (r, ok, sleeps, n) \<Rightarrow> ((r, sleeps, n), finish_call c t1 ok b2))))"

fun retryable :: "attempt_result \<Rightarrow> bool" where
  "retryable (Response st) = isRetryableHttpStatus st"
| "retryable (Failure e) = isRetryableError e"

fun as_result :: "attempt_result \<Rightarrow> exec_result" where
  "as_result (Response st) = Returned st"
| "as_result (Failure e) = Threw e"

fun counts_as_success :: "attempt_result \<Rightarrow> bool" where
  "counts_as_success (Response st) = (st < 500)"
| "counts_as_success (Failure e) = False"

lemma retryable_status: "isRetryableHttpStatus st \<Longrightarrow> \<not> res_ok st \<and> 500 \<le> st"
  by (auto simp: isRetryableHttpStatus_def res_ok_def)

lemma http_loop_last:
  assumes "i \<le> budget" and "\<not> retryable (att i) \<or> i = budget"
  shows "http_loop base budget att rnd le i = (as_result (att i), counts_as_success (att i), [], i)"
  using assms
  by (cases "att i")
    (auto simp: http_loop.simps[of base budget att rnd le i] recordHttpOutcome_def Let_def not_le
      dest: retryable_status)

lemma http_loop_next:
  assumes "i < budget" and "retryable (att i)"
  shows "\<exists>le'. http_loop base budget att rnd le i =
    (case http_loop base budget att rnd le' (Suc i) of
       (r, ok, sl, n) \<Rightarrow> (r, ok, (if retryDelayMs i base (rnd i) > 0
          then retryDelayMs i base (rnd i) # sl else sl), n))"
  using assms retryable_status
  by (cases "att i") (auto simp: http_loop.simps[of base budget att rnd le i] Let_def)

text \<open>The number of the attempt at which the loop stops: the first that is not retryable, or the
  budget.\<close>

lemma http_loop_char:
  assumes "i \<le> budget"
  shows "\<exists>n sl. http_loop base budget att rnd le i = (as_result (att n), counts_as_success (att n), sl, n)
    \<and> i \<le> n \<and> n \<le> budget \<and> (\<forall>k. i \<le> k \<and> k < n \<longrightarrow> retryable (att k))
    \<and> (n < budget \<longrightarrow> \<not> retryable (att n))
    \<and> sum_list sl = (\<Sum>k = i..<n. retryDelayMs k base (rnd k))"
  using assms
proof (induction "budget - i" arbitrary: i le)
  case 0
  then have "i = budget" by simp
  then show ?case using http_loop_last[of i budget att base rnd le] by auto
next
  case (Suc m)
  show ?case
  proof (cases "retryable (att i)")
    case False
    then show ?thesis using http_loop_last[OF Suc.prems, of att base rnd le] Suc.prems by auto
  next
    case True
    have lt: "i < budget" using Suc.hyps(2) by simp
    obtain le' where le': "http_loop base budget att rnd le i =
      (case http_loop base budget att rnd le' (Suc i) of
         (r, ok, sl, n) \<Rightarrow> (r, ok, (if retryDelayMs i base (rnd i) > 0
            then retryDelayMs i base (rnd i) # sl else sl), n))"
      using http_loop_next[where i = i and budget = budget and att = att and base = base
          and rnd = rnd and le = le, OF lt True] by blast
    have "m = budget - Suc i" "Suc i \<le> budget" using Suc.hyps(2) lt by simp_all
    from Suc.hyps(1)[OF this] obtain n sl where
      ih: "http_loop base budget att rnd le' (Suc i) = (as_result (att n), counts_as_success (att n), sl, n)"
        "Suc i \<le> n" "n \<le> budget" "\<forall>k. Suc i \<le> k \<and> k < n \<longrightarrow> retryable (att k)"
        "n < budget \<longrightarrow> \<not> retryable (att n)"
        "sum_list sl = (\<Sum>k = Suc i..<n. retryDelayMs k base (rnd k))"
      by blast
    define sl' where "sl' = (if retryDelayMs i base (rnd i) > 0 then retryDelayMs i base (rnd i) # sl else sl)"
    have "http_loop base budget att rnd le i = (as_result (att n), counts_as_success (att n), sl', n)"
      using le' ih(1) by (simp add: sl'_def)
    moreover have "sum_list sl' = (\<Sum>k = i..<n. retryDelayMs k base (rnd k))"
      using ih(2,6) by (simp add: sl'_def sum.atLeast_Suc_lessThan)
    moreover have "\<forall>k. i \<le> k \<and> k < n \<longrightarrow> retryable (att k)"
      using ih(4) True by (metis le_antisym not_less_eq_eq)
    ultimately show ?thesis using ih(2,3,5) by (metis Suc_leD)
  qed
qed

lemma delay_sum:
  assumes "\<forall>k. 0 \<le> rnd k \<and> rnd k < 1"
  shows "(\<Sum>k = 1..<Suc n. retryDelayMs k base (rnd k)) \<le> base * (2 ^ n - 1)"
proof (induction n)
  case (Suc n)
  have "(\<Sum>k = 1..<Suc (Suc n). retryDelayMs k base (rnd k)) =
      (\<Sum>k = 1..<Suc n. retryDelayMs k base (rnd k)) + retryDelayMs (Suc n) base (rnd (Suc n))"
    by simp
  also have "\<dots> \<le> base * (2 ^ n - 1) + base * 2 ^ n"
    using Suc retryDelayMs_le[of "rnd (Suc n)" "Suc n" base] assms by (intro add_mono) auto
  also have "\<dots> = base * (2 ^ Suc n - 1)"
    by (simp add: distrib_left[symmetric] mult_2)
  finally show ?case .
qed simp

text \<open>
  Retry budget. An admitted call makes at least one attempt and at most its budget
  (\<^verbatim>\<open>maxAttempts\<close>, one when half-open); every attempt but the last had a retryable outcome, the
  call stops at the first outcome that is not retryable, returns or throws exactly the last
  attempt's outcome, and sleeps in total at most \<open>base * (2 ^ (n - 1) - 1)\<close>.\<close>

theorem execute_retry_budget:
  assumes "enter c t0 b = (True, b1)" and "1 \<le> maxAttempts c" and "\<forall>k. 0 \<le> rnd k \<and> rnd k < 1"
    and "execute c t0 t1 att rnd b = ((r, sleeps, n), b')"
  shows "1 \<le> n \<and> n \<le> exec_budget c (fst (read_state c t0 b1)) \<and>
    (\<forall>k. 1 \<le> k \<and> k < n \<longrightarrow> retryable (att k)) \<and>
    (n < exec_budget c (fst (read_state c t0 b1)) \<longrightarrow> \<not> retryable (att n)) \<and>
    r = as_result (att n) \<and>
    b' = finish_call c t1 (counts_as_success (att n)) (snd (read_state c t0 b1)) \<and>
    sum_list sleeps \<le> baseDelayMs c * (2 ^ (n - 1) - 1)"
proof -
  let ?budget = "exec_budget c (fst (read_state c t0 b1))"
  have "1 \<le> ?budget" using assms(2) by (simp add: exec_budget_def)
  from http_loop_char[OF this, of "baseDelayMs c" att rnd None] obtain m sl where
    m: "http_loop (baseDelayMs c) ?budget att rnd None 1 = (as_result (att m), counts_as_success (att m), sl, m)"
      "1 \<le> m" "m \<le> ?budget" "\<forall>k. 1 \<le> k \<and> k < m \<longrightarrow> retryable (att k)"
      "m < ?budget \<longrightarrow> \<not> retryable (att m)"
      "sum_list sl = (\<Sum>k = 1..<m. retryDelayMs k (baseDelayMs c) (rnd k))"
    by blast
  have "(\<Sum>k = 1..<m. retryDelayMs k (baseDelayMs c) (rnd k)) \<le> baseDelayMs c * (2 ^ (m - 1) - 1)"
    using delay_sum[OF assms(3), where n = "m - 1" and base = "baseDelayMs c"] m(2) by simp
  then show ?thesis using m assms(1,4) by (auto simp: execute_def split: prod.splits)
qed

definition flaky :: "nat \<Rightarrow> attempt_result" where
  "flaky k = (if k = 1 then Response 503
     else if k = 2 then Failure (Err_obj False (Some ''TimeoutError'') None None None)
     else Response 200)"

lemma execute_retry_budget_witness:
  "\<exists>r sleeps n b'. execute default_cb_config 0 5 flaky (\<lambda>_. 0) new_breaker = ((r, sleeps, n), b') \<and>
     n = 3 \<and> r = Returned 200 \<and> sum_list sleeps \<le> 300"
proof -
  obtain r sleeps n b' where
    e: "execute default_cb_config 0 5 flaky (\<lambda>_. 0) new_breaker = ((r, sleeps, n), b')"
    by (metis prod_cases3 surj_pair)
  have en: "enter default_cb_config 0 new_breaker = (True, new_breaker)"
    by (simp add: enter_def transitionIfCooldownElapsed_def new_breaker_def)
  have bu: "exec_budget default_cb_config (fst (read_state default_cb_config 0 new_breaker)) = 3"
    by (simp add: exec_budget_def read_state_def transitionIfCooldownElapsed_def new_breaker_def
        default_cb_config_def)
  have kn: "baseDelayMs default_cb_config = 100" "1 \<le> maxAttempts default_cb_config"
    by (simp_all add: default_cb_config_def)
  from execute_retry_budget[OF en kn(2) _ e] have
    x: "1 \<le> n" "n \<le> 3" "n < 3 \<longrightarrow> \<not> retryable (flaky n)" "r = as_result (flaky n)"
      "sum_list sleeps \<le> 100 * (2 ^ (n - 1) - 1)"
    by (simp_all add: bu kn)
  have "retryable (flaky 1)" "retryable (flaky 2)"
    by (simp_all add: flaky_def isRetryableHttpStatus_def)
  with x(1-3) have n: "n = 3" by (metis One_nat_def Suc_1 le_SucE le_antisym less_Suc_eq_le numeral_3_eq_3)
  show ?thesis using e x(4,5) by (auto simp: n flaky_def)
qed

end
