(* ===== verification/Coordination.thy ===== *)
theory Coordination
imports Prelude
begin

text \<open>
  Leader leases and the gateway rate limit: the store interface and its in-process implementation
  (\<^verbatim>\<open>libs/coordination/src/lease-store.ts\<close>), the lease client (\<^verbatim>\<open>leader-lease.ts\<close>), the
  token-bucket store (\<^verbatim>\<open>rate-limit-store.ts\<close>) and the gateway middleware that consumes it
  (\<^verbatim>\<open>apps/api-gateway/src/rate-limit.middleware.ts\<close>).

  A store operation returns \<^term>\<open>None\<close> when it throws. The client is written against a record of
  operations, as the source is against the interface \<^verbatim>\<open>LeaseStore\<close>; the laws a store promises
  are the locale \<open>lease_store\<close>, where mutual exclusion is proved once.
\<close>


section \<open>Keys (keys.ts)\<close>

definition SCAN_SCHEDULE_LEASE_KEY :: string where
  "SCAN_SCHEDULE_LEASE_KEY = ''ctem:leader:scan-schedule''"

definition DISCOVERY_SCHEDULE_LEASE_KEY :: string where
  "DISCOVERY_SCHEDULE_LEASE_KEY = ''ctem:leader:discovery-schedule''"

definition GATEWAY_RATE_LIMIT_KEY_PREFIX :: string where
  "GATEWAY_RATE_LIMIT_KEY_PREFIX = ''ctem:ratelimit:gw:''"

definition gatewayRateLimitRedisKey :: "string \<Rightarrow> string" where
  "gatewayRateLimitRedisKey ip = GATEWAY_RATE_LIMIT_KEY_PREFIX @ ip"

definition DEFAULT_LEASE_TTL_MS :: nat where
  "DEFAULT_LEASE_TTL_MS = 15000"


section \<open>The lease store (lease-store.ts)\<close>

record 's lease_ops =
  op_setNxPx :: "instant \<Rightarrow> string \<Rightarrow> string \<Rightarrow> nat \<Rightarrow> 's \<Rightarrow> bool option \<times> 's"
  op_get :: "instant \<Rightarrow> string \<Rightarrow> 's \<Rightarrow> string option option \<times> 's"
  op_expireIfValue :: "instant \<Rightarrow> string \<Rightarrow> string \<Rightarrow> nat \<Rightarrow> 's \<Rightarrow> bool option \<times> 's"
  op_delIfValue :: "instant \<Rightarrow> string \<Rightarrow> string \<Rightarrow> 's \<Rightarrow> bool option \<times> 's"

definition unavailable_lease_store :: "'s lease_ops" where
  "unavailable_lease_store =
     \<lparr>op_setNxPx = (\<lambda>_ _ _ _ s. (None, s)), op_get = (\<lambda>_ _ s. (None, s)),
      op_expireIfValue = (\<lambda>_ _ _ _ s. (None, s)), op_delIfValue = (\<lambda>_ _ _ s. (None, s))\<rparr>"

text \<open>The map of \<^verbatim>\<open>MemoryLeaseStore\<close>: value and expiry per key.\<close>

type_synonym lease_map = "string \<rightharpoonup> string \<times> instant"

definition lease_purge :: "instant \<Rightarrow> string \<Rightarrow> lease_map \<Rightarrow> lease_map" where
  "lease_purge now key m =
     (case m key of
        None \<Rightarrow> m
      | Some (v, expiresAt) \<Rightarrow> if expiresAt \<le> now then m(key := None) else m)"

definition mem_setNxPx :: "instant \<Rightarrow> string \<Rightarrow> string \<Rightarrow> nat \<Rightarrow> lease_map \<Rightarrow> bool option \<times> lease_map" where
  "mem_setNxPx now key value ttlMs m0 =
     (let m = lease_purge now key m0 in
      if m key \<noteq> None then (Some False, m)
      else (Some True, m(key \<mapsto> (value, now + int ttlMs))))"

definition mem_get :: "instant \<Rightarrow> string \<Rightarrow> lease_map \<Rightarrow> string option option \<times> lease_map" where
  "mem_get now key m0 =
     (let m = lease_purge now key m0 in (Some (map_option fst (m key)), m))"

definition mem_expireIfValue :: "instant \<Rightarrow> string \<Rightarrow> string \<Rightarrow> nat \<Rightarrow> lease_map \<Rightarrow> bool option \<times> lease_map" where
  "mem_expireIfValue now key value ttlMs m0 =
     (let m = lease_purge now key m0 in
      case m key of
        None \<Rightarrow> (Some False, m)
      | Some (v, e) \<Rightarrow>
          if v \<noteq> value then (Some False, m)
          else (Some True, m(key \<mapsto> (v, now + int ttlMs))))"

definition mem_delIfValue :: "instant \<Rightarrow> string \<Rightarrow> string \<Rightarrow> lease_map \<Rightarrow> bool option \<times> lease_map" where
  "mem_delIfValue now key value m0 =
     (let m = lease_purge now key m0 in
      case m key of
        None \<Rightarrow> (Some False, m)
      | Some (v, e) \<Rightarrow> if v \<noteq> value then (Some False, m) else (Some True, m(key := None)))"

text \<open>\<^verbatim>\<open>expire\<close> drops a key at once, as a lost lease does.\<close>

definition mem_expire :: "string \<Rightarrow> lease_map \<Rightarrow> lease_map" where
  "mem_expire key m = m(key := None)"

definition memory_lease_store :: "lease_map lease_ops" where
  "memory_lease_store =
     \<lparr>op_setNxPx = mem_setNxPx, op_get = mem_get, op_expireIfValue = mem_expireIfValue,
      op_delIfValue = mem_delIfValue\<rparr>"

lemmas lease_op_defs = mem_setNxPx_def mem_get_def mem_expireIfValue_def mem_delIfValue_def
  lease_purge_def Let_def


section \<open>The lease client (leader-lease.ts)\<close>

record leader_lease =
  lease_key :: string
  holderId :: string
  ttlMs :: nat
  held :: bool

definition renew_interval :: "leader_lease \<Rightarrow> nat" where
  "renew_interval l = max 1000 (ttlMs l div 3)"

text \<open>The second half of \<^verbatim>\<open>tryHold\<close>: acquire, after a renewal was not possible.\<close>

definition try_acquire :: "'s lease_ops \<Rightarrow> instant \<Rightarrow> leader_lease \<Rightarrow> 's \<Rightarrow> bool \<times> leader_lease \<times> 's" where
  "try_acquire ops now l s =
     (case op_setNxPx ops now (lease_key l) (holderId l) (ttlMs l) s of
        (None, s') \<Rightarrow> (False, l\<lparr>held := False\<rparr>, s')
      | (Some acquired, s') \<Rightarrow> (acquired, l\<lparr>held := acquired\<rparr>, s'))"

definition tryHold :: "'s lease_ops \<Rightarrow> instant \<Rightarrow> leader_lease \<Rightarrow> 's \<Rightarrow> bool \<times> leader_lease \<times> 's" where
  "tryHold ops now l s =
     (if held l
      then (case op_expireIfValue ops now (lease_key l) (holderId l) (ttlMs l) s of
              (None, s') \<Rightarrow> (False, l\<lparr>held := False\<rparr>, s')
            | (Some True, s') \<Rightarrow> (True, l, s')
            | (Some False, s') \<Rightarrow> try_acquire ops now (l\<lparr>held := False\<rparr>) s')
      else try_acquire ops now l s)"

definition release_lease :: "'s lease_ops \<Rightarrow> instant \<Rightarrow> leader_lease \<Rightarrow> 's \<Rightarrow> leader_lease \<times> 's" where
  "release_lease ops now l s =
     (if \<not> held l then (l\<lparr>held := False\<rparr>, s)
      else (l\<lparr>held := False\<rparr>, snd (op_delIfValue ops now (lease_key l) (holderId l) s)))"

text \<open>\<^verbatim>\<open>runIfLeader\<close>, with the work as a transformation of the world \<open>w\<close>.\<close>

definition runIfLeader :: "'s lease_ops \<Rightarrow> instant \<Rightarrow> leader_lease \<Rightarrow> ('w \<Rightarrow> 'w) \<Rightarrow> 's \<Rightarrow> 'w \<Rightarrow>
    bool \<times> leader_lease \<times> 's \<times> 'w" where
  "runIfLeader ops now l work s w =
     (case tryHold ops now l s of
        (False, l', s') \<Rightarrow> (False, l', s', w)
      | (True, l', s') \<Rightarrow> (True, l', s', work w))"


section \<open>Replicas competing for one lease\<close>

datatype lease_event = Try_hold nat instant | Release nat instant

fun event_time :: "lease_event \<Rightarrow> instant" where
  "event_time (Try_hold i t) = t"
| "event_time (Release i t) = t"

text \<open>The replicas are a map from an index to its lease; a run returns what each event answered.\<close>

fun lease_step :: "'s lease_ops \<Rightarrow> (nat \<Rightarrow> leader_lease) \<times> 's \<Rightarrow> lease_event \<Rightarrow>
    bool \<times> (nat \<Rightarrow> leader_lease) \<times> 's" where
  "lease_step ops (ls, s) (Try_hold i t) =
     (case tryHold ops t (ls i) s of (r, l', s') \<Rightarrow> (r, ls(i := l'), s'))"
| "lease_step ops (ls, s) (Release i t) =
     (case release_lease ops t (ls i) s of (l', s') \<Rightarrow> (False, ls(i := l'), s'))"

fun lease_run :: "'s lease_ops \<Rightarrow> (nat \<Rightarrow> leader_lease) \<times> 's \<Rightarrow> lease_event list \<Rightarrow>
    (nat \<Rightarrow> leader_lease) \<times> 's" where
  "lease_run ops st [] = st"
| "lease_run ops st (e # es) = lease_run ops (snd (lease_step ops st e)) es"

text \<open>All replicas ask for the same key under different holder ids, with a positive time to live.\<close>

definition competing :: "string \<Rightarrow> (nat \<Rightarrow> leader_lease) \<Rightarrow> bool" where
  "competing key ls =
     ((\<forall>i. lease_key (ls i) = key \<and> 0 < ttlMs (ls i)) \<and> (\<forall>i j. holderId (ls i) = holderId (ls j) \<longrightarrow> i = j))"

lemma try_acquire_ident:
  "try_acquire ops t l s = (r, l', s') \<Longrightarrow>
     lease_key l' = lease_key l \<and> holderId l' = holderId l \<and> ttlMs l' = ttlMs l"
  by (auto simp: try_acquire_def split: prod.splits option.splits)

lemma tryHold_ident:
  "tryHold ops t l s = (r, l', s') \<Longrightarrow>
     lease_key l' = lease_key l \<and> holderId l' = holderId l \<and> ttlMs l' = ttlMs l"
  by (auto simp: tryHold_def dest!: try_acquire_ident split: prod.splits option.splits bool.splits if_splits)

lemma release_ident:
  "release_lease ops t l s = (l', s') \<Longrightarrow>
     lease_key l' = lease_key l \<and> holderId l' = holderId l \<and> ttlMs l' = ttlMs l"
  by (auto simp: release_lease_def split: if_splits)

lemma competing_step:
  assumes "competing key ls" and "lease_step ops (ls, s) e = (r, ls', s')"
  shows "competing key ls' \<and> (\<forall>i. holderId (ls' i) = holderId (ls i) \<and> ttlMs (ls' i) = ttlMs (ls i))"
proof -
  have "\<forall>i. lease_key (ls' i) = lease_key (ls i) \<and> holderId (ls' i) = holderId (ls i)
      \<and> ttlMs (ls' i) = ttlMs (ls i)"
    using assms(2) by (cases e) (auto dest!: tryHold_ident release_ident split: prod.splits)
  then show ?thesis using assms(1) by (auto simp: competing_def)
qed

section \<open>The contract of a lease store\<close>

text \<open>
  \<open>live s t k\<close> is the entry a reader at time \<open>t\<close> may see. An operation that does not answer
  \<^term>\<open>Some True\<close> changes nothing visible; one that does has the compare-and-set effect.
\<close>

locale lease_store =
  fixes ops :: "'s lease_ops"
    and live :: "'s \<Rightarrow> instant \<Rightarrow> string \<Rightarrow> (string \<times> instant) option"
  assumes live_later: "\<lbrakk>live s t k = Some (v, e); t \<le> t'\<rbrakk> \<Longrightarrow>
      live s t' k = (if t' < e then Some (v, e) else None)"
    and set_won: "\<lbrakk>op_setNxPx ops t k v n s = (Some True, s'); 0 < n\<rbrakk> \<Longrightarrow>
      live s t k = None \<and> live s' t = (live s t)(k \<mapsto> (v, t + int n))"
    and set_lost: "\<lbrakk>op_setNxPx ops t k v n s = (r, s'); r \<noteq> Some True\<rbrakk> \<Longrightarrow> live s' t = live s t"
    and expire_won: "\<lbrakk>op_expireIfValue ops t k v n s = (Some True, s'); 0 < n\<rbrakk> \<Longrightarrow>
      (\<exists>e. live s t k = Some (v, e)) \<and> live s' t = (live s t)(k \<mapsto> (v, t + int n))"
    and expire_lost: "\<lbrakk>op_expireIfValue ops t k v n s = (r, s'); r \<noteq> Some True\<rbrakk> \<Longrightarrow> live s' t = live s t"
    and del_won: "op_delIfValue ops t k v s = (Some True, s') \<Longrightarrow>
      (\<exists>e. live s t k = Some (v, e)) \<and> live s' t = (live s t)(k := None)"
    and del_lost: "\<lbrakk>op_delIfValue ops t k v s = (r, s'); r \<noteq> Some True\<rbrakk> \<Longrightarrow> live s' t = live s t"
begin

lemma try_acquire_true:
  assumes "try_acquire ops t l s = (True, l', s')" and "0 < ttlMs l"
  shows "live s' t (lease_key l) = Some (holderId l, t + int (ttlMs l))"
  using assms by (auto simp: try_acquire_def dest: set_won split: prod.splits option.splits)

lemma tryHold_true:
  assumes "tryHold ops t l s = (True, l', s')" and "0 < ttlMs l"
  shows "live s' t (lease_key l) = Some (holderId l, t + int (ttlMs l))"
  using assms
  by (auto simp: tryHold_def dest: try_acquire_true expire_won
      split: prod.splits option.splits bool.splits if_splits)

lemma try_acquire_other:
  assumes "try_acquire ops t l s = (r, l', s')" and "0 < ttlMs l"
    and "live s t (lease_key l) = Some (v, e)"
  shows "\<not> r \<and> live s' t = live s t"
  using assms
  by (cases r)
    (auto simp: try_acquire_def dest: set_won set_lost split: prod.splits option.splits)

lemma tryHold_other:
  assumes "tryHold ops t l s = (r, l', s')" and "0 < ttlMs l"
    and "live s t (lease_key l) = Some (v, e)" and "v \<noteq> holderId l"
  shows "\<not> r \<and> live s' t = live s t"
proof (cases "held l")
  case False
  then show ?thesis using assms try_acquire_other[of t l s r l' s'] by (simp add: tryHold_def)
next
  case True
  obtain o1 s1 where o1: "op_expireIfValue ops t (lease_key l) (holderId l) (ttlMs l) s = (o1, s1)"
    by fastforce
  have no: "o1 \<noteq> Some True"
    using expire_won[of t "lease_key l" "holderId l" "ttlMs l" s s1] o1 assms(2-4) by auto
  then have same: "live s1 t = live s t" using expire_lost[OF o1] by simp
  show ?thesis
  proof (cases o1)
    case None
    then show ?thesis using assms(1) True o1 same by (simp add: tryHold_def)
  next
    case (Some b)
    then have "try_acquire ops t (l\<lparr>held := False\<rparr>) s1 = (r, l', s')"
      using assms(1) True o1 no by (simp add: tryHold_def)
    from try_acquire_other[OF this] assms(2,3) same show ?thesis by simp
  qed
qed

lemma tryHold_own:
  assumes "tryHold ops t l s = (r, l', s')" and "0 < ttlMs l"
    and "live s t (lease_key l) = Some (holderId l, e)" and "E \<le> e" and "E \<le> t + int (ttlMs l)"
  shows "\<exists>e' \<ge> E. live s' t (lease_key l) = Some (holderId l, e')"
proof (cases "held l")
  case False
  then have "try_acquire ops t l s = (r, l', s')" using assms(1) by (simp add: tryHold_def)
  from try_acquire_other[OF this assms(2,3)] assms(3,4) show ?thesis by auto
next
  case True
  obtain o1 s1 where o1: "op_expireIfValue ops t (lease_key l) (holderId l) (ttlMs l) s = (o1, s1)"
    by fastforce
  show ?thesis
  proof (cases "o1 = Some True")
    case t: True
    then have "s' = s1" using assms(1) True o1 by (simp add: tryHold_def)
    then show ?thesis using expire_won[of t "lease_key l" "holderId l" "ttlMs l" s s1] o1 t assms(2,5)
      by auto
  next
    case f: False
    then have same: "live s1 t = live s t" using expire_lost[OF o1] by simp
    show ?thesis
    proof (cases o1)
      case None
      then show ?thesis using assms(1,3,4) True o1 same by (auto simp: tryHold_def)
    next
      case (Some b)
      then have "try_acquire ops t (l\<lparr>held := False\<rparr>) s1 = (r, l', s')"
        using assms(1) True o1 f by (simp add: tryHold_def)
      from try_acquire_other[OF this] assms(2-4) same show ?thesis by auto
    qed
  qed
qed

lemma release_other:
  assumes "release_lease ops t l s = (l', s')"
    and "live s t (lease_key l) = Some (v, e)" and "v \<noteq> holderId l"
  shows "live s' t = live s t"
proof (cases "held l")
  case False
  then show ?thesis using assms(1) by (simp add: release_lease_def)
next
  case True
  obtain o1 s1 where o1: "op_delIfValue ops t (lease_key l) (holderId l) s = (o1, s1)" by fastforce
  then have "o1 \<noteq> Some True" using del_won[of t "lease_key l" "holderId l" s s1] assms(2,3) by auto
  then show ?thesis using del_lost[OF o1] True o1 assms(1) by (simp add: release_lease_def)
qed

lemma step_keeps:
  assumes "competing key ls" and "lease_step ops (ls, s) ev = (r, ls', s')"
    and "live s (event_time ev) key = Some (holderId (ls a), e)" and "E \<le> e"
    and "E \<le> event_time ev + int (ttlMs (ls a))" and "\<forall>x. ev \<noteq> Release a x"
  shows "(\<exists>e' \<ge> E. live s' (event_time ev) key = Some (holderId (ls' a), e')) \<and>
    (\<forall>b t. ev = Try_hold b t \<and> b \<noteq> a \<longrightarrow> \<not> r)"
proof -
  have key: "lease_key (ls i) = key" "0 < ttlMs (ls i)" for i using assms(1) by (simp_all add: competing_def)
  have ne: "holderId (ls a) \<noteq> holderId (ls b)" if "b \<noteq> a" for b
    using assms(1) that by (auto simp: competing_def)
  have hs: "holderId (ls' a) = holderId (ls a)" using competing_step[OF assms(1,2)] by simp
  show ?thesis
  proof (cases ev)
    case (Try_hold b t)
    then obtain l' where th: "tryHold ops t (ls b) s = (r, l', s')"
      using assms(2) by (auto split: prod.splits)
    show ?thesis
    proof (cases "b = a")
      case True
      then show ?thesis using tryHold_own[OF th] key assms(3-5) Try_hold hs by auto
    next
      case False
      then show ?thesis using tryHold_other[OF th] key assms(3,4) Try_hold hs ne[OF False] by auto
    qed
  next
    case (Release b t)
    then have "b \<noteq> a" using assms(6) by auto
    moreover obtain l' where "release_lease ops t (ls b) s = (l', s')"
      using assms(2) Release by (auto split: prod.splits)
    ultimately show ?thesis using release_other key assms(3,4) Release hs ne by fastforce
  qed
qed

lemma run_keeps:
  assumes "competing key ls" and "live s t0 key = Some (holderId (ls a), e)" and "E \<le> e"
    and "E \<le> t0 + int (ttlMs (ls a))" and "sorted (t0 # map event_time es)"
    and "\<forall>ev \<in> set es. event_time ev < E" and "\<forall>x. Release a x \<notin> set es"
    and "lease_run ops (ls, s) es = (ls', s')"
  shows "competing key ls' \<and> holderId (ls' a) = holderId (ls a) \<and> ttlMs (ls' a) = ttlMs (ls a) \<and>
    (\<exists>e' \<ge> E. live s' (last (t0 # map event_time es)) key = Some (holderId (ls a), e'))"
  using assms
proof (induction es arbitrary: ls s t0 e)
  case Nil
  then show ?case by auto
next
  case (Cons ev es)
  obtain r ls1 s1 where st: "lease_step ops (ls, s) ev = (r, ls1, s1)" by (metis prod_cases3)
  let ?t = "event_time ev"
  have t: "t0 \<le> ?t" "?t < E" using Cons.prems(5,6) by auto
  then have lv: "live s ?t key = Some (holderId (ls a), e)"
    using live_later[OF Cons.prems(2) t(1)] Cons.prems(3) by simp
  have bound: "E \<le> ?t + int (ttlMs (ls a))" using Cons.prems(4) t(1) by simp
  have norel: "\<forall>x. ev \<noteq> Release a x" using Cons.prems(7) by auto
  from step_keeps[OF Cons.prems(1) st lv Cons.prems(3) bound norel]
  obtain e1 where e1: "E \<le> e1" "live s1 ?t key = Some (holderId (ls1 a), e1)" by blast
  have c1: "competing key ls1" "holderId (ls1 a) = holderId (ls a)" "ttlMs (ls1 a) = ttlMs (ls a)"
    using competing_step[OF Cons.prems(1) st] by auto
  have "lease_run ops (ls1, s1) es = (ls', s')" using Cons.prems(8) st by simp
  with Cons.IH[OF c1(1) e1(2,1)] Cons.prems(5-7) bound c1 show ?case by simp
qed

text \<open>Mutual exclusion: while a holder's time to live runs and it has not released, nobody else is
  told that it holds the lease.\<close>

lemma exclusive:
  assumes "competing key ls" and "lease_step ops (ls, s) (Try_hold a t0) = (True, ls1, s1)"
    and "sorted (t0 # map event_time (es @ [Try_hold b t]))" and "\<forall>x. Release a x \<notin> set es"
    and "t < t0 + int (ttlMs (ls a))" and "b \<noteq> a"
  shows "\<not> fst (lease_step ops (lease_run ops (ls1, s1) es) (Try_hold b t))"
proof -
  let ?E = "t0 + int (ttlMs (ls a))"
  have key: "lease_key (ls a) = key" "0 < ttlMs (ls a)" using assms(1) by (simp_all add: competing_def)
  have c1: "competing key ls1" "holderId (ls1 a) = holderId (ls a)" "ttlMs (ls1 a) = ttlMs (ls a)"
    using competing_step[OF assms(1,2)] by auto
  obtain l' where "tryHold ops t0 (ls a) s = (True, l', s1)"
    using assms(2) by (auto split: prod.splits)
  from tryHold_true[OF this] key c1 have lv: "live s1 t0 key = Some (holderId (ls1 a), ?E)" by simp
  obtain ls2 s2 where run: "lease_run ops (ls1, s1) es = (ls2, s2)" by fastforce
  have srt: "sorted (t0 # map event_time es)" and le: "\<forall>ev \<in> set es. event_time ev \<le> t"
    and last: "last (t0 # map event_time es) \<le> t"
    using assms(3) by (auto simp: sorted_append last_map)
  have "\<forall>ev \<in> set es. event_time ev < ?E" using le assms(5) by fastforce
  from run_keeps[OF c1(1) lv order_refl _ srt this assms(4) run] c1(3)
  obtain e' where k: "competing key ls2" "holderId (ls2 a) = holderId (ls1 a)" "?E \<le> e'"
    "live s2 (last (t0 # map event_time es)) key = Some (holderId (ls1 a), e')"
    "ttlMs (ls2 a) = ttlMs (ls a)"
    by auto
  have lv2: "live s2 (event_time (Try_hold b t)) key = Some (holderId (ls2 a), e')"
    using live_later[OF k(4) last] k(2,3) assms(5) by simp
  obtain r ls3 s3 where st: "lease_step ops (ls2, s2) (Try_hold b t) = (r, ls3, s3)"
    by (metis prod_cases3)
  have "?E \<le> event_time (Try_hold b t) + int (ttlMs (ls2 a))"
    using assms(3) k(5) by (auto simp: sorted_append)
  from step_keeps[OF k(1) st lv2 k(3) this] assms(6) st run show ?thesis by auto
qed

end

section \<open>The stores of the source meet the contract\<close>

definition mem_live :: "lease_map \<Rightarrow> instant \<Rightarrow> string \<Rightarrow> (string \<times> instant) option" where
  "mem_live m t k = (case m k of None \<Rightarrow> None | Some (v, e) \<Rightarrow> if t < e then Some (v, e) else None)"

lemma mem_live_purge: "mem_live (lease_purge t k m) t = mem_live m t"
  by (auto simp: mem_live_def lease_purge_def fun_eq_iff split: option.splits)

lemma lease_purge_live: "lease_purge t k m k = mem_live m t k"
  by (auto simp: mem_live_def lease_purge_def split: option.splits)

lemma mem_live_upd: "mem_live (m(k \<mapsto> (v, t + int n))) t = (if 0 < n then (mem_live m t)(k \<mapsto> (v, t + int n))
    else (mem_live m t)(k := None))"
  by (auto simp: mem_live_def fun_eq_iff)

lemma mem_live_del: "mem_live (m(k := None)) t = (mem_live m t)(k := None)"
  by (auto simp: mem_live_def fun_eq_iff)

interpretation mem_lease: lease_store memory_lease_store mem_live
proof
  fix m :: lease_map and t t' k v e
  show "\<lbrakk>mem_live m t k = Some (v, e); t \<le> t'\<rbrakk> \<Longrightarrow>
      mem_live m t' k = (if t' < e then Some (v, e) else None)"
    by (auto simp: mem_live_def split: option.splits if_splits)
next
  fix m m' :: lease_map and t k v n
  show "\<lbrakk>op_setNxPx memory_lease_store t k v n m = (Some True, m'); 0 < n\<rbrakk> \<Longrightarrow>
      mem_live m t k = None \<and> mem_live m' t = (mem_live m t)(k \<mapsto> (v, t + int n))"
    by (cases "mem_live m t k")
      (auto simp: memory_lease_store_def mem_setNxPx_def Let_def lease_purge_live mem_live_upd
        mem_live_purge split: if_splits)
next
  fix m m' :: lease_map and t k v n r
  show "\<lbrakk>op_setNxPx memory_lease_store t k v n m = (r, m'); r \<noteq> Some True\<rbrakk> \<Longrightarrow> mem_live m' t = mem_live m t"
    by (auto simp: memory_lease_store_def mem_setNxPx_def Let_def mem_live_purge split: if_splits)
next
  fix m m' :: lease_map and t k v n
  show "\<lbrakk>op_expireIfValue memory_lease_store t k v n m = (Some True, m'); 0 < n\<rbrakk> \<Longrightarrow>
      (\<exists>e. mem_live m t k = Some (v, e)) \<and> mem_live m' t = (mem_live m t)(k \<mapsto> (v, t + int n))"
    by (auto simp: memory_lease_store_def mem_expireIfValue_def Let_def lease_purge_live mem_live_upd
        mem_live_purge split: option.splits if_splits)
next
  fix m m' :: lease_map and t k v n r
  show "\<lbrakk>op_expireIfValue memory_lease_store t k v n m = (r, m'); r \<noteq> Some True\<rbrakk> \<Longrightarrow>
      mem_live m' t = mem_live m t"
    by (auto simp: memory_lease_store_def mem_expireIfValue_def Let_def mem_live_purge
        split: option.splits if_splits)
next
  fix m m' :: lease_map and t k v
  show "op_delIfValue memory_lease_store t k v m = (Some True, m') \<Longrightarrow>
      (\<exists>e. mem_live m t k = Some (v, e)) \<and> mem_live m' t = (mem_live m t)(k := None)"
    by (auto simp: memory_lease_store_def mem_delIfValue_def Let_def lease_purge_live mem_live_del
        mem_live_purge split: option.splits if_splits)
next
  fix m m' :: lease_map and t k v r
  show "\<lbrakk>op_delIfValue memory_lease_store t k v m = (r, m'); r \<noteq> Some True\<rbrakk> \<Longrightarrow> mem_live m' t = mem_live m t"
    by (auto simp: memory_lease_store_def mem_delIfValue_def Let_def mem_live_purge
        split: option.splits if_splits)
qed

interpretation no_lease: lease_store unavailable_lease_store "\<lambda>(_ :: lease_map) _ _. None"
  by unfold_locales (auto simp: unavailable_lease_store_def)

text \<open>C7 (leader election). Replicas with different holder ids share one \<^verbatim>\<open>MemoryLeaseStore\<close> and time
  does not run backwards. Once a replica is told that it holds the lease, no other replica is told
  so until its time to live has run out, whatever the replicas do in between, unless it releases.\<close>

theorem lease_mutual_exclusion:
  assumes "competing key ls"
    and "lease_step memory_lease_store (ls, m) (Try_hold a t0) = (True, ls1, m1)"
    and "sorted (t0 # map event_time (es @ [Try_hold b t]))" and "\<forall>x. Release a x \<notin> set es"
    and "t < t0 + int (ttlMs (ls a))" and "b \<noteq> a"
  shows "\<not> fst (lease_step memory_lease_store (lease_run memory_lease_store (ls1, m1) es) (Try_hold b t))"
  using assms by (rule mem_lease.exclusive)

text \<open>Three replicas, numbered by their holder id.\<close>

definition replica :: "nat \<Rightarrow> leader_lease" where
  "replica i = \<lparr>lease_key = SCAN_SCHEDULE_LEASE_KEY, holderId = replicate i CHR ''r'',
                ttlMs = DEFAULT_LEASE_TTL_MS, held = False\<rparr>"

lemma competing_replicas: "competing SCAN_SCHEDULE_LEASE_KEY replica"
proof -
  have "replicate i CHR ''r'' = replicate j CHR ''r'' \<longrightarrow> i = j" for i j
    by (metis length_replicate)
  then show ?thesis by (simp add: competing_def replica_def DEFAULT_LEASE_TTL_MS_def)
qed

lemma lease_mutual_exclusion_witness:
  "\<exists>ls1 m1. lease_step memory_lease_store (replica, Map.empty) (Try_hold 1 0) = (True, ls1, m1) \<and>
     \<not> fst (lease_step memory_lease_store
         (lease_run memory_lease_store (ls1, m1) [Try_hold 2 10, Try_hold 1 5000, Release 2 6000])
         (Try_hold 2 14999))"
proof -
  obtain r ls1 m1 where st: "lease_step memory_lease_store (replica, Map.empty) (Try_hold 1 0) = (r, ls1, m1)"
    by (metis prod_cases3)
  then have "r" by (auto simp: memory_lease_store_def tryHold_def try_acquire_def replica_def
      mem_setNxPx_def lease_purge_def)
  with st have st1: "lease_step memory_lease_store (replica, Map.empty) (Try_hold 1 0) = (True, ls1, m1)"
    by simp
  have "\<not> fst (lease_step memory_lease_store
         (lease_run memory_lease_store (ls1, m1) [Try_hold 2 10, Try_hold 1 5000, Release 2 6000])
         (Try_hold 2 14999))"
    by (rule lease_mutual_exclusion[OF competing_replicas st1])
      (simp_all add: replica_def DEFAULT_LEASE_TTL_MS_def)
  with st1 show ?thesis by blast
qed

text \<open>Fail closed. With no reachable store a replica never holds the lease, forgets that it did,
  and never runs the scheduled work.\<close>

theorem runIfLeader_fails_closed:
  "runIfLeader unavailable_lease_store t l work s w = (False, l\<lparr>held := False\<rparr>, s, w)"
  by (simp add: runIfLeader_def tryHold_def try_acquire_def unavailable_lease_store_def)


section \<open>The rate-limit store (rate-limit-store.ts)\<close>

record memory_bucket =
  tokens :: int
  bucketExpiresAt :: instant

type_synonym bucket_map = "string \<rightharpoonup> memory_bucket"

definition bucket_purge :: "instant \<Rightarrow> string \<Rightarrow> bucket_map \<Rightarrow> bucket_map" where
  "bucket_purge now key m =
     (case m key of
        None \<Rightarrow> m
      | Some b \<Rightarrow> if bucketExpiresAt b \<le> now then m(key := None) else m)"

definition consume :: "instant \<Rightarrow> string \<Rightarrow> int \<Rightarrow> int \<Rightarrow> bucket_map \<Rightarrow> int \<times> bucket_map" where
  "consume now key capacity windowMs m0 =
     (let m1 = bucket_purge now key m0;
          (bucket, m2) =
            (case m1 key of
               Some b \<Rightarrow> (b, m1)
             | None \<Rightarrow>
                 (let b = \<lparr>tokens = capacity, bucketExpiresAt = now + windowMs\<rparr> in (b, m1(key \<mapsto> b))))
      in if tokens bucket \<le> 0 then (-1, m2)
         else
           (let b' = bucket\<lparr>tokens := tokens bucket - 1\<rparr> in (tokens b', m2(key \<mapsto> b'))))"

text \<open>A sequence of requests, each with its time and key.\<close>

fun consume_all :: "int \<Rightarrow> int \<Rightarrow> bucket_map \<Rightarrow> (instant \<times> string) list \<Rightarrow> int list" where
  "consume_all cap w m [] = []"
| "consume_all cap w m ((t, k) # rs) =
     (case consume t k cap w m of (r, m') \<Rightarrow> r # consume_all cap w m' rs)"

text \<open>The answers the requests of one key got.\<close>

definition key_results :: "string \<Rightarrow> (instant \<times> string) list \<Rightarrow> int list \<Rightarrow> int list" where
  "key_results k rs res = map snd (filter (\<lambda>(q, r). snd q = k) (zip rs res))"

text \<open>A bucket of \<open>j\<close> tokens answers \<open>n\<close> requests of its window with \<open>j - 1, \<dots>, 0, -1, -1, \<dots>\<close>.\<close>

definition token_answers :: "nat \<Rightarrow> nat \<Rightarrow> int list" where
  "token_answers j n = map (\<lambda>i. if i < j then int j - 1 - int i else -1) [0..<n]"

lemma token_answers_simps:
  "token_answers j 0 = []"
  "token_answers 0 (Suc n) = -1 # token_answers 0 n"
  "token_answers (Suc j) (Suc n) = int j # token_answers j n"
proof -
  have up: "map f [0..<Suc n] = f 0 # map (\<lambda>i. f (Suc i)) [0..<n]" for f :: "nat \<Rightarrow> int"
    by (simp only: upt_conv_Cons[OF zero_less_Suc] list.map map_Suc_upt[symmetric] map_map comp_def)
  show "token_answers j 0 = []" by (simp add: token_answers_def)
  show "token_answers 0 (Suc n) = -1 # token_answers 0 n" unfolding token_answers_def up by simp
  show "token_answers (Suc j) (Suc n) = int j # token_answers j n"
    unfolding token_answers_def up by simp
qed

lemma token_answers_admitted: "length (filter (\<lambda>r. 0 \<le> r) (token_answers j n)) = min j n"
proof (induction n arbitrary: j)
  case (Suc n)
  then show ?case by (cases j) (simp_all add: token_answers_simps)
qed (simp add: token_answers_simps)

lemma consume_live:
  assumes "m k = Some b" and "t < bucketExpiresAt b"
  shows "consume t k cap w m =
    (if tokens b \<le> 0 then (-1, m) else (tokens b - 1, m(k \<mapsto> b\<lparr>tokens := tokens b - 1\<rparr>)))"
  using assms by (simp add: consume_def bucket_purge_def)

lemma consume_fresh:
  assumes "case m k of None \<Rightarrow> True | Some b \<Rightarrow> bucketExpiresAt b \<le> t"
  shows "consume t k cap w m =
    (if cap \<le> 0 then (-1, m(k \<mapsto> \<lparr>tokens = cap, bucketExpiresAt = t + w\<rparr>))
     else (cap - 1, m(k \<mapsto> \<lparr>tokens = cap - 1, bucketExpiresAt = t + w\<rparr>)))"
  using assms by (auto simp: consume_def bucket_purge_def Let_def split: option.splits)

lemma consume_other: "k' \<noteq> k \<Longrightarrow> consume t k' cap w m = (r, m') \<Longrightarrow> m' k = m k"
  by (auto simp: consume_def bucket_purge_def Let_def split: option.splits if_splits)

lemma consume_window:
  assumes "m k = Some \<lparr>tokens = int j, bucketExpiresAt = e\<rparr>" and "\<forall>(t, k') \<in> set rs. t < e"
  shows "key_results k rs (consume_all cap w m rs) =
    token_answers j (length (filter (\<lambda>q. snd q = k) rs))"
  using assms
proof (induction rs arbitrary: m j)
  case Nil
  then show ?case by (simp add: key_results_def token_answers_simps)
next
  case (Cons q rs)
  obtain t k' where q: "q = (t, k')" by fastforce
  obtain r m' where c: "consume t k' cap w m = (r, m')" by fastforce
  show ?case
  proof (cases "k' = k")
    case False
    then have "m' k = Some \<lparr>tokens = int j, bucketExpiresAt = e\<rparr>"
      using consume_other[OF _ c] Cons.prems(1) by simp
    then show ?thesis
      using Cons.IH[of m' j] Cons.prems(2) False by (simp add: q c key_results_def)
  next
    case True
    with Cons.prems have l: "consume t k cap w m = (if j = 0 then (-1, m)
        else (int j - 1, m(k \<mapsto> \<lparr>tokens = int j - 1, bucketExpiresAt = e\<rparr>)))"
      by (simp add: consume_live[of m k "\<lparr>tokens = int j, bucketExpiresAt = e\<rparr>" t] q)
    show ?thesis
    proof (cases j)
      case 0
      then show ?thesis using Cons.IH[of m 0] Cons.prems l True
        by (simp add: q key_results_def token_answers_simps)
    next
      case (Suc i)
      let ?m = "m(k \<mapsto> \<lparr>tokens = int i, bucketExpiresAt = e\<rparr>)"
      have "key_results k rs (consume_all cap w ?m rs) =
          token_answers i (length (filter (\<lambda>q. snd q = k) rs))"
        by (rule Cons.IH) (use Cons.prems(2) in simp_all)
      moreover have "consume t k cap w m = (int i, ?m)" using l Suc by simp
      ultimately show ?thesis using Suc True
        by (simp add: q key_results_def token_answers_simps del: fun_upd_apply)
    qed
  qed
qed

text \<open>When a key's first request finds no live bucket, the requests of that key in
  the window it starts, interleaved in any way with requests of other keys, are answered
  \<open>capacity - 1, \<dots>, 0\<close> and then \<open>-1\<close>: exactly the first \<open>capacity\<close> of them are admitted.\<close>

lemma consume_window_exact:
  assumes "0 < w" and "case m k of None \<Rightarrow> True | Some b \<Rightarrow> bucketExpiresAt b \<le> t0"
    and "\<forall>(t, k') \<in> set rs. t < t0 + w"
  shows "key_results k ((t0, k) # rs) (consume_all (int cap) w m ((t0, k) # rs)) =
      token_answers cap (Suc (length (filter (\<lambda>q. snd q = k) rs))) \<and>
    length (filter (\<lambda>r. 0 \<le> r) (key_results k ((t0, k) # rs) (consume_all (int cap) w m ((t0, k) # rs)))) =
      min cap (Suc (length (filter (\<lambda>q. snd q = k) rs)))"
proof -
  have "key_results k ((t0, k) # rs) (consume_all (int cap) w m ((t0, k) # rs)) =
      token_answers cap (Suc (length (filter (\<lambda>q. snd q = k) rs)))"
  proof -
    have win: "key_results k rs (consume_all C w (m(k \<mapsto> \<lparr>tokens = int j, bucketExpiresAt = t0 + w\<rparr>)) rs) =
        token_answers j (length (filter (\<lambda>q. snd q = k) rs))" for C j
      by (rule consume_window) (use assms(3) in simp_all)
    note win0 = win[of _ 0, unfolded of_nat_0]
    note fresh = consume_fresh[where m = m and k = k and t = t0, OF assms(2)]
    show ?thesis
      using win win0
      by (cases cap) (simp_all del: fun_upd_apply add: fresh key_results_def token_answers_simps)
  qed
  then show ?thesis by (simp add: token_answers_admitted)
qed

section \<open>The gateway middleware (rate-limit.middleware.ts)\<close>

definition GATEWAY_RATE_LIMIT_CAPACITY :: int where
  "GATEWAY_RATE_LIMIT_CAPACITY = 600"

definition GATEWAY_RATE_LIMIT_WINDOW_MS :: int where
  "GATEWAY_RATE_LIMIT_WINDOW_MS = 60000"

record gw_request =
  gw_method :: string
  gw_path :: "string option"
  gw_ip :: "string option"

definition normalizePath :: "string option \<Rightarrow> string" where
  "normalizePath path =
     (case path of
        None \<Rightarrow> ''/''
      | Some p \<Rightarrow>
          if p = [] then ''/''
          else (let trimmed = rev (dropWhile (\<lambda>c. c = CHR ''/'') (rev p)) in
                if trimmed = [] then ''/'' else trimmed))"

definition isGatewayHealthProbe :: "gw_request \<Rightarrow> bool" where
  "isGatewayHealthProbe req =
     (if gw_method req \<noteq> ''GET'' then False
      else (let path = normalizePath (gw_path req) in
            path = ''/health'' \<or> path = ''/health/live'' \<or> path = ''/health/ready''))"

text \<open>Passing the request on, with the header it sets, or the 429 problem response.\<close>

datatype gw_outcome = Gw_next "int option" | Gw_429

type_synonym 's consume_op = "instant \<Rightarrow> string \<Rightarrow> int \<Rightarrow> int \<Rightarrow> 's \<Rightarrow> int option \<times> 's"

definition memory_consume :: "bucket_map consume_op" where
  "memory_consume t k cap w m = (case consume t k cap w m of (r, m') \<Rightarrow> (Some r, m'))"

definition unavailable_consume :: "'s consume_op" where
  "unavailable_consume t k cap w s = (None, s)"

definition rate_limit_use :: "'s consume_op \<Rightarrow> instant \<Rightarrow> gw_request \<Rightarrow> 's \<Rightarrow> gw_outcome \<times> 's" where
  "rate_limit_use op now req s =
     (if isGatewayHealthProbe req then (Gw_next None, s)
      else
        (let ip = (case gw_ip req of None \<Rightarrow> ''anonymous'' | Some i \<Rightarrow> i);
             key = gatewayRateLimitRedisKey ip in
         case op now key GATEWAY_RATE_LIMIT_CAPACITY GATEWAY_RATE_LIMIT_WINDOW_MS s of
           (None, s') \<Rightarrow> (Gw_429, s')
         | (Some remaining, s') \<Rightarrow>
             if remaining < 0 then (Gw_429, s') else (Gw_next (Some remaining), s')))"

fun gateway_run :: "'s consume_op \<Rightarrow> 's \<Rightarrow> (instant \<times> gw_request) list \<Rightarrow> gw_outcome list" where
  "gateway_run op s [] = []"
| "gateway_run op s ((t, req) # rs) =
     (case rate_limit_use op t req s of (out, s') \<Rightarrow> out # gateway_run op s' rs)"

definition request_ip :: "gw_request \<Rightarrow> string" where
  "request_ip req = (case gw_ip req of None \<Rightarrow> ''anonymous'' | Some i \<Rightarrow> i)"

text \<open>The limited requests of one address, and those of them that were passed on.\<close>

definition limited_from :: "string \<Rightarrow> gw_request \<Rightarrow> bool" where
  "limited_from ip req = (\<not> isGatewayHealthProbe req \<and> request_ip req = ip)"

definition passed_from :: "string \<Rightarrow> (instant \<times> gw_request) list \<Rightarrow> gw_outcome list \<Rightarrow> nat" where
  "passed_from ip rs outs = length (filter (\<lambda>(q, out). limited_from ip (snd q) \<and> out \<noteq> Gw_429) (zip rs outs))"

definition bucket_requests :: "(instant \<times> gw_request) list \<Rightarrow> (instant \<times> string) list" where
  "bucket_requests rs = map (\<lambda>(t, req). (t, gatewayRateLimitRedisKey (request_ip req)))
     (filter (\<lambda>q. \<not> isGatewayHealthProbe (snd q)) rs)"

lemma redis_key_inj [simp]: "gatewayRateLimitRedisKey a = gatewayRateLimitRedisKey b \<longleftrightarrow> a = b"
  by (simp add: gatewayRateLimitRedisKey_def)

lemma bucket_requests_Cons:
  "bucket_requests ((t, req) # rs) =
     (if isGatewayHealthProbe req then bucket_requests rs
      else (t, gatewayRateLimitRedisKey (request_ip req)) # bucket_requests rs)"
  by (simp add: bucket_requests_def)

lemma bucket_requests_count:
  "length (filter (\<lambda>q. snd q = gatewayRateLimitRedisKey ip) (bucket_requests rs)) =
     length (filter (\<lambda>q. limited_from ip (snd q)) rs)"
  by (induction rs) (auto simp: bucket_requests_def limited_from_def)

lemma passed_from_buckets:
  "passed_from ip rs (gateway_run memory_consume m rs) =
     length (filter (\<lambda>r. 0 \<le> r)
       (key_results (gatewayRateLimitRedisKey ip) (bucket_requests rs)
         (consume_all GATEWAY_RATE_LIMIT_CAPACITY GATEWAY_RATE_LIMIT_WINDOW_MS m (bucket_requests rs))))"
proof (induction rs arbitrary: m)
  case Nil
  then show ?case by (simp add: passed_from_def bucket_requests_def key_results_def)
next
  case (Cons q rs)
  obtain t req where q: "q = (t, req)" by fastforce
  show ?case
  proof (cases "isGatewayHealthProbe req")
    case True
    then show ?thesis using Cons.IH[of m]
      by (simp add: q passed_from_def bucket_requests_Cons rate_limit_use_def limited_from_def)
  next
    case False
    obtain r m' where c: "consume t (gatewayRateLimitRedisKey (request_ip req))
        GATEWAY_RATE_LIMIT_CAPACITY GATEWAY_RATE_LIMIT_WINDOW_MS m = (r, m')" by fastforce
    have u: "rate_limit_use memory_consume t req m =
        (if r < 0 then (Gw_429, m') else (Gw_next (Some r), m'))"
      using False c by (simp add: rate_limit_use_def memory_consume_def request_ip_def Let_def)
    show ?thesis using Cons.IH[of m'] False
      by (auto simp: q u c passed_from_def bucket_requests_Cons limited_from_def key_results_def)
  qed
qed

lemma gateway_run_length [simp]: "length (gateway_run op s rs) = length rs"
  by (induction op s rs rule: gateway_run.induct) (auto split: prod.splits)

lemma probes_pass:
  "list_all2 (\<lambda>q out. isGatewayHealthProbe (snd q) \<longrightarrow> out = Gw_next None) rs (gateway_run op s rs)"
  by (induction op s rs rule: gateway_run.induct) (auto simp: rate_limit_use_def split: prod.splits)


definition get_from :: "string \<Rightarrow> string \<Rightarrow> gw_request" where
  "get_from ip path = \<lparr>gw_method = ''GET'', gw_path = Some path, gw_ip = Some ip\<rparr>"


text \<open>With no reachable store every limited request is refused, and only those.\<close>

lemma gateway_fails_closed:
  "fst (rate_limit_use unavailable_consume t req s) = (if isGatewayHealthProbe req then Gw_next None else Gw_429)"
  by (simp add: rate_limit_use_def unavailable_consume_def)

end
