(* ===== verification/Contracts.thy ===== *)
theory Contracts
imports Prelude
begin

text \<open>
  The shared contracts of \<^verbatim>\<open>libs/contracts/src\<close> that carry logic: the severity order
  (\<^verbatim>\<open>common.ts\<close>), SCA validation (\<^verbatim>\<open>domain/finding.ts\<close>), policy matching and the two scan
  gates (\<^verbatim>\<open>domain/scan-conclusion.ts\<close>), and the request filters that refuse client
  conclusions and tenant webhooks (\<^verbatim>\<open>domain/scan.ts\<close>, \<^verbatim>\<open>domain/policy.ts\<close>).
\<close>


section \<open>JSON values\<close>

text \<open>An object is the list of its entries in enumeration order.\<close>

datatype json =
    JNull
  | JBool bool
  | JNum rat
  | JStr string
  | JArr "json list"
  | JObj "(string \<times> json) list"

definition json_get :: "string \<Rightarrow> json \<Rightarrow> json option" where
  "json_get k j = (case j of JObj es \<Rightarrow> map_of es k | _ \<Rightarrow> None)"

text \<open>\<^verbatim>\<open>a !== b\<close>: two arrays or objects are different references.\<close>

definition strict_neq :: "json \<Rightarrow> json \<Rightarrow> bool" where
  "strict_neq a b =
     (case a of JArr _ \<Rightarrow> True | JObj _ \<Rightarrow> True | _ \<Rightarrow> a \<noteq> b)"


lemma strict_neq_str:
  "strict_neq (JStr x) b \<longleftrightarrow> JStr x \<noteq> b"
  "strict_neq a (JStr y) \<longleftrightarrow> a \<noteq> JStr y"
  by (auto simp: strict_neq_def split: json.splits)


section \<open>Severity (common.ts)\<close>

definition SEVERITY_ORDER :: "string \<Rightarrow> nat option" where
  "SEVERITY_ORDER s =
     (if s = ''critical'' then Some 5 else if s = ''high'' then Some 4
      else if s = ''medium'' then Some 3 else if s = ''low'' then Some 2
      else if s = ''info'' then Some 1 else None)"

text \<open>\<^verbatim>\<open>x < y\<close> where either side may be \<^verbatim>\<open>undefined\<close>: comparing with \<^verbatim>\<open>NaN\<close> is false.\<close>

fun lt_undef :: "nat option \<Rightarrow> nat option \<Rightarrow> bool" where
  "lt_undef (Some a) (Some b) = (a < b)"
| "lt_undef _ _ = False"


section \<open>Validation of SCA findings (domain/finding.ts)\<close>

datatype validation_verdict =
    Not_validated | Reachable | Not_reachable | Exploitable | Not_exploitable | Compensating_control

definition readEvidenceReachability :: "json \<Rightarrow> string option" where
  "readEvidenceReachability evidence =
     (case json_get ''reachability'' evidence of Some (JStr s) \<Rightarrow> Some s | _ \<Rightarrow> None)"

definition promoteScaValidation :: "string \<Rightarrow> json \<Rightarrow> bool \<Rightarrow> validation_verdict option" where
  "promoteScaValidation scannerType evidence kev =
     (if scannerType \<noteq> ''sca'' then None
      else
        (let reachability = readEvidenceReachability evidence in
         if reachability = Some ''reachable'' then Some (if kev then Exploitable else Reachable)
         else if reachability = Some ''not_reachable'' then Some Not_reachable
         else None))"


section \<open>Policy matching (domain/scan-conclusion.ts)\<close>

record policy_condition =
  severityAtLeast :: "string option"
  minRiskScore :: "rat option"
  kevOnly :: "bool option"
  minEpss :: "rat option"
  requireFixAvailable :: "bool option"
  scannerTypes :: "string list option"
  assetKinds :: "string list option"
  assetTags :: "(string \<times> string) list option"
  exposureIn :: "string list option"
  criticalityIn :: "string list option"

record match_asset =
  a_kind :: string
  a_exposure :: string
  a_criticality :: string
  a_tags :: "(string \<times> string) list option"

record match_finding =
  mf_id :: ident
  mf_severity :: string
  mf_riskScore :: rat
  mf_kev :: bool
  mf_epssScore :: "rat option"
  mf_fixAvailable :: bool
  mf_scannerType :: string
  mf_asset :: match_asset

record policy_rule =
  enabled :: "bool option"
  priority :: int
  condition :: policy_condition
  actions :: "string list"

text \<open>\<^verbatim>\<open>list?.length && !list.includes(x)\<close>: the branch that refuses.\<close>

definition list_refuses :: "string list option \<Rightarrow> string \<Rightarrow> bool" where
  "list_refuses xs x = (case xs of None \<Rightarrow> False | Some ys \<Rightarrow> ys \<noteq> [] \<and> x \<notin> set ys)"

definition epss_or_zero :: "rat option \<Rightarrow> rat" where
  "epss_or_zero e = (case e of None \<Rightarrow> 0 | Some x \<Rightarrow> x)"

fun tags_refuse :: "(string \<times> string) list \<Rightarrow> (string \<times> string) list \<Rightarrow> bool" where
  "tags_refuse tags [] = False"
| "tags_refuse tags ((k, v) # es) = (if map_of tags k \<noteq> Some v then True else tags_refuse tags es)"

definition matchesPolicyCondition :: "policy_condition \<Rightarrow> match_finding \<Rightarrow> bool" where
  "matchesPolicyCondition c f =
     (if truthy (severityAtLeast c) \<and>
          lt_undef (SEVERITY_ORDER (mf_severity f)) (SEVERITY_ORDER (case severityAtLeast c of Some s \<Rightarrow> s | None \<Rightarrow> []))
      then False
      else if (case minRiskScore c of None \<Rightarrow> False | Some m \<Rightarrow> mf_riskScore f < m) then False
      else if kevOnly c = Some True \<and> \<not> mf_kev f then False
      else if (case minEpss c of None \<Rightarrow> False | Some m \<Rightarrow> epss_or_zero (mf_epssScore f) < m) then False
      else if requireFixAvailable c = Some True \<and> \<not> mf_fixAvailable f then False
      else if list_refuses (scannerTypes c) (mf_scannerType f) then False
      else if list_refuses (assetKinds c) (a_kind (mf_asset f)) then False
      else if list_refuses (exposureIn c) (a_exposure (mf_asset f)) then False
      else if list_refuses (criticalityIn c) (a_criticality (mf_asset f)) then False
      else if (case assetTags c of
                 None \<Rightarrow> False
               | Some es \<Rightarrow> tags_refuse (case a_tags (mf_asset f) of None \<Rightarrow> [] | Some t \<Rightarrow> t) es)
      then False
      else True)"


section \<open>The scan gates (domain/scan-conclusion.ts)\<close>

record conclude_input =
  ci_status :: string
  ci_findings :: "match_finding list"
  ci_policies :: "policy_rule list"
  ci_suppressed :: "ident list option"
  ci_expected :: "nat option"

datatype gate = Gate_pending | Gate_matched | Gate_unmatched

text \<open>The inner loop: the first policy that matches decides, and the loop breaks.\<close>

fun policy_loop :: "string \<Rightarrow> match_finding \<Rightarrow> policy_rule list \<Rightarrow> bool" where
  "policy_loop action f [] = False"
| "policy_loop action f (p # ps) =
     (if \<not> matchesPolicyCondition (condition p) f then policy_loop action f ps
      else if action \<in> set (actions p) then True
      else False)"

fun finding_loop :: "string \<Rightarrow> ident set \<Rightarrow> policy_rule list \<Rightarrow> match_finding list \<Rightarrow> bool" where
  "finding_loop action suppressed ps [] = False"
| "finding_loop action suppressed ps (f # fs) =
     (if mf_id f \<in> suppressed then finding_loop action suppressed ps fs
      else if policy_loop action f ps then True
      else finding_loop action suppressed ps fs)"

definition ordered_policies :: "policy_rule list \<Rightarrow> policy_rule list" where
  "ordered_policies ps = sort_key priority (filter (\<lambda>p. enabled p \<noteq> Some False) ps)"

definition suppressed_ids :: "conclude_input \<Rightarrow> ident set" where
  "suppressed_ids i = set (case ci_suppressed i of None \<Rightarrow> [] | Some xs \<Rightarrow> xs)"

definition concludeByAction :: "conclude_input \<Rightarrow> string \<Rightarrow> gate" where
  "concludeByAction i action =
     (if ci_status i = ''queued'' \<or> ci_status i = ''running'' then Gate_pending
      else if (case ci_expected i of None \<Rightarrow> 0 | Some n \<Rightarrow> n) > 0 \<and> ci_findings i = [] then Gate_pending
      else if finding_loop action (suppressed_ids i) (ordered_policies (ci_policies i)) (ci_findings i)
      then Gate_matched else Gate_unmatched)"

datatype scan_conclusion = C_pending | C_passed | C_failed

datatype deploy_conclusion = D_pending | D_allowed | D_blocked

definition concludeScan :: "conclude_input \<Rightarrow> scan_conclusion" where
  "concludeScan i =
     (case concludeByAction i ''fail_build'' of
        Gate_pending \<Rightarrow> C_pending | Gate_matched \<Rightarrow> C_failed | Gate_unmatched \<Rightarrow> C_passed)"

definition concludeDeploy :: "conclude_input \<Rightarrow> deploy_conclusion" where
  "concludeDeploy i =
     (case concludeByAction i ''block_deploy'' of
        Gate_pending \<Rightarrow> D_pending | Gate_matched \<Rightarrow> D_blocked | Gate_unmatched \<Rightarrow> D_allowed)"


subsection \<open>What the gates decide\<close>

text \<open>The rule that decides a finding: among the enabled rules that match it, the one with the least
  priority number, the leftmost where numbers are equal.\<close>

definition applicable :: "policy_rule list \<Rightarrow> match_finding \<Rightarrow> policy_rule list" where
  "applicable ps f =
     filter (\<lambda>p. enabled p \<noteq> Some False \<and> matchesPolicyCondition (condition p) f) ps"

definition winning_rule :: "policy_rule list \<Rightarrow> match_finding \<Rightarrow> policy_rule \<Rightarrow> bool" where
  "winning_rule ps f p = (\<exists>i. leftmost_min priority (applicable ps f) i \<and> p = applicable ps f ! i)"

lemma winning_rule_unique: "winning_rule ps f p \<Longrightarrow> winning_rule ps f q \<Longrightarrow> p = q"
  by (auto simp: winning_rule_def dest: leftmost_min_unique)

lemma policy_loop_find:
  "policy_loop action f ps \<longleftrightarrow>
     (\<exists>p. find (\<lambda>p. matchesPolicyCondition (condition p) f) ps = Some p \<and> action \<in> set (actions p))"
  by (induction ps) auto

lemma find_ordered:
  "find (\<lambda>p. matchesPolicyCondition (condition p) f) (ordered_policies ps) = Some p
     \<longleftrightarrow> winning_rule ps f p"
  by (simp add: ordered_policies_def find_sort_key_min winning_rule_def applicable_def conj_commute)

lemma finding_loop_iff:
  "finding_loop action S ps fs \<longleftrightarrow> (\<exists>f \<in> set fs. mf_id f \<notin> S \<and> policy_loop action f ps)"
  by (induction fs) auto

lemma concludeByAction_matched:
  "concludeByAction i action = Gate_matched \<longleftrightarrow>
     ci_status i \<noteq> ''queued'' \<and> ci_status i \<noteq> ''running'' \<and>
     (\<exists>f \<in> set (ci_findings i). mf_id f \<notin> suppressed_ids i \<and>
        (\<exists>p. winning_rule (ci_policies i) f p \<and> action \<in> set (actions p)))"
  by (auto simp: concludeByAction_def finding_loop_iff policy_loop_find find_ordered)

lemma concludeByAction_pending:
  "concludeByAction i action = Gate_pending \<longleftrightarrow>
     ci_status i = ''queued'' \<or> ci_status i = ''running'' \<or>
     ((\<exists>n > 0. ci_expected i = Some n) \<and> ci_findings i = [])"
  by (auto simp: concludeByAction_def split: option.splits)

definition gate_condition :: "policy_condition" where
  "gate_condition = \<lparr>severityAtLeast = Some ''high'', minRiskScore = None, kevOnly = None, minEpss = None,
     requireFixAvailable = None, scannerTypes = None, assetKinds = None, assetTags = None,
     exposureIn = None, criticalityIn = None\<rparr>"

definition gate_finding :: "match_finding" where
  "gate_finding = \<lparr>mf_id = ''f1'', mf_severity = ''critical'', mf_riskScore = 90, mf_kev = True,
     mf_epssScore = None, mf_fixAvailable = True, mf_scannerType = ''sca'',
     mf_asset = \<lparr>a_kind = ''repository'', a_exposure = ''internal'', a_criticality = ''high'',
       a_tags = None\<rparr>\<rparr>"

definition gate_input :: "conclude_input" where
  "gate_input = \<lparr>ci_status = ''succeeded'', ci_findings = [gate_finding],
     ci_policies = [\<lparr>enabled = None, priority = 5, condition = gate_condition, actions = [''block_deploy'']\<rparr>,
       \<lparr>enabled = Some True, priority = 1, condition = gate_condition, actions = [''fail_build'']\<rparr>],
     ci_suppressed = None, ci_expected = Some 1\<rparr>"

text \<open>
  C3 (scan gate). For a scan that is neither queued nor running and whose findings are loaded,
  \<^verbatim>\<open>concludeScan\<close> fails the build exactly when some unsuppressed finding is decided by a rule that
  carries \<^verbatim>\<open>fail_build\<close>: the enabled matching rule of least priority number, leftmost among equals.
  \<^verbatim>\<open>concludeDeploy\<close> blocks exactly when such a rule carries \<^verbatim>\<open>block_deploy\<close>, and neither gate is
  pending.
\<close>

theorem gates_follow_first_match:
  assumes "ci_status i \<notin> {''queued'', ''running''}"
    and "ci_findings i = [] \<Longrightarrow> ci_expected i = None \<or> ci_expected i = Some 0"
  shows "(concludeScan i = C_failed \<longleftrightarrow>
            (\<exists>f \<in> set (ci_findings i). mf_id f \<notin> suppressed_ids i \<and>
               (\<exists>p. winning_rule (ci_policies i) f p \<and> ''fail_build'' \<in> set (actions p))))
       \<and> (concludeDeploy i = D_blocked \<longleftrightarrow>
            (\<exists>f \<in> set (ci_findings i). mf_id f \<notin> suppressed_ids i \<and>
               (\<exists>p. winning_rule (ci_policies i) f p \<and> ''block_deploy'' \<in> set (actions p))))
       \<and> concludeScan i \<noteq> C_pending \<and> concludeDeploy i \<noteq> D_pending"
proof -
  have p: "concludeByAction i a \<noteq> Gate_pending" for a
    using assms by (auto simp: concludeByAction_pending)
  have m: "concludeByAction i a = Gate_matched \<longleftrightarrow>
      (\<exists>f \<in> set (ci_findings i). mf_id f \<notin> suppressed_ids i \<and>
        (\<exists>p. winning_rule (ci_policies i) f p \<and> a \<in> set (actions p)))" for a
    using assms(1) by (simp add: concludeByAction_matched)
  show ?thesis
    using p by (simp add: concludeScan_def concludeDeploy_def split: gate.splits flip: m)
qed

theorem gates_follow_first_match_witness:
  "concludeScan gate_input \<noteq> C_pending \<and> concludeDeploy gate_input \<noteq> D_pending
     \<and> concludeScan gate_input = C_failed \<and> concludeDeploy gate_input = D_allowed"
proof -
  have p: "concludeScan gate_input \<noteq> C_pending \<and> concludeDeploy gate_input \<noteq> D_pending"
    using gates_follow_first_match[of gate_input] by (simp add: gate_input_def)
  have "concludeScan gate_input = C_failed \<and> concludeDeploy gate_input = D_allowed" by code_simp
  then show ?thesis using p by simp
qed


section \<open>Requests that a client may not shape (domain/policy.ts, domain/scan.ts)\<close>

definition TENANT_WEBHOOK_KEYS :: "string list" where
  "TENANT_WEBHOOK_KEYS =
     [''webhookUrl'', ''webhook'', ''url'', ''target'', ''hookUrl'', ''slackWebhook'', ''webhook_url'',
      ''jiraUrl'', ''jiraBaseUrl'', ''jiraHost'', ''atlassianUrl'', ''issueUrl'', ''jira_url'']"

text \<open>The three mutually recursive loops: a value, the elements of an array from an index on, the
  entries of an object.\<close>

fun findTenantWebhookKeys :: "json \<Rightarrow> string \<Rightarrow> string list"
and webhook_elems :: "json list \<Rightarrow> string \<Rightarrow> nat \<Rightarrow> string list"
and webhook_entries :: "(string \<times> json) list \<Rightarrow> string \<Rightarrow> string list" where
  "findTenantWebhookKeys (JArr xs) path = webhook_elems xs path 0"
| "findTenantWebhookKeys (JObj es) path = webhook_entries es path"
| "findTenantWebhookKeys _ path = []"
| "webhook_elems [] path i = []"
| "webhook_elems (x # xs) path i =
     findTenantWebhookKeys x (path @ ''['' @ string_of_nat i @ '']'') @ webhook_elems xs path (Suc i)"
| "webhook_entries [] path = []"
| "webhook_entries ((key, value) # es) path =
     (let here = (if path \<noteq> [] then path @ ''.'' @ key else key) in
      (if key \<in> set TENANT_WEBHOOK_KEYS then [here] else [])
        @ findTenantWebhookKeys value here @ webhook_entries es path)"

text \<open>The reference: a value that holds a field of the list at some depth.\<close>

inductive mentions_key :: "string set \<Rightarrow> json \<Rightarrow> bool" for K where
  here: "\<lbrakk>(k, v) \<in> set es; k \<in> K\<rbrakk> \<Longrightarrow> mentions_key K (JObj es)"
| field: "\<lbrakk>(k, v) \<in> set es; mentions_key K v\<rbrakk> \<Longrightarrow> mentions_key K (JObj es)"
| element: "\<lbrakk>x \<in> set xs; mentions_key K x\<rbrakk> \<Longrightarrow> mentions_key K (JArr xs)"

inductive_simps mentions_key_simps:
  "mentions_key K (JObj es)" "mentions_key K (JArr xs)" "mentions_key K JNull"
  "mentions_key K (JBool b)" "mentions_key K (JNum n)" "mentions_key K (JStr s)"

text \<open>
  No tenant webhook at any depth. \<^verbatim>\<open>findTenantWebhookKeys\<close> accepts a body, by an empty list of
  hits, exactly when no object inside it, at any depth and whatever the path prefix, has a field whose name is in
  \<^verbatim>\<open>TENANT_WEBHOOK_KEYS\<close>.
\<close>

theorem webhook_filter_complete:
  "findTenantWebhookKeys j path = [] \<longleftrightarrow> \<not> mentions_key (set TENANT_WEBHOOK_KEYS) j"
proof -
  have "(findTenantWebhookKeys j path = []) = (\<not> mentions_key (set TENANT_WEBHOOK_KEYS) j)"
    and "(webhook_elems xs path i = []) = (\<forall>x \<in> set xs. \<not> mentions_key (set TENANT_WEBHOOK_KEYS) x)"
    and "(webhook_entries es path = []) = (\<forall>(k, v) \<in> set es. k \<notin> set TENANT_WEBHOOK_KEYS
            \<and> \<not> mentions_key (set TENANT_WEBHOOK_KEYS) v)" for xs i es
    by (induction j path and xs path i and es path
          rule: findTenantWebhookKeys_webhook_elems_webhook_entries.induct)
       (auto simp: mentions_key_simps Let_def)
  then show ?thesis by simp
qed

definition CLIENT_CONCLUSION_KEYS :: "string list" where
  "CLIENT_CONCLUSION_KEYS =
     [''conclusion'', ''scanConclusion'', ''scan_conclusion'', ''checkConclusion'', ''check_conclusion'',
      ''githubCheck'', ''github_check'', ''deployConclusion'', ''deploy_conclusion'']"

definition findClientConclusionKeys :: "json \<Rightarrow> string list" where
  "findClientConclusionKeys input =
     (case input of
        JObj es \<Rightarrow>
          filter (\<lambda>k. k \<in> set CLIENT_CONCLUSION_KEYS) (map fst es) @
          (case json_get ''options'' input of
             Some (JObj os) \<Rightarrow>
               map (\<lambda>k. ''options.'' @ k) (filter (\<lambda>k. k \<in> set CLIENT_CONCLUSION_KEYS) (map fst os))
           | _ \<Rightarrow> [])
      | _ \<Rightarrow> [])"

text \<open>Assignment and \<^verbatim>\<open>delete\<close> on the entries of an object.\<close>

definition json_del :: "string \<Rightarrow> (string \<times> json) list \<Rightarrow> (string \<times> json) list" where
  "json_del k es = filter (\<lambda>(k', v). k' \<noteq> k) es"

fun json_put :: "string \<Rightarrow> json \<Rightarrow> (string \<times> json) list \<Rightarrow> (string \<times> json) list" where
  "json_put k v [] = [(k, v)]"
| "json_put k v ((k', v') # es) = (if k' = k then (k, v) # es else (k', v') # json_put k v es)"

definition aliasCiExternalId :: "json \<Rightarrow> json" where
  "aliasCiExternalId input =
     (case input of
        JObj record \<Rightarrow>
          (case map_of record ''external_id'' of
             None \<Rightarrow> JObj record
           | Some snake \<Rightarrow>
               (let record1 = json_del ''external_id'' record in
                case map_of record1 ''externalId'' of
                  None \<Rightarrow> JObj (json_put ''externalId'' snake record1)
                | Some camel \<Rightarrow>
                    if strict_neq camel snake
                    then JObj (json_put ''externalIdConflict'' (JBool True) (json_del ''externalId'' record1))
                    else JObj record1))
      | _ \<Rightarrow> input)"

lemma map_of_json_del [simp]: "map_of (json_del k es) = (map_of es)(k := None)"
  by (induction es) (auto simp: json_del_def)

lemma map_of_json_put [simp]: "map_of (json_put k v es) = (map_of es)(k \<mapsto> v)"
  by (induction k v es rule: json_put.induct) (auto simp: fun_eq_iff)

text \<open>
  One dedupe slot. After \<^verbatim>\<open>aliasCiExternalId\<close> an object has no \<^verbatim>\<open>external_id\<close>; two strings that
  agree, or one of them alone, leave exactly that string in \<^verbatim>\<open>externalId\<close>; two different strings
  leave no \<^verbatim>\<open>externalId\<close> and the conflict mark; every other field is untouched.
\<close>

theorem alias_external_id:
  "\<exists>es'. aliasCiExternalId (JObj es) = JObj es' \<and> map_of es' ''external_id'' = None
     \<and> (\<forall>s. map_of es ''external_id'' = Some (JStr s) \<and> map_of es ''externalId'' \<in> {None, Some (JStr s)}
          \<longrightarrow> map_of es' ''externalId'' = Some (JStr s))
     \<and> (map_of es ''external_id'' = None \<longrightarrow> es' = es)
     \<and> (\<forall>s t. map_of es ''external_id'' = Some (JStr s) \<and> map_of es ''externalId'' = Some (JStr t) \<and> s \<noteq> t
          \<longrightarrow> map_of es' ''externalId'' = None \<and> map_of es' ''externalIdConflict'' = Some (JBool True))
     \<and> (\<forall>k. k \<notin> {''external_id'', ''externalId'', ''externalIdConflict''} \<longrightarrow> map_of es' k = map_of es k)"
proof (cases "map_of es ''external_id''")
  case None
  then show ?thesis by (simp add: aliasCiExternalId_def)
next
  case snake: (Some s)
  show ?thesis
  proof (cases "map_of es ''externalId''")
    case None
    then show ?thesis using snake by (simp add: aliasCiExternalId_def)
  next
    case (Some c)
    then show ?thesis using snake
      by (cases "strict_neq c s") (simp_all add: aliasCiExternalId_def, auto simp: strict_neq_str)
  qed
qed

theorem alias_external_id_witness:
  "\<exists>es'. aliasCiExternalId (JObj [(''external_id'', JStr ''ci-7''), (''kind'', JStr ''sca'')]) = JObj es'
     \<and> map_of es' ''externalId'' = Some (JStr ''ci-7'')"
proof -
  define es where "es = [(''external_id'', JStr ''ci-7''), (''kind'', JStr ''sca'')]"
  have "map_of es ''external_id'' = Some (JStr ''ci-7'')" "map_of es ''externalId'' = None"
    by (simp_all add: es_def)
  then have "\<exists>es'. aliasCiExternalId (JObj es) = JObj es' \<and> map_of es' ''externalId'' = Some (JStr ''ci-7'')"
    using alias_external_id[of es] by (metis insertI1)
  then show ?thesis by (simp only: es_def)
qed

end
