(* ===== verification/ScanKick.thy ===== *)
theory ScanKick
imports Contracts
begin

text \<open>
  Accepting a scan in the orchestrator: the idempotency key (\<^verbatim>\<open>scans/scan-kick.ts\<close>), the planner
  that turns a selector into assets (\<^verbatim>\<open>scans/scan-planner.service.ts\<close>), and the transaction that
  inserts a scan, its jobs and its one \<^verbatim>\<open>scan.kick\<close> meter row
  (\<^verbatim>\<open>persistKick\<close> of \<^verbatim>\<open>scans/scan-dispatcher.service.ts\<close>), under concurrent transactions.

  A table is the list of its rows in insertion order. Row-level security makes a transaction of
  organisation \<open>org\<close> see the rows of \<open>org\<close> only, so every query filters by it. Identifiers that
  Postgres generates are arguments.
\<close>


section \<open>Rows\<close>

record asset_row =
  as_id :: ident
  as_org :: ident
  as_kind :: string
  as_externalKey :: string
  as_attributes :: json
  as_tags :: "(string \<times> string) list"
  as_integrationId :: "ident option"
  as_archivedAt :: "instant option"

record scan_row =
  s_id :: ident
  s_org :: ident
  s_scannerType :: string
  s_trigger :: string
  s_status :: string
  s_requestedBy :: "ident option"
  s_jobsTotal :: nat
  s_jobsCompleted :: nat
  s_startedAt :: "instant option"
  s_finishedAt :: "instant option"
  s_createdAt :: instant

record job_row =
  j_id :: ident
  j_org :: ident
  j_scanId :: ident
  j_assetId :: ident
  j_scannerType :: string
  j_status :: string
  j_attempt :: nat
  j_error :: "string option"
  j_startedAt :: "instant option"
  j_finishedAt :: "instant option"
  j_artifactKey :: "string option"
  j_findingCount :: nat

record kick_row =
  k_eventId :: ident
  k_org :: ident
  k_scanId :: ident
  k_source :: string
  k_scannerTypes :: "string list"
  k_occurredAt :: instant
  k_key :: "string option"

record scan_db =
  assets :: "asset_row list"
  scans :: "scan_row list"
  scan_jobs :: "job_row list"
  scan_kicks :: "kick_row list"
  integrations :: "(ident \<times> ident \<times> string option) list"
  idp_users :: "(string \<times> ident) list"

datatype api_error = Bad_request string | Server_error string | Unique_conflict | Not_found

type_synonym 'a attempt = "api_error + 'a"


section \<open>The idempotency key (scan-kick.ts)\<close>

definition SCAN_KICK_IDEMPOTENCY_KEY_MAX :: nat where
  "SCAN_KICK_IDEMPOTENCY_KEY_MAX = 255"

definition scanKickSource :: "string \<Rightarrow> string" where
  "scanKickSource trigger = (if trigger = ''scheduled'' then ''schedule'' else trigger)"

datatype header_value = No_header | One_header string | Many_headers "string list"

definition clean :: "string option \<Rightarrow> string option" where
  "clean value =
     (case value of
        None \<Rightarrow> None
      | Some v \<Rightarrow> (let trimmed = js_trim v in if trimmed \<noteq> [] then Some trimmed else None))"

fun firstHeader :: "header_value \<Rightarrow> string option" where
  "firstHeader (Many_headers vs) = clean (case vs of [] \<Rightarrow> None | v # _ \<Rightarrow> Some v)"
| "firstHeader (One_header v) = clean (Some v)"
| "firstHeader No_header = clean None"

definition resolveScanKickIdempotencyKey :: "header_value \<Rightarrow> string option \<Rightarrow> string option attempt" where
  "resolveScanKickIdempotencyKey header0 externalId0 =
     (let header = firstHeader header0; externalId = clean externalId0 in
      if header \<noteq> None \<and> externalId \<noteq> None \<and> header \<noteq> externalId
      then Inl (Bad_request ''Idempotency-Key and externalId disagree'')
      else
        (case (case header of Some h \<Rightarrow> Some h | None \<Rightarrow> externalId) of
           None \<Rightarrow> Inr None
         | Some key \<Rightarrow>
             if length key > SCAN_KICK_IDEMPOTENCY_KEY_MAX
             then Inl (Bad_request ''Idempotency-Key is too long'')
             else Inr (Some key)))"

lemma clean_nonempty: "clean v = Some k \<Longrightarrow> k \<noteq> []"
  by (auto simp: clean_def Let_def split: option.splits if_splits)

lemma firstHeader_nonempty: "firstHeader h = Some k \<Longrightarrow> k \<noteq> []"
  by (cases h) (auto dest: clean_nonempty)

text \<open>What the function promises: the one key both slots agree on, refused when they disagree or
  when it is too long.\<close>

lemma resolveScanKickIdempotencyKey_Inr:
  assumes "resolveScanKickIdempotencyKey h e = Inr (Some k)"
  shows "k \<noteq> [] \<and> length k \<le> 255 \<and> (firstHeader h = Some k \<or> clean e = Some k)
       \<and> firstHeader h \<in> {None, Some k} \<and> clean e \<in> {None, Some k}"
  using assms firstHeader_nonempty[of h k] clean_nonempty[of e k]
  by (auto simp: resolveScanKickIdempotencyKey_def SCAN_KICK_IDEMPOTENCY_KEY_MAX_def Let_def
        split: if_splits option.splits)

lemma resolveScanKickIdempotencyKey_None:
  "resolveScanKickIdempotencyKey h e = Inr None \<longleftrightarrow> firstHeader h = None \<and> clean e = None"
  by (simp add: resolveScanKickIdempotencyKey_def Let_def split: option.splits)


section \<open>The planner (scan-planner.service.ts)\<close>

definition SCANNER_ASSET_KINDS :: "string \<Rightarrow> string list" where
  "SCANNER_ASSET_KINDS t =
     (if t = ''sca'' then [''repository'', ''package'', ''container_image'']
      else if t = ''sast'' then [''repository'']
      else if t = ''container'' then [''container_image'']
      else if t = ''iac'' then [''repository'', ''iac_stack'']
      else if t = ''secrets'' then [''repository'']
      else if t = ''asm'' then [''domain'', ''ip_range'', ''web_application'', ''api_endpoint'', ''host'']
      else if t = ''cloud_posture'' then [''cloud_resource''] else [])"

record asset_selector =
  sel_assetIds :: "ident list option"
  sel_kinds :: "string list option"
  sel_tags :: "(string \<times> string) list option"

text \<open>\<^verbatim>\<open>list?.length\<close>.\<close>

definition nonempty_list :: "'a list option \<Rightarrow> bool" where
  "nonempty_list xs = (case xs of None \<Rightarrow> False | Some ys \<Rightarrow> ys \<noteq> [])"

text \<open>\<^verbatim>\<open>equals\<close> on two JSON objects: the same fields with the same values, in any order.\<close>

definition json_object_equals :: "(string \<times> string) list \<Rightarrow> (string \<times> string) list \<Rightarrow> bool" where
  "json_object_equals a b =
     (list_all (\<lambda>k. map_of a k = map_of b k) (map fst a) \<and> list_all (\<lambda>k. map_of a k = map_of b k) (map fst b))"

definition planned_kinds :: "string \<Rightarrow> asset_selector \<Rightarrow> string list" where
  "planned_kinds scannerType sel =
     (case sel_kinds sel of
        Some (k # ks) \<Rightarrow> filter (\<lambda>k. k \<in> set (SCANNER_ASSET_KINDS scannerType)) (k # ks)
      | _ \<Rightarrow> SCANNER_ASSET_KINDS scannerType)"

definition plan :: "scan_db \<Rightarrow> ident \<Rightarrow> string \<Rightarrow> asset_selector \<Rightarrow> asset_row list" where
  "plan db org scannerType sel =
     filter (\<lambda>a. as_org a = org \<and> as_archivedAt a = None
              \<and> as_kind a \<in> set (planned_kinds scannerType sel)
              \<and> (nonempty_list (sel_assetIds sel)
                   \<longrightarrow> as_id a \<in> set (case sel_assetIds sel of Some ids \<Rightarrow> ids | None \<Rightarrow> []))
              \<and> (case sel_tags sel of None \<Rightarrow> True | Some t \<Rightarrow> json_object_equals (as_tags a) t))
       (assets db)"

lemma json_object_equals_iff: "json_object_equals a b \<longleftrightarrow> map_of a = map_of b"
proof
  assume eq: "json_object_equals a b"
  show "map_of a = map_of b"
  proof
    fix k
    have "\<forall>k \<in> fst ` set a \<union> fst ` set b. map_of a k = map_of b k"
      using eq by (auto simp: json_object_equals_def list_all_iff)
    then show "map_of a k = map_of b k" by (metis UnCI map_of_eq_None_iff)
  qed
qed (simp add: json_object_equals_def list_all_iff)

definition pay_asset :: asset_row where
  "pay_asset = \<lparr>as_id = ''a1'', as_org = ''o1'', as_kind = ''repository'', as_externalKey = ''acme/pay'',
     as_attributes = JObj [], as_tags = [(''team'', ''payments''), (''env'', ''prod'')],
     as_integrationId = None, as_archivedAt = None\<rparr>"

definition empty_db :: scan_db where
  "empty_db = \<lparr>assets = [], scans = [], scan_jobs = [], scan_kicks = [], integrations = [], idp_users = []\<rparr>"

definition whole_surface :: asset_selector where
  "whole_surface = \<lparr>sel_assetIds = None, sel_kinds = None, sel_tags = None\<rparr>"

text \<open>
  Planning. Every planned asset is a live asset of the organisation, of a kind its scanner
  supports, and one the selector allows; with the empty selector every such asset is planned. The
  tag filter is equality of the whole tag object: an asset tagged \<^verbatim>\<open>team=payments, env=prod\<close> is not
  selected by the filter \<^verbatim>\<open>team=payments\<close>, although the comment promises containment.
\<close>

theorem plan_selects:
  "set (plan db org t sel) \<subseteq>
     {a. a \<in> set (assets db) \<and> as_org a = org \<and> as_archivedAt a = None
       \<and> as_kind a \<in> set (SCANNER_ASSET_KINDS t)
       \<and> (case sel_assetIds sel of Some (i # is) \<Rightarrow> as_id a \<in> set (i # is) | _ \<Rightarrow> True)
       \<and> (case sel_kinds sel of Some (k # ks) \<Rightarrow> as_kind a \<in> set (k # ks) | _ \<Rightarrow> True)
       \<and> (case sel_tags sel of Some tags \<Rightarrow> map_of (as_tags a) = map_of tags | _ \<Rightarrow> True)}
   \<and> set (plan db org t whole_surface) =
       {a \<in> set (assets db). as_org a = org \<and> as_archivedAt a = None \<and> as_kind a \<in> set (SCANNER_ASSET_KINDS t)}
   \<and> plan (empty_db\<lparr>assets := [pay_asset]\<rparr>) ''o1'' ''sast''
       (whole_surface\<lparr>sel_tags := Some [(''team'', ''payments'')]\<rparr>) = []"
proof (intro conjI)
  show "set (plan db org t sel) \<subseteq>
     {a. a \<in> set (assets db) \<and> as_org a = org \<and> as_archivedAt a = None
       \<and> as_kind a \<in> set (SCANNER_ASSET_KINDS t)
       \<and> (case sel_assetIds sel of Some (i # is) \<Rightarrow> as_id a \<in> set (i # is) | _ \<Rightarrow> True)
       \<and> (case sel_kinds sel of Some (k # ks) \<Rightarrow> as_kind a \<in> set (k # ks) | _ \<Rightarrow> True)
       \<and> (case sel_tags sel of Some tags \<Rightarrow> map_of (as_tags a) = map_of tags | _ \<Rightarrow> True)}"
    by (auto simp: plan_def planned_kinds_def nonempty_list_def json_object_equals_iff
        split: option.splits list.splits if_splits)
  show "set (plan db org t whole_surface) =
       {a \<in> set (assets db). as_org a = org \<and> as_archivedAt a = None \<and> as_kind a \<in> set (SCANNER_ASSET_KINDS t)}"
    by (auto simp: plan_def planned_kinds_def nonempty_list_def whole_surface_def)
  show "plan (empty_db\<lparr>assets := [pay_asset]\<rparr>) ''o1'' ''sast''
       (whole_surface\<lparr>sel_tags := Some [(''team'', ''payments'')]\<rparr>) = []"
    by code_simp
qed


section \<open>Accepting a kick (persistKick of scan-dispatcher.service.ts)\<close>

definition findIdempotentScan :: "scan_db \<Rightarrow> ident \<Rightarrow> string option \<Rightarrow> scan_row option attempt" where
  "findIdempotentScan tx org idempotencyKey =
     (if \<not> truthy idempotencyKey then Inr None
      else
        (case find (\<lambda>k. k_org k = org \<and> k_key k = idempotencyKey) (scan_kicks tx) of
           None \<Rightarrow> Inr None
         | Some kick \<Rightarrow>
             (case find (\<lambda>s. s_org s = org \<and> s_id s = k_scanId kick) (scans tx) of
                None \<Rightarrow> Inl (Server_error ''scan.kick is missing its scan'')
              | Some scan \<Rightarrow> Inr (Some scan))))"

text \<open>The arguments of \<^verbatim>\<open>persistKick\<close>; \<open>pk_scanId\<close> and \<open>pk_jobId\<close> are the identifiers the database
  generates for the scan and for the job of an asset.\<close>

record kick_args =
  pk_org :: ident
  pk_scannerType :: string
  pk_trigger :: string
  pk_assets :: "asset_row list"
  pk_requestedBy :: "ident option"
  pk_key :: "string option"
  pk_occurredAt :: instant
  pk_scanId :: ident
  pk_jobId :: "ident \<Rightarrow> ident"

definition created_scan :: "kick_args \<Rightarrow> scan_row" where
  "created_scan a =
     \<lparr>s_id = pk_scanId a, s_org = pk_org a, s_scannerType = pk_scannerType a, s_trigger = pk_trigger a,
      s_status = (if pk_assets a \<noteq> [] then ''running'' else ''succeeded''),
      s_requestedBy = pk_requestedBy a, s_jobsTotal = length (pk_assets a), s_jobsCompleted = 0,
      s_startedAt = Some (pk_occurredAt a),
      s_finishedAt = (if pk_assets a \<noteq> [] then None else Some (pk_occurredAt a)),
      s_createdAt = pk_occurredAt a\<rparr>"

definition created_job :: "kick_args \<Rightarrow> asset_row \<Rightarrow> job_row" where
  "created_job a asset =
     \<lparr>j_id = pk_jobId a (as_id asset), j_org = pk_org a, j_scanId = pk_scanId a, j_assetId = as_id asset,
      j_scannerType = pk_scannerType a, j_status = ''queued'', j_attempt = 1, j_error = None,
      j_startedAt = None, j_finishedAt = None, j_artifactKey = None, j_findingCount = 0\<rparr>"

definition created_kick :: "kick_args \<Rightarrow> kick_row" where
  "created_kick a =
     \<lparr>k_eventId = pk_scanId a, k_org = pk_org a, k_scanId = pk_scanId a,
      k_source = scanKickSource (pk_trigger a), k_scannerTypes = [pk_scannerType a],
      k_occurredAt = pk_occurredAt a, k_key = pk_key a\<rparr>"

lemma created_scan_sel [simp]:
  "s_id (created_scan a) = pk_scanId a" "s_org (created_scan a) = pk_org a"
  by (simp_all add: created_scan_def)

text \<open>The unique indexes the transaction meets: the primary keys of scans and kicks,
  \<^verbatim>\<open>scanId\<close>, and \<^verbatim>\<open>@@unique([orgId, idempotencyKey])\<close>, where NULL never collides.\<close>

definition unique_conflict :: "scan_db \<Rightarrow> kick_args \<Rightarrow> bool" where
  "unique_conflict db a =
     (list_ex (\<lambda>s. s_id s = pk_scanId a) (scans db) \<or>
      list_ex (\<lambda>k. k_eventId k = pk_scanId a \<or> k_scanId k = pk_scanId a
                 \<or> (k_org k = pk_org a \<and> k_key k \<noteq> None \<and> k_key k = pk_key a)) (scan_kicks db))"

definition insert_kick :: "kick_args \<Rightarrow> scan_db \<Rightarrow> scan_db" where
  "insert_kick a db =
     db\<lparr>scans := scans db @ [created_scan a],
        scan_jobs := scan_jobs db @ map (created_job a) (pk_assets a),
        scan_kicks := scan_kicks db @ [created_kick a]\<rparr>"

text \<open>
  The transaction reads the tables as some committed state \<open>snap\<close> and commits on the current state
  \<open>db\<close>, which other transactions may have moved on. A conflict rolls the scan, its jobs and the
  kick back together.
\<close>

definition kick_tx :: "kick_args \<Rightarrow> scan_db \<Rightarrow> scan_db \<Rightarrow> (scan_row \<times> bool) attempt \<times> scan_db" where
  "kick_tx a snap db =
     (case findIdempotentScan snap (pk_org a) (pk_key a) of
        Inl e \<Rightarrow> (Inl e, db)
      | Inr (Some existing) \<Rightarrow> (Inr (existing, True), db)
      | Inr None \<Rightarrow>
          if unique_conflict db a then (Inl Unique_conflict, db)
          else (Inr (created_scan a, False), insert_kick a db))"

definition persistKick :: "kick_args \<Rightarrow> scan_db \<Rightarrow> scan_db \<Rightarrow> (scan_row \<times> bool) attempt \<times> scan_db" where
  "persistKick a snap db =
     (case kick_tx a snap db of
        (Inr r, db') \<Rightarrow> (Inr r, db')
      | (Inl err, db') \<Rightarrow>
          if \<not> truthy (pk_key a) \<or> err \<noteq> Unique_conflict then (Inl err, db')
          else
            (case findIdempotentScan db' (pk_org a) (pk_key a) of
               Inl e \<Rightarrow> (Inl e, db')
             | Inr None \<Rightarrow> (Inl err, db')
             | Inr (Some existing) \<Rightarrow> (Inr (existing, True), db')))"

text \<open>
  Concurrent accepts: the committed states so far, the newest first, and for each transaction the
  state it read, by its age.
\<close>

fun accept_all :: "scan_db list \<Rightarrow> (nat \<times> kick_args) list \<Rightarrow> (scan_row \<times> bool) attempt list \<times> scan_db list" where
  "accept_all h [] = ([], h)"
| "accept_all h ((age, a) # rs) =
     (let (r, db) = persistKick a (h ! (min age (length h - 1))) (hd h);
          (out, h') = accept_all (db # h) rs
      in (r # out, h'))"


subsection \<open>One kick per accepted scan and per key\<close>

definition key_of :: "kick_row \<Rightarrow> (ident \<times> string) option" where
  "key_of k = map_option (Pair (k_org k)) (k_key k)"

definition kicks_wf :: "scan_db \<Rightarrow> bool" where
  "kicks_wf db \<longleftrightarrow>
     (\<forall>k \<in> set (scan_kicks db). k_eventId k = k_scanId k \<and>
        (\<exists>s \<in> set (scans db). s_id s = k_scanId k \<and> s_org s = k_org k)) \<and>
     distinct (map k_scanId (scan_kicks db)) \<and>
     (\<forall>k \<in> set (scan_kicks db). \<forall>k' \<in> set (scan_kicks db). key_of k = key_of k' \<and> key_of k \<noteq> None \<longrightarrow> k = k') \<and>
     distinct (map s_id (scans db))"

definition grows :: "scan_db \<Rightarrow> scan_db \<Rightarrow> bool" where
  "grows old new \<longleftrightarrow> prefix (scan_kicks old) (scan_kicks new) \<and> prefix (scans old) (scans new)"

text \<open>A history: every committed state is well formed and a prefix of the newest.\<close>

definition history_ok :: "scan_db list \<Rightarrow> bool" where
  "history_ok h \<longleftrightarrow> h \<noteq> [] \<and> (\<forall>old \<in> set h. kicks_wf old \<and> grows old (hd h))"

text \<open>The scan an accept with this key must return, once a kick carries the key.\<close>

definition scan_for_key :: "scan_db \<Rightarrow> ident \<Rightarrow> string \<Rightarrow> ident \<Rightarrow> bool" where
  "scan_for_key db org key sid \<longleftrightarrow>
     (\<exists>k \<in> set (scan_kicks db). k_org k = org \<and> k_key k = Some key \<and> k_scanId k = sid)"

lemma scan_for_key_unique:
  "\<lbrakk>kicks_wf db; scan_for_key db org key s; scan_for_key db org key s'\<rbrakk> \<Longrightarrow> s = s'"
  unfolding kicks_wf_def scan_for_key_def key_of_def by (metis option.distinct(1) option.simps(9))

lemma scan_for_key_grows:
  "\<lbrakk>grows old new; scan_for_key old org key s\<rbrakk> \<Longrightarrow> scan_for_key new org key s"
  by (auto simp: grows_def scan_for_key_def dest: set_mono_prefix)

lemma findIdempotentScan_cases:
  assumes "kicks_wf db" and "key \<noteq> []"
  shows "(\<exists>s. findIdempotentScan db org (Some key) = Inr (Some s) \<and> s \<in> set (scans db) \<and> s_org s = org
            \<and> scan_for_key db org key (s_id s))
       \<or> (findIdempotentScan db org (Some key) = Inr None \<and> (\<forall>s. \<not> scan_for_key db org key s))"
proof (cases "find (\<lambda>k. k_org k = org \<and> k_key k = Some key) (scan_kicks db)")
  case None
  then have "\<forall>s. \<not> scan_for_key db org key s" by (auto simp: scan_for_key_def find_None_iff)
  then show ?thesis using None assms(2) by (simp add: findIdempotentScan_def truthy_def)
next
  case (Some k)
  then have k: "k \<in> set (scan_kicks db)" "k_org k = org" "k_key k = Some key"
    by (auto simp: find_Some_iff)
  then obtain s where "s \<in> set (scans db)" "s_id s = k_scanId k" "s_org s = org"
    using assms(1) by (auto simp: kicks_wf_def)
  then obtain s' where s': "find (\<lambda>s. s_org s = org \<and> s_id s = k_scanId k) (scans db) = Some s'"
    by (cases "find (\<lambda>s. s_org s = org \<and> s_id s = k_scanId k) (scans db)") (auto simp: find_None_iff)
  then have "s' \<in> set (scans db)" "s_org s' = org" "s_id s' = k_scanId k" by (auto simp: find_Some_iff)
  then show ?thesis using Some s' k assms(2)
    by (auto simp: findIdempotentScan_def truthy_def scan_for_key_def)
qed

definition fresh_for :: "scan_db \<Rightarrow> kick_args \<Rightarrow> bool" where
  "fresh_for db a \<longleftrightarrow> pk_scanId a \<notin> s_id ` set (scans db) \<and> pk_key a \<noteq> Some []"

lemma fresh_scan_id:
  assumes "kicks_wf db" and "fresh_for db a"
  shows "pk_scanId a \<notin> s_id ` set (scans db)" and "k \<in> set (scan_kicks db) \<Longrightarrow> k_scanId k \<noteq> pk_scanId a"
    and "k \<in> set (scan_kicks db) \<Longrightarrow> k_eventId k \<noteq> pk_scanId a"
  using assms by (force simp: kicks_wf_def fresh_for_def)+

text \<open>A fresh scan conflicts on the key only.\<close>

lemma fresh_conflict:
  assumes "kicks_wf db" and "fresh_for db a"
  shows "unique_conflict db a \<longleftrightarrow> (\<exists>k s. pk_key a = Some k \<and> scan_for_key db (pk_org a) k s)"
proof -
  have "unique_conflict db a \<longleftrightarrow>
      (\<exists>k \<in> set (scan_kicks db). k_org k = pk_org a \<and> k_key k \<noteq> None \<and> k_key k = pk_key a)"
    using fresh_scan_id[OF assms] by (force simp: unique_conflict_def list_ex_iff)
  then show ?thesis by (cases "pk_key a") (auto simp: scan_for_key_def)
qed

lemma insert_kick_wf:
  assumes wf: "kicks_wf db" and fresh: "fresh_for db a" and nc: "\<not> unique_conflict db a"
  shows "kicks_wf (insert_kick a db)" and "grows db (insert_kick a db)"
    and "pk_key a = Some k \<Longrightarrow> scan_for_key (insert_kick a db) (pk_org a) k (pk_scanId a)"
proof -
  have new: "pk_scanId a \<notin> k_scanId ` set (scan_kicks db)"
    using fresh_scan_id(2)[OF wf fresh] by force
  have nk: "key_of k \<noteq> key_of (created_kick a) \<or> key_of k = None" if "k \<in> set (scan_kicks db)" for k
    using nc that
    by (cases "k_key k"; cases "pk_key a") (auto simp: unique_conflict_def list_ex_iff key_of_def created_kick_def)
  have "\<forall>k \<in> set (scan_kicks (insert_kick a db)). k_eventId k = k_scanId k \<and>
      (\<exists>s \<in> set (scans (insert_kick a db)). s_id s = k_scanId k \<and> s_org s = k_org k)"
    using wf by (auto simp: kicks_wf_def insert_kick_def created_kick_def created_scan_def)
  moreover have "\<forall>k \<in> set (scan_kicks (insert_kick a db)). \<forall>k' \<in> set (scan_kicks (insert_kick a db)).
      key_of k = key_of k' \<and> key_of k \<noteq> None \<longrightarrow> k = k'"
    using wf nk by (auto simp: kicks_wf_def insert_kick_def dest: sym)
  ultimately show "kicks_wf (insert_kick a db)"
    using wf fresh new
    by (auto simp: kicks_wf_def insert_kick_def created_kick_def created_scan_def fresh_for_def)
  show "grows db (insert_kick a db)" by (simp add: grows_def insert_kick_def)
  show "pk_key a = Some k \<Longrightarrow> scan_for_key (insert_kick a db) (pk_org a) k (pk_scanId a)"
    by (simp add: scan_for_key_def insert_kick_def created_kick_def)
qed

text \<open>What one accept guarantees, whatever committed state it read.\<close>

definition accept_ok :: "scan_db \<Rightarrow> kick_args \<Rightarrow> (scan_row \<times> bool) attempt \<Rightarrow> scan_db \<Rightarrow> bool" where
  "accept_ok db a r db' \<longleftrightarrow>
     (\<exists>scan replay. r = Inr (scan, replay) \<and> s_org scan = pk_org a
        \<and> (if replay then db' = db else scan = created_scan a \<and> db' = insert_kick a db)
        \<and> (pk_key a = None \<longrightarrow> \<not> replay)
        \<and> (\<forall>k. pk_key a = Some k \<longrightarrow> scan_for_key db' (pk_org a) k (s_id scan)))"

lemma persistKick_accepts:
  assumes h: "history_ok h" and snap: "snap \<in> set h" and fresh: "fresh_for (hd h) a"
    and p: "persistKick a snap (hd h) = (r, db')"
  shows "accept_ok (hd h) a r db'" and "kicks_wf db'" and "grows (hd h) db'"
proof -
  let ?db = "hd h"
  have wf: "kicks_wf ?db" "kicks_wf snap" and gr: "grows snap ?db"
    using h snap by (auto simp: history_ok_def)
  have "accept_ok ?db a r db' \<and> kicks_wf db' \<and> grows ?db db'"
  proof (cases "pk_key a")
    case None
    have nc: "\<not> unique_conflict ?db a"
      using fresh_conflict[OF wf(1) fresh] None by simp
    then have "r = Inr (created_scan a, False) \<and> db' = insert_kick a ?db"
      using p None by (auto simp: persistKick_def kick_tx_def findIdempotentScan_def truthy_def)
    then show ?thesis using insert_kick_wf[OF wf(1) fresh nc] None
      by (auto simp: accept_ok_def)
  next
    case (Some k)
    have ne: "k \<noteq> []" using fresh Some by (auto simp: fresh_for_def)
    consider (hit) s where "findIdempotentScan snap (pk_org a) (Some k) = Inr (Some s)"
        "s_org s = pk_org a" "scan_for_key snap (pk_org a) k (s_id s)"
      | (miss) "findIdempotentScan snap (pk_org a) (Some k) = Inr None"
      using findIdempotentScan_cases[OF wf(2) ne] by blast
    then show ?thesis
    proof cases
      case hit
      then have "r = Inr (s, True) \<and> db' = ?db" using p Some by (simp add: persistKick_def kick_tx_def)
      then show ?thesis using hit gr wf Some
        by (auto simp: accept_ok_def grows_def[of ?db ?db] intro: scan_for_key_grows)
    next
      case miss
      show ?thesis
      proof (cases "unique_conflict ?db a")
        case False
        then have "r = Inr (created_scan a, False) \<and> db' = insert_kick a ?db"
          using p miss Some by (simp add: persistKick_def kick_tx_def)
        then show ?thesis using insert_kick_wf[OF wf(1) fresh False] Some
          by (auto simp: accept_ok_def)
      next
        case True
        then obtain s0 where "scan_for_key ?db (pk_org a) k s0"
          using fresh_conflict[OF wf(1) fresh] Some by auto
        then obtain s where s: "findIdempotentScan ?db (pk_org a) (Some k) = Inr (Some s)"
            "s_org s = pk_org a" "scan_for_key ?db (pk_org a) k (s_id s)"
          using findIdempotentScan_cases[OF wf(1) ne, of "pk_org a"] by blast
        have "r = Inr (s, True) \<and> db' = ?db"
          using p miss True s Some ne by (simp add: persistKick_def kick_tx_def truthy_def)
        then show ?thesis using s wf Some by (auto simp: accept_ok_def grows_def)
      qed
    qed
  qed
  then show "accept_ok ?db a r db'" "kicks_wf db'" "grows ?db db'" by auto
qed

lemma history_extend:
  assumes "history_ok h" and "kicks_wf db'" and "grows (hd h) db'"
  shows "history_ok (db' # h)"
  using assms unfolding history_ok_def grows_def
  by (auto intro: prefix_order.trans)

text \<open>Fresh identifiers for a batch of accepts.\<close>

definition batch_fresh :: "scan_db \<Rightarrow> (nat \<times> kick_args) list \<Rightarrow> bool" where
  "batch_fresh db rs \<longleftrightarrow> distinct (map (pk_scanId \<circ> snd) rs) \<and> (\<forall>(age, a) \<in> set rs. fresh_for db a)"

lemma batch_fresh_Cons:
  assumes b: "batch_fresh db ((age, a) # rs)" and ok: "accept_ok db a r db'"
  shows "fresh_for db a" and "batch_fresh db' rs"
proof -
  show "fresh_for db a" using b by (simp add: batch_fresh_def)
  have ids: "s_id ` set (scans db') \<subseteq> insert (pk_scanId a) (s_id ` set (scans db))"
    using ok by (auto simp: accept_ok_def insert_kick_def split: if_splits)
  have "fresh_for db' x" if x: "(i, x) \<in> set rs" for i x
  proof -
    have "pk_scanId x \<noteq> pk_scanId a" using b x by (force simp: batch_fresh_def)
    moreover have "fresh_for db x" using b x by (auto simp: batch_fresh_def)
    ultimately show ?thesis using ids by (auto simp: fresh_for_def)
  qed
  then show "batch_fresh db' rs" using b by (auto simp: batch_fresh_def)
qed

definition accepted_new :: "(scan_row \<times> bool) attempt \<Rightarrow> bool" where
  "accepted_new r = (case r of Inr (s, replay) \<Rightarrow> \<not> replay | Inl e \<Rightarrow> False)"

text \<open>What a caller was told, against the final state.\<close>

fun settled :: "scan_db \<Rightarrow> nat \<times> kick_args \<Rightarrow> (scan_row \<times> bool) attempt \<Rightarrow> bool" where
  "settled db (age, a) (Inl e) = False"
| "settled db (age, a) (Inr (s, replay)) =
     (s_org s = pk_org a \<and> (if replay then pk_key a \<noteq> None else s_id s = pk_scanId a)
      \<and> (\<forall>k. pk_key a = Some k \<longrightarrow> scan_for_key db (pk_org a) k (s_id s)))"

lemma accept_ok_settled:
  assumes "accept_ok db a r db'" and "grows db' final"
  shows "settled final (age, a) r"
  using assms(1) scan_for_key_grows[OF assms(2)] by (auto simp: accept_ok_def split: if_splits)

lemma accept_ok_count:
  assumes "accept_ok db a r db'"
  shows "length (scan_kicks db') = length (scan_kicks db) + (if accepted_new r then 1 else 0)"
    and "length (scans db') = length (scans db) + (if accepted_new r then 1 else 0)"
  using assms by (auto simp: accept_ok_def accepted_new_def insert_kick_def split: if_splits)

lemma accept_all_correct:
  assumes "history_ok h" and "batch_fresh (hd h) rs" and "accept_all h rs = (out, h')"
  shows "history_ok h' \<and> grows (hd h) (hd h') \<and> list_all2 (settled (hd h')) rs out
    \<and> length (scan_kicks (hd h')) = length (scan_kicks (hd h)) + length (filter accepted_new out)
    \<and> length (scans (hd h')) = length (scans (hd h)) + length (filter accepted_new out)"
  using assms
proof (induction h rs arbitrary: out h' rule: accept_all.induct)
  case (1 h)
  then show ?case by (simp add: grows_def)
next
  case (2 h age a rs)
  obtain r db where p: "persistKick a (h ! min age (length h - 1)) (hd h) = (r, db)" by fastforce
  obtain out1 where o: "accept_all (db # h) rs = (out1, h')" "out = r # out1"
    using 2(4) p by (auto simp: Let_def split: prod.splits)
  have "h ! min age (length h - 1) \<in> set h"
    using 2(2) by (intro nth_mem) (cases h; simp add: history_ok_def)
  moreover have "fresh_for (hd h) a" using 2(3) by (auto simp: batch_fresh_def)
  ultimately have ok: "accept_ok (hd h) a r db" "kicks_wf db" "grows (hd h) db"
    using persistKick_accepts[OF 2(2) _ _ p] by blast+
  have IH: "history_ok h' \<and> grows db (hd h') \<and> list_all2 (settled (hd h')) rs out1
    \<and> length (scan_kicks (hd h')) = length (scan_kicks db) + length (filter accepted_new out1)
    \<and> length (scans (hd h')) = length (scans db) + length (filter accepted_new out1)"
    using 2(1)[OF p[symmetric] refl] history_extend[OF 2(2) ok(2,3)] batch_fresh_Cons(2)[OF 2(3) ok(1)] o(1)
    by simp
  have "grows (hd h) (hd h')" using ok(3) IH by (auto simp: grows_def intro: prefix_order.trans)
  moreover have "settled (hd h') (age, a) r" using accept_ok_settled[OF ok(1)] IH by blast
  ultimately show ?case using IH o(2) accept_ok_count[OF ok(1)] by simp
qed

definition retried :: "ident \<Rightarrow> kick_args" where
  "retried sid = \<lparr>pk_org = ''o1'', pk_scannerType = ''sast'', pk_trigger = ''ci'', pk_assets = [pay_asset],
     pk_requestedBy = None, pk_key = Some ''ci-7'', pk_occurredAt = 1000, pk_scanId = sid,
     pk_jobId = (\<lambda>a. ''job-'' @ a)\<rparr>"

text \<open>
  C1 (one kick per accepted scan and per client key). Accepts run as concurrent transactions, each
  reading any earlier committed state and committing on the newest. Every accept answers, none with
  an error; two accepts of one organisation with the same key are told the same scan, and at most
  one of them is not a replay; an accept without a key is never a replay; and the batch adds exactly
  as many meter rows as scans, one for each accept that was not a replay.
\<close>

theorem kicks_are_idempotent:
  assumes h: "history_ok h" and fresh: "batch_fresh (hd h) rs" and run: "accept_all h rs = (out, h')"
  shows "length out = length rs
    \<and> (\<forall>i < length rs. \<exists>s replay. out ! i = Inr (s, replay) \<and> (pk_key (snd (rs ! i)) = None \<longrightarrow> \<not> replay))
    \<and> (\<forall>i < length rs. \<forall>j < length rs. \<forall>s b s' b'.
          pk_org (snd (rs ! i)) = pk_org (snd (rs ! j)) \<and> pk_key (snd (rs ! i)) = pk_key (snd (rs ! j))
          \<and> pk_key (snd (rs ! i)) \<noteq> None \<and> out ! i = Inr (s, b) \<and> out ! j = Inr (s', b')
          \<longrightarrow> s_id s = s_id s' \<and> (\<not> b \<and> \<not> b' \<longrightarrow> i = j))
    \<and> length (scan_kicks (hd h')) - length (scan_kicks (hd h)) = length (filter accepted_new out)
    \<and> length (scans (hd h')) - length (scans (hd h)) = length (filter accepted_new out)"
proof -
  note c = accept_all_correct[OF h fresh run]
  have wf: "kicks_wf (hd h')" using c by (auto simp: history_ok_def)
  have len: "length out = length rs" using c by (auto dest: list_all2_lengthD)
  have st: "settled (hd h') (rs ! i) (out ! i)" if "i < length rs" for i
    using c that by (auto simp: list_all2_conv_all_nth)
  have one: "\<exists>s replay. out ! i = Inr (s, replay) \<and> (pk_key (snd (rs ! i)) = None \<longrightarrow> \<not> replay)"
    if "i < length rs" for i
    using st[OF that] by (cases "rs ! i"; cases "out ! i") auto
  have two: "s_id s = s_id s' \<and> (\<not> b \<and> \<not> b' \<longrightarrow> i = j)"
    if ij: "i < length rs" "j < length rs" "pk_org (snd (rs ! i)) = pk_org (snd (rs ! j))"
      "pk_key (snd (rs ! i)) = pk_key (snd (rs ! j))" "pk_key (snd (rs ! i)) \<noteq> None"
      "out ! i = Inr (s, b)" "out ! j = Inr (s', b')" for i j s b s' b'
  proof -
    obtain k where k: "pk_key (snd (rs ! i)) = Some k" using ij(5) by blast
    have "scan_for_key (hd h') (pk_org (snd (rs ! i))) k (s_id s)"
      "scan_for_key (hd h') (pk_org (snd (rs ! i))) k (s_id s')"
      using st[OF ij(1)] st[OF ij(2)] k ij by (cases "rs ! i"; cases "rs ! j"; simp)+
    then have eq: "s_id s = s_id s'" using scan_for_key_unique[OF wf] by blast
    have "i = j" if "\<not> b" "\<not> b'"
    proof -
      have "pk_scanId (snd (rs ! i)) = pk_scanId (snd (rs ! j))"
        using st[OF ij(1)] st[OF ij(2)] ij that eq by (cases "rs ! i"; cases "rs ! j") simp
      then show ?thesis using fresh ij(1,2)
        by (simp add: batch_fresh_def distinct_conv_nth) (metis comp_apply)
    qed
    then show ?thesis using eq by blast
  qed
  show ?thesis
  proof (intro conjI)
    show "\<forall>i < length rs. \<exists>s replay. out ! i = Inr (s, replay)
        \<and> (pk_key (snd (rs ! i)) = None \<longrightarrow> \<not> replay)"
      using one by blast
    show "\<forall>i < length rs. \<forall>j < length rs. \<forall>s b s' b'.
          pk_org (snd (rs ! i)) = pk_org (snd (rs ! j)) \<and> pk_key (snd (rs ! i)) = pk_key (snd (rs ! j))
          \<and> pk_key (snd (rs ! i)) \<noteq> None \<and> out ! i = Inr (s, b) \<and> out ! j = Inr (s', b')
          \<longrightarrow> s_id s = s_id s' \<and> (\<not> b \<and> \<not> b' \<longrightarrow> i = j)"
      by (intro allI impI, elim conjE) (rule two; assumption)
  qed (use len c in simp_all)
qed

theorem kicks_are_idempotent_witness:
  "length (filter accepted_new (fst (accept_all [empty_db] [(0, retried ''s1''), (1, retried ''s2'')]))) = 1"
proof -
  obtain out h' where run: "accept_all [empty_db] [(0, retried ''s1''), (1, retried ''s2'')] = (out, h')"
    by fastforce
  have "history_ok [empty_db]" by (simp add: history_ok_def kicks_wf_def grows_def empty_db_def)
  moreover have "batch_fresh (hd [empty_db]) [(0, retried ''s1''), (1, retried ''s2'')]"
    by (simp add: batch_fresh_def fresh_for_def empty_db_def retried_def)
  ultimately have "length (filter accepted_new out) = length (scans (hd h')) - length (scans empty_db)"
    using kicks_are_idempotent[OF _ _ run] by simp
  moreover have "length (scans (hd (snd (accept_all [empty_db] [(0, retried ''s1''), (1, retried ''s2'')])))) = 1"
    by code_simp
  ultimately show ?thesis using run by (simp add: empty_db_def)
qed

end
