(* ===== verification/ScanLifecycle.thy ===== *)
theory ScanLifecycle
imports ScanKick
begin

text \<open>
  What happens to an accepted scan: its jobs are published or failed closed
  (\<^verbatim>\<open>scans/scan-dispatcher.service.ts\<close>), their results are counted and the scan is closed
  (\<^verbatim>\<open>scans/scan-lifecycle.consumer.ts\<close>).

  A transaction is a function from the tables to an error, which rolls it back, or an answer and
  the new tables. What can fail outside the code is an argument of the environment \<open>dispatch_env\<close>:
  which job the bus refuses, which read or write after the accept the database refuses.
\<close>


section \<open>Closing a scan\<close>

definition update_job :: "ident \<Rightarrow> ident \<Rightarrow> (job_row \<Rightarrow> job_row) \<Rightarrow> scan_db \<Rightarrow> scan_db attempt" where
  "update_job org jobId f db =
     (if list_ex (\<lambda>j. j_org j = org \<and> j_id j = jobId) (scan_jobs db)
      then Inr (db\<lparr>scan_jobs := map (\<lambda>j. if j_org j = org \<and> j_id j = jobId then f j else j) (scan_jobs db)\<rparr>)
      else Inl Not_found)"

definition update_scan :: "ident \<Rightarrow> ident \<Rightarrow> (scan_row \<Rightarrow> scan_row) \<Rightarrow> scan_db \<Rightarrow> (scan_row \<times> scan_db) attempt" where
  "update_scan org scanId f db =
     (case find (\<lambda>s. s_org s = org \<and> s_id s = scanId) (scans db) of
        None \<Rightarrow> Inl Not_found
      | Some s \<Rightarrow>
          Inr (f s, db\<lparr>scans := map (\<lambda>s. if s_org s = org \<and> s_id s = scanId then f s else s) (scans db)\<rparr>))"

definition failed_jobs :: "ident \<Rightarrow> ident \<Rightarrow> scan_db \<Rightarrow> nat" where
  "failed_jobs org scanId db =
     length (filter (\<lambda>j. j_org j = org \<and> j_scanId j = scanId \<and> j_status j = ''failed'') (scan_jobs db))"

definition final_status :: "nat \<Rightarrow> nat \<Rightarrow> string" where
  "final_status failed jobs =
     (if failed = 0 then ''succeeded'' else if failed = jobs then ''failed'' else ''partial'')"

text \<open>The close-out both the dispatcher and the consumer contain: count one more job, and when every
  job is counted, set the final status.\<close>

definition close_out :: "instant \<Rightarrow> ident \<Rightarrow> ident \<Rightarrow> scan_db \<Rightarrow> (scan_row option \<times> scan_db) attempt" where
  "close_out now org scanId db =
     (case update_scan org scanId (\<lambda>s. s\<lparr>s_jobsCompleted := s_jobsCompleted s + 1\<rparr>) db of
        Inl e \<Rightarrow> Inl e
      | Inr (updated, db1) \<Rightarrow>
          if s_jobsCompleted updated < s_jobsTotal updated then Inr (None, db1)
          else
            (let failed = failed_jobs org scanId db1 in
             case update_scan org scanId
                    (\<lambda>s. s\<lparr>s_status := final_status failed (s_jobsTotal updated),
                          s_finishedAt := Some now\<rparr>) db1 of
               Inl e \<Rightarrow> Inl e
             | Inr (finished, db2) \<Rightarrow> Inr (Some finished, db2)))"

definition failDispatch :: "instant \<Rightarrow> ident \<Rightarrow> job_row \<Rightarrow> string \<Rightarrow> scan_db \<Rightarrow> scan_db attempt" where
  "failDispatch now org job message db =
     (case update_job org (j_id job)
             (\<lambda>j. j\<lparr>j_status := ''failed'', j_error := Some message,
                   j_startedAt := Some now, j_finishedAt := Some now\<rparr>) db of
        Inl e \<Rightarrow> Inl e
      | Inr db1 \<Rightarrow> map_sum id snd (close_out now org (j_scanId job) db1))"

record job_result =
  r_jobId :: ident
  r_scanId :: ident
  r_org :: ident
  r_status :: string
  r_startedAt :: instant
  r_finishedAt :: instant
  r_artifactKey :: "string option"
  r_findingCount :: nat
  r_error :: "string option"

definition result_tx :: "instant \<Rightarrow> job_result \<Rightarrow> scan_db \<Rightarrow> (scan_row option \<times> scan_db) attempt" where
  "result_tx now r db =
     (case update_job (r_org r) (r_jobId r)
             (\<lambda>j. j\<lparr>j_status := r_status r, j_startedAt := Some (r_startedAt r),
                   j_finishedAt := Some (r_finishedAt r), j_artifactKey := r_artifactKey r,
                   j_findingCount := r_findingCount r, j_error := r_error r\<rparr>) db of
        Inl e \<Rightarrow> Inl e
      | Inr db1 \<Rightarrow> close_out now (r_org r) (r_scanId r) db1)"

text \<open>\<^verbatim>\<open>applyResult\<close>: the events it publishes are the closed scan's id and status; \<open>bus_ok\<close> is false when
  that publish throws, which happens after the transaction has committed.\<close>

definition applyResult :: "bool \<Rightarrow> instant \<Rightarrow> job_result \<Rightarrow> scan_db \<Rightarrow> api_error option \<times> (ident \<times> string) list \<times> scan_db" where
  "applyResult bus_ok now r db =
     (case result_tx now r db of
        Inl e \<Rightarrow> (Some e, [], db)
      | Inr (None, db') \<Rightarrow> (None, [], db')
      | Inr (Some scan, db') \<Rightarrow>
          if bus_ok then (None, [(s_id scan, s_status scan)], db')
          else (Some (Server_error ''publish failed''), [], db'))"


subsection \<open>Every job settled once closes the scan once\<close>

datatype settle_event = Job_reported job_result | Dispatch_failed job_row string

fun settles :: "settle_event \<Rightarrow> ident" where
  "settles (Job_reported r) = r_jobId r"
| "settles (Dispatch_failed j m) = j_id j"

fun outcome :: "settle_event \<Rightarrow> string" where
  "outcome (Job_reported r) = r_status r"
| "outcome (Dispatch_failed j m) = ''failed''"

fun of_scan :: "ident \<Rightarrow> ident \<Rightarrow> settle_event \<Rightarrow> bool" where
  "of_scan org sid (Job_reported r) = (r_org r = org \<and> r_scanId r = sid)"
| "of_scan org sid (Dispatch_failed j m) = (j_org j = org \<and> j_scanId j = sid)"

fun settle_one :: "instant \<Rightarrow> settle_event \<Rightarrow> scan_db \<Rightarrow> scan_db attempt" where
  "settle_one now (Job_reported r) db = map_sum id snd (result_tx now r db)"
| "settle_one now (Dispatch_failed j m) db = failDispatch now (j_org j) j m db"

fun settle_all :: "(instant \<times> settle_event) list \<Rightarrow> scan_db \<Rightarrow> scan_db attempt" where
  "settle_all [] db = Inr db"
| "settle_all ((now, e) # es) db =
     (case settle_one now e db of Inl err \<Rightarrow> Inl err | Inr db' \<Rightarrow> settle_all es db')"

definition the_scan :: "ident \<Rightarrow> ident \<Rightarrow> scan_db \<Rightarrow> scan_row option" where
  "the_scan org sid db = find (\<lambda>s. s_org s = org \<and> s_id s = sid) (scans db)"

definition jobs_of :: "ident \<Rightarrow> ident \<Rightarrow> scan_db \<Rightarrow> job_row list" where
  "jobs_of org sid db = filter (\<lambda>j. j_org j = org \<and> j_scanId j = sid) (scan_jobs db)"

text \<open>A scan just accepted: running, nothing counted, one row per job.\<close>

definition started :: "ident \<Rightarrow> ident \<Rightarrow> scan_db \<Rightarrow> bool" where
  "started org sid db \<longleftrightarrow>
     distinct (map j_id (scan_jobs db)) \<and>
     (\<exists>s. the_scan org sid db = Some s \<and> s_status s = ''running'' \<and> s_finishedAt s = None
        \<and> s_jobsCompleted s = 0 \<and> s_jobsTotal s = length (jobs_of org sid db)) \<and>
     (\<forall>j \<in> set (jobs_of org sid db). j_status j = ''queued'')"

definition summary :: "string list \<Rightarrow> string" where
  "summary outs =
     (if list_all (\<lambda>x. x \<noteq> ''failed'') outs then ''succeeded''
      else if list_all (\<lambda>x. x = ''failed'') outs then ''failed'' else ''partial'')"

definition recorded :: "ident \<Rightarrow> ident \<Rightarrow> settle_event list \<Rightarrow> scan_db \<Rightarrow> bool" where
  "recorded org sid es db \<longleftrightarrow>
     (\<forall>j \<in> set (jobs_of org sid db).
        (\<forall>e \<in> set es. settles e = j_id j \<longrightarrow> j_status j = outcome e)
        \<and> (j_id j \<notin> settles ` set es \<longrightarrow> j_status j = ''queued''))"

text \<open>The invariant while some of the jobs have settled.\<close>

definition settling :: "ident \<Rightarrow> ident \<Rightarrow> ident list \<Rightarrow> settle_event list \<Rightarrow> scan_db \<Rightarrow> bool" where
  "settling org sid ids es db \<longleftrightarrow>
     distinct (map j_id (scan_jobs db)) \<and> map j_id (jobs_of org sid db) = ids \<and>
     (\<exists>s. the_scan org sid db = Some s \<and> s_jobsTotal s = length ids \<and> s_jobsCompleted s = length es
        \<and> (length es < length ids \<longrightarrow> s_status s = ''running'' \<and> s_finishedAt s = None)
        \<and> (es \<noteq> [] \<and> length es = length ids \<longrightarrow> s_status s = summary (map outcome es) \<and> s_finishedAt s \<noteq> None)) \<and>
     recorded org sid es db"

lemma update_job_found:
  assumes "distinct (map j_id (scan_jobs db))" and "i \<in> set (map j_id (jobs_of org sid db))"
    and "\<And>j. j_id (f j) = j_id j \<and> j_org (f j) = j_org j \<and> j_scanId (f j) = j_scanId j"
  obtains db' where "update_job org i f db = Inr db'" and "scans db' = scans db"
    and "map j_id (scan_jobs db') = map j_id (scan_jobs db)"
    and "jobs_of org sid db' = map (\<lambda>j. if j_id j = i then f j else j) (jobs_of org sid db)"
proof -
  let ?g = "\<lambda>j. if j_org j = org \<and> j_id j = i then f j else j"
  have "list_ex (\<lambda>j. j_org j = org \<and> j_id j = i) (scan_jobs db)"
    using assms(2) by (auto simp: jobs_of_def list_ex_iff)
  then have u: "update_job org i f db = Inr (db\<lparr>scan_jobs := map ?g (scan_jobs db)\<rparr>)"
    by (simp add: update_job_def)
  have "map j_id (map ?g (scan_jobs db)) = map j_id (scan_jobs db)" using assms(3) by simp
  moreover have "filter (\<lambda>j. j_org j = org \<and> j_scanId j = sid) (map ?g js) =
      map (\<lambda>j. if j_id j = i then f j else j) (filter (\<lambda>j. j_org j = org \<and> j_scanId j = sid) js)" for js
    using assms(3) by (induction js) auto
  ultimately show ?thesis using that[OF u] by (simp add: jobs_of_def)
qed

lemma update_scan_found:
  assumes "the_scan org sid db = Some s" and "\<And>s. s_id (f s) = s_id s \<and> s_org (f s) = s_org s"
  obtains db' where "update_scan org sid f db = Inr (f s, db')" and "scan_jobs db' = scan_jobs db"
    and "the_scan org sid db' = Some (f s)"
proof -
  let ?P = "\<lambda>s. s_org s = org \<and> s_id s = sid"
  have "find ?P (map (\<lambda>s. if ?P s then f s else s) ss) = map_option f (find ?P ss)" for ss
    using assms(2) by (induction ss) auto
  then show ?thesis using assms(1) that by (auto simp: update_scan_def the_scan_def)
qed

lemma filter_all_iff: "length (filter P xs) = length xs \<longleftrightarrow> list_all P xs"
  by (metis filter_id_conv filter_True length_filter_less list_all_iff nat_less_le)

text \<open>When the settled jobs are all the jobs, the count of failed rows decides as the outcomes do.\<close>

lemma failed_jobs_summary:
  assumes ids: "map j_id (jobs_of org sid db) = ids" and all: "set (map settles es) = set ids"
    and st: "\<forall>j \<in> set (jobs_of org sid db). \<forall>e \<in> set es. settles e = j_id j \<longrightarrow> j_status j = outcome e"
  shows "final_status (failed_jobs org sid db) (length ids) = summary (map outcome es)"
proof -
  let ?J = "jobs_of org sid db"
  have outs: "j_status ` set ?J = outcome ` set es"
  proof (intro equalityI subsetI)
    fix x assume "x \<in> j_status ` set ?J"
    then obtain j where j: "j \<in> set ?J" "x = j_status j" by auto
    then have "j_id j \<in> settles ` set es" using ids all by (metis image_eqI list.set_map)
    then show "x \<in> outcome ` set es" using st j by auto
  next
    fix x assume "x \<in> outcome ` set es"
    then obtain e where e: "e \<in> set es" "x = outcome e" by auto
    then have "settles e \<in> j_id ` set ?J" using ids all by (metis image_eqI list.set_map)
    then show "x \<in> j_status ` set ?J" using st e by force
  qed
  have f: "failed_jobs org sid db = length (filter (\<lambda>j. j_status j = ''failed'') ?J)"
    by (simp add: failed_jobs_def jobs_of_def conj_commute conj_left_commute)
  have "failed_jobs org sid db = 0 \<longleftrightarrow> (\<forall>x \<in> j_status ` set ?J. x \<noteq> ''failed'')"
    by (auto simp: f filter_empty_conv)
  moreover have "failed_jobs org sid db = length ids \<longleftrightarrow> (\<forall>x \<in> j_status ` set ?J. x = ''failed'')"
    using filter_all_iff[of "\<lambda>j. j_status j = ''failed''" ?J] ids by (auto simp: f list_all_iff)
  ultimately show ?thesis by (simp add: final_status_def summary_def list_all_iff outs)
qed

lemma close_out_settling:
  assumes d: "distinct (map j_id (scan_jobs db))" and ids: "map j_id (jobs_of org sid db) = ids"
    and s: "the_scan org sid db = Some s" "s_jobsTotal s = length ids" "s_jobsCompleted s = length es"
      "s_status s = ''running''" "s_finishedAt s = None"
    and es: "distinct (map settles (es @ [e]))" "set (map settles (es @ [e])) \<subseteq> set ids"
    and st: "recorded org sid (es @ [e]) db"
  shows "\<exists>r db'. close_out now org sid db = Inr (r, db') \<and> settling org sid ids (es @ [e]) db'"
proof -
  obtain db1 where db1: "update_scan org sid (\<lambda>s. s\<lparr>s_jobsCompleted := s_jobsCompleted s + 1\<rparr>) db =
        Inr (s\<lparr>s_jobsCompleted := s_jobsCompleted s + 1\<rparr>, db1)"
      "scan_jobs db1 = scan_jobs db"
      "the_scan org sid db1 = Some (s\<lparr>s_jobsCompleted := s_jobsCompleted s + 1\<rparr>)"
    using update_scan_found[OF s(1), of "\<lambda>s. s\<lparr>s_jobsCompleted := s_jobsCompleted s + 1\<rparr>"] by auto
  have j1: "jobs_of org sid db1 = jobs_of org sid db" using db1(2) by (simp add: jobs_of_def)
  have le: "length (es @ [e]) \<le> length ids"
    using es d by (metis card_length card_mono distinct_card finite_set length_map order_trans)
  show ?thesis
  proof (cases "length (es @ [e]) < length ids")
    case True
    then have "close_out now org sid db = Inr (None, db1)"
      using db1(1) s by (simp add: close_out_def)
    moreover have "settling org sid ids (es @ [e]) db1"
      using True d ids db1 j1 s st by (simp add: settling_def recorded_def)
    ultimately show ?thesis by blast
  next
    case False
    then have len: "length (es @ [e]) = length ids" using le by simp
    have full: "set (map settles (es @ [e])) = set ids"
    proof (rule card_subset_eq)
      show "card (set (map settles (es @ [e]))) = card (set ids)"
        using len es(1) distinct_card[OF es(1)] es(2) le
        by (metis card_length card_mono finite_set le_antisym length_map)
    qed (use es in auto)
    let ?g = "\<lambda>r :: scan_row. r\<lparr>s_status := final_status (failed_jobs org sid db1) (s_jobsTotal s),
        s_finishedAt := Some now\<rparr>"
    obtain db2 where db2: "update_scan org sid ?g db1 =
          Inr (?g (s\<lparr>s_jobsCompleted := s_jobsCompleted s + 1\<rparr>), db2)"
        "scan_jobs db2 = scan_jobs db1"
        "the_scan org sid db2 = Some (?g (s\<lparr>s_jobsCompleted := s_jobsCompleted s + 1\<rparr>))"
      using update_scan_found[OF db1(3), of ?g] by auto
    have "close_out now org sid db = Inr (Some (?g (s\<lparr>s_jobsCompleted := s_jobsCompleted s + 1\<rparr>)), db2)"
      using db1(1) db2(1) s len by (simp add: close_out_def Let_def)
    moreover have "final_status (failed_jobs org sid db1) (s_jobsTotal s) = summary (map outcome (es @ [e]))"
      using failed_jobs_summary[of org sid db1 ids "es @ [e]"] ids full st s(2) j1 by (simp add: recorded_def)
    moreover have "jobs_of org sid db2 = jobs_of org sid db" using db2(2) j1 by (simp add: jobs_of_def)
    ultimately show ?thesis using d ids db1(2) db2 s st len by (auto simp: settling_def recorded_def)
  qed
qed

text \<open>Both handlers first write the outcome into the job's row, then close out.\<close>

lemma settle_one_as_close_out:
  assumes e: "of_scan org sid e" and d: "distinct (map j_id (scan_jobs db))"
    and mem: "settles e \<in> set (map j_id (jobs_of org sid db))"
  obtains db1 f where "settle_one now e db = map_sum id snd (close_out now org sid db1)"
    and "scans db1 = scans db" and "map j_id (scan_jobs db1) = map j_id (scan_jobs db)"
    and "jobs_of org sid db1 = map (\<lambda>j. if j_id j = settles e then f j else j) (jobs_of org sid db)"
    and "\<And>j. j_id (f j) = j_id j \<and> j_status (f j) = outcome e"
proof (cases e)
  case (Job_reported r)
  let ?f = "\<lambda>j. j\<lparr>j_status := r_status r, j_startedAt := Some (r_startedAt r),
      j_finishedAt := Some (r_finishedAt r), j_artifactKey := r_artifactKey r,
      j_findingCount := r_findingCount r, j_error := r_error r\<rparr>"
  obtain db1 where "update_job org (r_jobId r) ?f db = Inr db1" "scans db1 = scans db"
      "map j_id (scan_jobs db1) = map j_id (scan_jobs db)"
      "jobs_of org sid db1 = map (\<lambda>j. if j_id j = r_jobId r then ?f j else j) (jobs_of org sid db)"
    using update_job_found[OF d, of "r_jobId r" org sid ?f] mem Job_reported by auto
  then show ?thesis using e Job_reported that[of db1 ?f] by (simp add: result_tx_def)
next
  case (Dispatch_failed j m)
  let ?f = "\<lambda>j. j\<lparr>j_status := ''failed'', j_error := Some m, j_startedAt := Some now, j_finishedAt := Some now\<rparr>"
  obtain db1 where "update_job org (j_id j) ?f db = Inr db1" "scans db1 = scans db"
      "map j_id (scan_jobs db1) = map j_id (scan_jobs db)"
      "jobs_of org sid db1 = map (\<lambda>x. if j_id x = j_id j then ?f x else x) (jobs_of org sid db)"
    using update_job_found[OF d, of "j_id j" org sid ?f] mem Dispatch_failed by auto
  then show ?thesis using e Dispatch_failed that[of db1 ?f] by (simp add: failDispatch_def)
qed

lemma settle_one_settling:
  assumes inv: "settling org sid ids es db" and e: "of_scan org sid e"
    and es: "distinct (map settles (es @ [e]))" "set (map settles (es @ [e])) \<subseteq> set ids"
  shows "\<exists>db'. settle_one now e db = Inr db' \<and> settling org sid ids (es @ [e]) db'"
proof -
  have d: "distinct (map j_id (scan_jobs db))" and ids: "map j_id (jobs_of org sid db) = ids"
    using inv by (auto simp: settling_def)
  have lt: "length es < length ids"
    using es by (metis card_length card_mono distinct_card finite_set length_append_singleton length_map
        less_eq_Suc_le order_trans)
  then obtain s where s: "the_scan org sid db = Some s" "s_jobsTotal s = length ids"
      "s_jobsCompleted s = length es" "s_status s = ''running''" "s_finishedAt s = None"
    using inv by (auto simp: settling_def)
  have "settles e \<in> set (map j_id (jobs_of org sid db))" using ids es(2) by simp
  then obtain db1 f where db1: "settle_one now e db = map_sum id snd (close_out now org sid db1)"
      "scans db1 = scans db" "map j_id (scan_jobs db1) = map j_id (scan_jobs db)"
      "jobs_of org sid db1 = map (\<lambda>j. if j_id j = settles e then f j else j) (jobs_of org sid db)"
      "\<And>j. j_id (f j) = j_id j \<and> j_status (f j) = outcome e"
    using settle_one_as_close_out[OF e d] by blast
  have ids1: "map j_id (jobs_of org sid db1) = ids"
  proof -
    have "map j_id (jobs_of org sid db1) = map j_id (jobs_of org sid db)" using db1(5) by (simp add: db1(4))
    then show ?thesis using ids by simp
  qed
  have st: "recorded org sid (es @ [e]) db1"
    unfolding recorded_def
  proof
    fix j assume "j \<in> set (jobs_of org sid db1)"
    then obtain j0 where j0: "j0 \<in> set (jobs_of org sid db)" "j = (if j_id j0 = settles e then f j0 else j0)"
      using db1(4) by auto
    then have id: "j_id j = j_id j0" using db1(5) by simp
    have r0: "(\<forall>x \<in> set es. settles x = j_id j0 \<longrightarrow> j_status j0 = outcome x)"
      "j_id j0 \<notin> settles ` set es \<longrightarrow> j_status j0 = ''queued''"
      using inv j0(1) by (auto simp: settling_def recorded_def)
    have new: "settles e \<notin> settles ` set es" using es(1) by auto
    show "(\<forall>x \<in> set (es @ [e]). settles x = j_id j \<longrightarrow> j_status j = outcome x)
        \<and> (j_id j \<notin> settles ` set (es @ [e]) \<longrightarrow> j_status j = ''queued'')"
      by (cases "j_id j0 = settles e") (use id r0 new j0(2) db1(5) in \<open>force simp: image_iff\<close>)+
  qed
  have "the_scan org sid db1 = Some s" using s(1) db1(2) by (simp add: the_scan_def)
  then obtain r db' where "close_out now org sid db1 = Inr (r, db')" "settling org sid ids (es @ [e]) db'"
    using close_out_settling[OF _ ids1 _ s(2-5) es st] d db1(3) by metis
  then show ?thesis using db1(1) by auto
qed

lemma settle_all_settling:
  assumes "settling org sid ids es0 db" and "\<forall>(t, e) \<in> set es. of_scan org sid e"
    and "distinct (map settles (es0 @ map snd es))" and "set (map settles (es0 @ map snd es)) \<subseteq> set ids"
  shows "\<exists>db'. settle_all es db = Inr db' \<and> settling org sid ids (es0 @ map snd es) db'"
  using assms
proof (induction es arbitrary: es0 db)
  case (Cons te es)
  obtain t e where te: "te = (t, e)" by fastforce
  obtain db1 where db1: "settle_one t e db = Inr db1" "settling org sid ids (es0 @ [e]) db1"
    using settle_one_settling[OF Cons.prems(1), of e t] Cons.prems te by auto
  then obtain db' where "settle_all es db1 = Inr db'" "settling org sid ids ((es0 @ [e]) @ map snd es) db'"
    using Cons.IH[OF db1(2)] Cons.prems te by auto
  then show ?case using te db1(1) by auto
qed simp

lemma started_settling:
  assumes "started org sid db"
  shows "settling org sid (map j_id (jobs_of org sid db)) [] db"
  using assms by (auto simp: started_def settling_def recorded_def)

definition two_jobs :: scan_db where
  "two_jobs = snd (persistKick ((retried ''s1'')\<lparr>pk_assets := [pay_asset, pay_asset\<lparr>as_id := ''a2''\<rparr>]\<rparr>)
     empty_db empty_db)"

definition report :: "ident \<Rightarrow> string \<Rightarrow> job_result" where
  "report job status = \<lparr>r_jobId = job, r_scanId = ''s1'', r_org = ''o1'', r_status = status,
     r_startedAt = 1100, r_finishedAt = 1200, r_artifactKey = None, r_findingCount = 0, r_error = None\<rparr>"

text \<open>
  C10 (closing a scan). When the jobs of a started scan settle, each once and in any order, by a
  reported result or a failed dispatch, every transaction commits; the scan stays running until the
  last job has settled, and then it is finished: succeeded when no job failed, failed when all did,
  partial otherwise.
\<close>

theorem scan_closes_when_all_jobs_settle:
  assumes "started org sid db" and "\<forall>(t, e) \<in> set es. of_scan org sid e"
    and "distinct (map (settles \<circ> snd) es)"
    and "set (map (settles \<circ> snd) es) \<subseteq> set (map j_id (jobs_of org sid db))"
  shows "\<exists>db' s. settle_all es db = Inr db' \<and> the_scan org sid db' = Some s \<and> s_jobsCompleted s = length es
    \<and> (length es < s_jobsTotal s \<longrightarrow> s_status s = ''running'' \<and> s_finishedAt s = None)
    \<and> (es \<noteq> [] \<and> length es = s_jobsTotal s \<longrightarrow>
         s_status s = summary (map (outcome \<circ> snd) es) \<and> s_finishedAt s \<noteq> None)"
proof -
  obtain db' where "settle_all es db = Inr db'"
      "settling org sid (map j_id (jobs_of org sid db)) (map snd es) db'"
    using settle_all_settling[OF started_settling[OF assms(1)], of es] assms by auto
  then show ?thesis by (auto simp: settling_def)
qed

theorem scan_closes_when_all_jobs_settle_witness:
  "\<exists>db' s. settle_all [(5, Job_reported (report ''job-a2'' ''succeeded'')), (7, Job_reported (report ''job-a1'' ''failed''))]
       two_jobs = Inr db' \<and> the_scan ''o1'' ''s1'' db' = Some s \<and> s_jobsCompleted s = 2"
proof -
  let ?es = "[(5, Job_reported (report ''job-a2'' ''succeeded'')), (7, Job_reported (report ''job-a1'' ''failed''))]"
  have j: "map j_id (jobs_of ''o1'' ''s1'' two_jobs) = [''job-a1'', ''job-a2'']"
    "map j_id (scan_jobs two_jobs) = [''job-a1'', ''job-a2'']"
    "list_all (\<lambda>j. j_status j = ''queued'') (jobs_of ''o1'' ''s1'' two_jobs)"
    "map_option s_status (the_scan ''o1'' ''s1'' two_jobs) = Some ''running''"
    "map_option s_finishedAt (the_scan ''o1'' ''s1'' two_jobs) = Some None"
    "map_option s_jobsCompleted (the_scan ''o1'' ''s1'' two_jobs) = Some 0"
    "map_option s_jobsTotal (the_scan ''o1'' ''s1'' two_jobs) = Some 2"
    by code_simp+
  have "started ''o1'' ''s1'' two_jobs"
    using j arg_cong[OF j(1), of length] by (auto simp: started_def list_all_iff)
  then show ?thesis
    using scan_closes_when_all_jobs_settle[of "''o1''" "''s1''" two_jobs ?es]
    by (simp add: report_def j(1) eval_nat_numeral) blast
qed


section \<open>Dispatching (scan-dispatcher.service.ts)\<close>

text \<open>An object literal with a spread: later fields win.\<close>

definition json_spread :: "(string \<times> json) list \<Rightarrow> (string \<times> json) list \<Rightarrow> (string \<times> json) list" where
  "json_spread base es = foldl (\<lambda>acc (k, v). json_put k v acc) base es"

definition scanJobTarget :: "asset_row \<Rightarrow> json" where
  "scanJobTarget asset =
     (let attrs = (case as_attributes asset of JObj es \<Rightarrow> es | _ \<Rightarrow> []) in
      JObj (json_spread [(''externalKey'', JStr (as_externalKey asset)), (''kind'', JStr (as_kind asset))] attrs))"

type_synonym cred_refs = "(ident \<times> string option) list"

definition scanJobCredentialRef :: "asset_row \<Rightarrow> cred_refs \<Rightarrow> string option" where
  "scanJobCredentialRef asset refs =
     (if \<not> truthy (as_integrationId asset) then None
      else (case as_integrationId asset of
              None \<Rightarrow> None
            | Some i \<Rightarrow> (case map_of refs i of None \<Rightarrow> None | Some r \<Rightarrow> r)))"

datatype principal = Principal_uuid ident | Principal_idp string | Principal_none

text \<open>\<open>is_uuid\<close> stands for \<^verbatim>\<open>UserId.safeParse\<close> of the zod library.\<close>

definition requestedByFromPrincipal :: "(string \<Rightarrow> bool) \<Rightarrow> string option \<Rightarrow> principal" where
  "requestedByFromPrincipal is_uuid principalId =
     (if \<not> truthy principalId then Principal_none
      else (case principalId of
              None \<Rightarrow> Principal_none
            | Some p \<Rightarrow> if is_uuid p then Principal_uuid p else Principal_idp p))"

definition resolveRequestedBy :: "(string \<Rightarrow> bool) \<Rightarrow> scan_db \<Rightarrow> string option \<Rightarrow> ident option attempt" where
  "resolveRequestedBy is_uuid db principalId =
     (case requestedByFromPrincipal is_uuid principalId of
        Principal_none \<Rightarrow> Inr None
      | Principal_uuid u \<Rightarrow> Inr (Some u)
      | Principal_idp sub \<Rightarrow>
          (case map_of (idp_users db) sub of
             None \<Rightarrow> Inl (Bad_request ''No user mapped for IdP subject'')
           | Some u \<Rightarrow> Inr (Some u)))"

record dispatch_env =
  de_now :: instant
  de_timeoutMs :: nat
  de_traceId :: string
  de_is_uuid :: "string \<Rightarrow> bool"
  de_publish_error :: "ident \<Rightarrow> string option"
  de_jobs_readable :: bool
  de_creds_readable :: bool
  de_persist_ok :: "ident \<Rightarrow> bool"
  de_latest_readable :: bool

record scan_job_payload =
  p_jobId :: ident
  p_scanId :: ident
  p_orgId :: ident
  p_scannerType :: string
  p_assetId :: ident
  p_target :: json
  p_credentialRef :: "string option"
  p_options :: json
  p_attempt :: nat
  p_deadlineAt :: instant
  p_traceId :: string

definition credentialRefsFor :: "scan_db \<Rightarrow> ident \<Rightarrow> asset_row list \<Rightarrow> cred_refs" where
  "credentialRefsFor db org as =
     (let ids = uniq (map the (filter truthy (map as_integrationId as))) in
      if ids = [] then []
      else map (\<lambda>(i, o', r). (i, r)) (filter (\<lambda>(i, o', r). o' = org \<and> i \<in> set ids) (integrations db)))"

text \<open>The payload, or the message of the exception that refuses the dispatch.\<close>

definition publishQueuedJob ::
    "dispatch_env \<Rightarrow> ident \<Rightarrow> ident \<Rightarrow> job_row \<Rightarrow> asset_row option \<Rightarrow> string \<Rightarrow> json \<Rightarrow> cred_refs \<Rightarrow> string + scan_job_payload" where
  "publishQueuedJob env org scanId job asset scannerType options refs =
     (case asset of
        None \<Rightarrow> Inl ''Scan job has no matching asset''
      | Some a \<Rightarrow>
          let payload = \<lparr>p_jobId = j_id job, p_scanId = scanId, p_orgId = org, p_scannerType = scannerType,
                p_assetId = j_assetId job, p_target = scanJobTarget a,
                p_credentialRef = scanJobCredentialRef a refs, p_options = options,
                p_attempt = j_attempt job, p_deadlineAt = de_now env + int (de_timeoutMs env),
                p_traceId = de_traceId env\<rparr>
          in (case de_publish_error env (j_id job) of Some m \<Rightarrow> Inl m | None \<Rightarrow> Inr payload))"

text \<open>The loop over the jobs: what has been published so far and the tables.\<close>

fun dispatch_jobs ::
    "dispatch_env \<Rightarrow> ident \<Rightarrow> ident \<Rightarrow> asset_row list \<Rightarrow> string \<Rightarrow> json \<Rightarrow> cred_refs \<Rightarrow> job_row list \<Rightarrow>
     scan_job_payload list \<times> scan_db \<Rightarrow> scan_job_payload list \<times> scan_db" where
  "dispatch_jobs env org scanId as scannerType options refs [] (pub, db) = (pub, db)"
| "dispatch_jobs env org scanId as scannerType options refs (job # js) (pub, db) =
     (case publishQueuedJob env org scanId job (find (\<lambda>a. as_id a = j_assetId job) as) scannerType options refs of
        Inr payload \<Rightarrow> dispatch_jobs env org scanId as scannerType options refs js (pub @ [payload], db)
      | Inl message \<Rightarrow>
          let db' = (if de_persist_ok env (j_id job)
                     then (case failDispatch (de_now env) org job message db of Inl e \<Rightarrow> db | Inr db' \<Rightarrow> db')
                     else db)
          in dispatch_jobs env org scanId as scannerType options refs js (pub, db'))"

record scan_request =
  rq_scannerType :: string
  rq_selector :: asset_selector
  rq_options :: json
  rq_externalId :: "string option"

record scan_answer =
  an_scan :: scan_row
  an_jobsDispatched :: nat
  an_concluded :: bool

text \<open>
  \<^verbatim>\<open>createScan\<close>. \<open>snap\<close> is the state the accept transaction reads, \<open>db\<close> the state it commits on;
  \<open>newId\<close> and \<open>jobId\<close> are the identifiers the database generates. \<open>an_concluded\<close> says that the
  five soft-failing status publishers ran.
\<close>

definition kick_args_for ::
    "dispatch_env \<Rightarrow> ident \<Rightarrow> scan_request \<Rightarrow> string \<Rightarrow> asset_row list \<Rightarrow> ident option \<Rightarrow> string option \<Rightarrow>
     ident \<Rightarrow> (ident \<Rightarrow> ident) \<Rightarrow> kick_args" where
  "kick_args_for env org rq trigger as requestedBy key newId jobId =
     \<lparr>pk_org = org, pk_scannerType = rq_scannerType rq, pk_trigger = trigger, pk_assets = as,
      pk_requestedBy = requestedBy, pk_key = key, pk_occurredAt = de_now env, pk_scanId = newId,
      pk_jobId = jobId\<rparr>"

definition dispatch_accepted ::
    "dispatch_env \<Rightarrow> ident \<Rightarrow> scan_request \<Rightarrow> asset_row list \<Rightarrow> scan_row \<Rightarrow> scan_db \<Rightarrow>
     scan_answer \<times> scan_job_payload list \<times> scan_db" where
  "dispatch_accepted env org rq as scan db =
     (let jobs = (if de_jobs_readable env then jobs_of org (s_id scan) db else []);
          (pub, db') =
            (if de_jobs_readable env \<and> de_creds_readable env
             then dispatch_jobs env org (s_id scan) as (rq_scannerType rq) (rq_options rq)
                    (credentialRefsFor db org as) jobs ([], db)
             else ([], db));
          latest = (if de_latest_readable env then the_scan org (s_id scan) db' else None);
          row = (case latest of Some s \<Rightarrow> s | None \<Rightarrow> scan)
      in (\<lparr>an_scan = row, an_jobsDispatched = length jobs,
           an_concluded = (s_status row \<noteq> ''queued'' \<and> s_status row \<noteq> ''running'')\<rparr>, pub, db'))"

definition createScan ::
    "dispatch_env \<Rightarrow> ident \<Rightarrow> string option \<Rightarrow> scan_request \<Rightarrow> string \<Rightarrow> header_value \<Rightarrow> ident \<Rightarrow> (ident \<Rightarrow> ident) \<Rightarrow>
     scan_db \<Rightarrow> scan_db \<Rightarrow> scan_answer attempt \<times> scan_job_payload list \<times> scan_db" where
  "createScan env org userId rq trigger header newId jobId snap db =
     (case resolveScanKickIdempotencyKey header (rq_externalId rq) of
        Inl e \<Rightarrow> (Inl e, [], db)
      | Inr key \<Rightarrow>
          let as = plan db org (rq_scannerType rq) (rq_selector rq) in
          (case resolveRequestedBy (de_is_uuid env) db userId of
             Inl e \<Rightarrow> (Inl e, [], db)
           | Inr requestedBy \<Rightarrow>
               (case persistKick (kick_args_for env org rq trigger as requestedBy key newId jobId) snap db of
                  (Inl e, db1) \<Rightarrow> (Inl e, [], db1)
                | (Inr (scan, True), db1) \<Rightarrow>
                    (Inr \<lparr>an_scan = scan, an_jobsDispatched = length (jobs_of org (s_id scan) db1),
                          an_concluded = False\<rparr>, [], db1)
                | (Inr (scan, False), db1) \<Rightarrow>
                    (case dispatch_accepted env org rq as scan db1 of
                       (answer, pub, db2) \<Rightarrow> (Inr answer, pub, db2)))))"

text \<open>\<^verbatim>\<open>retryJob\<close>: three transactions and a publish; \<open>de_persist_ok\<close> is not caught here.\<close>

definition retryJob :: "dispatch_env \<Rightarrow> ident \<Rightarrow> ident \<Rightarrow> scan_db \<Rightarrow> job_row attempt \<times> scan_job_payload list \<times> scan_db" where
  "retryJob env org jobId db =
     (case update_job org jobId (\<lambda>j. j\<lparr>j_status := ''queued'', j_attempt := j_attempt j + 1, j_error := None\<rparr>) db of
        Inl e \<Rightarrow> (Inl e, [], db)
      | Inr db1 \<Rightarrow>
          (case find (\<lambda>j. j_org j = org \<and> j_id j = jobId) (scan_jobs db1) of
             None \<Rightarrow> (Inl Not_found, [], db)
           | Some job \<Rightarrow>
               (case find (\<lambda>a. as_org a = org \<and> as_id a = j_assetId job) (assets db1) of
                  None \<Rightarrow> (Inl Not_found, [], db1)
                | Some asset \<Rightarrow>
                    (case publishQueuedJob env org (j_scanId job) job (Some asset) (j_scannerType job) (JObj [])
                            (credentialRefsFor db1 org [asset]) of
                       Inr payload \<Rightarrow> (Inr job, [payload], db1)
                     | Inl message \<Rightarrow>
                         if \<not> de_persist_ok env jobId then (Inl (Server_error ''database''), [], db1)
                         else
                           (case failDispatch (de_now env) org job message db1 of
                              Inl e \<Rightarrow> (Inl e, [], db1)
                            | Inr db2 \<Rightarrow> (Inr job, [], db2))))))"


subsection \<open>A refused request leaves no trace, an accepted one never fails\<close>

lemma kick_tx_Inl: "kick_tx a snap db = (Inl e, db') \<Longrightarrow> db' = db"
  by (auto simp: kick_tx_def split: sum.splits option.splits if_splits)

lemma persistKick_cases:
  assumes "persistKick a snap db = (r, db')"
  shows "(\<exists>e. r = Inl e \<and> db' = db) \<or> (\<exists>s. r = Inr (s, True) \<and> db' = db)
       \<or> (r = Inr (created_scan a, False) \<and> db' = insert_kick a db)"
proof (cases "kick_tx a snap db")
  case (Pair t db1)
  show ?thesis
  proof (cases t)
    case (Inl e)
    then have "db1 = db" using Pair kick_tx_Inl by simp
    then show ?thesis using assms Pair Inl
      by (auto simp: persistKick_def split: if_splits sum.splits option.splits)
  next
    case (Inr x)
    then show ?thesis using assms Pair
      by (auto simp: persistKick_def kick_tx_def split: if_splits sum.splits option.splits)
  qed
qed

text \<open>Dispatching adds no rows.\<close>

definition scan_key :: "scan_row \<Rightarrow> ident \<times> ident \<times> string \<times> string \<times> instant" where
  "scan_key s = (s_id s, s_org s, s_scannerType s, s_trigger s, s_createdAt s)"

definition keeps_rows :: "scan_db \<Rightarrow> scan_db \<Rightarrow> bool" where
  "keeps_rows db db' \<longleftrightarrow> scan_kicks db' = scan_kicks db \<and> map scan_key (scans db') = map scan_key (scans db)
     \<and> length (scan_jobs db') = length (scan_jobs db)"

lemma failDispatch_frame: "failDispatch now org job m db = Inr db' \<Longrightarrow> keeps_rows db db'"
  by (auto simp: keeps_rows_def scan_key_def failDispatch_def update_job_def close_out_def update_scan_def Let_def
      split: sum.splits option.splits if_splits)

lemma dispatch_jobs_frame:
  "keeps_rows db (snd (dispatch_jobs env org sid as t opts refs js (pub, db)))"
proof (induction js arbitrary: pub db)
  case Nil
  then show ?case by (simp add: keeps_rows_def)
next
  case (Cons j js)
  have "keeps_rows db db' \<Longrightarrow> keeps_rows db (snd (dispatch_jobs env org sid as t opts refs js (pub, db')))" for pub db'
    using Cons.IH[of db' pub] by (simp add: keeps_rows_def)
  moreover have "keeps_rows db db" by (simp add: keeps_rows_def)
  ultimately show ?case
    by (auto simp: Let_def dest: failDispatch_frame split: sum.splits)
qed

lemma dispatch_accepted_frame:
  "keeps_rows db (snd (snd (dispatch_accepted env org rq as scan db)))"
  using dispatch_jobs_frame[of db env org "s_id scan" as "rq_scannerType rq" "rq_options rq"
      "credentialRefsFor db org as" "jobs_of org (s_id scan) db" "[]"]
  by (auto simp: dispatch_accepted_def Let_def keeps_rows_def split: prod.splits)

lemma createScan_cases:
  assumes "createScan env org userId rq trigger header newId jobId snap db = (r, pub, db')"
  shows "(pub = [] \<and> db' = db) \<or>
    (\<exists>ans key requestedBy. r = Inr ans \<and> resolveScanKickIdempotencyKey header (rq_externalId rq) = Inr key
       \<and> keeps_rows (insert_kick (kick_args_for env org rq trigger
             (plan db org (rq_scannerType rq) (rq_selector rq)) requestedBy key newId jobId) db) db')"
proof (cases "resolveScanKickIdempotencyKey header (rq_externalId rq)")
  case (Inr key)
  show ?thesis
  proof (cases "resolveRequestedBy (de_is_uuid env) db userId")
    case who: (Inr requestedBy)
    let ?as = "plan db org (rq_scannerType rq) (rq_selector rq)"
    let ?a = "kick_args_for env org rq trigger ?as requestedBy key newId jobId"
    obtain r1 db1 where p: "persistKick ?a snap db = (r1, db1)" by fastforce
    then consider (bad) e where "r1 = Inl e" "db1 = db" | (replay) s where "r1 = Inr (s, True)" "db1 = db"
      | (new) "r1 = Inr (created_scan ?a, False)" "db1 = insert_kick ?a db"
      using persistKick_cases by blast
    then show ?thesis
    proof cases
      case new
      obtain ans pub' db2 where d: "dispatch_accepted env org rq ?as (created_scan ?a) db1 = (ans, pub', db2)"
        by (metis prod_cases3)
      have "r = Inr ans \<and> db' = db2" using assms Inr who p new(1) d by (simp add: createScan_def Let_def)
      then show ?thesis
        using Inr new(2) d dispatch_accepted_frame[of db1 env org rq ?as "created_scan ?a"] by auto
    qed (use assms Inr who p in \<open>simp_all add: createScan_def Let_def\<close>)
  qed (use assms Inr in \<open>simp add: createScan_def Let_def\<close>)
qed (use assms in \<open>simp add: createScan_def\<close>)

lemma createScan_Inl:
  assumes "createScan env org userId rq trigger header newId jobId snap db = (Inl e, pub, db')"
  shows "pub = [] \<and> db' = db"
  using createScan_cases[OF assms] by auto

text \<open>
  All or nothing. \<^verbatim>\<open>createScan\<close> either refuses, and then publishes nothing and leaves every table as
  it was, or replays, and then does the same, or accepts, and then it has added exactly one scan and
  one meter row and answers, whatever the bus and the database refuse afterwards: an accepted kick
  is never turned into an error.
\<close>

theorem createScan_all_or_nothing:
  "case createScan env org userId rq trigger header newId jobId snap db of
     (Inl e, pub, db') \<Rightarrow> pub = [] \<and> db' = db
   | (Inr answer, pub, db') \<Rightarrow>
       (pub = [] \<and> db' = db) \<or>
       (\<exists>key requestedBy. resolveScanKickIdempotencyKey header (rq_externalId rq) = Inr key
          \<and> (let a = kick_args_for env org rq trigger (plan db org (rq_scannerType rq) (rq_selector rq))
                       requestedBy key newId jobId in
             scan_kicks db' = scan_kicks db @ [created_kick a]
             \<and> map scan_key (scans db') = map scan_key (scans db) @ [scan_key (created_scan a)]
             \<and> length (scan_jobs db') = length (scan_jobs db) + length (pk_assets a)))"
proof -
  obtain r pub db' where c: "createScan env org userId rq trigger header newId jobId snap db = (r, pub, db')"
    by (metis prod_cases3)
  show ?thesis
  proof (cases r)
    case (Inl e)
    then show ?thesis using createScan_Inl c by simp
  next
    case (Inr ans)
    then show ?thesis using createScan_cases[OF c]
      by (auto simp: c keeps_rows_def insert_kick_def Let_def)
  qed
qed


subsection \<open>Every job is published or failed\<close>

definition no_faults :: "dispatch_env \<Rightarrow> bool" where
  "no_faults env \<longleftrightarrow> de_jobs_readable env \<and> de_creds_readable env \<and> de_latest_readable env
     \<and> (\<forall>i. de_persist_ok env i)"

text \<open>The dispatch loop publishes the jobs it can, in order, and settles the others as failed.\<close>

lemma dispatch_jobs_settle:
  assumes ok: "\<forall>i. de_persist_ok env i" and org: "\<forall>j \<in> set js. j_org j = org"
    and pubf: "pubf = (\<lambda>j. publishQueuedJob env org sid j (find (\<lambda>a. as_id a = j_assetId j) as) t opts refs)"
    and run: "settle_all (map (\<lambda>j. (de_now env, Dispatch_failed j (projl (pubf j)))) (filter (\<lambda>j. isl (pubf j)) js)) db
        = Inr db'"
  shows "dispatch_jobs env org sid as t opts refs js (pub, db) =
    (pub @ map (projr \<circ> pubf) (filter (\<lambda>j. \<not> isl (pubf j)) js), db')"
  using org run
proof (induction js arbitrary: pub db)
  case (Cons j js)
  have o: "j_org j = org" using Cons.prems(1) by simp
  show ?case
  proof (cases "pubf j")
    case (Inr p)
    then show ?thesis using Cons by (simp add: pubf)
  next
    case (Inl m)
    then obtain db1 where "failDispatch (de_now env) org j m db = Inr db1"
      "settle_all (map (\<lambda>j. (de_now env, Dispatch_failed j (projl (pubf j)))) (filter (\<lambda>j. isl (pubf j)) js)) db1
        = Inr db'"
      using Cons.prems(2) o by (auto split: sum.splits)
    then show ?thesis using Cons Inl ok by (simp add: pubf Let_def)
  qed
qed simp

definition tables_ok :: "scan_db \<Rightarrow> bool" where
  "tables_ok db \<longleftrightarrow> distinct (map as_id (assets db)) \<and> distinct (map j_id (scan_jobs db))
     \<and> (\<forall>j \<in> set (scan_jobs db). j_scanId j \<in> s_id ` set (scans db))"

definition fresh_ids :: "scan_db \<Rightarrow> ident \<Rightarrow> (ident \<Rightarrow> ident) \<Rightarrow> bool" where
  "fresh_ids db newId jobId \<longleftrightarrow> newId \<notin> s_id ` set (scans db) \<and> inj jobId
     \<and> (\<forall>i. jobId i \<notin> j_id ` set (scan_jobs db))"

lemma distinct_plan: "distinct (map as_id (assets db)) \<Longrightarrow> distinct (map as_id (plan db org t sel))"
  by (simp add: plan_def distinct_map_filter)

lemma insert_kick_jobs:
  assumes tab: "tables_ok db" and fresh: "pk_scanId a \<notin> s_id ` set (scans db)" "inj (pk_jobId a)"
      "\<forall>i. pk_jobId a i \<notin> j_id ` set (scan_jobs db)"
    and as: "distinct (map as_id (pk_assets a))"
  shows "jobs_of (pk_org a) (pk_scanId a) (insert_kick a db) = map (created_job a) (pk_assets a)"
    and "distinct (map j_id (scan_jobs (insert_kick a db)))"
    and "the_scan (pk_org a) (pk_scanId a) (insert_kick a db) = Some (created_scan a)"
proof -
  have "filter (\<lambda>j. j_org j = pk_org a \<and> j_scanId j = pk_scanId a) (scan_jobs db) = []"
    using tab fresh(1) by (force simp: tables_ok_def filter_empty_conv)
  then show "jobs_of (pk_org a) (pk_scanId a) (insert_kick a db) = map (created_job a) (pk_assets a)"
    by (simp add: jobs_of_def insert_kick_def filter_map o_def created_job_def)
  have "distinct (map (j_id \<circ> created_job a) (pk_assets a))"
    using as fresh(2) by (simp add: o_def created_job_def distinct_map inj_on_def inj_def)
  then show "distinct (map j_id (scan_jobs (insert_kick a db)))"
    using tab fresh(3) by (auto simp: insert_kick_def tables_ok_def created_job_def) (metis image_eqI)
  have "find (\<lambda>s. s_org s = pk_org a \<and> s_id s = pk_scanId a) (scans db) = None"
    using fresh(1) by (force simp: find_None_iff)
  then show "the_scan (pk_org a) (pk_scanId a) (insert_kick a db) = Some (created_scan a)"
  proof -
    have "find P (xs @ [x]) = (case find P xs of Some y \<Rightarrow> Some y | None \<Rightarrow> if P x then Some x else None)"
      for P xs and x :: scan_row
      by (induction xs) auto
    then show ?thesis
      using \<open>find _ (scans db) = None\<close> by (simp add: the_scan_def insert_kick_def)
  qed
qed

definition refused :: "dispatch_env \<Rightarrow> kick_args \<Rightarrow> asset_row \<Rightarrow> bool" where
  "refused env a x \<longleftrightarrow> de_publish_error env (pk_jobId a (as_id x)) \<noteq> None"

lemma publish_created_job:
  assumes "distinct (map as_id (pk_assets a))" and "x \<in> set (pk_assets a)"
  shows "publishQueuedJob env org sid (created_job a x)
      (find (\<lambda>y. as_id y = j_assetId (created_job a x)) (pk_assets a)) t opts refs =
    (case de_publish_error env (pk_jobId a (as_id x)) of
       Some m \<Rightarrow> Inl m
     | None \<Rightarrow> Inr \<lparr>p_jobId = pk_jobId a (as_id x), p_scanId = sid, p_orgId = org, p_scannerType = t,
         p_assetId = as_id x, p_target = scanJobTarget x, p_credentialRef = scanJobCredentialRef x refs,
         p_options = opts, p_attempt = 1, p_deadlineAt = de_now env + int (de_timeoutMs env),
         p_traceId = de_traceId env\<rparr>)"
  using find_distinct_key[OF assms]
  by (simp add: publishQueuedJob_def created_job_def Let_def split: option.splits)

lemma dispatch_fresh_kick:
  assumes tab: "tables_ok db" and fresh: "fresh_ids db (pk_scanId a) (pk_jobId a)"
    and env: "no_faults env" and as: "distinct (map as_id (pk_assets a))" "pk_assets a \<noteq> []"
    and d: "dispatch_accepted env (pk_org a) rq (pk_assets a) (created_scan a) (insert_kick a db) = (ans, pub, db')"
  shows "\<exists>es. settling (pk_org a) (pk_scanId a) (map (pk_jobId a \<circ> as_id) (pk_assets a)) es db'
      \<and> map settles es = map (pk_jobId a \<circ> as_id) (filter (refused env a) (pk_assets a))
      \<and> list_all (\<lambda>e. outcome e = ''failed'') es
      \<and> list_all2 (\<lambda>p x. p_jobId p = pk_jobId a (as_id x) \<and> p_orgId p = pk_org a \<and> p_assetId p = as_id x
            \<and> p_target p = scanJobTarget x \<and> p_attempt p = 1) pub (filter (\<lambda>x. \<not> refused env a x) (pk_assets a))
      \<and> an_jobsDispatched ans = length (pk_assets a)
      \<and> the_scan (pk_org a) (pk_scanId a) db' = Some (an_scan ans)"
proof -
  let ?db = "insert_kick a db" and ?org = "pk_org a" and ?sid = "pk_scanId a" and ?as = "pk_assets a"
  let ?refs = "credentialRefsFor ?db ?org ?as"
  let ?pubf = "\<lambda>j. publishQueuedJob env ?org ?sid j (find (\<lambda>x. as_id x = j_assetId j) ?as)
      (rq_scannerType rq) (rq_options rq) ?refs"
  note k = insert_kick_jobs[OF tab _ _ _ as(1)]
  have jobs: "jobs_of ?org ?sid ?db = map (created_job a) ?as" "distinct (map j_id (scan_jobs ?db))"
    "the_scan ?org ?sid ?db = Some (created_scan a)"
    using k fresh by (auto simp: fresh_ids_def)
  have ids: "map j_id (jobs_of ?org ?sid ?db) = map (pk_jobId a \<circ> as_id) ?as"
    by (simp add: jobs(1) created_job_def)
  have dist: "distinct (map (pk_jobId a \<circ> as_id) ?as)"
    using as(1) fresh by (simp add: fresh_ids_def distinct_map inj_on_def inj_def)
  have "started ?org ?sid ?db"
    using jobs as(2) by (auto simp: started_def created_scan_def created_job_def)
  then have st: "settling ?org ?sid (map (pk_jobId a \<circ> as_id) ?as) [] ?db"
    using started_settling ids by metis
  have isl: "isl (?pubf (created_job a x)) \<longleftrightarrow> refused env a x" if "x \<in> set ?as" for x
    using publish_created_job[OF as(1) that] by (auto simp: refused_def split: option.splits)
  define ev where "ev = map (\<lambda>j. (de_now env, Dispatch_failed j (projl (?pubf j))))
      (filter (\<lambda>j. isl (?pubf j)) (map (created_job a) ?as))"
  have fb: "filter (\<lambda>j. isl (?pubf j)) (map (created_job a) ?as) = map (created_job a) (filter (refused env a) ?as)"
    using isl by (auto simp: filter_map o_def intro!: arg_cong[where f = "map (created_job a)"] filter_cong)
  have fg: "filter (\<lambda>j. \<not> isl (?pubf j)) (map (created_job a) ?as) =
      map (created_job a) (filter (\<lambda>x. \<not> refused env a x) ?as)"
    using isl by (auto simp: filter_map o_def intro!: arg_cong[where f = "map (created_job a)"] filter_cong)
  have evs: "map (settles \<circ> snd) ev = map (pk_jobId a \<circ> as_id) (filter (refused env a) ?as)"
    "\<forall>(t, e) \<in> set ev. of_scan ?org ?sid e" "list_all (\<lambda>e. outcome e = ''failed'') (map snd ev)"
    by (auto simp: ev_def fb created_job_def list_all_iff)
  have dev: "distinct (map settles ([] @ map snd ev))" "set (map settles ([] @ map snd ev)) \<subseteq> set (map (pk_jobId a \<circ> as_id) ?as)"
    using evs(1) distinct_map_filter[OF dist] by (auto simp: o_def)
  obtain db2 where db2: "settle_all ev ?db = Inr db2"
      "settling ?org ?sid (map (pk_jobId a \<circ> as_id) ?as) (map snd ev) db2"
    using settle_all_settling[OF st evs(2) dev] by auto
  have dj: "dispatch_jobs env ?org ?sid ?as (rq_scannerType rq) (rq_options rq) ?refs (map (created_job a) ?as) ([], ?db)
      = (map (projr \<circ> ?pubf) (map (created_job a) (filter (\<lambda>x. \<not> refused env a x) ?as)), db2)"
    using dispatch_jobs_settle[OF _ _ refl, of env "map (created_job a) ?as" ?org ?sid ?as "rq_scannerType rq"
        "rq_options rq" ?refs ?db db2 "[]"] env db2(1) fg
    by (auto simp: no_faults_def ev_def created_job_def)
  obtain s where s: "the_scan ?org ?sid db2 = Some s" using db2(2) by (auto simp: settling_def)
  have out: "db' = db2 \<and> an_scan ans = s \<and> an_jobsDispatched ans = length ?as
      \<and> pub = map (projr \<circ> ?pubf) (map (created_job a) (filter (\<lambda>x. \<not> refused env a x) ?as))"
    using d env dj s by (auto simp: dispatch_accepted_def no_faults_def Let_def jobs(1))
  have "list_all2 (\<lambda>p x. p_jobId p = pk_jobId a (as_id x) \<and> p_orgId p = pk_org a \<and> p_assetId p = as_id x
            \<and> p_target p = scanJobTarget x \<and> p_attempt p = 1) pub (filter (\<lambda>x. \<not> refused env a x) ?as)"
    using out publish_created_job[OF as(1)]
    by (auto simp: list_all2_map1 list_all2_same refused_def)
  then show ?thesis using db2(2) evs out s by (intro exI[of _ "map snd ev"]) (simp add: o_def)
qed

definition one_refused :: "ident \<Rightarrow> string option" where
  "one_refused i = (if i = ''job-a2'' then Some ''NATS is down'' else None)"

definition quiet_env :: dispatch_env where
  "quiet_env = \<lparr>de_now = 1000, de_timeoutMs = 10, de_traceId = ''t'', de_is_uuid = (\<lambda>_. True),
     de_publish_error = one_refused, de_jobs_readable = True,
     de_creds_readable = True, de_persist_ok = (\<lambda>_. True), de_latest_readable = True\<rparr>"

definition sast_request :: scan_request where
  "sast_request = \<lparr>rq_scannerType = ''sast'', rq_selector = whole_surface, rq_options = JObj [],
     rq_externalId = Some ''ci-7''\<rparr>"

definition two_assets :: scan_db where
  "two_assets = empty_db\<lparr>assets := [pay_asset, pay_asset\<lparr>as_id := ''a2''\<rparr>]\<rparr>"

text \<open>
  C17 (no job is lost between accept and dispatch). When \<^verbatim>\<open>createScan\<close> accepts a new kick and the
  database answers, one payload is published, in plan order, for exactly the assets whose publish is
  not refused, with the asset's own target; the job of every refused asset is failed and every other
  is still queued; and the scan it answers has status succeeded when nothing was planned, failed
  when every publish was refused, running otherwise.
\<close>

theorem createScan_dispatches_every_job:
  assumes tab: "tables_ok db" and fresh: "fresh_ids db newId jobId" and env: "no_faults env"
    and run: "createScan env org userId rq trigger header newId jobId snap db = (Inr ans, pub, db')"
    and new: "scan_kicks db' \<noteq> scan_kicks db"
    and as: "as = plan db org (rq_scannerType rq) (rq_selector rq)"
  shows "an_jobsDispatched ans = length as
    \<and> list_all2 (\<lambda>p x. p_jobId p = jobId (as_id x) \<and> p_orgId p = org \<and> p_assetId p = as_id x
          \<and> p_target p = scanJobTarget x \<and> p_attempt p = 1)
        pub (filter (\<lambda>x. de_publish_error env (jobId (as_id x)) = None) as)
    \<and> map (\<lambda>j. (j_id j, j_status j)) (jobs_of org newId db') =
        map (\<lambda>x. (jobId (as_id x), if de_publish_error env (jobId (as_id x)) = None then ''queued'' else ''failed'')) as
    \<and> s_id (an_scan ans) = newId
    \<and> s_status (an_scan ans) =
        (if as = [] then ''succeeded''
         else if \<forall>x \<in> set as. de_publish_error env (jobId (as_id x)) \<noteq> None then ''failed'' else ''running'')"
proof -
  obtain key requestedBy where kr: "resolveScanKickIdempotencyKey header (rq_externalId rq) = Inr key"
      "resolveRequestedBy (de_is_uuid env) db userId = Inr requestedBy"
    using run by (auto simp: createScan_def Let_def split: sum.splits)
  define a where "a = kick_args_for env org rq trigger as requestedBy key newId jobId"
  have sel: "pk_org a = org" "pk_scanId a = newId" "pk_jobId a = jobId" "pk_assets a = as"
    by (simp_all add: a_def kick_args_for_def)
  obtain r db1 where p: "persistKick a snap db = (r, db1)" by fastforce
  have c: "(case (r, db1) of
        (Inl e, db1) \<Rightarrow> (Inl e, [], db1)
      | (Inr (scan, True), db1) \<Rightarrow>
          (Inr \<lparr>an_scan = scan, an_jobsDispatched = length (jobs_of org (s_id scan) db1), an_concluded = False\<rparr>, [], db1)
      | (Inr (scan, False), db1) \<Rightarrow>
          (case dispatch_accepted env org rq as scan db1 of (answer, pub, db2) \<Rightarrow> (Inr answer, pub, db2)))
      = (Inr ans, pub, db')"
    using run kr p unfolding as by (simp add: createScan_def Let_def a_def as)
  then have r: "r = Inr (created_scan a, False)" "db1 = insert_kick a db"
    using persistKick_cases[OF p] new by auto
  have d: "dispatch_accepted env org rq as (created_scan a) (insert_kick a db) = (ans, pub, db')"
    using c r by (auto split: prod.splits)
  have dist: "distinct (map as_id as)" using tab as distinct_plan by (auto simp: tables_ok_def)
  show ?thesis
  proof (cases "as = []")
    case True
    have "jobs_of org newId (insert_kick a db) = []" "the_scan org newId (insert_kick a db) = Some (created_scan a)"
      using insert_kick_jobs[OF tab, of a] fresh sel True by (auto simp: fresh_ids_def)
    then show ?thesis using d env True sel
      by (auto simp: dispatch_accepted_def no_faults_def Let_def created_scan_def)
  next
    case False
    obtain es where es: "settling org newId (map (jobId \<circ> as_id) as) es db'"
        "map settles es = map (jobId \<circ> as_id) (filter (refused env a) as)"
        "list_all (\<lambda>e. outcome e = ''failed'') es"
        "list_all2 (\<lambda>p x. p_jobId p = jobId (as_id x) \<and> p_orgId p = org \<and> p_assetId p = as_id x
            \<and> p_target p = scanJobTarget x \<and> p_attempt p = 1) pub (filter (\<lambda>x. \<not> refused env a x) as)"
        "an_jobsDispatched ans = length as" "the_scan org newId db' = Some (an_scan ans)"
      using dispatch_fresh_kick[OF tab _ env, of a rq ans pub db'] fresh d dist False sel by auto
    have jobs: "map j_id (jobs_of org newId db') = map (jobId \<circ> as_id) as" "recorded org newId es db'"
      using es(1) by (auto simp: settling_def)
    have rf: "refused env a x \<longleftrightarrow> de_publish_error env (jobId (as_id x)) \<noteq> None" for x
      by (simp add: refused_def sel)
    have st: "j_status j = (if de_publish_error env (j_id j) = None then ''queued'' else ''failed'')"
      if j: "j \<in> set (jobs_of org newId db')" for j
    proof -
      obtain x where x: "x \<in> set as" "j_id j = jobId (as_id x)"
        using j jobs(1) by (metis (no_types, lifting) comp_apply image_iff list.set_map)
      have mem: "j_id j \<in> settles ` set es \<longleftrightarrow> de_publish_error env (j_id j) \<noteq> None"
      proof -
        have "settles ` set es = set (map settles es)" by simp
        also have "\<dots> = (jobId \<circ> as_id) ` {y \<in> set as. de_publish_error env (jobId (as_id y)) \<noteq> None}"
          unfolding es(2) using rf by auto
        finally show ?thesis using x by (auto simp: image_iff)
      qed
      have rec: "\<forall>e \<in> set es. settles e = j_id j \<longrightarrow> j_status j = outcome e"
        "j_id j \<notin> settles ` set es \<longrightarrow> j_status j = ''queued''"
        using jobs(2) j unfolding recorded_def by blast+
      show ?thesis
      proof (cases "j_id j \<in> settles ` set es")
        case True
        then obtain e where "e \<in> set es" "settles e = j_id j" by auto
        then have "j_status j = ''failed''" using rec(1) es(3) by (auto simp: list_all_iff)
        then show ?thesis using True mem by simp
      next
        case False
        then show ?thesis using rec(2) mem by simp
      qed
    qed
    have "map (\<lambda>j. (j_id j, j_status j)) (jobs_of org newId db') =
        map (\<lambda>i. (i, if de_publish_error env i = None then ''queued'' else ''failed'')) (map j_id (jobs_of org newId db'))"
      using st by simp
    also have "\<dots> = map (\<lambda>x. (jobId (as_id x), if de_publish_error env (jobId (as_id x)) = None then ''queued'' else ''failed'')) as"
      by (simp add: jobs(1))
    finally have rows: "map (\<lambda>j. (j_id j, j_status j)) (jobs_of org newId db') =
        map (\<lambda>x. (jobId (as_id x), if de_publish_error env (jobId (as_id x)) = None then ''queued'' else ''failed'')) as" .
    have len: "length es = length (filter (refused env a) as)" using es(2) by (metis length_map)
    have full: "length es = length as \<longleftrightarrow> (\<forall>x \<in> set as. de_publish_error env (jobId (as_id x)) \<noteq> None)"
      using filter_all_iff[of "refused env a" as] len rf by (simp add: list_all_iff)
    have "length es \<le> length as" using len by simp
    then have "s_status (an_scan ans) = (if length es = length as then ''failed'' else ''running'')"
      using es(1,3,6) False by (cases es) (auto simp: settling_def summary_def list_all_iff)
    moreover have "s_id (an_scan ans) = newId" using es(6) by (auto simp: the_scan_def find_Some_iff)
    ultimately show ?thesis using es(4,5) rows full False rf by simp
  qed
qed



theorem createScan_dispatches_every_job_witness:
  "case createScan quiet_env ''o1'' None sast_request ''ci'' No_header ''s1'' (\<lambda>a. ''job-'' @ a) two_assets two_assets of
     (Inr ans, pub, db') \<Rightarrow> an_jobsDispatched ans = 2 \<and> s_status (an_scan ans) = ''running''
   | _ \<Rightarrow> False"
proof -
  let ?r = "createScan quiet_env ''o1'' None sast_request ''ci'' No_header ''s1'' (\<lambda>a. ''job-'' @ a) two_assets two_assets"
  let ?as = "plan two_assets ''o1'' (rq_scannerType sast_request) (rq_selector sast_request)"
  have c1: "\<not> isl (fst ?r)" by code_simp
  have c2: "length (scan_kicks (snd (snd ?r))) = 1" by code_simp
  have c3: "map as_id ?as = [''a1'', ''a2'']" by code_simp
  obtain ans pub db' where run: "?r = (Inr ans, pub, db')"
    using c1 by (metis prod_cases3 isl_def obj_sumE fst_conv)
  have new: "scan_kicks db' \<noteq> scan_kicks two_assets"
    using c2 unfolding run by (auto simp: two_assets_def empty_db_def)
  have "tables_ok two_assets" by (simp add: tables_ok_def two_assets_def empty_db_def pay_asset_def)
  moreover have "fresh_ids two_assets ''s1'' (\<lambda>a. ''job-'' @ a)"
    by (simp add: fresh_ids_def two_assets_def empty_db_def inj_def)
  moreover have "no_faults quiet_env" by (simp add: no_faults_def quiet_env_def)
  ultimately have st: "an_jobsDispatched ans = length ?as \<and> s_status (an_scan ans) = (if ?as = [] then ''succeeded''
      else if \<forall>x \<in> set ?as. de_publish_error quiet_env (''job-'' @ as_id x) \<noteq> None then ''failed'' else ''running'')"
    using createScan_dispatches_every_job[OF _ _ _ run new refl] by blast
  obtain x y where xy: "?as = [x, y]" "as_id x = ''a1''" using c3 by (auto simp: map_eq_Cons_conv)
  have "de_publish_error quiet_env (''job-'' @ as_id x) = None"
    unfolding xy(2) by (simp add: quiet_env_def one_refused_def)
  then have "an_jobsDispatched ans = 2 \<and> s_status (an_scan ans) = ''running''"
    using st unfolding xy(1) by simp
  then show ?thesis unfolding run by simp
qed


subsection \<open>Counting deliveries instead of jobs\<close>

definition after_settling :: "(instant \<times> settle_event) list \<Rightarrow> scan_db \<Rightarrow> scan_db" where
  "after_settling es db = (case settle_all es db of Inl e \<Rightarrow> db | Inr db' \<Rightarrow> db')"

definition scan_view :: "ident \<Rightarrow> ident \<Rightarrow> scan_db \<Rightarrow> string option \<times> string list" where
  "scan_view org sid db = (map_option s_status (the_scan org sid db), map j_status (jobs_of org sid db))"

text \<open>
  A job counted twice. The close-out counts deliveries, not jobs. With two queued jobs, the
  result of one delivered twice, as a lost acknowledgement makes JetStream do, closes the scan as
  succeeded while the other job is still queued. A failed job that \<^verbatim>\<open>retryJob\<close> re-dispatches and that
  then succeeds is counted twice in the same way.
\<close>

theorem job_counted_twice_closes_the_scan_early:
  "scan_view ''o1'' ''s1'' (after_settling
       [(5, Job_reported (report ''job-a1'' ''succeeded'')), (6, Job_reported (report ''job-a1'' ''succeeded''))] two_jobs)
     = (Some ''succeeded'', [''succeeded'', ''queued''])
   \<and> scan_view ''o1'' ''s1'' (after_settling [(9, Job_reported (report ''job-a1'' ''succeeded''))]
       (snd (snd (retryJob quiet_env ''o1'' ''job-a1''
          (after_settling [(5, Job_reported (report ''job-a1'' ''failed''))]
             (two_jobs\<lparr>assets := [pay_asset]\<rparr>))))))
     = (Some ''succeeded'', [''succeeded'', ''queued''])"
  by (intro conjI) code_simp+

end
