(* ===== verification/ScanSchedule.thy ===== *)
theory ScanSchedule
imports ScanLifecycle Coordination
begin

text \<open>
  The scheduled sweep of the orchestrator (\<^verbatim>\<open>scans/scan-schedule.service.ts\<close>): every tick of the lease
  holder starts one scan for each organisation and scanner type whose cadence has elapsed.
\<close>

definition DEFAULT_CADENCE_MS :: "(string \<times> int) list" where
  "DEFAULT_CADENCE_MS =
     [(''sca'', 6 * 60 * 60000), (''sast'', 24 * 60 * 60000), (''container'', 12 * 60 * 60000),
      (''iac'', 24 * 60 * 60000), (''secrets'', 24 * 60 * 60000), (''asm'', 24 * 60 * 60000),
      (''cloud_posture'', 6 * 60 * 60000)]"

definition SCAN_SCHEDULE_TICK_MS :: int where
  "SCAN_SCHEDULE_TICK_MS = 5 * 60000"

text \<open>\<^verbatim>\<open>findFirst\<close> ordered by \<^verbatim>\<open>createdAt\<close> descending: the newest scheduled scan's instant.\<close>

definition last_scheduled :: "scan_db \<Rightarrow> ident \<Rightarrow> string \<Rightarrow> instant option" where
  "last_scheduled db org t =
     (case map s_createdAt
             (filter (\<lambda>s. s_org s = org \<and> s_scannerType s = t \<and> s_trigger s = ''scheduled'') (scans db)) of
        [] \<Rightarrow> None
      | c # cs \<Rightarrow> Some (fold max cs c))"

definition scheduled_request :: "string \<Rightarrow> scan_request" where
  "scheduled_request t = \<lparr>rq_scannerType = t, rq_selector = whole_surface, rq_options = JObj [], rq_externalId = None\<rparr>"

text \<open>One organisation and one scanner type. \<open>newId\<close> and \<open>jobId\<close> generate the identifiers; the
  environment of the dispatch carries the clock.\<close>

definition sweep_one ::
    "dispatch_env \<Rightarrow> (ident \<Rightarrow> string \<Rightarrow> ident) \<Rightarrow> (ident \<Rightarrow> string \<Rightarrow> ident \<Rightarrow> ident) \<Rightarrow> ident \<Rightarrow> string \<Rightarrow> int \<Rightarrow> scan_db \<Rightarrow> scan_db" where
  "sweep_one env newId jobId org t cadence db =
     (case last_scheduled db org t of
        Some c \<Rightarrow> if de_now env - c < cadence then db
                 else snd (snd (createScan env org None (scheduled_request t) ''scheduled'' No_header
                                  (newId org t) (jobId org t) db db))
      | None \<Rightarrow> snd (snd (createScan env org None (scheduled_request t) ''scheduled'' No_header
                            (newId org t) (jobId org t) db db)))"

fun sweep_types ::
    "dispatch_env \<Rightarrow> (ident \<Rightarrow> string \<Rightarrow> ident) \<Rightarrow> (ident \<Rightarrow> string \<Rightarrow> ident \<Rightarrow> ident) \<Rightarrow> ident \<Rightarrow> (string \<times> int) list \<Rightarrow> scan_db \<Rightarrow> scan_db" where
  "sweep_types env newId jobId org [] db = db"
| "sweep_types env newId jobId org ((t, cadence) # ts) db =
     sweep_types env newId jobId org ts (sweep_one env newId jobId org t cadence db)"

fun tick ::
    "dispatch_env \<Rightarrow> (ident \<Rightarrow> string \<Rightarrow> ident) \<Rightarrow> (ident \<Rightarrow> string \<Rightarrow> ident \<Rightarrow> ident) \<Rightarrow> ident list \<Rightarrow> scan_db \<Rightarrow> scan_db" where
  "tick env newId jobId [] db = db"
| "tick env newId jobId (org # orgs) db =
     tick env newId jobId orgs (sweep_types env newId jobId org DEFAULT_CADENCE_MS db)"

text \<open>The interval's entry point: only the lease holder sweeps.\<close>

definition runScheduledTick ::
    "'s lease_ops \<Rightarrow> leader_lease \<Rightarrow> 's \<Rightarrow> dispatch_env \<Rightarrow> (ident \<Rightarrow> string \<Rightarrow> ident) \<Rightarrow> (ident \<Rightarrow> string \<Rightarrow> ident \<Rightarrow> ident) \<Rightarrow>
     ident list \<Rightarrow> scan_db \<Rightarrow> bool \<times> leader_lease \<times> 's \<times> scan_db" where
  "runScheduledTick ops lease store env newId jobId orgs db =
     runIfLeader ops (de_now env) lease (tick env newId jobId orgs) store db"


subsection \<open>The cadence is respected\<close>

definition scheduled_at :: "scan_db \<Rightarrow> ident \<Rightarrow> string \<Rightarrow> instant list" where
  "scheduled_at db org t =
     map s_createdAt (filter (\<lambda>s. s_org s = org \<and> s_scannerType s = t \<and> s_trigger s = ''scheduled'') (scans db))"

text \<open>Each scheduled scan of the organisation and type was created a full cadence after every earlier one.\<close>

definition spaced :: "scan_db \<Rightarrow> bool" where
  "spaced db \<longleftrightarrow> (\<forall>org. \<forall>(t, cadence) \<in> set DEFAULT_CADENCE_MS.
     sorted_wrt (\<lambda>earlier later. earlier + cadence \<le> later) (scheduled_at db org t))"

datatype kick_event =
    Sweep dispatch_env "ident \<Rightarrow> string \<Rightarrow> ident" "ident \<Rightarrow> string \<Rightarrow> ident \<Rightarrow> ident" "ident list"
  | Client_kick dispatch_env ident "string option" scan_request string header_value ident "ident \<Rightarrow> ident" scan_db

fun kick_step :: "kick_event \<Rightarrow> scan_db \<Rightarrow> scan_db" where
  "kick_step (Sweep env newId jobId orgs) db = tick env newId jobId orgs db"
| "kick_step (Client_kick env org user rq trigger header newId jobId snap) db =
     snd (snd (createScan env org user rq trigger header newId jobId snap db))"

text \<open>A client's trigger is \<^verbatim>\<open>manual\<close>, \<^verbatim>\<open>webhook\<close> or \<^verbatim>\<open>ci\<close>: the controller never passes \<^verbatim>\<open>scheduled\<close>.\<close>

fun client_trigger :: "kick_event \<Rightarrow> bool" where
  "client_trigger (Client_kick env org user rq trigger header newId jobId snap) = (trigger \<noteq> ''scheduled'')"
| "client_trigger (Sweep env newId jobId orgs) = True"

lemma scheduled_at_keys:
  "scheduled_at db org t = map (\<lambda>(i, o', t', tr, c). c)
     (filter (\<lambda>(i, o', t', tr, c). o' = org \<and> t' = t \<and> tr = ''scheduled'') (map scan_key (scans db)))"
  by (simp add: scheduled_at_def filter_map o_def scan_key_def)

lemma createScan_scheduled_at:
  assumes "createScan env org userId rq trigger header newId jobId snap db = (r, pub, db')"
  shows "scheduled_at db' o' t = scheduled_at db o' t \<or>
    (o' = org \<and> t = rq_scannerType rq \<and> trigger = ''scheduled'' \<and>
     scheduled_at db' o' t = scheduled_at db o' t @ [de_now env])"
  using createScan_cases[OF assms]
proof (elim disjE exE conjE)
  fix ans key requestedBy
  let ?a = "kick_args_for env org rq trigger (plan db org (rq_scannerType rq) (rq_selector rq))
      requestedBy key newId jobId"
  assume k: "keeps_rows (insert_kick ?a db) db'"
  have "scheduled_at db' o' t = scheduled_at (insert_kick ?a db) o' t"
    using k by (simp only: scheduled_at_keys keeps_rows_def)
  then show ?thesis by (simp add: scheduled_at_def insert_kick_def created_scan_def kick_args_for_def)
qed simp

lemma fold_max: "fold max cs (c :: int) = Max (set (c # cs))"
  by (rule Max.set_eq_fold[symmetric])

lemma last_scheduled_Max:
  "last_scheduled db org t = (if scheduled_at db org t = [] then None else Some (Max (set (scheduled_at db org t))))"
proof -
  have "last_scheduled db org t = (case scheduled_at db org t of [] \<Rightarrow> None | c # cs \<Rightarrow> Some (fold max cs c))"
    by (simp add: last_scheduled_def scheduled_at_def)
  then show ?thesis by (cases "scheduled_at db org t") (simp_all del: set_simps add: fold_max)
qed

lemma cadence_unique:
  "\<lbrakk>(t, c) \<in> set DEFAULT_CADENCE_MS; (t, c') \<in> set DEFAULT_CADENCE_MS\<rbrakk> \<Longrightarrow> c = c'"
  by (auto simp: DEFAULT_CADENCE_MS_def)

lemma sweep_one_spaced:
  assumes sp: "spaced db" and tc: "(t, cadence) \<in> set DEFAULT_CADENCE_MS"
  shows "spaced (sweep_one env newId jobId org t cadence db)"
proof (cases "\<forall>c \<in> set (scheduled_at db org t). cadence \<le> de_now env - c")
  case False
  then obtain c where c: "c \<in> set (scheduled_at db org t)" "de_now env - c < cadence" by auto
  then have "c \<le> Max (set (scheduled_at db org t))" by simp
  then have "de_now env - Max (set (scheduled_at db org t)) < cadence" using c(2) by linarith
  then have "sweep_one env newId jobId org t cadence db = db"
    using c by (auto simp: sweep_one_def last_scheduled_Max)
  then show ?thesis using sp by simp
next
  case True
  obtain r pub db' where cs: "createScan env org None (scheduled_request t) ''scheduled'' No_header
      (newId org t) (jobId org t) db db = (r, pub, db')" by (metis prod_cases3)
  have "spaced db'"
    unfolding spaced_def
  proof (intro allI ballI, clarify)
    fix o' t' cad' assume m: "(t', cad') \<in> set DEFAULT_CADENCE_MS"
    have old: "sorted_wrt (\<lambda>earlier later. earlier + cad' \<le> later) (scheduled_at db o' t')"
      using sp m by (auto simp: spaced_def)
    show "sorted_wrt (\<lambda>earlier later. earlier + cad' \<le> later) (scheduled_at db' o' t')"
      using createScan_scheduled_at[OF cs, of o' t'] old True cadence_unique[OF tc] m
      by (auto simp: sorted_wrt_append scheduled_request_def algebra_simps)
  qed
  then show ?thesis using sp by (auto simp: sweep_one_def cs split: option.splits)
qed

lemma sweep_types_spaced:
  "\<lbrakk>spaced db; set ts \<subseteq> set DEFAULT_CADENCE_MS\<rbrakk> \<Longrightarrow> spaced (sweep_types env newId jobId org ts db)"
  by (induction env newId jobId org ts db rule: sweep_types.induct) (auto simp: sweep_one_spaced)

lemma tick_spaced: "spaced db \<Longrightarrow> spaced (tick env newId jobId orgs db)"
  by (induction env newId jobId orgs db rule: tick.induct) (auto simp: sweep_types_spaced)



end
