(* ===== verification/Findings.thy ===== *)
theory Findings
imports Contracts "HOL-Library.List_Lexorder" "HOL-Library.Char_ord"
begin

text \<open>
  The findings service: identity, deduplication and severity of what scanners report
  (\<^verbatim>\<open>findings/finding-normalizer.ts\<close>), the ingest of a batch, auto-resolution and triage
  (\<^verbatim>\<open>findings/findings.service.ts\<close>).

  SHA-256 is not code of the repository: \<open>hash\<close> is an argument, and what needs it to be free of
  collisions says so.
\<close>


section \<open>What a scanner reports\<close>

type_synonym entries = "(string \<times> json) list"

record raw_finding =
  rf_externalId :: string
  rf_scannerType :: string
  rf_scannerName :: string
  rf_title :: string
  rf_description :: string
  rf_severity :: string
  rf_identifiers :: "(string \<times> string) list"
  rf_cvssVector :: "string option"
  rf_cvssScore :: "rat option"
  rf_epssScore :: "rat option"
  rf_kev :: bool
  rf_location :: entries
  rf_fixAvailable :: bool
  rf_fixedVersion :: "string option"
  rf_evidence :: entries

text \<open>An optional string field of the location, and the optional port.\<close>

definition loc_str :: "raw_finding \<Rightarrow> string \<Rightarrow> string option" where
  "loc_str f k = (case map_of (rf_location f) k of Some (JStr s) \<Rightarrow> Some s | _ \<Rightarrow> None)"

definition string_of_int :: "int \<Rightarrow> string" where
  "string_of_int i = (if i < 0 then ''-'' @ string_of_nat (nat (- i)) else string_of_nat (nat i))"

definition loc_port :: "raw_finding \<Rightarrow> string option" where
  "loc_port f = (case map_of (rf_location f) ''port'' of Some (JNum n) \<Rightarrow> Some (string_of_int \<lfloor>n\<rfloor>) | _ \<Rightarrow> None)"

text \<open>\<^verbatim>\<open>a ?? b\<close>, and an optional string inside a template literal.\<close>

definition or_else :: "'a option \<Rightarrow> 'a \<Rightarrow> 'a" where
  "or_else a b = (case a of Some x \<Rightarrow> x | None \<Rightarrow> b)"

definition templated :: "string option \<Rightarrow> string" where
  "templated a = or_else a ''undefined''"


section \<open>Identity (fingerprint)\<close>

definition rule_of :: "raw_finding \<Rightarrow> string" where
  "rule_of f =
     (case find (\<lambda>(system, v). js_lower system = ''rule'') (rf_identifiers f) of
        Some (s, v) \<Rightarrow> v | None \<Rightarrow> rf_externalId f)"

definition is_vuln_system :: "string \<Rightarrow> bool" where
  "is_vuln_system system = (js_lower system \<in> {''cve'', ''ghsa'', ''osv''})"

definition vuln_of :: "raw_finding \<Rightarrow> string" where
  "vuln_of f =
     (case find (\<lambda>(system, v). is_vuln_system system) (rf_identifiers f) of
        Some (s, v) \<Rightarrow> js_upper v | None \<Rightarrow> rf_externalId f)"

definition identity_parts :: "ident \<Rightarrow> raw_finding \<Rightarrow> string list" where
  "identity_parts assetId f =
     (if rf_scannerType f = ''iac'' then
        [assetId, ''iac'', rule_of f, or_else (loc_str f ''path'') [], or_else (loc_str f ''resource'') []]
      else if rf_scannerType f = ''container'' then
        [assetId, ''container'', vuln_of f,
         or_else (loc_str f ''purl'')
           (or_else (loc_str f ''packageName'') [] @ ''@'' @ or_else (loc_str f ''packageVersion'') []),
         or_else (loc_str f ''imageLayer'') []]
      else if rf_scannerType f = ''cloud_posture'' then
        [assetId, ''cloud_posture'', rule_of f, or_else (loc_str f ''resource'') []]
      else
        [assetId, rf_scannerType f, vuln_of f] @
        (if rf_scannerType f = ''sca'' then
           [or_else (loc_str f ''purl'')
              (templated (loc_str f ''packageName'') @ ''@'' @ templated (loc_str f ''packageVersion''))]
         else if rf_scannerType f = ''sast'' \<or> rf_scannerType f = ''secrets'' then [or_else (loc_str f ''path'') []]
         else if rf_scannerType f = ''asm'' then
           [or_else (loc_str f ''resource'') (or_else (loc_str f ''url'') (or_else (loc_port f) []))]
         else []))"

definition fingerprint :: "(string \<Rightarrow> string) \<Rightarrow> ident \<Rightarrow> raw_finding \<Rightarrow> string" where
  "fingerprint hash assetId f = hash (join_with ''|'' (identity_parts assetId f))"

definition bar_free :: "ident \<Rightarrow> raw_finding \<Rightarrow> bool" where
  "bar_free assetId f = list_all (\<lambda>p. CHR ''|'' \<notin> set p) (identity_parts assetId f)"

definition iac_finding :: "string \<Rightarrow> string \<Rightarrow> raw_finding" where
  "iac_finding path resource = \<lparr>rf_externalId = ''e'', rf_scannerType = ''iac'', rf_scannerName = ''n'',
     rf_title = ''t'', rf_description = [], rf_severity = ''high'', rf_identifiers = [(''rule'', ''S3-1'')],
     rf_cvssVector = None, rf_cvssScore = None, rf_epssScore = None, rf_kev = False,
     rf_location = [(''path'', JStr path), (''resource'', JStr resource)], rf_fixAvailable = False,
     rf_fixedVersion = None, rf_evidence = []\<rparr>"

text \<open>
  Identity. With a collision-free hash, two findings whose identity parts contain no bar get
  the same fingerprint exactly when their identity parts are equal; in particular findings of two
  scanner types or of two assets never share a fingerprint.
\<close>

theorem fingerprint_is_identity:
  assumes "inj hash" and "bar_free a f" and "bar_free b g"
  shows "(fingerprint hash a f = fingerprint hash b g \<longleftrightarrow> identity_parts a f = identity_parts b g)
    \<and> (fingerprint hash a f = fingerprint hash b g \<longrightarrow> a = b \<and> rf_scannerType f = rf_scannerType g)"
proof -
  have ne: "identity_parts c h \<noteq> []" for c h by (simp add: identity_parts_def)
  have "fingerprint hash a f = fingerprint hash b g \<longleftrightarrow> identity_parts a f = identity_parts b g"
    using join_with_inj[of "CHR ''|''" "identity_parts a f" "identity_parts b g"] assms ne
    by (auto simp: fingerprint_def bar_free_def list_all_iff dest: injD)
  moreover have "identity_parts a f = identity_parts b g \<Longrightarrow> a = b \<and> rf_scannerType f = rf_scannerType g"
    by (drule arg_cong[where f = "take 2"]) (simp add: identity_parts_def numeral_2_eq_2 split: if_splits)
  ultimately show ?thesis by blast
qed

theorem fingerprint_is_identity_witness:
  "fingerprint id ''a1'' (iac_finding ''main.tf'' ''bucket'') \<noteq> fingerprint id ''a2'' (iac_finding ''main.tf'' ''bucket'')"
proof -
  have "bar_free ''a1'' (iac_finding ''main.tf'' ''bucket'')" "bar_free ''a2'' (iac_finding ''main.tf'' ''bucket'')"
    by code_simp+
  then show ?thesis
    using fingerprint_is_identity[of id "''a1''" "iac_finding ''main.tf'' ''bucket''" "''a2''"
        "iac_finding ''main.tf'' ''bucket''"] by auto
qed

text \<open>
  A bar inside a part. The parts are joined by a bar that is not escaped, so two different
  Terraform resources in two different files share a fingerprint whatever the hash, and the second
  is merged into the first.
\<close>

theorem fingerprint_bar_collision:
  "fingerprint hash a (iac_finding ''x|y'' ''z'') = fingerprint hash a (iac_finding ''x'' ''y|z'')
   \<and> identity_parts a (iac_finding ''x|y'' ''z'') \<noteq> identity_parts a (iac_finding ''x'' ''y|z'')"
  by (simp add: fingerprint_def identity_parts_def iac_finding_def loc_str_def or_else_def rule_of_def)


section \<open>Collapsing one scan's findings (collapseScan)\<close>

fun js_str :: "json \<Rightarrow> string option" where
  "js_str (JStr s) = Some s"
| "js_str _ = None"

fun is_str :: "json \<Rightarrow> bool" where
  "is_str (JStr s) = True"
| "is_str _ = False"

text \<open>The string elements of an array, and an array of strings only.\<close>

definition str_elems :: "json list \<Rightarrow> string list" where
  "str_elems vs = List.map_filter js_str vs"

definition all_str :: "json list \<Rightarrow> bool" where
  "all_str vs = list_all is_str vs"

definition lockfilePaths :: "json option \<Rightarrow> string list" where
  "lockfilePaths value =
     (case value of
        Some (JStr s) \<Rightarrow> if s \<noteq> [] then [s] else []
      | Some (JArr vs) \<Rightarrow> filter (\<lambda>s. s \<noteq> []) (str_elems vs)
      | _ \<Rightarrow> [])"

fun string_array :: "json \<Rightarrow> string list option" where
  "string_array (JArr vs) = (if all_str vs then Some (str_elems vs) else None)"
| "string_array _ = None"

definition dependencyPaths :: "json option \<Rightarrow> string list list" where
  "dependencyPaths value =
     (case value of
        Some (JArr vs) \<Rightarrow>
          if vs = [] then []
          else if all_str vs then [str_elems vs]
          else List.map_filter string_array vs
      | _ \<Rightarrow> [])"

definition unionLockfilePaths :: "json option \<Rightarrow> json option \<Rightarrow> json option" where
  "unionLockfilePaths a b =
     (let unique = sort (uniq (lockfilePaths a @ lockfilePaths b)) in
      case unique of
        [] \<Rightarrow> None
      | [u] \<Rightarrow> Some (JStr u)
      | _ \<Rightarrow> Some (JArr (map JStr unique)))"

text \<open>\<^verbatim>\<open>JSON.stringify\<close> of an array of strings is the key of the set; it identifies the array.\<close>

definition unionDependencyPaths :: "json option \<Rightarrow> json option \<Rightarrow> json option" where
  "unionDependencyPaths a b =
     (let out = uniq (dependencyPaths a @ dependencyPaths b) in
      case out of
        [] \<Rightarrow> None
      | [u] \<Rightarrow> Some (JArr (map JStr u))
      | _ \<Rightarrow> Some (JArr (map (\<lambda>p. JArr (map JStr p)) out)))"

definition unionLocation :: "entries \<Rightarrow> entries \<Rightarrow> entries" where
  "unionLocation existing incoming =
     (case unionLockfilePaths (map_of existing ''path'') (map_of incoming ''path'') of
        None \<Rightarrow> existing
      | Some path \<Rightarrow> json_put ''path'' path existing)"

definition unionEvidence :: "entries \<Rightarrow> entries \<Rightarrow> entries" where
  "unionEvidence existing incoming =
     (case unionDependencyPaths (map_of existing ''dependencyPath'') (map_of incoming ''dependencyPath'') of
        None \<Rightarrow> existing
      | Some dependencyPath \<Rightarrow> json_put ''dependencyPath'' dependencyPath existing)"

record collapsed =
  c_fingerprint :: string
  c_finding :: raw_finding
  c_location :: entries
  c_evidence :: entries

text \<open>\<^verbatim>\<open>Map.set\<close>: a new key is appended, an existing one keeps its place.\<close>

fun put_collapsed :: "collapsed \<Rightarrow> collapsed list \<Rightarrow> collapsed list" where
  "put_collapsed inc [] = [inc]"
| "put_collapsed inc (c # cs) =
     (if c_fingerprint c = c_fingerprint inc
      then c\<lparr>c_location := unionLocation (c_location c) (c_location inc),
             c_evidence := unionEvidence (c_evidence c) (c_evidence inc)\<rparr> # cs
      else c # put_collapsed inc cs)"

definition incoming :: "(string \<Rightarrow> string) \<Rightarrow> ident \<Rightarrow> raw_finding \<Rightarrow> collapsed" where
  "incoming hash assetId f =
     \<lparr>c_fingerprint = fingerprint hash assetId f, c_finding = f, c_location = rf_location f,
      c_evidence = rf_evidence f\<rparr>"

definition collapseScan :: "(string \<Rightarrow> string) \<Rightarrow> ident \<Rightarrow> raw_finding list \<Rightarrow> collapsed list" where
  "collapseScan hash assetId fs = fold (\<lambda>f. put_collapsed (incoming hash assetId f)) fs []"


subsection \<open>Nothing is lost\<close>

definition paths_of :: "entries \<Rightarrow> string set" where
  "paths_of es = set (lockfilePaths (map_of es ''path''))"

definition chains_of :: "entries \<Rightarrow> string list set" where
  "chains_of es = set (dependencyPaths (map_of es ''dependencyPath'')) - {[]}"

lemma str_elems_map [simp]: "str_elems (map JStr xs) = xs"
  by (induction xs) (simp_all add: str_elems_def List.map_filter_simps)

lemma all_str_map [simp]: "all_str (map JStr xs)"
  by (simp add: all_str_def list_all_iff)

lemma map_filter_string_arrays [simp]:
  "List.map_filter string_array (map (\<lambda>p. JArr (map JStr p)) ps) = ps"
  by (induction ps) (simp_all add: List.map_filter_simps)

lemma dependencyPaths_None: "dependencyPaths None = []"
  by (simp add: dependencyPaths_def)

lemma lockfilePaths_nonempty: "[] \<notin> set (lockfilePaths v)"
  by (auto simp: lockfilePaths_def split: option.splits json.splits)

lemma set_unionLockfilePaths:
  "set (lockfilePaths (unionLockfilePaths a b)) = set (lockfilePaths a) \<union> set (lockfilePaths b)"
proof -
  let ?u = "sort (uniq (lockfilePaths a @ lockfilePaths b))"
  have s: "set ?u = set (lockfilePaths a) \<union> set (lockfilePaths b)" by simp
  then have ne: "[] \<notin> set ?u" using lockfilePaths_nonempty by auto
  have "set (lockfilePaths (unionLockfilePaths a b)) = set ?u"
  proof (cases ?u)
    case (Cons x xs)
    then have x: "x \<noteq> []" using ne by auto
    show ?thesis
    proof (cases xs)
      case Nil
      then have "unionLockfilePaths a b = Some (JStr x)" using Cons by (simp add: unionLockfilePaths_def)
      then show ?thesis using Cons Nil x by (simp add: lockfilePaths_def)
    next
      case (Cons y ys)
      then have "unionLockfilePaths a b = Some (JArr (map JStr ?u))"
        using \<open>?u = x # xs\<close> by (simp add: unionLockfilePaths_def)
      then have "lockfilePaths (unionLockfilePaths a b) = filter (\<lambda>s. s \<noteq> []) ?u"
        by (simp only: lockfilePaths_def option.case json.case str_elems_map)
      moreover have "filter (\<lambda>s. s \<noteq> []) ?u = ?u" using ne by (metis (mono_tags, lifting) filter_True)
      ultimately show ?thesis by simp
    qed
  next
    case Nil
    then show ?thesis by (simp add: unionLockfilePaths_def lockfilePaths_def)
  qed
  then show ?thesis using s by simp
qed

lemma set_unionDependencyPaths:
  "set (dependencyPaths (unionDependencyPaths a b)) - {[]} =
     (set (dependencyPaths a) - {[]}) \<union> (set (dependencyPaths b) - {[]})"
proof -
  let ?u = "uniq (dependencyPaths a @ dependencyPaths b)"
  have "set (dependencyPaths (unionDependencyPaths a b)) - {[]} = set ?u - {[]}"
  proof (cases ?u)
    case Nil
    then have "unionDependencyPaths a b = None" unfolding unionDependencyPaths_def by simp
    then show ?thesis using Nil by (simp add: dependencyPaths_None)
  next
    case (Cons x xs)
    show ?thesis
    proof (cases xs)
      case Nil
      then have "unionDependencyPaths a b = Some (JArr (map JStr x))" using Cons by (simp add: unionDependencyPaths_def)
      then show ?thesis using Cons Nil by (simp add: dependencyPaths_def)
    next
      case (Cons y ys)
      then have "unionDependencyPaths a b = Some (JArr (map (\<lambda>p. JArr (map JStr p)) ?u))"
        using \<open>?u = x # xs\<close> by (simp add: unionDependencyPaths_def)
      moreover have "\<not> all_str (map (\<lambda>p. JArr (map JStr p)) ?u)" using \<open>?u = x # xs\<close> by (simp add: all_str_def)
      ultimately have "dependencyPaths (unionDependencyPaths a b) = ?u"
        using \<open>?u = x # xs\<close> by (simp only: dependencyPaths_def option.case json.case map_filter_string_arrays) simp
      then show ?thesis by simp
    qed
  qed
  then show ?thesis by auto
qed

lemma paths_of_union [simp]: "paths_of (unionLocation x y) = paths_of x \<union> paths_of y"
proof (cases "unionLockfilePaths (map_of x ''path'') (map_of y ''path'')")
  case None
  then have "paths_of x \<union> paths_of y = {}"
    using set_unionLockfilePaths[of "map_of x ''path''" "map_of y ''path''"] by (simp add: paths_of_def lockfilePaths_def)
  then show ?thesis using None by (simp add: unionLocation_def)
next
  case (Some v)
  then show ?thesis
    using set_unionLockfilePaths[of "map_of x ''path''" "map_of y ''path''"] by (simp add: paths_of_def unionLocation_def)
qed

lemma chains_of_union [simp]: "chains_of (unionEvidence x y) = chains_of x \<union> chains_of y"
proof (cases "unionDependencyPaths (map_of x ''dependencyPath'') (map_of y ''dependencyPath'')")
  case None
  then have "chains_of x \<union> chains_of y = {}"
    using set_unionDependencyPaths[of "map_of x ''dependencyPath''" "map_of y ''dependencyPath''"]
    by (simp add: chains_of_def dependencyPaths_def)
  then show ?thesis using None by (simp add: unionEvidence_def)
next
  case (Some v)
  then show ?thesis
    using set_unionDependencyPaths[of "map_of x ''dependencyPath''" "map_of y ''dependencyPath''"]
    by (simp add: chains_of_def unionEvidence_def)
qed

lemma put_collapsed_fps:
  "map c_fingerprint (put_collapsed inc cs) =
     (if c_fingerprint inc \<in> set (map c_fingerprint cs) then map c_fingerprint cs
      else map c_fingerprint cs @ [c_fingerprint inc])"
  by (induction cs) auto


text \<open>What a collapsed row stands for: the findings of its fingerprint seen so far.\<close>

definition stands_for :: "(string \<Rightarrow> string) \<Rightarrow> ident \<Rightarrow> raw_finding list \<Rightarrow> collapsed \<Rightarrow> bool" where
  "stands_for hash a fs c \<longleftrightarrow>
     (let same = filter (\<lambda>f. fingerprint hash a f = c_fingerprint c) fs in
      same \<noteq> [] \<and> c_finding c = hd same
      \<and> paths_of (c_location c) = (\<Union>f \<in> set same. paths_of (rf_location f))
      \<and> chains_of (c_evidence c) = (\<Union>f \<in> set same. chains_of (rf_evidence f)))"

lemma put_collapsed_stands_for:
  assumes "\<forall>c \<in> set cs. stands_for hash a fs c" and "distinct (map c_fingerprint cs)"
    and "set (map c_fingerprint cs) = set (map (fingerprint hash a) fs)"
  shows "\<forall>c \<in> set (put_collapsed (incoming hash a f) cs). stands_for hash a (fs @ [f]) c"
proof -
  let ?fp = "fingerprint hash a f"
  have keep: "stands_for hash a (fs @ [f]) c" if "c \<in> set cs" "c_fingerprint c \<noteq> ?fp" for c
    using assms(1) that by (auto simp: stands_for_def Let_def)
  have merge: "stands_for hash a (fs @ [f])
      (c\<lparr>c_location := unionLocation (c_location c) (rf_location f),
         c_evidence := unionEvidence (c_evidence c) (rf_evidence f)\<rparr>)"
    if "c \<in> set cs" "c_fingerprint c = ?fp" for c
    using assms(1) that by (auto simp: stands_for_def Let_def)
  have new: "stands_for hash a (fs @ [f]) (incoming hash a f)" if "?fp \<notin> set (map c_fingerprint cs)"
  proof -
    have "?fp \<notin> fingerprint hash a ` set fs" using that assms(3) by simp
    then have "filter (\<lambda>g. fingerprint hash a g = ?fp) fs = []"
      unfolding filter_empty_conv by (metis imageI)
    then show ?thesis by (simp add: stands_for_def incoming_def)
  qed
  have "set (put_collapsed (incoming hash a f) cs) \<subseteq>
      {c \<in> set cs. c_fingerprint c \<noteq> ?fp} \<union>
      (\<lambda>c. c\<lparr>c_location := unionLocation (c_location c) (rf_location f),
            c_evidence := unionEvidence (c_evidence c) (rf_evidence f)\<rparr>) ` {c \<in> set cs. c_fingerprint c = ?fp}
      \<union> (if ?fp \<in> set (map c_fingerprint cs) then {} else {incoming hash a f})"
    using assms(2) by (induction cs) (auto simp: incoming_def rev_image_eqI)
  then show ?thesis using keep merge new by (auto split: if_splits)
qed

text \<open>
  C31 (collapsing). \<^verbatim>\<open>collapseScan\<close> keeps one row per fingerprint, in the order of first appearance; the
  row carries the first finding of its fingerprint, and its lockfile paths and its dependency
  chains are exactly the union of those of all the findings that share it.
\<close>

theorem collapse_loses_nothing:
  "map c_fingerprint (collapseScan hash a fs) = uniq (map (fingerprint hash a) fs)
   \<and> (\<forall>c \<in> set (collapseScan hash a fs). stands_for hash a fs c)"
proof -
  have "map c_fingerprint (collapseScan hash a fs) = uniq (map (fingerprint hash a) fs)
      \<and> (\<forall>c \<in> set (collapseScan hash a fs). stands_for hash a fs c)"
  proof (induction fs rule: rev_induct)
    case Nil
    then show ?case by (simp add: collapseScan_def)
  next
    case (snoc f fs)
    have step: "collapseScan hash a (fs @ [f]) = put_collapsed (incoming hash a f) (collapseScan hash a fs)"
      by (simp add: collapseScan_def)
    have d: "distinct (map c_fingerprint (collapseScan hash a fs))"
      "set (map c_fingerprint (collapseScan hash a fs)) = set (map (fingerprint hash a) fs)"
      using snoc.IH by (metis distinct_uniq, metis set_uniq)
    have "c_fingerprint (incoming hash a f) = fingerprint hash a f" by (simp add: incoming_def)
    then have "map c_fingerprint (collapseScan hash a (fs @ [f])) = uniq (map (fingerprint hash a) (fs @ [f]))"
      using snoc.IH d(2) by (simp only: step put_collapsed_fps uniq_snoc map_append list.map)
    then show ?case
      using put_collapsed_stands_for[OF _ d, of f] snoc.IH unfolding step by blast
  qed
  then show ?thesis .
qed


section \<open>Severity and validation\<close>

definition reconcileSeverity :: "raw_finding \<Rightarrow> string" where
  "reconcileSeverity f =
     (case rf_cvssScore f of
        None \<Rightarrow> rf_severity f
      | Some score \<Rightarrow>
          if score \<ge> 9 then ''critical'' else if score \<ge> 7 then ''high'' else if score \<ge> 4 then ''medium''
          else if score > 0 then ''low'' else ''info'')"

text \<open>No scanner is believed on \<^verbatim>\<open>critical\<close> against its own CVSS score, and the severity grows with it.\<close>

lemma reconcileSeverity_critical:
  "rf_cvssScore f = Some s \<Longrightarrow> reconcileSeverity f = ''critical'' \<longleftrightarrow> s \<ge> 9"
  by (simp add: reconcileSeverity_def)

lemma reconcileSeverity_mono:
  assumes "rf_cvssScore f = Some s" and "rf_cvssScore g = Some t" and "s \<le> t"
  shows "the (SEVERITY_ORDER (reconcileSeverity f)) \<le> the (SEVERITY_ORDER (reconcileSeverity g))"
  using assms by (auto simp: reconcileSeverity_def SEVERITY_ORDER_def)

definition promoteValidation :: "raw_finding \<Rightarrow> entries \<Rightarrow> validation_verdict option" where
  "promoteValidation f evidence = promoteScaValidation (rf_scannerType f) (JObj evidence) (rf_kev f)"


section \<open>The findings table\<close>

record finding_row =
  f_id :: ident
  f_org :: ident
  f_assetId :: ident
  f_fingerprint :: string
  f_scannerType :: string
  f_scannerName :: string
  f_title :: string
  f_description :: string
  f_severity :: string
  f_riskScore :: rat
  f_state :: string
  f_validation :: validation_verdict
  f_identifiers :: "(string \<times> string) list"
  f_cvssScore :: "rat option"
  f_cvssVector :: "string option"
  f_epssScore :: "rat option"
  f_kev :: bool
  f_location :: entries
  f_evidence :: entries
  f_fixAvailable :: bool
  f_fixedVersion :: "string option"
  f_artifactKey :: "string option"
  f_slaDueAt :: "instant option"
  f_slaNotifiedAt :: "instant option"
  f_firstSeenAt :: instant
  f_lastSeenAt :: instant
  f_resolvedAt :: "instant option"

record finding_event =
  e_org :: ident
  e_findingId :: ident
  e_type :: string
  e_from :: string
  e_to :: string
  e_actor :: string
  e_reason :: string
  e_expiresAt :: "instant option"

record findings_db =
  findings :: "finding_row list"
  finding_events :: "finding_event list"

datatype findings_msg =
    Finding_created ident
  | Finding_updated ident
  | Rescore_requested
  | State_changed ident string string string

definition OPEN_STATES :: "string list" where
  "OPEN_STATES = [''open'', ''triaged'', ''in_progress'']"


section \<open>Ingesting a batch (FindingsService.ingest)\<close>

record reported_batch =
  b_assetId :: ident
  b_scannerType :: string
  b_artifactKey :: "string option"
  b_findings :: "raw_finding list"

definition created_finding :: "ident \<Rightarrow> reported_batch \<Rightarrow> instant \<Rightarrow> ident \<Rightarrow> collapsed \<Rightarrow> finding_row" where
  "created_finding org batch seenAt newId c =
     (let raw = c_finding c in
      \<lparr>f_id = newId, f_org = org, f_assetId = b_assetId batch, f_fingerprint = c_fingerprint c,
       f_scannerType = rf_scannerType raw, f_scannerName = rf_scannerName raw, f_title = rf_title raw,
       f_description = rf_description raw, f_severity = reconcileSeverity raw, f_riskScore = 0,
       f_state = ''open'', f_validation = or_else (promoteValidation raw (c_evidence c)) Not_validated,
       f_identifiers = rf_identifiers raw, f_cvssScore = rf_cvssScore raw, f_cvssVector = rf_cvssVector raw,
       f_epssScore = rf_epssScore raw, f_kev = rf_kev raw, f_location = c_location c,
       f_evidence = c_evidence c, f_fixAvailable = rf_fixAvailable raw,
       f_fixedVersion = rf_fixedVersion raw, f_artifactKey = b_artifactKey batch, f_slaDueAt = None,
       f_slaNotifiedAt = None, f_firstSeenAt = seenAt, f_lastSeenAt = seenAt, f_resolvedAt = None\<rparr>)"

text \<open>The update branch of the upsert; \<open>was_resolved\<close> is read from the row before it.\<close>

definition refreshed_finding :: "reported_batch \<Rightarrow> instant \<Rightarrow> bool \<Rightarrow> collapsed \<Rightarrow> finding_row \<Rightarrow> finding_row" where
  "refreshed_finding batch seenAt was_resolved c r =
     (let raw = c_finding c;
          r1 = r\<lparr>f_lastSeenAt := seenAt, f_severity := reconcileSeverity raw, f_cvssScore := rf_cvssScore raw,
                 f_epssScore := rf_epssScore raw, f_kev := rf_kev raw, f_fixAvailable := rf_fixAvailable raw,
                 f_fixedVersion := rf_fixedVersion raw, f_location := c_location c,
                 f_evidence := c_evidence c, f_artifactKey := b_artifactKey batch,
                 f_validation := or_else (promoteValidation raw (c_evidence c)) (f_validation r)\<rparr>
      in if was_resolved then r1\<lparr>f_state := ''open'', f_resolvedAt := None, f_slaNotifiedAt := None\<rparr> else r1)"

definition finding_at :: "ident \<Rightarrow> string \<Rightarrow> finding_row list \<Rightarrow> finding_row option" where
  "finding_at org fp rows = find (\<lambda>r. f_org r = org \<and> f_fingerprint r = fp) rows"

definition upsert_finding ::
    "ident \<Rightarrow> reported_batch \<Rightarrow> instant \<Rightarrow> (string \<Rightarrow> ident) \<Rightarrow> collapsed \<Rightarrow> finding_row list \<Rightarrow>
     bool \<times> finding_row list" where
  "upsert_finding org batch seenAt newId c rows =
     (case finding_at org (c_fingerprint c) rows of
        None \<Rightarrow> (True, rows @ [created_finding org batch seenAt (newId (c_fingerprint c)) c])
      | Some existing \<Rightarrow>
          (False, map (\<lambda>r. if f_org r = org \<and> f_fingerprint r = c_fingerprint c
                          then refreshed_finding batch seenAt (f_state existing = ''resolved'') c r else r) rows))"

text \<open>The loop: a publish that throws (\<open>bus_ok\<close> false on the fingerprint) ends the ingest there.\<close>

fun upsert_loop ::
    "ident \<Rightarrow> reported_batch \<Rightarrow> instant \<Rightarrow> (string \<Rightarrow> ident) \<Rightarrow> (string \<Rightarrow> bool) \<Rightarrow> collapsed list \<Rightarrow>
     findings_msg list \<times> finding_row list \<Rightarrow> bool \<times> findings_msg list \<times> finding_row list" where
  "upsert_loop org batch seenAt newId bus_ok [] (pub, rows) = (True, pub, rows)"
| "upsert_loop org batch seenAt newId bus_ok (c # cs) (pub, rows) =
     (case upsert_finding org batch seenAt newId c rows of
        (created, rows') \<Rightarrow>
          if \<not> bus_ok (c_fingerprint c) then (False, pub, rows')
          else
            (let i = (case finding_at org (c_fingerprint c) rows' of Some r \<Rightarrow> f_id r | None \<Rightarrow> []) in
             upsert_loop org batch seenAt newId bus_ok cs
               (pub @ [if created then Finding_created i else Finding_updated i], rows')))"

definition stale :: "ident \<Rightarrow> reported_batch \<Rightarrow> string list \<Rightarrow> finding_row \<Rightarrow> bool" where
  "stale org batch fingerprints r \<longleftrightarrow>
     f_org r = org \<and> f_assetId r = b_assetId batch \<and> f_scannerType r = b_scannerType batch
     \<and> f_state r \<in> set OPEN_STATES \<and> f_fingerprint r \<notin> set fingerprints"

definition auto_resolved :: "instant \<Rightarrow> finding_row \<Rightarrow> finding_row" where
  "auto_resolved seenAt r = r\<lparr>f_state := ''resolved'', f_resolvedAt := Some seenAt, f_slaNotifiedAt := None\<rparr>"

definition ingest ::
    "(string \<Rightarrow> string) \<Rightarrow> ident \<Rightarrow> reported_batch \<Rightarrow> instant \<Rightarrow> (string \<Rightarrow> ident) \<Rightarrow> (string \<Rightarrow> bool) \<Rightarrow>
     findings_db \<Rightarrow> bool \<times> findings_msg list \<times> findings_db" where
  "ingest hash org batch seenAt newId bus_ok db =
     (let rows = collapseScan hash (b_assetId batch) (b_findings batch);
          fingerprints = map c_fingerprint rows
      in case upsert_loop org batch seenAt newId bus_ok rows ([], findings db) of
           (False, pub, fs) \<Rightarrow> (False, pub, db\<lparr>findings := fs\<rparr>)
         | (True, pub, fs) \<Rightarrow>
             (True, pub @ [Rescore_requested],
              db\<lparr>findings := map (\<lambda>r. if stale org batch fingerprints r then auto_resolved seenAt r else r) fs\<rparr>))"


subsection \<open>Ingest as one batch update\<close>

text \<open>The reference: what a successful ingest makes of each row, and which rows it adds.\<close>

definition reported_as :: "collapsed list \<Rightarrow> string \<Rightarrow> collapsed option" where
  "reported_as cs fp = find (\<lambda>c. c_fingerprint c = fp) cs"

definition spec_row :: "ident \<Rightarrow> reported_batch \<Rightarrow> instant \<Rightarrow> collapsed list \<Rightarrow> finding_row \<Rightarrow> finding_row" where
  "spec_row org batch seenAt cs r =
     (if f_org r \<noteq> org then r
      else case reported_as cs (f_fingerprint r) of
             Some c \<Rightarrow> refreshed_finding batch seenAt (f_state r = ''resolved'') c r
           | None \<Rightarrow>
               if f_assetId r = b_assetId batch \<and> f_scannerType r = b_scannerType batch
                  \<and> f_state r \<in> set OPEN_STATES
               then auto_resolved seenAt r else r)"

definition spec_new :: "ident \<Rightarrow> reported_batch \<Rightarrow> instant \<Rightarrow> (string \<Rightarrow> ident) \<Rightarrow> finding_row list \<Rightarrow> collapsed list \<Rightarrow> finding_row list" where
  "spec_new org batch seenAt newId rows cs =
     map (\<lambda>c. created_finding org batch seenAt (newId (c_fingerprint c)) c)
       (filter (\<lambda>c. finding_at org (c_fingerprint c) rows = None) cs)"

definition findings_unique :: "finding_row list \<Rightarrow> bool" where
  "findings_unique rows \<longleftrightarrow> distinct (map (\<lambda>r. (f_org r, f_fingerprint r)) rows)"

definition refresh_row :: "ident \<Rightarrow> reported_batch \<Rightarrow> instant \<Rightarrow> collapsed list \<Rightarrow> finding_row \<Rightarrow> finding_row" where
  "refresh_row org batch seenAt cs r =
     (if f_org r \<noteq> org then r
      else case reported_as cs (f_fingerprint r) of
             Some c \<Rightarrow> refreshed_finding batch seenAt (f_state r = ''resolved'') c r | None \<Rightarrow> r)"

lemma refreshed_sel [simp]:
  "f_org (refreshed_finding b t w c r) = f_org r" "f_fingerprint (refreshed_finding b t w c r) = f_fingerprint r"
  "f_id (refreshed_finding b t w c r) = f_id r"
  by (simp_all add: refreshed_finding_def Let_def)

lemma created_sel [simp]:
  "f_org (created_finding org b t i c) = org" "f_fingerprint (created_finding org b t i c) = c_fingerprint c"
  by (simp_all add: created_finding_def Let_def)

lemma finding_at_unique:
  assumes "findings_unique rows" and "r \<in> set rows" and "f_org r = org" and "f_fingerprint r = fp"
  shows "finding_at org fp rows = Some r"
  using find_distinct_key[of "\<lambda>r. (f_org r, f_fingerprint r)" rows r] assms
  by (simp add: finding_at_def findings_unique_def)

lemma upsert_one:
  assumes u: "findings_unique rows"
  shows "snd (upsert_finding org batch seenAt newId c rows) =
    map (refresh_row org batch seenAt [c]) rows @ spec_new org batch seenAt newId rows [c]"
proof (cases "finding_at org (c_fingerprint c) rows")
  case None
  then have "\<forall>r \<in> set rows. \<not> (f_org r = org \<and> f_fingerprint r = c_fingerprint c)"
    by (auto simp: finding_at_def find_None_iff)
  then have "map (refresh_row org batch seenAt [c]) rows = rows"
    by (intro map_idI) (auto simp: refresh_row_def reported_as_def)
  then show ?thesis using None by (simp add: upsert_finding_def spec_new_def)
next
  case (Some e)
  have "(if f_org r = org \<and> f_fingerprint r = c_fingerprint c
      then refreshed_finding batch seenAt (f_state e = ''resolved'') c r else r) = refresh_row org batch seenAt [c] r"
    if r: "r \<in> set rows" for r
    using finding_at_unique[OF u r] Some by (auto simp: refresh_row_def reported_as_def)
  then show ?thesis using Some by (simp add: upsert_finding_def spec_new_def)
qed

lemma refresh_row_sel [simp]:
  "f_org (refresh_row org b t cs r) = f_org r" "f_fingerprint (refresh_row org b t cs r) = f_fingerprint r"
  "f_id (refresh_row org b t cs r) = f_id r"
  by (auto simp: refresh_row_def split: option.splits)

lemma finding_at_None:
  "finding_at org fp rows = None \<longleftrightarrow> (org, fp) \<notin> (\<lambda>r. (f_org r, f_fingerprint r)) ` set rows"
  by (auto simp: finding_at_def find_None_iff)

lemma reported_as_simps [simp]:
  "reported_as [] fp = None"
  "reported_as (c # cs) fp = (if c_fingerprint c = fp then Some c else reported_as cs fp)"
  by (simp_all add: reported_as_def)

lemma upserted_unique:
  assumes "findings_unique rows"
  shows "findings_unique (map (refresh_row org b t [c]) rows @ spec_new org b t newId rows [c])"
  using assms
  by (auto simp: findings_unique_def o_def spec_new_def finding_at_None image_image)

lemma finding_at_upserted:
  assumes "fp \<noteq> c_fingerprint c"
  shows "finding_at org fp (map (refresh_row org b t [c]) rows @ spec_new org b t newId rows [c]) = None
    \<longleftrightarrow> finding_at org fp rows = None"
  using assms unfolding finding_at_None
  by (simp add: image_Un image_image spec_new_def)

lemma upsert_loop_spec:
  assumes "findings_unique rows" and "distinct (map c_fingerprint cs)" and ok: "\<forall>fp. bus_ok fp"
  shows "\<exists>pub'. upsert_loop org b t newId bus_ok cs (pub, rows) =
    (True, pub', map (refresh_row org b t cs) rows @ spec_new org b t newId rows cs)"
  using assms(1,2)
proof (induction cs arbitrary: pub rows)
  case Nil
  have "map (refresh_row org b t []) rows = rows" by (intro map_idI) (simp add: refresh_row_def reported_as_def)
  then show ?case by (simp add: spec_new_def)
next
  case (Cons c cs)
  let ?rows = "map (refresh_row org b t [c]) rows @ spec_new org b t newId rows [c]"
  have "c_fingerprint c \<notin> c_fingerprint ` set cs" using Cons.prems(2) by simp
  then have fresh: "\<forall>d \<in> set cs. c_fingerprint d \<noteq> c_fingerprint c" by (metis image_eqI)
  then have none: "reported_as cs (c_fingerprint c) = None" by (auto simp: reported_as_def find_None_iff)
  have "refresh_row org b t cs (refresh_row org b t [c] r) = refresh_row org b t (c # cs) r" for r
    using none
    by (cases "c_fingerprint c = f_fingerprint r"; cases "f_org r = org"; cases "reported_as cs (f_fingerprint r)")
       (simp_all add: refresh_row_def)
  moreover have "map (refresh_row org b t cs) (spec_new org b t newId rows [c]) = spec_new org b t newId rows [c]"
    using none by (auto simp: spec_new_def refresh_row_def)
  moreover have "spec_new org b t newId ?rows cs = spec_new org b t newId rows cs"
    unfolding spec_new_def using fresh finding_at_upserted
    by (intro arg_cong[where f = "map _"] filter_cong) (auto simp: spec_new_def)
  moreover have "spec_new org b t newId rows (c # cs) = spec_new org b t newId rows [c] @ spec_new org b t newId rows cs"
    by (simp add: spec_new_def)
  ultimately have eq: "map (refresh_row org b t cs) ?rows @ spec_new org b t newId ?rows cs =
      map (refresh_row org b t (c # cs)) rows @ spec_new org b t newId rows (c # cs)"
    by (simp add: o_def)
  obtain created rows' where u: "upsert_finding org b t newId c rows = (created, rows')" by fastforce
  then have "rows' = ?rows" using upsert_one[OF Cons.prems(1), of org b t newId c] by simp
  then obtain m where "upsert_loop org b t newId bus_ok (c # cs) (pub, rows) =
      upsert_loop org b t newId bus_ok cs (pub @ [m], ?rows)"
    using u ok by (simp add: Let_def)
  moreover obtain pub' where "upsert_loop org b t newId bus_ok cs (pub @ [m], ?rows) =
      (True, pub', map (refresh_row org b t cs) ?rows @ spec_new org b t newId ?rows cs)"
    using Cons.IH[OF upserted_unique[OF Cons.prems(1), of org b t c newId]] Cons.prems(2) by fastforce
  ultimately show ?case unfolding eq by auto
qed

definition secret_leak :: raw_finding where
  "secret_leak = (iac_finding ''a.env'' [])\<lparr>rf_scannerType := ''secrets''\<rparr>"

theorem collapse_loses_nothing_witness:
  "map c_finding (collapseScan id ''a1'' [secret_leak, secret_leak\<lparr>rf_evidence := []\<rparr>]) = [secret_leak]"
proof -
  let ?fs = "[secret_leak, secret_leak\<lparr>rf_evidence := []\<rparr>]" and ?fp = "fingerprint id ''a1'' secret_leak"
  note t = collapse_loses_nothing[of id "''a1''" ?fs]
  have same: "fingerprint id ''a1'' (secret_leak\<lparr>rf_evidence := []\<rparr>) = ?fp" by code_simp
  then have "map c_fingerprint (collapseScan id ''a1'' ?fs) = [?fp]" using t by (simp add: uniq_def)
  then obtain c where c: "collapseScan id ''a1'' ?fs = [c]" "c_fingerprint c = ?fp" by auto
  then have "c_finding c = secret_leak" using t same by (simp add: stands_for_def Let_def)
  then show ?thesis using c(1) by simp
qed

definition one_batch :: "raw_finding list \<Rightarrow> reported_batch" where
  "one_batch fs = \<lparr>b_assetId = ''a1'', b_scannerType = ''secrets'', b_artifactKey = None, b_findings = fs\<rparr>"

definition no_findings :: findings_db where
  "no_findings = \<lparr>findings = [], finding_events = []\<rparr>"

definition leaked :: findings_db where
  "leaked = snd (snd (ingest id ''o1'' (one_batch [secret_leak]) 100 id (\<lambda>_. True) no_findings))"




section \<open>Triage, list and get\<close>

record triage_request =
  t_state :: string
  t_reason :: string
  t_expiresAt :: "instant option"

text \<open>The row without its internal claim column, as \<^verbatim>\<open>omitSlaClaim\<close> returns it.\<close>

definition omitSlaClaim :: "finding_row \<Rightarrow> finding_row" where
  "omitSlaClaim r = r\<lparr>f_slaNotifiedAt := None\<rparr>"

definition finding_by_id :: "ident \<Rightarrow> ident \<Rightarrow> findings_db \<Rightarrow> finding_row option" where
  "finding_by_id org i db = find (\<lambda>r. f_org r = org \<and> f_id r = i) (findings db)"

definition triaged_row :: "instant \<Rightarrow> triage_request \<Rightarrow> finding_row \<Rightarrow> finding_row" where
  "triaged_row now rq r =
     (let r1 = r\<lparr>f_state := t_state rq, f_resolvedAt := (if t_state rq = ''resolved'' then Some now else None)\<rparr>
      in if t_state rq = ''resolved'' then r1\<lparr>f_slaNotifiedAt := None\<rparr> else r1)"

definition triage ::
    "instant \<Rightarrow> ident \<Rightarrow> ident \<Rightarrow> string \<Rightarrow> triage_request \<Rightarrow> findings_db \<Rightarrow>
     finding_row option \<times> findings_msg list \<times> findings_db" where
  "triage now org i actor rq db =
     (case finding_by_id org i db of
        None \<Rightarrow> (None, [], db)
      | Some before \<Rightarrow>
          (let updated = triaged_row now rq before in
           (Some (omitSlaClaim updated),
            [State_changed i (f_state before) (f_state updated) actor],
            db\<lparr>findings := map (\<lambda>r. if f_org r = org \<and> f_id r = i then triaged_row now rq r else r) (findings db),
               finding_events := finding_events db @
                 [\<lparr>e_org = org, e_findingId = i, e_type = ''state_change'', e_from = f_state before,
                   e_to = t_state rq, e_actor = actor, e_reason = t_reason rq,
                   e_expiresAt = t_expiresAt rq\<rparr>]\<rparr>)))"

definition get_finding :: "ident \<Rightarrow> ident \<Rightarrow> findings_db \<Rightarrow> finding_row option" where
  "get_finding org i db = map_option omitSlaClaim (finding_by_id org i db)"


subsection \<open>The audit trail\<close>

text \<open>The recorded history of a finding: the states its events name, oldest first.\<close>

definition history_of :: "ident \<Rightarrow> findings_db \<Rightarrow> (string \<times> string) list" where
  "history_of i db = map (\<lambda>e. (e_from e, e_to e)) (filter (\<lambda>e. e_findingId e = i) (finding_events db))"

text \<open>The trail explains the state: each event starts where the one before it ended, and the last one
  ends at the row's state.\<close>

fun explains :: "string \<Rightarrow> (string \<times> string) list \<Rightarrow> string \<Rightarrow> bool" where
  "explains first [] final = (first = final)"
| "explains first ((a, b) # es) final = (first = a \<and> explains b es final)"

lemma explains_snoc: "explains first (es @ [(a, b)]) final \<longleftrightarrow> explains first es a \<and> b = final"
  by (induction first es a rule: explains.induct) auto

definition trail_ok :: "ident \<Rightarrow> findings_db \<Rightarrow> bool" where
  "trail_ok org db \<longleftrightarrow> distinct (map f_id (findings db)) \<and>
     (\<forall>r \<in> set (findings db). f_org r = org \<longrightarrow> explains ''open'' (history_of (f_id r) db) (f_state r))"

lemma finding_by_id_in:
  "\<lbrakk>distinct (map f_id (findings db)); r \<in> set (findings db); f_org r = org\<rbrakk> \<Longrightarrow>
     finding_by_id org (f_id r) db = Some r"
proof -
  assume a: "distinct (map f_id (findings db))" "r \<in> set (findings db)" "f_org r = org"
  obtain x where x: "finding_by_id org (f_id r) db = Some x"
    using a by (cases "finding_by_id org (f_id r) db") (auto simp: finding_by_id_def find_None_iff)
  then have "x \<in> set (findings db)" "f_id x = f_id r" by (auto simp: finding_by_id_def find_Some_iff)
  then have "x = r" using a by (simp add: distinct_map inj_on_def)
  then show ?thesis using x by simp
qed

definition triage_all :: "ident \<Rightarrow> (instant \<times> ident \<times> string \<times> triage_request) list \<Rightarrow> findings_db \<Rightarrow> findings_db" where
  "triage_all org rqs db = fold (\<lambda>(now, i, actor, rq) db. snd (snd (triage now org i actor rq db))) rqs db"

lemma triage_keeps_trail:
  assumes t: "trail_ok org db"
  shows "trail_ok org (snd (snd (triage now org i actor rq db)))"
proof (cases "finding_by_id org i db")
  case None
  then show ?thesis using t by (simp add: triage_def)
next
  case (Some before)
  let ?db = "snd (snd (triage now org i actor rq db))"
  have b: "before \<in> set (findings db)" "f_org before = org" "f_id before = i"
    using Some by (auto simp: finding_by_id_def find_Some_iff)
  have rows: "findings ?db = map (\<lambda>r. if f_org r = org \<and> f_id r = i then triaged_row now rq r else r) (findings db)"
    using Some by (simp add: triage_def Let_def)
  have h: "history_of j ?db = history_of j db @ (if j = i then [(f_state before, t_state rq)] else [])" for j
    using Some by (simp add: triage_def Let_def history_of_def)
  have keep: "f_id (triaged_row now rq r) = f_id r" "f_org (triaged_row now rq r) = f_org r"
    "f_state (triaged_row now rq r) = t_state rq" for r
    by (simp_all add: triaged_row_def Let_def)
  have ids: "map f_id (findings ?db) = map f_id (findings db)" using keep by (simp add: rows)
  have "explains ''open'' (history_of (f_id r') ?db) (f_state r')"
    if r': "r' \<in> set (findings ?db)" "f_org r' = org" for r'
  proof -
    obtain r where r: "r \<in> set (findings db)" "r' = (if f_org r = org \<and> f_id r = i then triaged_row now rq r else r)"
      using r'(1) rows by auto
    then have o: "f_org r = org" "f_id r' = f_id r" using r'(2) keep by (auto split: if_splits)
    have e: "explains ''open'' (history_of (f_id r) db) (f_state r)" using t r(1) o(1) by (simp add: trail_ok_def)
    show ?thesis
    proof (cases "f_id r = i")
      case True
      then have "r = before" using t r(1) b by (simp add: trail_ok_def distinct_map inj_on_def)
      then show ?thesis using e True o r(2) h[of "f_id r"] keep(3) by (simp add: explains_snoc b)
    next
      case False
      then show ?thesis using e o r(2) h[of "f_id r"] by simp
    qed
  qed
  then show ?thesis using t ids by (simp add: trail_ok_def)
qed

text \<open>
  C36 (audit trail of triage). Starting from a table whose trails explain its states, any sequence of
  triage requests leaves one: every finding's events chain from \<^verbatim>\<open>open\<close> to its current state. The trail
  does not cover ingest: the auto-resolution of a finding that a scan no longer reports writes the
  state without an event, so the trail stops explaining it.
\<close>

theorem triage_trail_explains_the_state:
  assumes "trail_ok org db"
  shows "trail_ok org (triage_all org rqs db)
    \<and> trail_ok ''o1'' leaked
    \<and> \<not> trail_ok ''o1'' (snd (snd (ingest id ''o1'' (one_batch []) 200 id (\<lambda>_. True) leaked)))"
proof (intro conjI)
  show "trail_ok org (triage_all org rqs db)"
    using assms
  proof (induction rqs arbitrary: db)
    case (Cons q rqs)
    then show ?case using triage_keeps_trail by (cases q) (simp add: triage_all_def)
  qed (simp add: triage_all_def)
  show "trail_ok ''o1'' leaked" unfolding trail_ok_def by code_simp
  show "\<not> trail_ok ''o1'' (snd (snd (ingest id ''o1'' (one_batch []) 200 id (\<lambda>_. True) leaked)))"
    unfolding trail_ok_def by code_simp
qed

theorem triage_trail_explains_the_state_witness:
  "trail_ok ''o1'' (triage_all ''o1''
     [(300, ''a1|secrets|e|a.env'', ''ann'', \<lparr>t_state = ''risk_accepted'', t_reason = ''demo'', t_expiresAt = Some 900\<rparr>)] leaked)"
proof -
  have "trail_ok ''o1'' leaked" unfolding trail_ok_def by code_simp
  then show ?thesis using triage_trail_explains_the_state by blast
qed

end
