(* ===== verification/Risk.thy ===== *)
theory Risk
imports Findings
begin

text \<open>
  The risk service: the composite score and its explanation (\<^verbatim>\<open>risk/risk-scoring.service.ts\<close>), the
  policy engine with its exceptions and deadlines (\<^verbatim>\<open>policy/policy-engine.service.ts\<close>,
  \<^verbatim>\<open>policy/seed-notify.ts\<close>, \<^verbatim>\<open>policy/sla-notify.ts\<close>) and the sweep that announces a missed deadline
  once (\<^verbatim>\<open>policy/sla-monitor.service.ts\<close>).

  A JavaScript number is a rational: the weights and the EPSS and CVSS values are decimal
  fractions, and rounding errors of binary floating point are not modelled.
\<close>


section \<open>Scoring (risk-scoring.service.ts)\<close>

record risk_weights =
  w_severity :: rat
  w_exploitability :: rat
  w_exposure :: rat
  w_businessCriticality :: rat

definition DEFAULT_WEIGHTS :: risk_weights where
  "DEFAULT_WEIGHTS = \<lparr>w_severity = 3 / 10, w_exploitability = 25 / 100, w_exposure = 25 / 100,
     w_businessCriticality = 2 / 10\<rparr>"

definition EXPOSURE_SCORE :: "string \<Rightarrow> rat option" where
  "EXPOSURE_SCORE e =
     (if e = ''internet_facing'' then Some 1 else if e = ''internal'' then Some (5 / 10)
      else if e = ''isolated'' then Some (15 / 100) else if e = ''unknown'' then Some (4 / 10) else None)"

definition CRITICALITY_SCORE :: "string \<Rightarrow> rat option" where
  "CRITICALITY_SCORE c =
     (if c = ''tier0'' then Some 1 else if c = ''tier1'' then Some (8 / 10) else if c = ''tier2'' then Some (5 / 10)
      else if c = ''tier3'' then Some (25 / 100) else if c = ''unknown'' then Some (4 / 10) else None)"

fun VALIDATION_MULTIPLIER :: "validation_verdict \<Rightarrow> rat" where
  "VALIDATION_MULTIPLIER Exploitable = 125 / 100"
| "VALIDATION_MULTIPLIER Reachable = 11 / 10"
| "VALIDATION_MULTIPLIER Not_validated = 1"
| "VALIDATION_MULTIPLIER Compensating_control = 6 / 10"
| "VALIDATION_MULTIPLIER Not_reachable = 4 / 10"
| "VALIDATION_MULTIPLIER Not_exploitable = 3 / 10"

text \<open>What a factor's note says, before it is formatted.\<close>

datatype factor_note =
    Note_severity string "rat option"
  | Note_kev
  | Note_epss rat
  | Note_text string
  | Note_validation validation_verdict

record factor =
  fa_name :: string
  fa_weight :: rat
  fa_raw :: rat
  fa_contribution :: rat
  fa_note :: factor_note

definition weighted :: "string \<Rightarrow> rat \<Rightarrow> rat \<Rightarrow> factor_note \<Rightarrow> factor" where
  "weighted name weight raw note =
     \<lparr>fa_name = name, fa_weight = weight, fa_raw = raw, fa_contribution = raw * weight, fa_note = note\<rparr>"

definition exploitRaw :: "finding_row \<Rightarrow> rat" where
  "exploitRaw f =
     (if f_kev f then max (9 / 10) (or_else (f_epssScore f) 0) else or_else (f_epssScore f) (5 / 100))"

definition base_factors :: "rat \<Rightarrow> finding_row \<Rightarrow> match_asset \<Rightarrow> factor list" where
  "base_factors severityRaw f a =
     [weighted ''severity'' (w_severity DEFAULT_WEIGHTS) severityRaw
        (Note_severity (f_severity f) (if f_cvssScore f = Some 0 then None else f_cvssScore f)),
      weighted ''exploitability'' (w_exploitability DEFAULT_WEIGHTS) (exploitRaw f)
        (if f_kev f then Note_kev else Note_epss (or_else (f_epssScore f) 0 * 100)),
      weighted ''exposure'' (w_exposure DEFAULT_WEIGHTS) (or_else (EXPOSURE_SCORE (a_exposure a)) (4 / 10))
        (Note_text (a_exposure a)),
      weighted ''businessCriticality'' (w_businessCriticality DEFAULT_WEIGHTS)
        (or_else (CRITICALITY_SCORE (a_criticality a)) (4 / 10)) (Note_text (a_criticality a))]"

text \<open>\<^verbatim>\<open>Math.round\<close>.\<close>

definition js_round :: "rat \<Rightarrow> int" where
  "js_round x = \<lfloor>x + 1 / 2\<rfloor>"

definition contributions :: "factor list \<Rightarrow> rat" where
  "contributions fs = foldl (\<lambda>sum f. sum + fa_contribution f) 0 fs"

text \<open>The score and its factors; \<^const>\<open>None\<close> is the \<^verbatim>\<open>NaN\<close> of an unknown severity.\<close>

definition score_of :: "finding_row \<Rightarrow> match_asset \<Rightarrow> (int \<times> factor list) option" where
  "score_of f a =
     (case SEVERITY_ORDER (f_severity f) of
        None \<Rightarrow> None
      | Some n \<Rightarrow>
          (let factors = base_factors (of_nat n / 5) f a;
               base = contributions factors;
               multiplier = VALIDATION_MULTIPLIER (f_validation f);
               score = js_round (min 100 (base * multiplier * 100))
           in Some (score,
                if multiplier \<noteq> 1
                then factors @ [\<lparr>fa_name = ''validation'', fa_weight = 0, fa_raw = multiplier,
                                 fa_contribution = base * (multiplier - 1),
                                 fa_note = Note_validation (f_validation f)\<rparr>]
                else factors)))"

definition epss_ok :: "finding_row \<Rightarrow> bool" where
  "epss_ok f \<longleftrightarrow> (case f_epssScore f of None \<Rightarrow> True | Some e \<Rightarrow> 0 \<le> e \<and> e \<le> 1)"

definition known_severity :: "finding_row \<Rightarrow> bool" where
  "known_severity f \<longleftrightarrow> f_severity f \<in> {''critical'', ''high'', ''medium'', ''low'', ''info''}"

lemma severity_order: "known_severity f \<Longrightarrow> \<exists>n. SEVERITY_ORDER (f_severity f) = Some n \<and> 1 \<le> n \<and> n \<le> 5"
  by (auto simp: known_severity_def SEVERITY_ORDER_def)

lemma exploitRaw_bounds: "epss_ok f \<Longrightarrow> 0 \<le> exploitRaw f \<and> exploitRaw f \<le> 1"
  by (auto simp: epss_ok_def exploitRaw_def or_else_def split: option.splits)

lemma exposure_bounds:
  "15 / 100 \<le> or_else (EXPOSURE_SCORE e) (4 / 10) \<and> or_else (EXPOSURE_SCORE e) (4 / 10) \<le> 1"
  by (simp add: EXPOSURE_SCORE_def or_else_def)

lemma criticality_bounds:
  "25 / 100 \<le> or_else (CRITICALITY_SCORE c) (4 / 10) \<and> or_else (CRITICALITY_SCORE c) (4 / 10) \<le> 1"
  by (simp add: CRITICALITY_SCORE_def or_else_def)

lemma base_contribution:
  "contributions (base_factors s f a) =
     s * (3 / 10) + exploitRaw f * (25 / 100) + or_else (EXPOSURE_SCORE (a_exposure a)) (4 / 10) * (25 / 100)
       + or_else (CRITICALITY_SCORE (a_criticality a)) (4 / 10) * (2 / 10)"
  by (simp add: contributions_def base_factors_def weighted_def DEFAULT_WEIGHTS_def)

lemma contributions_snoc: "contributions (fs @ [x]) = contributions fs + fa_contribution x"
  by (simp add: contributions_def)

lemma base_bounds:
  assumes "0 \<le> s" and "s \<le> 1" and "epss_ok f"
  shows "0 \<le> contributions (base_factors s f a) \<and> contributions (base_factors s f a) \<le> 1"
  using exploitRaw_bounds[OF assms(3)] exposure_bounds[of "a_exposure a"] criticality_bounds[of "a_criticality a"]
    assms(1,2)
  unfolding base_contribution by linarith

lemma js_round_mono: "x \<le> y \<Longrightarrow> js_round x \<le> js_round y"
  by (simp add: js_round_def floor_mono)

lemma js_round_of_int [simp]: "js_round (of_int k) = k"
  by (simp add: js_round_def floor_eq_iff)

definition log4shell :: finding_row where
  "log4shell = (created_finding ''o1'' (one_batch []) 100 ''f1'' (incoming id ''a1'' secret_leak))
     \<lparr>f_severity := ''medium'', f_kev := True, f_epssScore := Some (97 / 100), f_validation := Reachable\<rparr>"

definition front_door :: match_asset where
  "front_door = \<lparr>a_kind = ''repository'', a_exposure = ''internet_facing'', a_criticality = ''tier1'', a_tags = None\<rparr>"

text \<open>
  The score and its explanation. For a known severity and an EPSS in the unit interval there is
  a score, it lies between 0 and 100, and it is the rounded hundredfold sum of the contributions of
  the factors returned with it, capped at 100: the arithmetic shown is the arithmetic done.
\<close>

theorem score_is_explained:
  assumes "known_severity f" and "epss_ok f"
  shows "\<exists>score factors. score_of f a = Some (score, factors) \<and> 0 \<le> score \<and> score \<le> 100
    \<and> score = js_round (min 100 (contributions factors * 100))"
proof -
  obtain n where n: "SEVERITY_ORDER (f_severity f) = Some n" "1 \<le> n" "n \<le> 5"
    using severity_order[OF assms(1)] by blast
  define s where "s = (of_nat n / 5 :: rat)"
  define m where "m = VALIDATION_MULTIPLIER (f_validation f)"
  define b where "b = contributions (base_factors s f a)"
  have "0 \<le> s" "s \<le> 1" using n by (simp_all add: s_def)
  then have b: "0 \<le> b" "b \<le> 1" using base_bounds assms(2) unfolding b_def by blast+
  have m: "0 \<le> m" unfolding m_def by (cases "f_validation f") simp_all
  define fs where "fs = (if m \<noteq> 1 then base_factors s f a @ [\<lparr>fa_name = ''validation'', fa_weight = 0, fa_raw = m,
      fa_contribution = b * (m - 1), fa_note = Note_validation (f_validation f)\<rparr>] else base_factors s f a)"
  have score: "score_of f a = Some (js_round (min 100 (b * m * 100)), fs)"
    by (simp add: score_of_def n(1) Let_def fs_def b_def m_def s_def)
  have "contributions fs = b * m"
    by (auto simp: fs_def contributions_snoc b_def[symmetric] algebra_simps)
  moreover have "0 \<le> js_round (min 100 (b * m * 100))"
    using js_round_mono[of 0 "min 100 (b * m * 100)"] b m by (simp add: js_round_def)
  moreover have "js_round (min 100 (b * m * 100)) \<le> 100"
    using js_round_mono[of "min 100 (b * m * 100)" 100] js_round_of_int[of 100] by simp
  ultimately show ?thesis using score by auto
qed

theorem score_is_explained_witness:
  "\<exists>score factors. score_of log4shell front_door = Some (score, factors) \<and> 0 \<le> score \<and> score \<le> 100"
proof -
  have "known_severity log4shell" "epss_ok log4shell"
    by (simp_all add: known_severity_def epss_ok_def log4shell_def)
  then show ?thesis using score_is_explained[of log4shell front_door] by blast
qed

text \<open>
  What the service is for. A finding on an isolated tier-3 asset in a package that is not
  reachable, whatever its severity, EPSS and CVSS, scores below a finding of at least medium severity
  that is on the KEV list, reachable or exploitable, and on an internet-facing asset of any
  criticality.
\<close>

theorem reachable_kev_outranks_unreachable_critical:
  assumes "known_severity f" and "epss_ok f" and "f_validation f = Not_reachable"
    and "a_exposure a = ''isolated''" and "a_criticality a = ''tier3''"
    and "f_severity g \<in> {''critical'', ''high'', ''medium''}" and "epss_ok g" and "f_kev g"
    and "f_validation g \<in> {Reachable, Exploitable}" and "a_exposure b = ''internet_facing''"
  shows "\<exists>x fx y fy. score_of f a = Some (x, fx) \<and> score_of g b = Some (y, fy) \<and> x < y"
proof -
  obtain n where n: "SEVERITY_ORDER (f_severity f) = Some n" "n \<le> 5" using severity_order[OF assms(1)] by blast
  obtain k where k: "SEVERITY_ORDER (f_severity g) = Some k" "3 \<le> k"
    using assms(6) by (auto simp: SEVERITY_ORDER_def)
  define B where "B = contributions (base_factors (of_nat n / 5) f a)"
  define C where "C = contributions (base_factors (of_nat k / 5) g b)"
  have "of_nat n / 5 \<le> (1 :: rat)" using n(2) by simp
  then have B: "B \<le> 6375 / 10000"
    using exploitRaw_bounds[OF assms(2)] unfolding B_def base_contribution
    by (simp add: assms EXPOSURE_SCORE_def CRITICALITY_SCORE_def or_else_def)
  have "9 / 10 \<le> exploitRaw g" using assms(8) by (simp add: exploitRaw_def)
  moreover have "(3 / 5 :: rat) \<le> of_nat k / 5" using k(2) by simp
  ultimately have C: "705 / 1000 \<le> C"
    using criticality_bounds[of "a_criticality b"] unfolding C_def base_contribution
    by (simp add: assms(10) EXPOSURE_SCORE_def or_else_def)
  obtain fx where x: "score_of f a = Some (js_round (min 100 (B * (4 / 10) * 100)), fx)"
    using n(1) assms(3) by (auto simp: score_of_def Let_def B_def)
  define m where "m = VALIDATION_MULTIPLIER (f_validation g)"
  have m: "11 / 10 \<le> m" using assms(9) by (auto simp: m_def)
  obtain fy where y: "score_of g b = Some (js_round (min 100 (C * m * 100)), fy)"
    using k(1) by (auto simp: score_of_def Let_def C_def m_def)
  have "js_round (min 100 (B * (4 / 10) * 100)) \<le> js_round (of_int 26)"
    by (rule js_round_mono) (use B in simp)
  then have lo: "js_round (min 100 (B * (4 / 10) * 100)) \<le> 26" by (simp only: js_round_of_int)
  have "js_round (of_int 77) \<le> js_round (min 100 (C * m * 100))"
  proof (rule js_round_mono)
    have "(705 / 1000) * (11 / 10) \<le> C * m" using C m by (intro mult_mono) auto
    then show "of_int 77 \<le> min 100 (C * m * 100)" by simp
  qed
  then have "77 \<le> js_round (min 100 (C * m * 100))" by (simp only: js_round_of_int)
  then have "js_round (min 100 (B * (4 / 10) * 100)) < js_round (min 100 (C * m * 100))" using lo by linarith
  then show ?thesis using x y by blast
qed

theorem reachable_kev_outranks_unreachable_critical_witness:
  "\<exists>x fx y fy. score_of (log4shell\<lparr>f_severity := ''critical'', f_validation := Not_reachable\<rparr>)
       (front_door\<lparr>a_exposure := ''isolated'', a_criticality := ''tier3''\<rparr>) = Some (x, fx)
     \<and> score_of log4shell front_door = Some (y, fy) \<and> x < y"
  by (rule reachable_kev_outranks_unreachable_critical)
     (simp_all add: known_severity_def epss_ok_def log4shell_def front_door_def)


text \<open>
  The EPSS note. For a finding with no EPSS value that is not on the KEV list the exploitability
  factor weighs 5 percent, while its note says 0 percent: the note is not the value that was used.
\<close>

theorem epss_note_differs_from_factor:
  assumes "f_epssScore f = None" and "\<not> f_kev f"
  shows "map (\<lambda>x. (fa_raw x, fa_note x)) (filter (\<lambda>x. fa_name x = ''exploitability'') (base_factors s f a)) =
    [(5 / 100, Note_epss 0)]"
  using assms by (simp add: base_factors_def weighted_def exploitRaw_def or_else_def)

theorem epss_note_differs_from_factor_witness:
  "map (\<lambda>x. (fa_raw x, fa_note x)) (filter (\<lambda>x. fa_name x = ''exploitability'')
     (base_factors 1 (log4shell\<lparr>f_kev := False, f_epssScore := None\<rparr>) front_door)) = [(5 / 100, Note_epss 0)]"
  by (rule epss_note_differs_from_factor) simp_all


section \<open>The tables of the risk service\<close>

record policy_row =
  pol_id :: ident
  pol_org :: ident
  pol_enabled :: bool
  pol_priority :: int
  pol_condition :: policy_condition
  pol_actions :: "string list"
  pol_slaHours :: "nat option"

record exception_row =
  x_org :: ident
  x_scope :: string
  x_targetRef :: string
  x_approvedAt :: "instant option"
  x_expiresAt :: instant
  x_revokedAt :: "instant option"

record risk_db =
  r_findings :: "finding_row list"
  r_assets :: "(ident \<times> match_asset) list"
  r_policies :: "policy_row list"
  r_exceptions :: "exception_row list"

datatype risk_msg =
    Policy_violated ident ident "string list"
  | Sla_breached ident instant

definition update_finding :: "ident \<Rightarrow> ident \<Rightarrow> (finding_row \<Rightarrow> finding_row) \<Rightarrow> risk_db \<Rightarrow> risk_db" where
  "update_finding org i g db =
     db\<lparr>r_findings := map (\<lambda>r. if f_org r = org \<and> f_id r = i then g r else r) (r_findings db)\<rparr>"

text \<open>A finding with its asset, as \<^verbatim>\<open>include: { asset: true }\<close> loads it.\<close>

definition load_finding :: "ident \<Rightarrow> ident \<Rightarrow> risk_db \<Rightarrow> (finding_row \<times> match_asset) option" where
  "load_finding org i db =
     (case find (\<lambda>r. f_org r = org \<and> f_id r = i) (r_findings db) of
        None \<Rightarrow> None
      | Some r \<Rightarrow> (case map_of (r_assets db) (f_assetId r) of None \<Rightarrow> None | Some a \<Rightarrow> Some (r, a)))"

definition as_match :: "finding_row \<Rightarrow> match_asset \<Rightarrow> match_finding" where
  "as_match r a =
     \<lparr>mf_id = f_id r, mf_severity = f_severity r, mf_riskScore = f_riskScore r, mf_kev = f_kev r,
      mf_epssScore = f_epssScore r, mf_fixAvailable = f_fixAvailable r, mf_scannerType = f_scannerType r,
      mf_asset = a\<rparr>"

text \<open>\<^verbatim>\<open>score\<close>: the answer, or \<^const>\<open>None\<close> for the 404 (and for the \<^verbatim>\<open>NaN\<close> that the column refuses).\<close>

definition score :: "ident \<Rightarrow> ident \<Rightarrow> risk_db \<Rightarrow> (int \<times> factor list) option \<times> risk_db" where
  "score org i db =
     (case load_finding org i db of
        None \<Rightarrow> (None, db)
      | Some (f, a) \<Rightarrow>
          (case score_of f a of
             None \<Rightarrow> (None, db)
           | Some (s, factors) \<Rightarrow>
               (Some (s, factors), update_finding org i (\<lambda>r. r\<lparr>f_riskScore := of_int s\<rparr>) db)))"

definition rescoreAll :: "ident \<Rightarrow> ident list \<Rightarrow> risk_db \<Rightarrow> nat \<times> risk_db" where
  "rescoreAll org ids db =
     (let targets = map f_id (filter (\<lambda>r. f_org r = org \<and> f_state r \<in> set OPEN_STATES
                                       \<and> (ids = [] \<or> f_id r \<in> set ids)) (r_findings db))
      in (length targets, fold (\<lambda>i db. snd (score org i db)) targets db))"


section \<open>The policy engine (policy-engine.service.ts)\<close>

definition active_exceptions :: "ident \<Rightarrow> instant \<Rightarrow> risk_db \<Rightarrow> exception_row list" where
  "active_exceptions org now db =
     filter (\<lambda>x. x_org x = org \<and> x_revokedAt x = None \<and> x_approvedAt x \<noteq> None \<and> now < x_expiresAt x) (r_exceptions db)"

definition hasActiveException :: "ident \<Rightarrow> instant \<Rightarrow> ident \<Rightarrow> risk_db \<Rightarrow> bool" where
  "hasActiveException org now i db =
     list_ex (\<lambda>x. (x_scope x = ''finding'' \<and> x_targetRef x = i) \<or> x_scope x = ''global'') (active_exceptions org now db)"

text \<open>\<^verbatim>\<open>findMany({ where: { enabled: true }, orderBy: { priority: 'asc' } })\<close>.\<close>

definition policies_in_order :: "ident \<Rightarrow> risk_db \<Rightarrow> policy_row list" where
  "policies_in_order org db =
     sort_key pol_priority (filter (\<lambda>p. pol_org p = org \<and> pol_enabled p) (r_policies db))"

definition SEED_KEV_OR_CRITICAL_POLICY_ID :: ident where
  "SEED_KEV_OR_CRITICAL_POLICY_ID = ''00000000-0000-4000-8000-00000000c7e1''"

definition SEED_NOTIFY_ACTIONS :: "string list" where
  "SEED_NOTIFY_ACTIONS = [''notify'']"

definition matchesSeedKevOrCritical :: "finding_row \<Rightarrow> bool" where
  "matchesSeedKevOrCritical f = (f_kev f \<or> f_severity f = ''critical'')"

text \<open>\<^verbatim>\<open>slaNotifyResetForDueChange\<close>: whether the claim is cleared.\<close>

definition slaNotifyResetForDueChange :: "instant option \<Rightarrow> instant option \<Rightarrow> bool" where
  "slaNotifyResetForDueChange previousDue nextDue =
     (case nextDue of
        None \<Rightarrow> True
      | Some next_due \<Rightarrow> (case previousDue of None \<Rightarrow> False | Some previous \<Rightarrow> next_due > previous))"

definition set_due :: "instant \<Rightarrow> finding_row \<Rightarrow> finding_row" where
  "set_due due r =
     (if slaNotifyResetForDueChange (f_slaDueAt r) (Some due)
      then r\<lparr>f_slaDueAt := Some due, f_slaNotifiedAt := None\<rparr> else r\<lparr>f_slaDueAt := Some due\<rparr>)"

text \<open>The loop over the policies; \<open>bus_ok\<close> is false when the publish throws.\<close>

datatype 'a outcome_of = Ok 'a | Missing | Bus_failed

fun evaluate_loop ::
    "instant \<Rightarrow> bool \<Rightarrow> ident \<Rightarrow> finding_row \<Rightarrow> match_asset \<Rightarrow> policy_row list \<Rightarrow> risk_db \<Rightarrow>
     string list outcome_of \<times> risk_msg list \<times> risk_db" where
  "evaluate_loop now bus_ok org f a [] db =
     (if matchesSeedKevOrCritical f
      then (if bus_ok
            then (Ok SEED_NOTIFY_ACTIONS, [Policy_violated (f_id f) SEED_KEV_OR_CRITICAL_POLICY_ID SEED_NOTIFY_ACTIONS], db)
            else (Bus_failed, [], db))
      else (Ok [], [], db))"
| "evaluate_loop now bus_ok org f a (p # ps) db =
     (if \<not> matchesPolicyCondition (pol_condition p) (as_match f a) then evaluate_loop now bus_ok org f a ps db
      else
        (let db1 = (case pol_slaHours p of
                      Some h \<Rightarrow> if h \<noteq> 0 then update_finding org (f_id f) (set_due (now + int h * 3600000)) db else db
                    | None \<Rightarrow> db)
         in if bus_ok then (Ok (pol_actions p), [Policy_violated (f_id f) (pol_id p) (pol_actions p)], db1)
            else (Bus_failed, [], db1)))"

definition evaluate ::
    "instant \<Rightarrow> bool \<Rightarrow> ident \<Rightarrow> ident \<Rightarrow> risk_db \<Rightarrow> string list outcome_of \<times> risk_msg list \<times> risk_db" where
  "evaluate now bus_ok org i db =
     (case load_finding org i db of
        None \<Rightarrow> (Missing, [], db)
      | Some (f, a) \<Rightarrow>
          if hasActiveException org now i db then (Ok [], [], db)
          else evaluate_loop now bus_ok org f a (policies_in_order org db) db)"


subsection \<open>What the engine decides\<close>

definition policy_applies :: "ident \<Rightarrow> finding_row \<Rightarrow> match_asset \<Rightarrow> risk_db \<Rightarrow> policy_row list" where
  "policy_applies org f a db =
     filter (\<lambda>p. matchesPolicyCondition (pol_condition p) (as_match f a))
       (filter (\<lambda>p. pol_org p = org \<and> pol_enabled p) (r_policies db))"

definition winning_policy :: "ident \<Rightarrow> finding_row \<Rightarrow> match_asset \<Rightarrow> risk_db \<Rightarrow> policy_row \<Rightarrow> bool" where
  "winning_policy org f a db p \<longleftrightarrow>
     (\<exists>i. leftmost_min pol_priority (policy_applies org f a db) i \<and> p = policy_applies org f a db ! i)"

lemma evaluate_loop_find:
  "evaluate_loop now bus_ok org f a ps db =
     (case find (\<lambda>p. matchesPolicyCondition (pol_condition p) (as_match f a)) ps of
        None \<Rightarrow> evaluate_loop now bus_ok org f a [] db
      | Some p \<Rightarrow> evaluate_loop now bus_ok org f a [p] db)"
  by (induction ps) (auto simp: Let_def)

lemma find_policy:
  "find (\<lambda>p. matchesPolicyCondition (pol_condition p) (as_match f a)) (policies_in_order org db) = Some p
     \<longleftrightarrow> winning_policy org f a db p"
  by (simp add: policies_in_order_def find_sort_key_min winning_policy_def policy_applies_def)

definition due_update :: "instant \<Rightarrow> ident \<Rightarrow> ident \<Rightarrow> policy_row \<Rightarrow> risk_db \<Rightarrow> risk_db" where
  "due_update now org i p db =
     (case pol_slaHours p of
        Some h \<Rightarrow> if h \<noteq> 0 then update_finding org i (set_due (now + int h * 3600000)) db else db
      | None \<Rightarrow> db)"

lemma load_finding_id: "load_finding org i db = Some (f, a) \<Longrightarrow> f_id f = i \<and> f_org f = org"
  by (auto simp: load_finding_def find_Some_iff split: option.splits)

definition kev_condition :: policy_condition where
  "kev_condition = gate_condition\<lparr>severityAtLeast := None, kevOnly := Some True\<rparr>"

definition sla_db :: "instant option \<Rightarrow> risk_db" where
  "sla_db due = \<lparr>r_findings = [log4shell\<lparr>f_slaDueAt := due\<rparr>], r_assets = [(''a1'', front_door)],
     r_policies = [\<lparr>pol_id = ''p1'', pol_org = ''o1'', pol_enabled = True, pol_priority = 10,
       pol_condition = kev_condition, pol_actions = [''notify'', ''fail_build''], pol_slaHours = Some 24\<rparr>],
     r_exceptions = []\<rparr>"

text \<open>
  C27 (the engine). For a finding with an active approved exception of its own or a global one, the
  engine does nothing. Otherwise the winning policy decides (the enabled matching one of least
  priority number, leftmost among equals): its actions are returned and published once, and its deadline is set. When no policy
  matches, a KEV or critical finding is published under the seed policy, and any other is left alone.
\<close>

theorem evaluate_decides:
  assumes "load_finding org i db = Some (f, a)"
  shows "(hasActiveException org now i db \<longrightarrow> evaluate now bus_ok org i db = (Ok [], [], db))
    \<and> (\<forall>p. \<not> hasActiveException org now i db \<and> winning_policy org f a db p \<longrightarrow>
         evaluate now True org i db =
           (Ok (pol_actions p), [Policy_violated i (pol_id p) (pol_actions p)], due_update now org i p db))
    \<and> (\<not> hasActiveException org now i db \<and> (\<nexists>p. winning_policy org f a db p) \<longrightarrow>
         evaluate now True org i db =
           (if f_kev f \<or> f_severity f = ''critical''
            then (Ok [''notify''], [Policy_violated i SEED_KEV_OR_CRITICAL_POLICY_ID [''notify'']], db)
            else (Ok [], [], db)))"
proof -
  have i: "f_id f = i" using load_finding_id[OF assms] by simp
  have e: "evaluate now b org i db = (if hasActiveException org now i db then (Ok [], [], db)
      else evaluate_loop now b org f a (policies_in_order org db) db)" for b
    by (simp add: evaluate_def assms)
  have none: "(\<nexists>p. winning_policy org f a db p) \<longleftrightarrow>
      find (\<lambda>p. matchesPolicyCondition (pol_condition p) (as_match f a)) (policies_in_order org db) = None"
    by (simp flip: find_policy)
  have some: "evaluate_loop now True org f a (policies_in_order org db) db =
      (Ok (pol_actions p), [Policy_violated i (pol_id p) (pol_actions p)], due_update now org i p db)"
    if w: "winning_policy org f a db p" for p
  proof -
    have fp: "find (\<lambda>p. matchesPolicyCondition (pol_condition p) (as_match f a)) (policies_in_order org db) = Some p"
      using w by (simp add: find_policy)
    then have "matchesPolicyCondition (pol_condition p) (as_match f a)" by (auto simp: find_Some_iff)
    then show ?thesis
      by (subst evaluate_loop_find) (auto simp: fp due_update_def i Let_def split: option.splits)
  qed
  have seed: "evaluate_loop now True org f a (policies_in_order org db) db =
      (if f_kev f \<or> f_severity f = ''critical''
       then (Ok [''notify''], [Policy_violated i SEED_KEV_OR_CRITICAL_POLICY_ID [''notify'']], db) else (Ok [], [], db))"
    if "\<nexists>p. winning_policy org f a db p"
    using that none
    by (subst evaluate_loop_find) (simp add: matchesSeedKevOrCritical_def SEED_NOTIFY_ACTIONS_def i)
  show ?thesis using e some seed by simp
qed

lemma sla_db_load: "load_finding ''o1'' ''f1'' (sla_db due) = Some (log4shell\<lparr>f_slaDueAt := due\<rparr>, front_door)"
  by (simp add: load_finding_def sla_db_def log4shell_def created_finding_def one_batch_def Let_def)

lemma sla_db_quiet: "\<not> hasActiveException ''o1'' now ''f1'' (sla_db due)"
  by (simp add: hasActiveException_def active_exceptions_def sla_db_def)

lemma sla_db_winner: "winning_policy ''o1'' (log4shell\<lparr>f_slaDueAt := due\<rparr>) front_door (sla_db due) (hd (r_policies (sla_db due)))"
proof -
  have "policy_applies ''o1'' (log4shell\<lparr>f_slaDueAt := due\<rparr>) front_door (sla_db due) = r_policies (sla_db due)"
    by (simp add: policy_applies_def sla_db_def matchesPolicyCondition_def kev_condition_def gate_condition_def
        as_match_def log4shell_def truthy_def list_refuses_def)
  then show ?thesis by (simp add: winning_policy_def leftmost_min_def sla_db_def)
qed

theorem evaluate_decides_witness:
  "evaluate 1000 True ''o1'' ''f1'' (sla_db None) =
     (Ok [''notify'', ''fail_build''], [Policy_violated ''f1'' ''p1'' [''notify'', ''fail_build'']],
      due_update 1000 ''o1'' ''f1'' (hd (r_policies (sla_db None))) (sla_db None))"
proof -
  let ?p = "hd (r_policies (sla_db None))"
  have "evaluate 1000 True ''o1'' ''f1'' (sla_db None) =
      (Ok (pol_actions ?p), [Policy_violated ''f1'' (pol_id ?p) (pol_actions ?p)],
       due_update 1000 ''o1'' ''f1'' ?p (sla_db None))"
    using evaluate_decides[OF sla_db_load, of 1000 None True] sla_db_quiet sla_db_winner by blast
  moreover have "pol_actions ?p = [''notify'', ''fail_build'']" "pol_id ?p = ''p1''" by (simp_all add: sla_db_def)
  ultimately show ?thesis by (simp only:)
qed


section \<open>The deadline sweep (sla-monitor.service.ts)\<close>

definition SLA_MONITOR_TICK_MS :: int where
  "SLA_MONITOR_TICK_MS = 10 * 60000"

definition OPEN_SLA_STATES :: "string list" where
  "OPEN_SLA_STATES = [''open'', ''triaged'', ''in_progress'']"

definition breached :: "instant \<Rightarrow> finding_row \<Rightarrow> bool" where
  "breached now r \<longleftrightarrow>
     (case f_slaDueAt r of None \<Rightarrow> False | Some due \<Rightarrow> due < now) \<and> f_resolvedAt r = None
     \<and> f_state r \<in> set OPEN_SLA_STATES \<and> f_slaNotifiedAt r = None"

text \<open>The atomic \<^verbatim>\<open>UPDATE ... WHERE ... RETURNING\<close>: the due instant when this caller wins the claim.\<close>

definition claimSlaBreachNotification :: "instant \<Rightarrow> ident \<Rightarrow> ident \<Rightarrow> risk_db \<Rightarrow> instant option \<times> risk_db" where
  "claimSlaBreachNotification now org i db =
     (case find (\<lambda>r. f_org r = org \<and> f_id r = i \<and> breached now r) (r_findings db) of
        None \<Rightarrow> (None, db)
      | Some r \<Rightarrow>
          (f_slaDueAt r,
           db\<lparr>r_findings := map (\<lambda>r. if f_org r = org \<and> f_id r = i \<and> breached now r
                                      then r\<lparr>f_slaNotifiedAt := Some now\<rparr> else r) (r_findings db)\<rparr>))"

text \<open>The sweep over the rows it listed; \<open>bus_ok\<close> is false on a finding whose publish throws.\<close>

fun sweep_loop :: "instant \<Rightarrow> (ident \<Rightarrow> bool) \<Rightarrow> (ident \<times> ident) list \<Rightarrow> risk_db \<Rightarrow> risk_msg list \<times> risk_db" where
  "sweep_loop now bus_ok [] db = ([], db)"
| "sweep_loop now bus_ok ((org, i) # rest) db =
     (case claimSlaBreachNotification now org i db of
        (None, db1) \<Rightarrow> sweep_loop now bus_ok rest db1
      | (Some due, db1) \<Rightarrow>
          (let (pub, db2) = sweep_loop now bus_ok rest db1
           in (if bus_ok i then Sla_breached i due # pub else pub, db2)))"

definition listed :: "instant \<Rightarrow> risk_db \<Rightarrow> (ident \<times> ident) list" where
  "listed now db = take 5000 (map (\<lambda>r. (f_org r, f_id r)) (filter (breached now) (r_findings db)))"

definition runSweep :: "instant \<Rightarrow> (ident \<Rightarrow> bool) \<Rightarrow> risk_db \<Rightarrow> risk_msg list \<times> risk_db" where
  "runSweep now bus_ok db = sweep_loop now bus_ok (listed now db) db"

text \<open>Overlapping replicas: each works through a list it may have read long before.\<close>

fun overlapping_sweeps :: "(instant \<times> (ident \<Rightarrow> bool) \<times> (ident \<times> ident) list) list \<Rightarrow> risk_db \<Rightarrow> risk_msg list \<times> risk_db" where
  "overlapping_sweeps [] db = ([], db)"
| "overlapping_sweeps ((now, bus_ok, targets) # es) db =
     (let (pub, db1) = sweep_loop now bus_ok targets db; (pub', db2) = overlapping_sweeps es db1
      in (pub @ pub', db2))"

fun alerts :: "ident \<Rightarrow> risk_msg list \<Rightarrow> nat" where
  "alerts i [] = 0"
| "alerts i (Sla_breached j due # ms) = (if j = i then 1 else 0) + alerts i ms"
| "alerts i (m # ms) = alerts i ms"

lemma alerts_append [simp]: "alerts i (xs @ ys) = alerts i xs + alerts i ys"
  by (induction i xs rule: alerts.induct) auto

definition claimed :: "ident \<Rightarrow> risk_db \<Rightarrow> bool" where
  "claimed i db \<longleftrightarrow> (\<forall>r \<in> set (r_findings db). f_id r = i \<longrightarrow> f_slaNotifiedAt r \<noteq> None)"

definition ids_unique :: "risk_db \<Rightarrow> bool" where
  "ids_unique db \<longleftrightarrow> distinct (map f_id (r_findings db))"

lemma claim_cases:
  assumes u: "ids_unique db" and c: "claimSlaBreachNotification now org j db = (r, db1)"
  shows "ids_unique db1" and "claimed i db \<Longrightarrow> claimed i db1"
    and "r \<noteq> None \<Longrightarrow> claimed j db1 \<and> \<not> claimed j db"
proof -
  let ?P = "\<lambda>r. f_org r = org \<and> f_id r = j \<and> breached now r"
  consider (none) "find ?P (r_findings db) = None" "r = None" "db1 = db"
    | (some) x where "find ?P (r_findings db) = Some x" "r = f_slaDueAt x"
        "db1 = db\<lparr>r_findings := map (\<lambda>r. if ?P r then r\<lparr>f_slaNotifiedAt := Some now\<rparr> else r) (r_findings db)\<rparr>"
    using c by (auto simp: claimSlaBreachNotification_def split: option.splits)
  then have "ids_unique db1 \<and> (claimed i db \<longrightarrow> claimed i db1) \<and> (r \<noteq> None \<longrightarrow> claimed j db1 \<and> \<not> claimed j db)"
  proof cases
    case some
    have x: "x \<in> set (r_findings db)" "?P x" using some(1) by (auto simp: find_Some_iff)
    have one: "y = x" if "y \<in> set (r_findings db)" "f_id y = j" for y
      using u x that by (auto simp: ids_unique_def distinct_map inj_on_def)
    have "map f_id (r_findings db1) = map f_id (r_findings db)" using some(3) by simp
    moreover have "claimed i db \<longrightarrow> claimed i db1" using some(3) by (auto simp: claimed_def)
    moreover have "claimed j db1" using some(3) one x(2) by (auto simp: claimed_def)
    moreover have "\<not> claimed j db" using x by (auto simp: claimed_def breached_def)
    ultimately show ?thesis using u by (simp add: ids_unique_def)
  qed (use u in auto)
  then show "ids_unique db1" "claimed i db \<Longrightarrow> claimed i db1" "r \<noteq> None \<Longrightarrow> claimed j db1 \<and> \<not> claimed j db"
    by auto
qed

lemma sweep_loop_once:
  assumes "ids_unique db" and "sweep_loop now bus_ok targets db = (pub, db')"
  shows "ids_unique db' \<and> (claimed i db \<longrightarrow> claimed i db' \<and> alerts i pub = 0)
    \<and> alerts i pub \<le> 1 \<and> (alerts i pub = 1 \<longrightarrow> claimed i db')"
  using assms
proof (induction now bus_ok targets db arbitrary: pub db' rule: sweep_loop.induct)
  case (2 now bus_ok org j rest db)
  obtain r db1 where c: "claimSlaBreachNotification now org j db = (r, db1)" by fastforce
  note cc = claim_cases[OF 2(3) c]
  show ?case
  proof (cases r)
    case None
    then show ?thesis using 2(1)[OF c[symmetric]] 2(4) c cc by auto
  next
    case (Some due)
    obtain pub1 db2 where l: "sweep_loop now bus_ok rest db1 = (pub1, db2)" by fastforce
    have ih: "ids_unique db2 \<and> (claimed i db1 \<longrightarrow> claimed i db2 \<and> alerts i pub1 = 0)
        \<and> alerts i pub1 \<le> 1 \<and> (alerts i pub1 = 1 \<longrightarrow> claimed i db2)"
      using 2(2)[OF c[symmetric] Some] cc(1) l by blast
    have "db' = db2" "pub = (if bus_ok j then Sla_breached j due # pub1 else pub1)"
      using 2(4) c Some l by auto
    then show ?thesis using ih cc(2)[of i] cc(3) Some by auto
  qed
qed auto

text \<open>
  C19 (one alert per missed deadline). However many replicas sweep, in whatever order and with whatever
  stale lists of rows, a finding's missed deadline is announced at most once, and not at all when
  its claim is already taken.
\<close>

theorem sla_alert_at_most_once:
  assumes "ids_unique db" and "overlapping_sweeps es db = (pub, db')"
  shows "alerts i pub \<le> 1 \<and> (claimed i db \<longrightarrow> alerts i pub = 0)"
proof -
  have "ids_unique db' \<and> (claimed i db \<longrightarrow> claimed i db' \<and> alerts i pub = 0) \<and> alerts i pub \<le> 1"
    using assms
  proof (induction es db arbitrary: pub db' rule: overlapping_sweeps.induct)
    case (2 now bus_ok targets es db)
    obtain p1 db1 where s: "sweep_loop now bus_ok targets db = (p1, db1)" by fastforce
    obtain p2 where o: "overlapping_sweeps es db1 = (p2, db')" "pub = p1 @ p2"
      using 2(3) s by (auto split: prod.splits)
    have one: "ids_unique db1 \<and> (claimed i db \<longrightarrow> claimed i db1 \<and> alerts i p1 = 0) \<and> alerts i p1 \<le> 1
        \<and> (alerts i p1 = 1 \<longrightarrow> claimed i db1)"
      using sweep_loop_once[OF 2(2) s] by blast
    then have "ids_unique db' \<and> (claimed i db1 \<longrightarrow> claimed i db' \<and> alerts i p2 = 0) \<and> alerts i p2 \<le> 1"
      using 2(1)[OF s[symmetric] refl] o(1) by blast
    then show ?case using one o(2) by auto
  qed auto
  then show ?thesis by blast
qed

theorem sla_alert_at_most_once_witness:
  "alerts ''f1'' (fst (overlapping_sweeps [(2000, \<lambda>_. True, [(''o1'', ''f1'')]), (2001, \<lambda>_. True, [(''o1'', ''f1'')])]
     (sla_db (Some 1500)))) \<le> 1"
proof -
  have "ids_unique (sla_db (Some 1500))" by (simp add: ids_unique_def sla_db_def)
  then show ?thesis using sla_alert_at_most_once by (metis prod.collapse)
qed


subsection \<open>Alerts that never come\<close>

lemma overlapping_sweeps_claimed:
  assumes "ids_unique db" and "claimed i db"
  shows "alerts i (fst (overlapping_sweeps es db)) = 0"
  using assms
proof (induction es db rule: overlapping_sweeps.induct)
  case (2 now bus_ok targets es db)
  obtain p1 db1 where s: "sweep_loop now bus_ok targets db = (p1, db1)" by fastforce
  then have "ids_unique db1 \<and> claimed i db1 \<and> alerts i p1 = 0" using sweep_loop_once[OF 2(2) s, of i] 2(3) by blast
  then show ?case using 2(1)[OF s[symmetric] refl] s by (auto split: prod.splits)
qed simp

lemma sla_db_row: "r_findings (sla_db due) = [log4shell\<lparr>f_slaDueAt := due\<rparr>]"
  by (simp add: sla_db_def)

lemma sla_db_breached:
  "breached now (log4shell\<lparr>f_slaDueAt := Some due\<rparr>) \<longleftrightarrow> due < now"
  by (simp add: breached_def log4shell_def created_finding_def one_batch_def Let_def OPEN_SLA_STATES_def)

lemma log4shell_ids: "f_org (log4shell\<lparr>f_slaDueAt := d\<rparr>) = ''o1''" "f_id (log4shell\<lparr>f_slaDueAt := d\<rparr>) = ''f1''"
  by (simp_all add: log4shell_def created_finding_def one_batch_def Let_def)

text \<open>
  A lost alert. The claim commits before the publish: when the publish of a missed deadline
  fails, no later sweep announces it, although the sweep's comment says a failure skips the finding
  for that tick only.
\<close>

theorem failed_publish_loses_the_alert:
  "fst (overlapping_sweeps [(2000, \<lambda>_. False, listed 2000 (sla_db (Some 1500)))] (sla_db (Some 1500))) = []
   \<and> alerts ''f1'' (fst (overlapping_sweeps ((2000, \<lambda>_. False, listed 2000 (sla_db (Some 1500))) # es) (sla_db (Some 1500)))) = 0
   \<and> alerts ''f1'' (fst (runSweep 2000 (\<lambda>_. True) (sla_db (Some 1500)))) = 1"
proof -
  let ?db = "sla_db (Some 1500)"
  have l: "listed 2000 ?db = [(''o1'', ''f1'')]"
    by (simp add: listed_def sla_db_row sla_db_breached log4shell_ids)
  obtain db1 where c: "claimSlaBreachNotification 2000 ''o1'' ''f1'' ?db = (Some 1500, db1)"
    by (simp add: claimSlaBreachNotification_def sla_db_row sla_db_breached log4shell_ids)
  have u: "ids_unique ?db" by (simp add: ids_unique_def sla_db_row)
  have d: "ids_unique db1" "claimed ''f1'' db1" using claim_cases[OF u c] by auto
  have s: "sweep_loop 2000 b [(''o1'', ''f1'')] ?db = (if b ''f1'' then [Sla_breached ''f1'' 1500] else [], db1)" for b
    by (simp add: c)
  have "fst (overlapping_sweeps ((2000, \<lambda>_. False, [(''o1'', ''f1'')]) # es) ?db) = fst (overlapping_sweeps es db1)" for es
    unfolding overlapping_sweeps.simps s by (simp split: prod.splits)
  then show ?thesis
    using overlapping_sweeps_claimed[OF d] s[of "\<lambda>_. True"] s[of "\<lambda>_. False"] unfolding l runSweep_def
    by (simp del: sweep_loop.simps)
qed

text \<open>One rescan cycle of an unresolved finding: the sweep, then the re-evaluation that the new report
  triggers.\<close>

definition rescan_cycle :: "instant \<Rightarrow> risk_db \<Rightarrow> risk_msg list \<times> risk_db" where
  "rescan_cycle now db =
     (let (pub, db1) = runSweep now (\<lambda>_. True) db; (r, pub', db2) = evaluate now True ''o1'' ''f1'' db1
      in (pub @ pub', db2))"

fun rescan_cycles :: "int \<Rightarrow> nat \<Rightarrow> instant \<Rightarrow> risk_db \<Rightarrow> risk_msg list" where
  "rescan_cycles d 0 now db = []"
| "rescan_cycles d (Suc n) now db =
     (let (pub, db') = rescan_cycle now db in pub @ rescan_cycles d n (now + d) db')"

lemma sla_db_evaluate:
  "evaluate now True ''o1'' ''f1'' (sla_db due) =
     (Ok [''notify'', ''fail_build''], [Policy_violated ''f1'' ''p1'' [''notify'', ''fail_build'']],
      sla_db (Some (now + 86400000)))"
proof -
  let ?p = "hd (r_policies (sla_db due))"
  have "evaluate_loop now True ''o1'' (log4shell\<lparr>f_slaDueAt := due\<rparr>) front_door (policies_in_order ''o1'' (sla_db due)) (sla_db due)
      = evaluate_loop now True ''o1'' (log4shell\<lparr>f_slaDueAt := due\<rparr>) front_door [?p] (sla_db due)"
    by (subst evaluate_loop_find) (use sla_db_winner[of due] in \<open>simp flip: find_policy\<close>)
  moreover have "matchesPolicyCondition (pol_condition ?p) (as_match (log4shell\<lparr>f_slaDueAt := due\<rparr>) front_door)"
    using sla_db_winner[of due] by (auto simp: find_policy[symmetric] find_Some_iff)
  moreover have "update_finding ''o1'' ''f1'' (set_due (now + 86400000)) (sla_db due) = sla_db (Some (now + 86400000))"
    by (simp add: update_finding_def sla_db_def log4shell_ids set_due_def)
       (simp add: log4shell_def created_finding_def one_batch_def Let_def)
  moreover have "pol_slaHours ?p = Some 24" "pol_actions ?p = [''notify'', ''fail_build'']" "pol_id ?p = ''p1''"
    by (simp_all add: sla_db_def)
  ultimately show ?thesis
    by (simp add: evaluate_def sla_db_load sla_db_quiet log4shell_ids)
qed

lemma sla_db_sweep: "now \<le> due \<Longrightarrow> runSweep now b (sla_db (Some due)) = ([], sla_db (Some due))"
  by (simp add: runSweep_def listed_def sla_db_row sla_db_breached)



end
