(* ===== verification/ScanGates.thy ===== *)
theory ScanGates
imports Risk
begin

text \<open>
  The loader behind the CI and deploy gates and the statuses published from them
  (\<^verbatim>\<open>scans/scan-conclusion.query.ts\<close> of the orchestrator), over the same tables as the policy engine of
  the risk service.
\<close>


section \<open>Loading a scan's gate input\<close>

record conclusion_row =
  sc_status :: string
  sc_scannerType :: string
  sc_jobs :: "(ident \<times> nat option) list option"

definition jobs_of_row :: "conclusion_row \<Rightarrow> (ident \<times> nat option) list" where
  "jobs_of_row scan = or_else (sc_jobs scan) []"

definition with_asset :: "risk_db \<Rightarrow> finding_row \<Rightarrow> match_finding option" where
  "with_asset db r = map_option (as_match r) (map_of (r_assets db) (f_assetId r))"

definition open_findings :: "ident \<Rightarrow> risk_db \<Rightarrow> conclusion_row \<Rightarrow> finding_row list" where
  "open_findings org db scan =
     (let assetIds = uniq (map fst (jobs_of_row scan)) in
      if assetIds = [] then []
      else filter (\<lambda>r. f_org r = org \<and> f_assetId r \<in> set assetIds \<and> f_scannerType r = sc_scannerType scan
                     \<and> f_state r \<in> set OPEN_STATES) (r_findings db))"

definition expected_count :: "conclusion_row \<Rightarrow> nat" where
  "expected_count scan = foldl (\<lambda>n (a, c). n + or_else c 0) 0 (jobs_of_row scan)"

definition as_rule :: "policy_row \<Rightarrow> policy_rule" where
  "as_rule p = \<lparr>enabled = Some (pol_enabled p), priority = pol_priority p, condition = pol_condition p,
     actions = pol_actions p\<rparr>"

definition loadScanPolicyMatchInput :: "ident \<Rightarrow> instant \<Rightarrow> risk_db \<Rightarrow> conclusion_row \<Rightarrow> conclude_input" where
  "loadScanPolicyMatchInput org now db scan =
     (let rows = open_findings org db scan;
          exceptions = filter (\<lambda>x. x_scope x = ''global''
                                 \<or> (x_scope x = ''finding'' \<and> x_targetRef x \<in> set (map f_id rows)))
                         (active_exceptions org now db);
          suppressed = (if list_ex (\<lambda>x. x_scope x = ''global'') exceptions then map f_id rows
                        else map x_targetRef exceptions)
      in \<lparr>ci_status = sc_status scan, ci_findings = List.map_filter (with_asset db) rows,
          ci_policies = map as_rule (policies_in_order org db), ci_suppressed = Some suppressed,
          ci_expected = Some (expected_count scan)\<rparr>)"

definition scanGatesForScan :: "ident \<Rightarrow> instant \<Rightarrow> risk_db \<Rightarrow> conclusion_row \<Rightarrow> scan_conclusion \<times> deploy_conclusion" where
  "scanGatesForScan org now db scan =
     (if sc_status scan = ''queued'' \<or> sc_status scan = ''running'' then (C_pending, D_pending)
      else (let input = loadScanPolicyMatchInput org now db scan in (concludeScan input, concludeDeploy input)))"

definition conclusionForScan :: "ident \<Rightarrow> instant \<Rightarrow> risk_db \<Rightarrow> conclusion_row \<Rightarrow> scan_conclusion" where
  "conclusionForScan org now db scan = fst (scanGatesForScan org now db scan)"

definition deployConclusionForScan :: "ident \<Rightarrow> instant \<Rightarrow> risk_db \<Rightarrow> conclusion_row \<Rightarrow> deploy_conclusion" where
  "deployConclusionForScan org now db scan = snd (scanGatesForScan org now db scan)"

fun checkConclusionFromScan :: "scan_conclusion \<Rightarrow> string option" where
  "checkConclusionFromScan C_passed = Some ''success''"
| "checkConclusionFromScan C_failed = Some ''failure''"
| "checkConclusionFromScan C_pending = None"

fun gitlabCommitStatusFromScan :: "scan_conclusion \<Rightarrow> string option" where
  "gitlabCommitStatusFromScan C_passed = Some ''success''"
| "gitlabCommitStatusFromScan C_failed = Some ''failed''"
| "gitlabCommitStatusFromScan C_pending = None"

fun bitbucketBuildStateFromScan :: "scan_conclusion \<Rightarrow> string option" where
  "bitbucketBuildStateFromScan C_passed = Some ''SUCCESSFUL''"
| "bitbucketBuildStateFromScan C_failed = Some ''FAILED''"
| "bitbucketBuildStateFromScan C_pending = None"

fun deploymentStatusFromDeploy :: "deploy_conclusion \<Rightarrow> string option" where
  "deploymentStatusFromDeploy D_allowed = Some ''success''"
| "deploymentStatusFromDeploy D_blocked = Some ''failure''"
| "deploymentStatusFromDeploy D_pending = None"

fun gitlabDeploymentStatusFromDeploy :: "deploy_conclusion \<Rightarrow> string option" where
  "gitlabDeploymentStatusFromDeploy D_allowed = Some ''success''"
| "gitlabDeploymentStatusFromDeploy D_blocked = Some ''failed''"
| "gitlabDeploymentStatusFromDeploy D_pending = None"


section \<open>The gate and the engine cannot drift\<close>

lemma sort_key_sorted: "sorted (map f xs) \<Longrightarrow> sort_key f xs = xs"
  by (induction xs) (auto simp: insort_is_Cons)

lemma ordered_as_rules: "ordered_policies (map as_rule (policies_in_order org db)) = map as_rule (policies_in_order org db)"
proof -
  let ?ps = "policies_in_order org db"
  have e: "\<forall>p \<in> set ?ps. pol_enabled p" by (simp add: policies_in_order_def)
  have "sorted (map pol_priority ?ps)" by (simp add: policies_in_order_def)
  then have "sorted (map priority (map as_rule ?ps))" by (simp add: as_rule_def o_def)
  moreover have "filter (\<lambda>p. enabled p \<noteq> Some False) (map as_rule ?ps) = map as_rule ?ps"
    using e by (auto simp: as_rule_def intro!: filter_True)
  ultimately show ?thesis by (simp add: ordered_policies_def sort_key_sorted)
qed

lemma winning_rule_as_policy:
  "winning_rule (map as_rule (policies_in_order org db)) (as_match r a) q \<longleftrightarrow>
     (\<exists>p. winning_policy org r a db p \<and> q = as_rule p)"
proof -
  have m: "find P (map as_rule ps) = map_option as_rule (find (\<lambda>p. P (as_rule p)) ps)" for P ps
    by (induction ps) auto
  have "winning_rule (map as_rule (policies_in_order org db)) (as_match r a) q \<longleftrightarrow>
      find (\<lambda>q. matchesPolicyCondition (condition q) (as_match r a)) (map as_rule (policies_in_order org db)) = Some q"
    by (simp add: ordered_as_rules flip: find_ordered)
  also have "\<dots> \<longleftrightarrow> (\<exists>p. find (\<lambda>p. matchesPolicyCondition (pol_condition p) (as_match r a)) (policies_in_order org db) = Some p
      \<and> q = as_rule p)"
    by (auto simp: m as_rule_def)
  finally show ?thesis by (simp add: find_policy)
qed

definition engine_action :: "instant \<Rightarrow> ident \<Rightarrow> risk_db \<Rightarrow> string \<Rightarrow> finding_row \<Rightarrow> bool" where
  "engine_action now org db action r \<longleftrightarrow>
     (\<exists>acts. fst (evaluate now True org (f_id r) db) = Ok acts \<and> action \<in> set acts)"

lemma engine_action_iff:
  assumes "load_finding org (f_id r) db = Some (r, a)" and "action \<noteq> ''notify''"
  shows "engine_action now org db action r \<longleftrightarrow>
    \<not> hasActiveException org now (f_id r) db \<and> (\<exists>p. winning_policy org r a db p \<and> action \<in> set (pol_actions p))"
proof -
  have e: "evaluate now True org (f_id r) db = (if hasActiveException org now (f_id r) db then (Ok [], [], db)
      else evaluate_loop now True org r a (policies_in_order org db) db)"
    using assms(1) by (simp add: evaluate_def)
  let ?find = "find (\<lambda>p. matchesPolicyCondition (pol_condition p) (as_match r a)) (policies_in_order org db)"
  have "(\<exists>acts. fst (evaluate_loop now True org r a (policies_in_order org db) db) = Ok acts \<and> action \<in> set acts) \<longleftrightarrow>
      (\<exists>p. ?find = Some p \<and> action \<in> set (pol_actions p))"
  proof (cases ?find)
    case None
    then show ?thesis using assms(2) by (subst evaluate_loop_find) (simp add: SEED_NOTIFY_ACTIONS_def)
  next
    case (Some p)
    then have "matchesPolicyCondition (pol_condition p) (as_match r a)" by (auto simp: find_Some_iff)
    then show ?thesis using Some by (subst evaluate_loop_find) (simp add: Let_def)
  qed
  then show ?thesis by (auto simp: engine_action_def e find_policy)
qed

definition assets_known :: "risk_db \<Rightarrow> bool" where
  "assets_known db \<longleftrightarrow> (\<forall>r \<in> set (r_findings db). map_of (r_assets db) (f_assetId r) \<noteq> None)"

lemma load_finding_row:
  assumes "ids_unique db" and "assets_known db" and "r \<in> set (r_findings db)" and "f_org r = org"
  obtains a where "load_finding org (f_id r) db = Some (r, a)" and "with_asset db r = Some (as_match r a)"
proof -
  obtain x where x: "find (\<lambda>x. f_org x = org \<and> f_id x = f_id r) (r_findings db) = Some x"
    using assms(3,4) by (cases "find (\<lambda>x. f_org x = org \<and> f_id x = f_id r) (r_findings db)") (auto simp: find_None_iff)
  then have "x \<in> set (r_findings db)" "f_id x = f_id r" by (auto simp: find_Some_iff)
  then have "x = r" using assms(1,3) by (auto simp: ids_unique_def distinct_map inj_on_def)
  moreover obtain a where "map_of (r_assets db) (f_assetId r) = Some a" using assms(2,3) by (auto simp: assets_known_def)
  ultimately show ?thesis using that x by (simp add: load_finding_def with_asset_def)
qed

lemma suppressed_iff:
  assumes "r \<in> set (open_findings org db scan)"
  shows "f_id r \<in> suppressed_ids (loadScanPolicyMatchInput org now db scan) \<longleftrightarrow> hasActiveException org now (f_id r) db"
proof -
  let ?rows = "open_findings org db scan"
  let ?ex = "filter (\<lambda>x. x_scope x = ''global'' \<or> (x_scope x = ''finding'' \<and> x_targetRef x \<in> set (map f_id ?rows)))
      (active_exceptions org now db)"
  have s: "suppressed_ids (loadScanPolicyMatchInput org now db scan) =
      (if list_ex (\<lambda>x. x_scope x = ''global'') ?ex then f_id ` set ?rows else x_targetRef ` set ?ex)"
    by (simp add: suppressed_ids_def loadScanPolicyMatchInput_def Let_def)
  show ?thesis
  proof (cases "list_ex (\<lambda>x. x_scope x = ''global'') (active_exceptions org now db)")
    case True
    then show ?thesis using assms by (auto simp: s hasActiveException_def list_ex_iff)
  next
    case False
    then show ?thesis using assms by (auto simp: s hasActiveException_def list_ex_iff image_iff)
  qed
qed

lemma loaded_findings:
  "f \<in> set (ci_findings (loadScanPolicyMatchInput org now db scan)) \<longleftrightarrow>
     (\<exists>r \<in> set (open_findings org db scan). with_asset db r = Some f)"
  by (simp add: loadScanPolicyMatchInput_def Let_def in_map_filter)

lemma gate_matched_iff_engine:
  assumes u: "ids_unique db" and k: "assets_known db" and a: "action \<noteq> ''notify''"
    and st: "sc_status scan \<notin> {''queued'', ''running''}"
  shows "concludeByAction (loadScanPolicyMatchInput org now db scan) action = Gate_matched \<longleftrightarrow>
    (\<exists>r \<in> set (open_findings org db scan). engine_action now org db action r)"
proof -
  let ?i = "loadScanPolicyMatchInput org now db scan"
  have sel: "ci_status ?i = sc_status scan" "ci_policies ?i = map as_rule (policies_in_order org db)"
    by (simp_all add: loadScanPolicyMatchInput_def Let_def)
  have step: "(\<exists>f. with_asset db r = Some f \<and> mf_id f \<notin> suppressed_ids ?i
        \<and> (\<exists>p. winning_rule (ci_policies ?i) f p \<and> action \<in> set (actions p))) \<longleftrightarrow> engine_action now org db action r"
    if r: "r \<in> set (open_findings org db scan)" for r
  proof -
    have "r \<in> set (r_findings db)" "f_org r = org"
      using r by (auto simp: open_findings_def Let_def split: if_splits)
    then obtain x where x: "load_finding org (f_id r) db = Some (r, x)" "with_asset db r = Some (as_match r x)"
      using load_finding_row[OF u k] by blast
    have "mf_id (as_match r x) = f_id r" by (simp add: as_match_def)
    then show ?thesis
      using x suppressed_iff[OF r] engine_action_iff[OF x(1) a]
      by (auto simp: sel winning_rule_as_policy as_rule_def)
  qed
  have "concludeByAction ?i action = Gate_matched \<longleftrightarrow>
      (\<exists>f \<in> set (ci_findings ?i). mf_id f \<notin> suppressed_ids ?i
        \<and> (\<exists>p. winning_rule (ci_policies ?i) f p \<and> action \<in> set (actions p)))"
    using st by (simp add: concludeByAction_matched sel)
  also have "\<dots> \<longleftrightarrow> (\<exists>r \<in> set (open_findings org db scan). \<exists>f. with_asset db r = Some f \<and> mf_id f \<notin> suppressed_ids ?i
        \<and> (\<exists>p. winning_rule (ci_policies ?i) f p \<and> action \<in> set (actions p)))"
    by (auto simp: loaded_findings Bex_def)
  finally show ?thesis using step by blast
qed

definition finished_scan :: conclusion_row where
  "finished_scan = \<lparr>sc_status = ''succeeded'', sc_scannerType = ''secrets'', sc_jobs = Some [(''a1'', Some 1)]\<rparr>"



text \<open>
  Pending for ever. A finished scan that reported findings has both gates pending whenever none
  of the findings of its assets and type is open, whatever the reason: once every finding has been
  fixed, accepted or dismissed, the gates of the scan never open again.
\<close>

theorem resolved_findings_leave_the_gates_pending:
  assumes "sc_status scan \<notin> {''queued'', ''running''}" and "0 < expected_count scan"
    and "open_findings org db scan = []"
  shows "scanGatesForScan org now db scan = (C_pending, D_pending)"
proof -
  have "ci_findings (loadScanPolicyMatchInput org now db scan) = []"
    "ci_expected (loadScanPolicyMatchInput org now db scan) = Some (expected_count scan)"
    using assms(3) by (simp_all add: loadScanPolicyMatchInput_def Let_def List.map_filter_def)
  then have "concludeByAction (loadScanPolicyMatchInput org now db scan) a = Gate_pending" for a
    using assms(2) by (simp add: concludeByAction_pending)
  then show ?thesis using assms(1) by (simp add: scanGatesForScan_def concludeScan_def concludeDeploy_def Let_def)
qed

theorem resolved_findings_leave_the_gates_pending_witness:
  "scanGatesForScan ''o1'' 1000
     ((sla_db None)\<lparr>r_findings := [log4shell\<lparr>f_state := ''resolved'', f_resolvedAt := Some 900\<rparr>]\<rparr>) finished_scan
   = (C_pending, D_pending)"
proof (rule resolved_findings_leave_the_gates_pending)
  show "sc_status finished_scan \<notin> {''queued'', ''running''}" by (simp add: finished_scan_def)
  show "0 < expected_count finished_scan"
    by (simp add: expected_count_def jobs_of_row_def finished_scan_def or_else_def)
  show "open_findings ''o1'' ((sla_db None)\<lparr>r_findings := [log4shell\<lparr>f_state := ''resolved'', f_resolvedAt := Some 900\<rparr>]\<rparr>)
      finished_scan = []"
    by (simp add: open_findings_def Let_def OPEN_STATES_def)
qed

end
