(* ===== verification/Notify.thy ===== *)
theory Notify
imports Risk
begin

text \<open>
  The notification service: the fan-out of a policy violation (\<^verbatim>\<open>policy-notify.ts\<close>), the claim before a
  send (\<^verbatim>\<open>delivery-claim.ts\<close>) and the consumer that composes them (\<^verbatim>\<open>notification.consumer.ts\<close>).
  The channels' HTTP calls are outside: whether a send succeeds is an input.
\<close>


section \<open>Fan-out (policy-notify.ts)\<close>

record notice =
  n_findingId :: ident
  n_policyId :: ident
  n_actions :: "string list"

record message =
  m_org :: ident
  m_channel :: string
  m_template :: string
  m_target :: string
  m_data :: entries

definition shouldNotify :: "string list \<Rightarrow> bool" where
  "shouldNotify acts = (''notify'' \<in> set acts)"

definition shouldTicket :: "string list \<Rightarrow> bool" where
  "shouldTicket acts = (''ticket'' \<in> set acts)"

definition notification_for :: "ident \<Rightarrow> notice \<Rightarrow> string \<Rightarrow> message" where
  "notification_for org n channel =
     \<lparr>m_org = org, m_channel = channel, m_template = ''policy.violated'', m_target = channel,
      m_data = [(''findingId'', JStr (n_findingId n)), (''policyId'', JStr (n_policyId n)),
                (''actions'', JArr (map JStr (n_actions n)))]\<rparr>"

text \<open>\<^verbatim>\<open>dispatchPolicyViolated\<close>: false when a publish throws, and what was published before.\<close>

definition dispatchPolicyViolated :: "(string \<Rightarrow> bool) \<Rightarrow> ident \<Rightarrow> notice \<Rightarrow> bool \<times> message list" where
  "dispatchPolicyViolated bus_ok org n =
     (if shouldNotify (n_actions n) \<and> \<not> bus_ok ''slack'' then (False, [])
      else
        (let pub = (if shouldNotify (n_actions n) then [notification_for org n ''slack''] else []) in
         if shouldTicket (n_actions n)
         then (if bus_ok ''jira'' then (True, pub @ [notification_for org n ''jira'']) else (False, pub))
         else (True, pub)))"


section \<open>Claim before send (delivery-claim.ts)\<close>

definition POLICY_VIOLATED_TEMPLATE :: string where
  "POLICY_VIOLATED_TEMPLATE = ''policy.violated''"

definition CLAIM_CHANNELS :: "string list" where
  "CLAIM_CHANNELS = [''slack'', ''jira'']"

record claim_key =
  ck_org :: ident
  ck_findingId :: ident
  ck_policyId :: ident
  ck_channel :: string

definition uuid_field :: "(string \<Rightarrow> bool) \<Rightarrow> entries \<Rightarrow> string \<Rightarrow> string option" where
  "uuid_field is_uuid data k =
     (case map_of data k of Some (JStr s) \<Rightarrow> if is_uuid s then Some s else None | _ \<Rightarrow> None)"

definition policyDeliveryClaimKey :: "(string \<Rightarrow> bool) \<Rightarrow> message \<Rightarrow> claim_key option" where
  "policyDeliveryClaimKey is_uuid m =
     (if m_template m \<noteq> POLICY_VIOLATED_TEMPLATE then None
      else if m_channel m \<notin> set CLAIM_CHANNELS then None
      else
        (case (uuid_field is_uuid (m_data m) ''findingId'', uuid_field is_uuid (m_data m) ''policyId'') of
           (Some f, Some p) \<Rightarrow>
             Some \<lparr>ck_org = m_org m, ck_findingId = f, ck_policyId = p, ck_channel = m_channel m\<rparr>
         | _ \<Rightarrow> None))"

datatype claim_outcome = Claimed | Duplicate | Claim_error

text \<open>The Postgres store: a unique insert, and a delete by key.\<close>

definition tryClaim :: "bool \<Rightarrow> claim_key \<Rightarrow> claim_key list \<Rightarrow> claim_outcome \<times> claim_key list" where
  "tryClaim db_ok key claims =
     (if \<not> db_ok then (Claim_error, claims)
      else if key \<in> set claims then (Duplicate, claims) else (Claimed, key # claims))"

definition release :: "bool \<Rightarrow> claim_key \<Rightarrow> claim_key list \<Rightarrow> bool \<times> claim_key list" where
  "release db_ok key claims = (if db_ok then (True, filter (\<lambda>k. k \<noteq> key) claims) else (False, claims))"

datatype delivery = Sent | Skipped | Send_failed | Claim_failed | Rollback_failed

record faults =
  claim_db :: bool
  send_ok :: bool
  release_db :: bool

definition sendWithDeliveryClaim :: "(string \<Rightarrow> bool) \<Rightarrow> faults \<Rightarrow> message \<Rightarrow> claim_key list \<Rightarrow> delivery \<times> claim_key list" where
  "sendWithDeliveryClaim is_uuid f m claims =
     (case policyDeliveryClaimKey is_uuid m of
        None \<Rightarrow> (if send_ok f then (Sent, claims) else (Send_failed, claims))
      | Some key \<Rightarrow>
          (case tryClaim (claim_db f) key claims of
             (Claim_error, claims1) \<Rightarrow> (Claim_failed, claims1)
           | (Duplicate, claims1) \<Rightarrow> (Skipped, claims1)
           | (Claimed, claims1) \<Rightarrow>
               if send_ok f then (Sent, claims1)
               else
                 (case release (release_db f) key claims1 of
                    (True, claims2) \<Rightarrow> (Send_failed, claims2)
                  | (False, claims2) \<Rightarrow> (Rollback_failed, claims2))))"

text \<open>The consumer acknowledges exactly the messages that do not throw; an unknown channel is dropped.\<close>

definition acknowledged :: "delivery \<Rightarrow> bool" where
  "acknowledged d \<longleftrightarrow> d = Sent \<or> d = Skipped"

definition handle_notification ::
    "(string \<Rightarrow> bool) \<Rightarrow> string list \<Rightarrow> faults \<Rightarrow> message \<Rightarrow> claim_key list \<Rightarrow> delivery option \<times> claim_key list" where
  "handle_notification is_uuid registered f m claims =
     (if m_channel m \<notin> set registered then (None, claims)
      else (case sendWithDeliveryClaim is_uuid f m claims of (d, claims') \<Rightarrow> (Some d, claims')))"

fun deliveries :: "(string \<Rightarrow> bool) \<Rightarrow> (faults \<times> message) list \<Rightarrow> claim_key list \<Rightarrow> delivery list" where
  "deliveries is_uuid [] claims = []"
| "deliveries is_uuid ((f, m) # ms) claims =
     (case sendWithDeliveryClaim is_uuid f m claims of (d, claims') \<Rightarrow> d # deliveries is_uuid ms claims')"


section \<open>Overlapping workers\<close>

text \<open>
  Two replicas, or two redeliveries, may be between the claim and the end of the send at once. The
  state: the claim rows, what each worker is sending, and how often each key was sent.
\<close>

record delivery_state =
  ds_claims :: "claim_key list"
  ds_sending :: "nat \<Rightarrow> claim_key option"
  ds_sent :: "claim_key \<Rightarrow> nat"

inductive delivery_step :: "delivery_state \<Rightarrow> delivery_state \<Rightarrow> bool" where
  claim: "\<lbrakk>ds_sending s w = None; tryClaim True key (ds_claims s) = (Claimed, claims)\<rbrakk> \<Longrightarrow>
     delivery_step s (s\<lparr>ds_claims := claims, ds_sending := (ds_sending s)(w := Some key)\<rparr>)"
| skip: "\<lbrakk>ds_sending s w = None; tryClaim db_ok key (ds_claims s) = (out, claims); out \<noteq> Claimed\<rbrakk> \<Longrightarrow>
     delivery_step s (s\<lparr>ds_claims := claims\<rparr>)"
| sent: "ds_sending s w = Some key \<Longrightarrow>
     delivery_step s (s\<lparr>ds_sending := (ds_sending s)(w := None), ds_sent := (ds_sent s)(key := ds_sent s key + 1)\<rparr>)"
| failed: "\<lbrakk>ds_sending s w = Some key; release db_ok key (ds_claims s) = (ok, claims)\<rbrakk> \<Longrightarrow>
     delivery_step s (s\<lparr>ds_claims := claims, ds_sending := (ds_sending s)(w := None)\<rparr>)"

inductive delivery_reachable :: "delivery_state \<Rightarrow> bool" where
  start: "delivery_reachable \<lparr>ds_claims = [], ds_sending = (\<lambda>_. None), ds_sent = (\<lambda>_. 0)\<rparr>"
| step: "\<lbrakk>delivery_reachable s; delivery_step s s'\<rbrakk> \<Longrightarrow> delivery_reachable s'"

definition delivery_inv :: "delivery_state \<Rightarrow> bool" where
  "delivery_inv s \<longleftrightarrow>
     (\<forall>key. key \<notin> set (ds_claims s) \<longrightarrow> ds_sent s key = 0 \<and> (\<forall>w. ds_sending s w \<noteq> Some key)) \<and>
     (\<forall>key. ds_sent s key \<le> 1 \<and> (\<forall>w. ds_sending s w = Some key \<longrightarrow> ds_sent s key = 0)) \<and>
     (\<forall>w w' key. ds_sending s w = Some key \<and> ds_sending s w' = Some key \<longrightarrow> w = w')"

lemma delivery_step_inv:
  assumes "delivery_step s s'" and inv: "delivery_inv s"
  shows "delivery_inv s'"
  using assms(1)
proof (cases rule: delivery_step.cases)
  case (claim w key claims)
  then have "key \<notin> set (ds_claims s)" "claims = key # ds_claims s" by (auto simp: tryClaim_def split: if_splits)
  then show ?thesis using claim(1) inv by (auto simp: delivery_inv_def)
next
  case (skip w db_ok key out claims)
  then show ?thesis using inv by (auto simp: tryClaim_def split: if_splits)
next
  case (sent w key)
  then show ?thesis using inv by (auto simp: delivery_inv_def)
next
  case (failed w key db_ok ok claims)
  then have "claims = ds_claims s \<or> claims = filter (\<lambda>k. k \<noteq> key) (ds_claims s)"
    by (auto simp: release_def split: if_splits)
  moreover have "ds_sent s key = 0" using failed(2) inv unfolding delivery_inv_def by blast
  ultimately show ?thesis using failed(1,2) inv by (auto simp: delivery_inv_def)
qed

lemma delivery_reachable_inv: "delivery_reachable s \<Longrightarrow> delivery_inv s"
proof (induction rule: delivery_reachable.induct)
  case start
  then show ?case by (simp add: delivery_inv_def)
next
  case (step s s')
  then show ?case using delivery_step_inv by blast
qed


definition slack_key :: claim_key where
  "slack_key = \<lparr>ck_org = ''o1'', ck_findingId = ''f1'', ck_policyId = ''p1'', ck_channel = ''slack''\<rparr>"


definition slack_notice :: message where
  "slack_notice = notification_for ''o1'' \<lparr>n_findingId = ''f1'', n_policyId = ''p1'', n_actions = [''notify'']\<rparr> ''slack''"

text \<open>
  Retry after a failed send. A failed send whose claim is released is retried: the redelivery
  claims again and is sent. When the release fails too, every later delivery of the violation finds
  the stale claim, is skipped and acknowledged, and the violation is never sent, although the claim is
  documented to mean that a successful send owns it.
\<close>

theorem failed_release_silences_the_violation:
  "deliveries is_uuid [(\<lparr>claim_db = True, send_ok = False, release_db = True\<rparr>, slack_notice),
       (\<lparr>claim_db = True, send_ok = True, release_db = True\<rparr>, slack_notice)] [] = [Send_failed, Sent]
   \<and> (is_uuid ''f1'' \<and> is_uuid ''p1'' \<longrightarrow>
      deliveries is_uuid ((\<lparr>claim_db = True, send_ok = False, release_db = False\<rparr>, slack_notice) #
          replicate n (\<lparr>claim_db = True, send_ok = True, release_db = True\<rparr>, slack_notice)) []
      = Rollback_failed # replicate n Skipped)"
proof -
  have key: "policyDeliveryClaimKey is_uuid slack_notice =
      (if is_uuid ''f1'' \<and> is_uuid ''p1'' then Some slack_key else None)"
    by (simp add: policyDeliveryClaimKey_def slack_notice_def notification_for_def POLICY_VIOLATED_TEMPLATE_def
        CLAIM_CHANNELS_def uuid_field_def slack_key_def)
  have "deliveries is_uuid (replicate n (\<lparr>claim_db = True, send_ok = True, release_db = True\<rparr>, slack_notice))
      [slack_key] = replicate n Skipped" if "is_uuid ''f1''" "is_uuid ''p1''"
    by (induction n) (simp_all add: sendWithDeliveryClaim_def key that tryClaim_def)
  then show ?thesis
    by (simp add: sendWithDeliveryClaim_def key tryClaim_def release_def)
qed

theorem failed_release_silences_the_violation_witness:
  "deliveries (\<lambda>_. True) ((\<lparr>claim_db = True, send_ok = False, release_db = False\<rparr>, slack_notice) #
      replicate 5 (\<lparr>claim_db = True, send_ok = True, release_db = True\<rparr>, slack_notice)) []
    = Rollback_failed # replicate 5 Skipped"
  using failed_release_silences_the_violation[of "\<lambda>_. True" 5] by simp

end
