(* ===== verification/Wire.thy ===== *)
theory Wire
imports Contracts
begin

text \<open>
  The text formats of the JavaScript standard library that the services put on the wire: base64url
  (\<^verbatim>\<open>Buffer.from(s).toString('base64url')\<close> and back) and JSON (\<^verbatim>\<open>JSON.stringify\<close>, \<^verbatim>\<open>JSON.parse\<close>), with
  their round trips. A byte is a \<^typ>\<open>char\<close>; the texts the services encode are ASCII, on which UTF-8 is
  the identity.
\<close>


section \<open>base64url\<close>

definition b64_alphabet :: string where
  "b64_alphabet = ''ABCDEFGHIJKLMNOPQRSTUVWXYZabcdefghijklmnopqrstuvwxyz0123456789-_''"

fun index_of :: "char \<Rightarrow> string \<Rightarrow> nat option" where
  "index_of c [] = None"
| "index_of c (d # ds) = (if c = d then Some 0 else map_option Suc (index_of c ds))"

definition b64_char :: "nat \<Rightarrow> char" where
  "b64_char n = b64_alphabet ! n"

text \<open>The decoder takes both alphabets.\<close>

definition b64_val :: "char \<Rightarrow> nat option" where
  "b64_val c =
     (if c = CHR ''+'' then Some 62 else if c = CHR ''/'' then Some 63 else index_of c b64_alphabet)"

fun b64url_encode :: "string \<Rightarrow> string" where
  "b64url_encode [] = []"
| "b64url_encode [a] = [b64_char (ccode a div 4), b64_char (ccode a mod 4 * 16)]"
| "b64url_encode [a, b] =
     [b64_char (ccode a div 4), b64_char (ccode a mod 4 * 16 + ccode b div 16),
      b64_char (ccode b mod 16 * 4)]"
| "b64url_encode (a # b # c # s) =
     b64_char (ccode a div 4) # b64_char (ccode a mod 4 * 16 + ccode b div 16) #
     b64_char (ccode b mod 16 * 4 + ccode c div 64) # b64_char (ccode c mod 64) # b64url_encode s"

fun b64_bytes :: "nat list \<Rightarrow> string" where
  "b64_bytes [] = []"
| "b64_bytes [x] = []"
| "b64_bytes [x, y] = [char_of (x * 4 + y div 16)]"
| "b64_bytes [x, y, z] = [char_of (x * 4 + y div 16), char_of (y mod 16 * 16 + z div 4)]"
| "b64_bytes (x # y # z # w # s) =
     char_of (x * 4 + y div 16) # char_of (y mod 16 * 16 + z div 4) # char_of (z mod 4 * 64 + w) #
     b64_bytes s"

text \<open>Characters outside the alphabets are skipped and an equals sign ends the text.\<close>

definition b64url_decode :: "string \<Rightarrow> string" where
  "b64url_decode s = b64_bytes (List.map_filter b64_val (takeWhile (\<lambda>c. c \<noteq> CHR ''='') s))"

lemma index_of_nth: "distinct xs \<Longrightarrow> n < length xs \<Longrightarrow> index_of (xs ! n) xs = Some n"
proof (induction xs arbitrary: n)
  case (Cons d ds)
  then show ?case by (cases n) auto
qed simp

lemma b64_alphabet_facts:
  "length b64_alphabet = 64" "distinct b64_alphabet"
  "CHR ''+'' \<notin> set b64_alphabet" "CHR ''/'' \<notin> set b64_alphabet" "CHR ''='' \<notin> set b64_alphabet"
  by (simp_all add: b64_alphabet_def)

lemma b64_char_in: "n < 64 \<Longrightarrow> b64_char n \<in> set b64_alphabet"
  by (simp add: b64_char_def b64_alphabet_facts(1))

lemma b64_val_char [simp]: "n < 64 \<Longrightarrow> b64_val (b64_char n) = Some n"
proof -
  assume n: "n < 64"
  have "b64_char n \<noteq> CHR ''+''" "b64_char n \<noteq> CHR ''/''"
    using b64_char_in[OF n] b64_alphabet_facts(3,4) by metis+
  moreover have "index_of (b64_char n) b64_alphabet = Some n"
    using n index_of_nth[of b64_alphabet n] by (simp add: b64_char_def b64_alphabet_facts)
  ultimately show ?thesis by (simp add: b64_val_def)
qed

lemma b64_char_not_eq [simp]: "n < 64 \<Longrightarrow> b64_char n \<noteq> CHR ''=''"
  using b64_char_in b64_alphabet_facts(5) by metis

lemma ccode_less [simp]: "ccode c < 256"
  by (simp add: ccode_def)

lemma ccode_bounds [simp]:
  "ccode c div 4 < 64" "ccode c mod 4 * 16 < 64" "ccode c mod 4 * 16 + ccode d div 16 < 64"
  "ccode d mod 16 * 4 < 64" "ccode c mod 16 * 4 + ccode d div 64 < 64" "ccode c mod 64 < 64"
  using ccode_less[of c] ccode_less[of d] by linarith+

lemma char_of_ccode [simp]: "char_of (ccode c) = c"
  by (simp add: ccode_def)

lemma ccode_div_div [simp]:
  "ccode b div 16 div 16 = 0" "ccode c div 64 div 4 = 0"
  "ccode b div 16 mod 16 = ccode b div 16" "ccode c div 64 mod 4 = ccode c div 64"
  using ccode_less[of b] ccode_less[of c] by (simp_all add: div_mult2_eq[symmetric] less_mult_imp_div_less)

theorem b64url_roundtrip: "b64url_decode (b64url_encode s) = s"
  unfolding b64url_decode_def
  by (induction s rule: b64url_encode.induct) (simp_all add: List.map_filter_simps)

lemma b64url_encode_inj: "b64url_encode s = b64url_encode t \<Longrightarrow> s = t"
  by (metis b64url_roundtrip)

lemma b64url_encode_Nil [simp]: "b64url_encode s = [] \<longleftrightarrow> s = []"
  by (cases s rule: b64url_encode.cases) simp_all

lemma length_b64url_encode: "length (b64url_encode s) = (4 * length s + 2) div 3"
  by (induction s rule: b64url_encode.induct) simp_all



section \<open>JSON text\<close>

definition hex_digit :: "nat \<Rightarrow> char" where
  "hex_digit n = ''0123456789abcdef'' ! n"

definition hex_val :: "char \<Rightarrow> nat option" where
  "hex_val c = (case index_of c ''0123456789abcdef'' of
     Some n \<Rightarrow> Some n | None \<Rightarrow> index_of c ''0123456789ABCDEF'')"

text \<open>The escapes of \<^verbatim>\<open>JSON.stringify\<close>: quote, backslash and the control characters.\<close>

definition escape_char :: "char \<Rightarrow> string" where
  "escape_char c =
     (if c = CHR 0x22 then [CHR 0x5C, CHR 0x22]
      else if c = CHR 0x5C then [CHR 0x5C, CHR 0x5C]
      else if ccode c = 8 then [CHR 0x5C, CHR ''b'']
      else if ccode c = 9 then [CHR 0x5C, CHR ''t'']
      else if ccode c = 10 then [CHR 0x5C, CHR ''n'']
      else if ccode c = 12 then [CHR 0x5C, CHR ''f'']
      else if ccode c = 13 then [CHR 0x5C, CHR ''r'']
      else if ccode c < 32
      then [CHR 0x5C, CHR ''u'', CHR ''0'', CHR ''0'', hex_digit (ccode c div 16), hex_digit (ccode c mod 16)]
      else [c])"

definition json_string :: "string \<Rightarrow> string" where
  "json_string s = CHR 0x22 # concat (map escape_char s) @ [CHR 0x22]"

text \<open>Only whole numbers are written: no value that the services encode holds another one.\<close>

definition json_number :: "rat \<Rightarrow> string" where
  "json_number q = (if q < 0 then CHR ''-'' # string_of_nat (nat \<lfloor>- q\<rfloor>) else string_of_nat (nat \<lfloor>q\<rfloor>))"

fun json_text :: "json \<Rightarrow> string" and
    json_texts :: "json list \<Rightarrow> string" and
    json_entries :: "(string \<times> json) list \<Rightarrow> string" where
  "json_text JNull = ''null''"
| "json_text (JBool b) = (if b then ''true'' else ''false'')"
| "json_text (JNum q) = json_number q"
| "json_text (JStr s) = json_string s"
| "json_text (JArr js) = CHR ''['' # json_texts js"
| "json_text (JObj es) = CHR ''{'' # json_entries es"
| "json_texts [] = '']''"
| "json_texts (j # js) = json_text j @ (if js = [] then '']'' else CHR '','' # json_texts js)"
| "json_entries [] = ''}''"
| "json_entries ((k, j) # es) =
     json_string k @ CHR '':'' # json_text j @ (if es = [] then ''}'' else CHR '','' # json_entries es)"

text \<open>The parser. A string literal: the unescaped text and what follows the closing quote. A code unit
  above 255 (\<^verbatim>\<open>\u0100\<close> and up) is outside the model and refused.\<close>

definition unescape :: "char \<Rightarrow> char option" where
  "unescape e =
     (if e = CHR 0x22 \<or> e = CHR 0x5C \<or> e = CHR ''/'' then Some e
      else if e = CHR ''b'' then Some (char_of (8 :: nat)) else if e = CHR ''t'' then Some (char_of (9 :: nat))
      else if e = CHR ''n'' then Some (char_of (10 :: nat)) else if e = CHR ''f'' then Some (char_of (12 :: nat))
      else if e = CHR ''r'' then Some (char_of (13 :: nat)) else None)"

definition unicode_unit :: "char \<Rightarrow> char \<Rightarrow> char \<Rightarrow> char \<Rightarrow> char option" where
  "unicode_unit a b c d =
     (case (hex_val a, hex_val b, hex_val c, hex_val d) of
        (Some p, Some q, Some r, Some t) \<Rightarrow>
          if p = 0 \<and> q = 0 then Some (char_of (16 * r + t)) else None
      | _ \<Rightarrow> None)"

fun parse_chars :: "string \<Rightarrow> (string \<times> string) option" where
  "parse_chars [] = None"
| "parse_chars (c # s) =
     (if c = CHR 0x22 then Some ([], s)
      else if c = CHR 0x5C then
        (case s of
           [] \<Rightarrow> None
         | e # t \<Rightarrow>
             if e = CHR ''u'' then
               (case t of
                  h1 # h2 # h3 # h4 # u \<Rightarrow>
                    (case (unicode_unit h1 h2 h3 h4, parse_chars u) of
                       (Some x, Some (w, r)) \<Rightarrow> Some (x # w, r) | _ \<Rightarrow> None)
                | _ \<Rightarrow> None)
             else
               (case (unescape e, parse_chars t) of
                  (Some x, Some (w, r)) \<Rightarrow> Some (x # w, r) | _ \<Rightarrow> None))
      else if ccode c < 32 then None
      else (case parse_chars s of Some (w, r) \<Rightarrow> Some (c # w, r) | None \<Rightarrow> None))"

definition json_ws :: "char \<Rightarrow> bool" where
  "json_ws c = (ccode c \<in> {9, 10, 13, 32})"

definition skip_ws :: "string \<Rightarrow> string" where
  "skip_ws s = dropWhile json_ws s"

text \<open>A number: an optional minus sign, digits without a leading zero, an optional fraction and an
  optional exponent.\<close>

definition digits_of :: "string \<Rightarrow> string \<times> string" where
  "digits_of s = (takeWhile is_digit s, dropWhile is_digit s)"

definition sign_part :: "string \<Rightarrow> bool \<times> string" where
  "sign_part s =
     (case s of [] \<Rightarrow> (False, s) | c # t \<Rightarrow> if c = CHR ''-'' then (True, t) else (False, s))"

definition int_part :: "string \<Rightarrow> (string \<times> string) option" where
  "int_part s =
     (case digits_of s of
        (w, r) \<Rightarrow> if w = [] \<or> (length w > 1 \<and> hd w = CHR ''0'') then None else Some (w, r))"

definition frac_part :: "string \<Rightarrow> (string \<times> string) option" where
  "frac_part s =
     (case s of
        [] \<Rightarrow> Some ([], [])
      | c # t \<Rightarrow>
          if c = CHR ''.'' then (case digits_of t of (f, r) \<Rightarrow> if f = [] then None else Some (f, r))
          else Some ([], s))"

text \<open>The power of ten as a rational, so that a negative exponent needs no integer.\<close>

definition exp_part :: "string \<Rightarrow> (rat \<times> string) option" where
  "exp_part s =
     (case s of
        [] \<Rightarrow> Some (1, [])
      | c # t \<Rightarrow>
          if c = CHR ''e'' \<or> c = CHR ''E'' then
            (case (case t of
                     [] \<Rightarrow> (False, t)
                   | d # u \<Rightarrow> if d = CHR ''-'' then (True, u) else if d = CHR ''+'' then (False, u)
                             else (False, t)) of
               (neg, t1) \<Rightarrow>
                 (case digits_of t1 of
                    (e, r) \<Rightarrow>
                      if e = [] then None
                      else Some (if neg then 1 / 10 ^ digits_val e else 10 ^ digits_val e, r)))
          else Some (1, s))"

definition parse_number :: "string \<Rightarrow> (rat \<times> string) option" where
  "parse_number s0 =
     (case sign_part s0 of
        (neg, s1) \<Rightarrow>
          (case int_part s1 of
             None \<Rightarrow> None
           | Some (w, s2) \<Rightarrow>
               (case frac_part s2 of
                  None \<Rightarrow> None
                | Some (f, s3) \<Rightarrow>
                    (case exp_part s3 of
                       None \<Rightarrow> None
                     | Some (x, r) \<Rightarrow>
                         (let m = of_nat (digits_val (w @ f)) / 10 ^ length f * x
                          in Some (if neg then - m else m, r))))))"

text \<open>A value that is no array and no object, given its first character.\<close>

definition parse_scalar :: "char \<Rightarrow> string \<Rightarrow> (json \<times> string) option" where
  "parse_scalar c t =
     (if c = CHR 0x22 then (case parse_chars t of Some (w, r) \<Rightarrow> Some (JStr w, r) | None \<Rightarrow> None)
      else if c = CHR ''n'' then (if prefix ''ull'' t then Some (JNull, drop 3 t) else None)
      else if c = CHR ''t'' then (if prefix ''rue'' t then Some (JBool True, drop 3 t) else None)
      else if c = CHR ''f'' then (if prefix ''alse'' t then Some (JBool False, drop 4 t) else None)
      else (case parse_number (c # t) of Some (q, r) \<Rightarrow> Some (JNum q, r) | None \<Rightarrow> None))"

text \<open>Values, with fuel for the nesting and the number of items.\<close>

fun parse_value :: "nat \<Rightarrow> string \<Rightarrow> (json \<times> string) option" and
    parse_items :: "nat \<Rightarrow> string \<Rightarrow> (json list \<times> string) option" and
    parse_members :: "nat \<Rightarrow> string \<Rightarrow> ((string \<times> json) list \<times> string) option" where
  "parse_value 0 s = None"
| "parse_value (Suc n) s =
     (case skip_ws s of
        [] \<Rightarrow> None
      | c # t \<Rightarrow>
          if c = CHR ''['' then
            (case skip_ws t of
               [] \<Rightarrow> None
             | d # u \<Rightarrow>
                 if d = CHR '']'' then Some (JArr [], u)
                 else (case parse_items n t of Some (js, r) \<Rightarrow> Some (JArr js, r) | None \<Rightarrow> None))
          else if c = CHR ''{'' then
            (case skip_ws t of
               [] \<Rightarrow> None
             | d # u \<Rightarrow>
                 if d = CHR ''}'' then Some (JObj [], u)
                 else (case parse_members n t of
                         Some (es, r) \<Rightarrow> Some (JObj (foldl (\<lambda>acc (k, v). json_put k v acc) [] es), r)
                       | None \<Rightarrow> None))
          else parse_scalar c t)"
| "parse_items 0 s = None"
| "parse_items (Suc n) s =
     (case parse_value n s of
        None \<Rightarrow> None
      | Some (j, r) \<Rightarrow>
          (case skip_ws r of
             [] \<Rightarrow> None
           | c # t \<Rightarrow>
               if c = CHR '']'' then Some ([j], t)
               else if c = CHR '','' then
                 (case parse_items n t of Some (js, r2) \<Rightarrow> Some (j # js, r2) | None \<Rightarrow> None)
               else None))"
| "parse_members 0 s = None"
| "parse_members (Suc n) s =
     (case skip_ws s of
        [] \<Rightarrow> None
      | q # t \<Rightarrow>
          if q \<noteq> CHR 0x22 then None
          else
            (case parse_chars t of
               None \<Rightarrow> None
             | Some (k, r) \<Rightarrow>
                 (case skip_ws r of
                    [] \<Rightarrow> None
                  | c # u \<Rightarrow>
                      if c \<noteq> CHR '':'' then None
                      else
                        (case parse_value n u of
                           None \<Rightarrow> None
                         | Some (j, r2) \<Rightarrow>
                             (case skip_ws r2 of
                                [] \<Rightarrow> None
                              | d # v \<Rightarrow>
                                  if d = CHR ''}'' then Some ([(k, j)], v)
                                  else if d = CHR '','' then
                                    (case parse_members n v of
                                       Some (es, r3) \<Rightarrow> Some ((k, j) # es, r3) | None \<Rightarrow> None)
                                  else None)))))"

text \<open>\<^verbatim>\<open>JSON.parse\<close>: a value and nothing but white space after it. Every level and every item consumes a
  character, so the length of the text is fuel enough.\<close>

definition json_parse :: "string \<Rightarrow> json option" where
  "json_parse s =
     (case parse_value (Suc (2 * length s)) s of
        Some (j, r) \<Rightarrow> if skip_ws r = [] then Some j else None
      | None \<Rightarrow> None)"


subsection \<open>The parser consumes its text, and its fuel suffices\<close>

lemma parse_chars_shorter: "parse_chars s = Some (w, r) \<Longrightarrow> length r < length s"
proof (induction s arbitrary: w r rule: parse_chars.induct)
  case (2 c s)
  from 2(4) show ?case
    by (simp split: if_splits option.splits list.splits prod.splits)
      (use 2(1-3) in fastforce)+
qed simp

lemma skip_ws_le: "length (skip_ws s) \<le> length s"
  by (simp add: skip_ws_def length_dropWhile_le)

lemma skip_ws_Cons: "skip_ws s = c # t \<Longrightarrow> length t < length s"
  using skip_ws_le[of s] by simp

lemma digits_of_le: "digits_of s = (w, r) \<Longrightarrow> length w + length r = length s"
  unfolding digits_of_def by (metis length_append prod.inject takeWhile_dropWhile_id)

lemma sign_part_le: "sign_part s = (neg, r) \<Longrightarrow> length r \<le> length s"
  by (auto simp: sign_part_def split: list.splits if_splits)

lemma int_part_less: "int_part s = Some (w, r) \<Longrightarrow> length r < length s"
  using digits_of_le[of s w r] by (cases w) (auto simp: int_part_def split: prod.splits if_splits)

lemma frac_part_le: "frac_part s = Some (f, r) \<Longrightarrow> length r \<le> length s"
  by (auto simp: frac_part_def split: list.splits prod.splits if_splits dest!: digits_of_le)

lemma exp_part_le: "exp_part s = Some (x, r) \<Longrightarrow> length r \<le> length s"
  by (auto simp: exp_part_def split: list.splits prod.splits if_splits dest!: digits_of_le)

lemma parse_number_shorter: "parse_number s = Some (q, r) \<Longrightarrow> length r < length s"
  unfolding parse_number_def Let_def
  by (fastforce split: option.splits prod.splits
      dest: sign_part_le int_part_less frac_part_le exp_part_le)

lemma parse_scalar_shorter: "parse_scalar c t = Some (j, r) \<Longrightarrow> length r < length (c # t)"
  by (auto simp: parse_scalar_def split: if_splits option.splits
      dest: parse_chars_shorter parse_number_shorter)

lemma parse_value_step:
  assumes "parse_value (Suc n) s = Some (j, r)"
    and "\<And>s js r. parse_items n s = Some (js, r) \<Longrightarrow> length r < length s"
    and "\<And>s es r. parse_members n s = Some (es, r) \<Longrightarrow> length r < length s"
  shows "length r < length s"
proof (cases "skip_ws s")
  case (Cons c t)
  have ct: "length (c # t) \<le> length s" using skip_ws_le[of s] Cons by simp
  consider "c = CHR ''[''" | "c = CHR ''{''" | "parse_scalar c t = Some (j, r)"
    using assms(1) Cons by (auto split: if_splits)
  then have "length r < length (c # t)"
  proof cases
    case 1
    then show ?thesis using assms(1) Cons
      by (auto split: if_splits option.splits list.splits dest!: assms(2) skip_ws_Cons)
  next
    case 2
    then show ?thesis using assms(1) Cons
      by (auto split: if_splits option.splits list.splits dest!: assms(3) skip_ws_Cons)
  qed (rule parse_scalar_shorter)
  then show ?thesis using ct by simp
qed (use assms in simp)

lemma parse_items_step:
  assumes "parse_items (Suc n) s = Some (js, r)"
    and "\<And>s j r. parse_value n s = Some (j, r) \<Longrightarrow> length r < length s"
    and "\<And>s js r. parse_items n s = Some (js, r) \<Longrightarrow> length r < length s"
  shows "length r < length s"
  using assms(1)
  by (simp split: if_splits option.splits list.splits prod.splits)
    (fastforce dest: skip_ws_Cons assms(2,3))+

lemma parse_members_step:
  assumes "parse_members (Suc n) s = Some (es, r)"
    and "\<And>s j r. parse_value n s = Some (j, r) \<Longrightarrow> length r < length s"
    and "\<And>s es r. parse_members n s = Some (es, r) \<Longrightarrow> length r < length s"
  shows "length r < length s"
  using assms(1)
  by (simp split: if_splits option.splits list.splits prod.splits)
    (fastforce dest: skip_ws_Cons parse_chars_shorter assms(2,3))+

lemma parse_shorter:
  "(\<forall>s j r. parse_value n s = Some (j, r) \<longrightarrow> length r < length s) \<and>
   (\<forall>s js r. parse_items n s = Some (js, r) \<longrightarrow> length r < length s) \<and>
   (\<forall>s es r. parse_members n s = Some (es, r) \<longrightarrow> length r < length s)"
proof (induction n)
  case (Suc n)
  then show ?case
    by (intro conjI allI impI)
      (erule parse_value_step parse_items_step parse_members_step; blast)+
qed simp

lemmas parse_value_shorter = parse_shorter[THEN conjunct1, rule_format]
  and parse_items_shorter = parse_shorter[THEN conjunct2, THEN conjunct1, rule_format]
  and parse_members_shorter = parse_shorter[THEN conjunct2, THEN conjunct2, rule_format]

text \<open>More fuel than the text can use changes nothing.\<close>

lemma fuel_step:
  "(\<forall>s. 2 * length s + 1 \<le> n \<longrightarrow> parse_value (Suc n) s = parse_value n s) \<and>
   (\<forall>s. 2 * length s + 2 \<le> n \<longrightarrow> parse_items (Suc n) s = parse_items n s) \<and>
   (\<forall>s. 2 * length s + 2 \<le> n \<longrightarrow> parse_members (Suc n) s = parse_members n s)"
proof (induction n)
  case (Suc n)
  then have V: "\<And>s. 2 * length s + 1 \<le> n \<Longrightarrow> parse_value (Suc n) s = parse_value n s"
    and I: "\<And>s. 2 * length s + 2 \<le> n \<Longrightarrow> parse_items (Suc n) s = parse_items n s"
    and M: "\<And>s. 2 * length s + 2 \<le> n \<Longrightarrow> parse_members (Suc n) s = parse_members n s"
    by blast+
  have "parse_value (Suc (Suc n)) s = parse_value (Suc n) s" if "2 * length s + 1 \<le> Suc n" for s
  proof (cases "skip_ws s")
    case (Cons c t)
    have "2 * length t + 2 \<le> n" using skip_ws_Cons[OF Cons] that by simp
    then have "parse_items (Suc n) t = parse_items n t" "parse_members (Suc n) t = parse_members n t"
      using I M by blast+
    then show ?thesis
      unfolding parse_value.simps(2)[of "Suc n"] parse_value.simps(2)[of n] Cons list.case
      by (simp only:)
  qed simp
  moreover have "parse_items (Suc (Suc n)) s = parse_items (Suc n) s" if "2 * length s + 2 \<le> Suc n" for s
  proof -
    have v: "parse_value (Suc n) s = parse_value n s" using V that by simp
    have i: "parse_items (Suc n) t = parse_items n t"
      if "parse_value n s = Some (j, r)" and "skip_ws r = c # t" for j r c t
    proof -
      have "length r < length s" "length t < length r"
        using parse_value_shorter[OF that(1)] skip_ws_Cons[OF that(2)] .
      then show ?thesis using I \<open>2 * length s + 2 \<le> Suc n\<close> by simp
    qed
    show ?thesis
      by (rule trans[OF parse_items.simps(2)], rule trans[OF _ parse_items.simps(2)[symmetric]])
        (auto simp: v i split: option.split prod.split list.split
          simp del: parse_value.simps parse_items.simps)
  qed
  moreover have "parse_members (Suc (Suc n)) s = parse_members (Suc n) s"
    if "2 * length s + 2 \<le> Suc n" for s
  proof -
    have v: "parse_value (Suc n) u = parse_value n u"
      if "skip_ws s = q # t" and "parse_chars t = Some (k, r)" and "skip_ws r = c # u" for q t k r c u
    proof -
      have "length u < length r" "length r < length t" "length t < length s"
        using skip_ws_Cons[OF that(3)] parse_chars_shorter[OF that(2)] skip_ws_Cons[OF that(1)] .
      then show ?thesis using V \<open>2 * length s + 2 \<le> Suc n\<close> by simp
    qed
    have m: "parse_members (Suc n) w = parse_members n w"
      if "skip_ws s = q # t" and "parse_chars t = Some (k, r)" and "skip_ws r = c # u"
        and "parse_value n u = Some (j, r2)" and "skip_ws r2 = d # w" for q t k r c u j r2 d w
    proof -
      have "length w < length r2" "length r2 < length u" "length u < length r" "length r < length t"
        "length t < length s"
        using skip_ws_Cons[OF that(5)] parse_value_shorter[OF that(4)] skip_ws_Cons[OF that(3)]
          parse_chars_shorter[OF that(2)] skip_ws_Cons[OF that(1)] .
      then show ?thesis using M \<open>2 * length s + 2 \<le> Suc n\<close> by simp
    qed
    show ?thesis
      by (rule trans[OF parse_members.simps(2)], rule trans[OF _ parse_members.simps(2)[symmetric]])
        (auto simp: v m split: option.split prod.split list.split
          simp del: parse_value.simps parse_members.simps)
  qed
  ultimately show ?case by blast
qed simp

lemma fuel_enough:
  assumes "2 * length s + 1 \<le> n" and "n \<le> m"
  shows "parse_value m s = parse_value n s"
  using assms(2)
proof (induction m rule: dec_induct)
  case (step k)
  then have "2 * length s + 1 \<le> k" using assms(1) by simp
  then show ?case using fuel_step[of k] step by auto
qed simp


subsection \<open>Printing and parsing\<close>

text \<open>The values that the round trip covers: no number, and no key twice in an object.\<close>

fun printable :: "json \<Rightarrow> bool" where
  "printable JNull = True"
| "printable (JBool b) = True"
| "printable (JNum q) = False"
| "printable (JStr s) = True"
| "printable (JArr js) = (\<forall>j \<in> set js. printable j)"
| "printable (JObj es) = (distinct (map fst es) \<and> (\<forall>e \<in> set es. printable (snd e)))"

lemma hex_val_digit [simp]: "n < 16 \<Longrightarrow> hex_val (hex_digit n) = Some n"
proof -
  assume "n < 16"
  then have "index_of (''0123456789abcdef'' ! n) ''0123456789abcdef'' = Some n"
    by (intro index_of_nth) simp_all
  then show ?thesis by (simp add: hex_val_def hex_digit_def del: nth_Cons_numeral index_of.simps)
qed

lemma char_of_eq: "ccode c = n \<Longrightarrow> char_of n = c"
  by auto

lemma unicode_unit_hex:
  "ccode c < 32 \<Longrightarrow>
   unicode_unit (CHR ''0'') (CHR ''0'') (hex_digit (ccode c div 16)) (hex_digit (ccode c mod 16)) = Some c"
proof -
  assume "ccode c < 32"
  then have "ccode c div 16 < 16" "ccode c mod 16 < 16" by auto
  moreover have "hex_val CHR ''0'' = Some 0" by (simp add: hex_val_def)
  ultimately show ?thesis by (simp add: unicode_unit_def del: of_char_of)
qed

lemma parse_escaped_char:
  "parse_chars (escape_char c @ t) =
     (case parse_chars t of Some (w, r) \<Rightarrow> Some (c # w, r) | None \<Rightarrow> None)"
  unfolding escape_char_def
  by (simp add: unescape_def unicode_unit_hex char_of_eq split: option.split)

lemma parse_escaped:
  "parse_chars (concat (map escape_char s) @ CHR 0x22 # r) = Some (s, r)"
  by (induction s) (simp_all add: parse_escaped_char)

lemma json_put_new: "k \<notin> fst ` set es \<Longrightarrow> json_put k v es = es @ [(k, v)]"
  by (induction es) auto

lemma foldl_json_put:
  "distinct (map fst (acc @ es)) \<Longrightarrow> foldl (\<lambda>acc (k, v). json_put k v acc) acc es = acc @ es"
proof (induction es arbitrary: acc)
  case (Cons e es)
  then show ?case by (cases e) (auto simp: json_put_new image_iff)
qed simp

lemma skip_ws_head [simp]: "\<not> json_ws c \<Longrightarrow> skip_ws (c # t) = c # t"
  by (simp add: skip_ws_def)

lemma json_ws_heads [simp]:
  "\<not> json_ws CHR 0x22" "\<not> json_ws CHR ''[''" "\<not> json_ws CHR '']''" "\<not> json_ws CHR ''{''"
  "\<not> json_ws CHR ''}''" "\<not> json_ws CHR '',''" "\<not> json_ws CHR '':''" "\<not> json_ws CHR ''n''"
  "\<not> json_ws CHR ''t''" "\<not> json_ws CHR ''f''"
  by (simp_all add: json_ws_def ccode_def)

lemma json_text_head:
  "printable j \<Longrightarrow> \<exists>c t. json_text j = c # t \<and> \<not> json_ws c \<and> c \<noteq> CHR '']''"
  by (cases j) (auto simp: json_string_def)

lemma parse_string_value:
  "parse_value (Suc n) (json_string s @ r) = Some (JStr s, r)"
  by (simp add: json_string_def parse_scalar_def parse_escaped)

lemma parse_printed:
  "\<lbrakk>printable j; 2 * length (json_text j @ r) + 1 \<le> n\<rbrakk> \<Longrightarrow>
     parse_value n (json_text j @ r) = Some (j, r)"
  "\<lbrakk>js \<noteq> []; \<forall>j \<in> set js. printable j; 2 * length (json_texts js @ r) + 2 \<le> n\<rbrakk> \<Longrightarrow>
     parse_items n (json_texts js @ r) = Some (js, r)"
  "\<lbrakk>es \<noteq> []; \<forall>e \<in> set es. printable (snd e); 2 * length (json_entries es @ r) + 2 \<le> n\<rbrakk> \<Longrightarrow>
     parse_members n (json_entries es @ r) = Some (es, r)"
proof (induction j and js and es arbitrary: n r and n r and n r rule: json_text_json_texts_json_entries.induct)
  case 1
  then show ?case by (cases n) (simp_all add: parse_scalar_def)
next
  case (2 b)
  then show ?case by (cases n) (simp_all add: parse_scalar_def)
next
  case (4 s)
  then show ?case by (cases n) (simp_all add: parse_string_value del: parse_value.simps)
next
  case (5 js)
  obtain k where n: "n = Suc k" using 5(3) by (cases n) auto
  show ?case
  proof (cases js)
    case Nil
    then show ?thesis by (simp add: n)
  next
    case (Cons j js')
    obtain c t where h: "json_text j = c # t" "\<not> json_ws c" "c \<noteq> CHR '']''"
      using json_text_head[of j] 5(2) Cons by auto
    have "parse_items k (json_texts js @ r) = Some (js, r)"
      using 5(1)[of r k] 5(2,3) Cons n by simp
    then show ?thesis using h Cons by (simp add: n)
  qed
next
  case (6 es)
  obtain k where n: "n = Suc k" using 6(3) by (cases n) auto
  show ?case
  proof (cases es)
    case Nil
    then show ?thesis by (simp add: n)
  next
    case (Cons e es')
    have "parse_members k (json_entries es @ r) = Some (es, r)"
      using 6(1)[of r k] 6(2,3) Cons n by simp
    moreover have "foldl (\<lambda>acc (k, v). json_put k v acc) [] es = es"
      using foldl_json_put[of "[]" es] 6(2) by simp
    moreover have "\<exists>t. json_entries es @ r = CHR 0x22 # t"
      using Cons by (cases e) (simp add: json_string_def)
    ultimately show ?thesis by (auto simp: n)
  qed
next
  case (8 j js)
  obtain k where n: "n = Suc k" using 8(5) by (cases n) auto
  show ?case
  proof (cases "js = []")
    case True
    have "parse_value k (json_text j @ '']'' @ r) = Some (j, '']'' @ r)"
      using 8(1)[of "'']'' @ r" k] 8(4,5) True n by simp
    then show ?thesis using True n by simp
  next
    case False
    let ?rest = "CHR '','' # json_texts js @ r"
    have "parse_value k (json_text j @ ?rest) = Some (j, ?rest)"
      using 8(1)[of ?rest k] 8(4,5) False n by simp
    moreover have "parse_items k (json_texts js @ r) = Some (js, r)"
      using 8(2)[of r k] 8(4,5) False n by simp
    ultimately show ?thesis using False n by simp
  qed
next
  case (10 key j es)
  obtain k where n: "n = Suc k" using 10(5) by (cases n) auto
  show ?case
  proof (cases "es = []")
    case True
    have "parse_value k (json_text j @ ''}'' @ r) = Some (j, ''}'' @ r)"
      using 10(1)[of "''}'' @ r" k] 10(4,5) True n by (simp add: json_string_def)
    then show ?thesis using True n by (simp add: json_string_def parse_escaped)
  next
    case False
    let ?rest = "CHR '','' # json_entries es @ r"
    have "parse_value k (json_text j @ ?rest) = Some (j, ?rest)"
      using 10(1)[of ?rest k] 10(4,5) False n by (simp add: json_string_def)
    moreover have "parse_members k (json_entries es @ r) = Some (es, r)"
      using 10(2)[of r k] 10(4,5) False n by (simp add: json_string_def)
    ultimately show ?thesis using False n by (simp add: json_string_def parse_escaped)
  qed
qed simp_all

theorem json_roundtrip: "printable j \<Longrightarrow> json_parse (json_text j) = Some j"
  using parse_printed(1)[of j "[]" "Suc (2 * length (json_text j))"]
  by (simp add: json_parse_def skip_ws_def)

end
