(* ===== verification/Iso_Date.thy ===== *)
theory Iso_Date
imports Prelude
begin

text \<open>
  Instants as text: the proleptic Gregorian calendar, \<^verbatim>\<open>Date.prototype.toISOString\<close> and \<^verbatim>\<open>new Date(s)\<close> on
  ISO-8601 text as Node computes them, and their round trip. An instant is the number of milliseconds
  since 1970-01-01T00:00:00Z; an invalid date is \<^term>\<open>None\<close>.
\<close>


section \<open>The calendar\<close>

text \<open>Days since 1970-01-01, and year, month and day. The year is counted from March, so that the leap
  day is its last: a cycle of 400 such years has 146097 days, a century 36524, four years 1461.\<close>

definition days_of_civil :: "int \<Rightarrow> int \<Rightarrow> int \<Rightarrow> int" where
  "days_of_civil y m d =
     (let y1 = (if m \<le> 2 then y - 1 else y);
          yoe = y1 mod 400;
          mp = (if m > 2 then m - 3 else m + 9);
          doy = (153 * mp + 2) div 5 + d - 1
      in y1 div 400 * 146097 + (yoe * 365 + yoe div 4 - yoe div 100 + doy) - 719468)"

definition year_day :: "int \<Rightarrow> int \<times> int" where
  "year_day doe =
     (let c = min 3 (doe div 36524);
          r1 = doe - c * 36524;
          q = r1 div 1461;
          r2 = r1 mod 1461;
          a = min 3 (r2 div 365)
      in (100 * c + 4 * q + a, r2 - a * 365))"

definition month_day :: "int \<Rightarrow> int \<times> int" where
  "month_day doy =
     (let mp = (5 * doy + 2) div 153
      in (if mp < 10 then mp + 3 else mp - 9, doy - (153 * mp + 2) div 5 + 1))"

definition civil_of_days :: "int \<Rightarrow> int \<times> int \<times> int" where
  "civil_of_days days =
     (let z = days + 719468
      in case year_day (z mod 146097) of
           (yoe, doy) \<Rightarrow>
             (case month_day doy of
                (m, d) \<Rightarrow> (yoe + z div 146097 * 400 + (if m \<le> 2 then 1 else 0), m, d)))"

lemma div_bounds: "0 < n \<Longrightarrow> n * (x div n) \<le> x \<and> x < n * (x div n) + n" for x n :: int
  by (metis add.commute add_less_cancel_left mult_div_mod_eq pos_mod_bound pos_mod_sign le_add_same_cancel1)

lemma year_split:
  fixes c q a :: int
  assumes "0 \<le> q" "q \<le> 24" "0 \<le> a" "a \<le> 3"
  shows "(100 * c + 4 * q + a) div 4 = 25 * c + q" "(100 * c + 4 * q + a) div 100 = c"
proof -
  have "100 * c + 4 * q + a = a + 4 * (25 * c + q)" "100 * c + 4 * q + a = (4 * q + a) + 100 * c" by simp_all
  then show "(100 * c + 4 * q + a) div 4 = 25 * c + q" "(100 * c + 4 * q + a) div 100 = c"
    using assms by (simp_all only: div_mult_self2)
qed

lemma year_day:
  assumes "0 \<le> doe" "doe < 146097" and "year_day doe = (yoe, doy)"
  shows "0 \<le> yoe \<and> yoe < 400 \<and> 0 \<le> doy \<and> doy \<le> 365 \<and>
    doe = yoe * 365 + yoe div 4 - yoe div 100 + doy"
proof -
  define c where "c = min 3 (doe div 36524)"
  define r1 where "r1 = doe - c * 36524"
  define q where "q = r1 div 1461"
  define r2 where "r2 = r1 mod 1461"
  define a where "a = min 3 (r2 div 365)"
  have yd: "yoe = 100 * c + 4 * q + a" "doy = r2 - a * 365"
    using assms(3) by (simp_all add: year_day_def Let_def c_def r1_def q_def r2_def a_def)
  have c: "0 \<le> c" "c \<le> 3" "0 \<le> r1" "r1 \<le> 36524"
    using assms(1,2) div_bounds[of 36524 doe] by (auto simp: c_def r1_def min_def)
  have q: "0 \<le> q" "q \<le> 24" "0 \<le> r2" "r2 \<le> 1460" "r1 = 1461 * q + r2"
    using c(3,4) div_bounds[of 1461 r1] by (auto simp: q_def r2_def pos_imp_zdiv_nonneg_iff)
  have a: "0 \<le> a" "a \<le> 3" "0 \<le> doy" "doy \<le> 365"
    using q(3,4) div_bounds[of 365 r2] by (auto simp: a_def yd(2) min_def pos_imp_zdiv_nonneg_iff)
  show ?thesis
    using c q a yd year_split[OF q(1,2) a(1,2), of c] unfolding r1_def by simp
qed

lemma month_day:
  assumes "0 \<le> doy" "doy \<le> 365" and "month_day doy = (m, d)"
  shows "1 \<le> m \<and> m \<le> 12 \<and> 1 \<le> d \<and> d \<le> 31 \<and>
    (153 * (if m > 2 then m - 3 else m + 9) + 2) div 5 + d - 1 = doy"
proof -
  define mp where "mp = (5 * doy + 2) div 153"
  have md: "m = (if mp < 10 then mp + 3 else mp - 9)" "d = doy - (153 * mp + 2) div 5 + 1"
    using assms(3) by (auto simp: month_day_def Let_def mp_def)
  have b: "153 * mp \<le> 5 * doy + 2" "5 * doy + 2 < 153 * mp + 153"
    using div_bounds[of 153 "5 * doy + 2"] by (simp_all add: mp_def)
  have mp: "0 \<le> mp" "mp \<le> 11" using assms(1,2) b by linarith+
  have e: "5 * ((153 * mp + 2) div 5) \<le> 153 * mp + 2" "153 * mp + 2 < 5 * ((153 * mp + 2) div 5) + 5"
    using div_bounds[of 5 "153 * mp + 2"] by simp_all
  have "1 \<le> d" "d \<le> 31" using b e md(2) by linarith+
  moreover have "(if m > 2 then m - 3 else m + 9) = mp" "1 \<le> m" "m \<le> 12" using mp md(1) by auto
  ultimately show ?thesis using md(2) by simp
qed

theorem days_of_civil_of_days:
  assumes "civil_of_days z = (y, m, d)"
  shows "days_of_civil y m d = z \<and> 1 \<le> m \<and> m \<le> 12 \<and> 1 \<le> d \<and> d \<le> 31"
proof -
  define doe where "doe = (z + 719468) mod 146097"
  define era where "era = (z + 719468) div 146097"
  obtain yoe doy where yd: "year_day doe = (yoe, doy)" by fastforce
  have md: "month_day doy = (m, d)" and y: "y = yoe + era * 400 + (if m \<le> 2 then 1 else 0)"
    using assms yd unfolding civil_of_days_def Let_def doe_def[symmetric] era_def[symmetric]
    by (auto split: prod.splits)
  have D: "0 \<le> yoe" "yoe < 400" "0 \<le> doy" "doy \<le> 365" "doe = yoe * 365 + yoe div 4 - yoe div 100 + doy"
    using year_day[OF _ _ yd] by (auto simp: doe_def)
  note M = month_day[OF D(3,4) md]
  have y1: "(if m \<le> 2 then y - 1 else y) = yoe + era * 400" using y by simp
  have e: "(yoe + era * 400) mod 400 = yoe" "(yoe + era * 400) div 400 = era" using D(1,2) by auto
  have "days_of_civil y m d = era * 146097 + (yoe * 365 + yoe div 4 - yoe div 100 +
      ((153 * (if m > 2 then m - 3 else m + 9) + 2) div 5 + d - 1)) - 719468"
    unfolding days_of_civil_def Let_def y1 e by (rule refl)
  also have "\<dots> = era * 146097 + doe - 719468" using M D(5) by simp
  also have "\<dots> = z" by (simp add: era_def doe_def)
  finally show ?thesis using M by blast
qed



section \<open>ISO-8601 text\<close>

text \<open>\<^verbatim>\<open>toISOString\<close>: \<^verbatim>\<open>YYYY-MM-DDTHH:MM:SS.sssZ\<close>; a year outside 0..9999 has a sign and six digits.\<close>

fun pad :: "nat \<Rightarrow> nat \<Rightarrow> string" where
  "pad 0 n = []"
| "pad (Suc k) n = pad k (n div 10) @ [char_of (48 + n mod 10)]"

definition DAY_MS :: int where
  "DAY_MS = 86400000"

definition year_text :: "int \<Rightarrow> string" where
  "year_text y =
     (if 0 \<le> y \<and> y \<le> 9999 then pad 4 (nat y)
      else if y < 0 then CHR ''-'' # pad 6 (nat (- y)) else CHR ''+'' # pad 6 (nat y))"

definition time_text :: "int \<Rightarrow> string" where
  "time_text ms =
     pad 2 (nat (ms div 3600000)) @ CHR '':'' # pad 2 (nat (ms div 60000 mod 60)) @ CHR '':'' #
     pad 2 (nat (ms div 1000 mod 60)) @ CHR ''.'' # pad 3 (nat (ms mod 1000)) @ ''Z''"

definition toISOString :: "instant \<Rightarrow> string" where
  "toISOString t =
     (case civil_of_days (t div DAY_MS) of
        (y, m, d) \<Rightarrow>
          year_text y @ CHR ''-'' # pad 2 (nat m) @ CHR ''-'' # pad 2 (nat d) @ CHR ''T'' #
          time_text (t mod DAY_MS))"

text \<open>\<^verbatim>\<open>new Date(s)\<close> on the texts \<^verbatim>\<open>YYYY-MM-DDTHH:MM:SS\<close>, an optional fraction, and \<^verbatim>\<open>Z\<close> or an offset. As in
  Node, a day up to 31 is taken in every month and runs over into the next one, digits of the fraction
  after the third are cut off, and 24:00:00 is the end of the day.\<close>

definition num :: "nat \<Rightarrow> string \<Rightarrow> (int \<times> string) option" where
  "num k s =
     (if k \<le> length s \<and> list_all is_digit (take k s) then Some (int (digits_val (take k s)), drop k s)
      else None)"

definition lit :: "char \<Rightarrow> string \<Rightarrow> string option" where
  "lit c s = (case s of d # t \<Rightarrow> if d = c then Some t else None | [] \<Rightarrow> None)"

definition fraction_ms :: "string \<Rightarrow> (int \<times> string) option" where
  "fraction_ms s =
     (case lit (CHR ''.'') s of
        None \<Rightarrow> Some (0, s)
      | Some t \<Rightarrow>
          (let f = takeWhile is_digit t
           in if f = [] then None
              else Some (int (digits_val (take 3 (f @ ''00''))), dropWhile is_digit t)))"

text \<open>The offset in minutes; nothing may follow it.\<close>

definition offset_minutes :: "string \<Rightarrow> int option" where
  "offset_minutes s =
     (case s of
        [] \<Rightarrow> None
      | c # t \<Rightarrow>
          if c = CHR ''Z'' then (if t = [] then Some 0 else None)
          else if c = CHR ''+'' \<or> c = CHR ''-'' then
            (case num 2 t of
               None \<Rightarrow> None
             | Some (h, t1) \<Rightarrow>
                 (case num 2 (case lit (CHR '':'') t1 of Some t2 \<Rightarrow> t2 | None \<Rightarrow> t1) of
                    None \<Rightarrow> None
                  | Some (mi, t3) \<Rightarrow>
                      if t3 = [] \<and> h \<le> 23 \<and> mi \<le> 59
                      then Some ((if c = CHR ''-'' then - 1 else 1) * (60 * h + mi)) else None))
          else None)"

definition clock_ms :: "int \<Rightarrow> int \<Rightarrow> int \<Rightarrow> int \<Rightarrow> int option" where
  "clock_ms h mi s f =
     (if h \<le> 23 \<and> mi \<le> 59 \<and> s \<le> 59 then Some (h * 3600000 + mi * 60000 + s * 1000 + f)
      else if h = 24 \<and> mi = 0 \<and> s = 0 \<and> f = 0 then Some DAY_MS else None)"

definition parse_day :: "string \<Rightarrow> (int \<times> string) option" where
  "parse_day s0 =
     Option.bind (num 4 s0) (\<lambda>(y, s1). Option.bind (lit (CHR ''-'') s1) (\<lambda>s2.
     Option.bind (num 2 s2) (\<lambda>(m, s3). Option.bind (lit (CHR ''-'') s3) (\<lambda>s4.
     Option.bind (num 2 s4) (\<lambda>(d, s5).
       if 1 \<le> m \<and> m \<le> 12 \<and> 1 \<le> d \<and> d \<le> 31 then Some (days_of_civil y m d, s5) else None)))))"

definition parse_clock :: "string \<Rightarrow> (int \<times> string) option" where
  "parse_clock s0 =
     Option.bind (num 2 s0) (\<lambda>(h, s1). Option.bind (lit (CHR '':'') s1) (\<lambda>s2.
     Option.bind (num 2 s2) (\<lambda>(mi, s3). Option.bind (lit (CHR '':'') s3) (\<lambda>s4.
     Option.bind (num 2 s4) (\<lambda>(s, s5). Option.bind (fraction_ms s5) (\<lambda>(f, s6).
     map_option (\<lambda>ms. (ms, s6)) (clock_ms h mi s f)))))))"

definition parse_date :: "string \<Rightarrow> instant option" where
  "parse_date s0 =
     Option.bind (parse_day s0) (\<lambda>(days, s1). Option.bind (lit (CHR ''T'') s1) (\<lambda>s2.
     Option.bind (parse_clock s2) (\<lambda>(ms, s3).
     map_option (\<lambda>off. days * DAY_MS + ms - off * 60000) (offset_minutes s3))))"


section \<open>Round trip\<close>

lemma length_pad [simp]: "length (pad k n) = k"
  by (induction k arbitrary: n) auto

lemma ccode_digit: "n < 10 \<Longrightarrow> ccode (char_of (48 + n)) = 48 + n"
  by (simp add: ccode_def)

lemma pad_digits: "list_all is_digit (pad k n)"
  by (induction k arbitrary: n) (simp_all add: is_digit_def ccode_digit)

lemma digits_val_snoc: "digits_val (s @ [c]) = 10 * digits_val s + (ccode c - 48)"
  by (simp add: digits_val_def)

lemma digits_val_pad: "digits_val (pad k n) = n mod 10 ^ k"
proof (induction k arbitrary: n)
  case (Suc k)
  have "n mod (10 * 10 ^ k) = 10 * (n div 10 mod 10 ^ k) + n mod 10" by (rule mod_mult2_eq)
  then show ?case using Suc[of "n div 10"] by (simp add: digits_val_snoc ccode_digit)
qed (simp add: digits_val_def)

lemma num_pad [simp]: "n < 10 ^ k \<Longrightarrow> num k (pad k n @ r) = Some (int n, r)"
  by (simp add: num_def pad_digits digits_val_pad)

lemma lit_Cons [simp]: "lit c (c # s) = Some s"
  by (simp add: lit_def)

lemma fraction_pad: "n < 1000 \<Longrightarrow> fraction_ms (CHR ''.'' # pad 3 n @ CHR ''Z'' # r) = Some (int n, CHR ''Z'' # r)"
proof -
  assume n: "n < 1000"
  have z: "\<not> is_digit CHR ''Z''" by (simp add: is_digit_def ccode_def)
  have all: "\<forall>c \<in> set (pad 3 n). is_digit c" using pad_digits[of 3 n] by (simp add: list_all_iff)
  have t: "takeWhile is_digit (pad 3 n @ CHR ''Z'' # r) = pad 3 n"
    "dropWhile is_digit (pad 3 n @ CHR ''Z'' # r) = CHR ''Z'' # r"
    using all z by (simp_all add: takeWhile_append2 dropWhile_append2)
  have "pad 3 n \<noteq> []" by (metis length_0_conv length_pad numeral_3_eq_3 nat.distinct(1))
  then show ?thesis using n t by (simp add: fraction_ms_def digits_val_pad)
qed

lemma parse_clock_fields:
  assumes "a < 10 ^ 2" "b < 10 ^ 2" "c < 10 ^ 2" "e < 1000"
  shows "parse_clock (pad 2 a @ CHR '':'' # pad 2 b @ CHR '':'' # pad 2 c @ CHR ''.'' # pad 3 e @ ''Z'') =
    map_option (\<lambda>ms. (ms, ''Z'')) (clock_ms (int a) (int b) (int c) (int e))"
  using assms num_pad[of a 2] num_pad[of b 2] num_pad[of c 2] fraction_pad[of e "[]"]
  unfolding parse_clock_def by simp

lemma parse_clock_time_text:
  assumes "0 \<le> ms" and "ms < DAY_MS"
  shows "parse_clock (time_text ms) = Some (ms, ''Z'')"
proof -
  have h: "0 \<le> ms div 3600000" "ms div 3600000 \<le> 23" using assms by (simp_all add: DAY_MS_def)
  have nn: "nat (ms div 3600000) < 10 ^ 2" "nat (ms div 60000 mod 60) < 10 ^ 2"
    "nat (ms div 1000 mod 60) < 10 ^ 2" "nat (ms mod 1000) < 1000"
    using h pos_mod_bound[of 60 "ms div 60000"] pos_mod_bound[of 60 "ms div 1000"]
      pos_mod_bound[of 1000 ms] by (auto simp: nat_less_iff)
  have sum: "ms div 3600000 * 3600000 + ms div 60000 mod 60 * 60000 + ms div 1000 mod 60 * 1000 + ms mod 1000 = ms"
  proof -
    have a: "ms div 1000 * 1000 + ms mod 1000 = ms" by simp
    have b: "ms div 1000 div 60 * 60 + ms div 1000 mod 60 = ms div 1000" by simp
    have c: "ms div 60000 div 60 * 60 + ms div 60000 mod 60 = ms div 60000" by simp
    have d: "ms div 1000 div 60 = ms div 60000" "ms div 60000 div 60 = ms div 3600000"
      by (simp_all add: zdiv_zmult2_eq[symmetric])
    show ?thesis using a b c unfolding d by linarith
  qed
  have cl: "clock_ms (ms div 3600000) (ms div 60000 mod 60) (ms div 1000 mod 60) (ms mod 1000) = Some ms"
  proof -
    have "ms div 60000 mod 60 \<le> 59" "ms div 1000 mod 60 \<le> 59"
      using pos_mod_bound[of 60 "ms div 60000"] pos_mod_bound[of 60 "ms div 1000"] by linarith+
    then show ?thesis unfolding clock_ms_def sum using h by simp
  qed
  have ints: "int (nat (ms div 3600000)) = ms div 3600000"
    "int (nat (ms div 60000 mod 60)) = ms div 60000 mod 60"
    "int (nat (ms div 1000 mod 60)) = ms div 1000 mod 60" "int (nat (ms mod 1000)) = ms mod 1000"
    using h by simp_all
  show ?thesis unfolding time_text_def parse_clock_fields[OF nn] ints cl by simp
qed

text \<open>The instants of the years 0 to 9999.\<close>

definition four_digit_year :: "instant \<Rightarrow> bool" where
  "four_digit_year t = (case civil_of_days (t div DAY_MS) of (y, _, _) \<Rightarrow> 0 \<le> y \<and> y \<le> 9999)"

theorem iso_roundtrip: "four_digit_year t \<Longrightarrow> parse_date (toISOString t) = Some t"
proof -
  assume y4: "four_digit_year t"
  obtain y m d where c: "civil_of_days (t div DAY_MS) = (y, m, d)" by (cases "civil_of_days (t div DAY_MS)") auto
  note v = days_of_civil_of_days[OF c]
  have y: "0 \<le> y" "y \<le> 9999" using y4 c by (simp_all add: four_digit_year_def)
  have n: "nat y < 10 ^ 4" "nat m < 10 ^ 2" "nat d < 10 ^ 2" using y v by auto
  have day: "parse_day (toISOString t) = Some (t div DAY_MS, CHR ''T'' # time_text (t mod DAY_MS))"
    using n y v by (simp add: toISOString_def c year_text_def parse_day_def)
  have clock: "parse_clock (time_text (t mod DAY_MS)) = Some (t mod DAY_MS, ''Z'')"
    by (rule parse_clock_time_text) (simp_all add: DAY_MS_def)
  show ?thesis by (simp add: parse_date_def day clock offset_minutes_def)
qed

lemma toISOString_length: "four_digit_year t \<Longrightarrow> length (toISOString t) = 24"
  by (simp add: four_digit_year_def toISOString_def year_text_def time_text_def split: prod.splits)

end
