(* ===== verification/KickMeter.thy ===== *)
theory KickMeter
imports ScanKick Wire Iso_Date
  "HOL-Library.Product_Lexorder" "HOL-Library.List_Lexorder" "HOL-Library.Char_ord"
begin

text \<open>
  Reading the \<^verbatim>\<open>scan.kick\<close> meter: the query of \<^verbatim>\<open>contracts/src/domain/meter.ts\<close>, the opaque cursor, the
  window and the keyset page of \<^verbatim>\<open>meters/scan-kick-meter.query.ts\<close>, and the service's \<^verbatim>\<open>list\<close>
  (\<^verbatim>\<open>meters/scan-kick-meter.service.ts\<close>). The rows are the \<^verbatim>\<open>scan_kicks\<close> of theory \<^verbatim>\<open>ScanKick\<close>.

  \<open>datetime_ok\<close> and \<open>uuid_ok\<close> are the checks \<^verbatim>\<open>z.string().datetime\<close> and \<^verbatim>\<open>z.string().uuid\<close> of the zod
  package.
\<close>


section \<open>The query (domain/meter.ts)\<close>

definition SCAN_KICK_EVENT :: string where
  "SCAN_KICK_EVENT = ''scan.kick''"

definition SCAN_KICK_SOURCES :: "string list" where
  "SCAN_KICK_SOURCES = [''manual'', ''api'', ''webhook'', ''ci'', ''schedule'']"

definition SCAN_KICK_LIST_DEFAULT_LIMIT :: nat where
  "SCAN_KICK_LIST_DEFAULT_LIMIT = 50"

definition SCAN_KICK_LIST_MAX_LIMIT :: nat where
  "SCAN_KICK_LIST_MAX_LIMIT = 200"

definition SCAN_KICK_DEFAULT_WINDOW_MS :: int where
  "SCAN_KICK_DEFAULT_WINDOW_MS = 30 * 24 * 60 * 60 * 1000"

text \<open>The regular expression \<^verbatim>\<open>ISO_8601\<close>. In a shape the letter d stands for a digit.\<close>

definition shape :: "string \<Rightarrow> string \<Rightarrow> bool" where
  "shape = list_all2 (\<lambda>p c. if p = CHR ''d'' then is_digit c else c = p)"

definition iso_zone :: "string \<Rightarrow> bool" where
  "iso_zone z = (z = ''Z'' \<or> shape ''+dd:dd'' z \<or> shape ''-dd:dd'' z)"

definition iso_tail :: "string \<Rightarrow> bool" where
  "iso_tail t =
     (case lit (CHR ''.'') t of
        None \<Rightarrow> iso_zone t
      | Some u \<Rightarrow>
          (let n = length (takeWhile is_digit u)
           in 1 \<le> n \<and> n \<le> 9 \<and> iso_zone (dropWhile is_digit u)))"

definition ISO_8601 :: "string \<Rightarrow> bool" where
  "ISO_8601 s =
     (shape ''dddd-dd-dd'' (take 10 s) \<and>
      (drop 10 s = [] \<or> (shape ''Tdd:dd:dd'' (take 9 (drop 10 s)) \<and> iso_tail (drop 19 s))))"

datatype query_value = Q_absent | Q_one string | Q_many "string list"

definition firstQueryValue :: "query_value \<Rightarrow> string option" where
  "firstQueryValue v =
     (case (case v of Q_absent \<Rightarrow> None | Q_one s \<Rightarrow> Some s | Q_many [] \<Rightarrow> None | Q_many (s # _) \<Rightarrow> Some s) of
        None \<Rightarrow> None
      | Some raw \<Rightarrow> (let text = js_trim raw in if text \<noteq> [] then Some text else None))"

record raw_query =
  rq_from :: query_value
  rq_to :: query_value
  rq_source :: query_value
  rq_cursor :: query_value
  rq_limit :: query_value

record list_query =
  lq_from :: "instant option"
  lq_to :: "instant option"
  lq_source :: "string option"
  lq_cursor :: "string option"
  lq_limit :: nat

text \<open>Each check yields the paths it complains about and its value.\<close>

definition query_instant :: "string \<Rightarrow> string option \<Rightarrow> string list \<times> instant option" where
  "query_instant path value =
     (case value of
        None \<Rightarrow> ([], None)
      | Some s \<Rightarrow>
          if \<not> ISO_8601 s then ([path], None)
          else (case parse_date (if length s = 10 then s @ ''T00:00:00.000Z'' else s) of
                  None \<Rightarrow> ([path], None)
                | Some t \<Rightarrow> ([], Some t)))"

definition query_source :: "string option \<Rightarrow> string list \<times> string option" where
  "query_source value =
     (case value of
        None \<Rightarrow> ([], None)
      | Some s \<Rightarrow> if s \<in> set SCAN_KICK_SOURCES then ([], Some s) else ([''source''], None))"

definition query_limit :: "string option \<Rightarrow> string list \<times> nat" where
  "query_limit value =
     (case value of
        None \<Rightarrow> ([], SCAN_KICK_LIST_DEFAULT_LIMIT)
      | Some s \<Rightarrow>
          if all_digits s \<and> hd s \<noteq> CHR ''0'' then ([], min (digits_val s) SCAN_KICK_LIST_MAX_LIMIT)
          else ([''limit''], SCAN_KICK_LIST_DEFAULT_LIMIT))"

definition ListScanKicksQuery :: "raw_query \<Rightarrow> string list + list_query" where
  "ListScanKicksQuery q =
     (let (e1, from_at) = query_instant ''from'' (firstQueryValue (rq_from q));
          (e2, to_at) = query_instant ''to'' (firstQueryValue (rq_to q));
          (e3, source) = query_source (firstQueryValue (rq_source q));
          (e4, limit) = query_limit (firstQueryValue (rq_limit q));
          issues = e1 @ e2 @ e3 @ e4
      in if issues \<noteq> [] then Inl issues
         else Inr \<lparr>lq_from = from_at, lq_to = to_at, lq_source = source,
                   lq_cursor = firstQueryValue (rq_cursor q), lq_limit = limit\<rparr>)"


section \<open>The cursor (scan-kick-meter.query.ts)\<close>

text \<open>A cursor whose date passes the schema and is still no date has \<^term>\<open>None\<close> as its instant.\<close>

record cursor_point =
  cp_occurredAt :: "instant option"
  cp_eventId :: ident

definition encodeScanKickCursor :: "kick_row \<Rightarrow> string" where
  "encodeScanKickCursor row =
     b64url_encode (json_text (JObj
       [(''occurredAt'', JStr (toISOString (k_occurredAt row))), (''eventId'', JStr (k_eventId row))]))"

record schema_checks =
  datetime_ok :: "string \<Rightarrow> bool"
  uuid_ok :: "string \<Rightarrow> bool"

definition ScanKickCursor :: "schema_checks \<Rightarrow> json \<Rightarrow> (string \<times> string) option" where
  "ScanKickCursor z j =
     (case (json_get ''occurredAt'' j, json_get ''eventId'' j) of
        (Some (JStr t), Some (JStr i)) \<Rightarrow> if datetime_ok z t \<and> uuid_ok z i then Some (t, i) else None
      | _ \<Rightarrow> None)"

definition invalid_cursor :: api_error where
  "invalid_cursor = Bad_request ''Invalid scan kick cursor''"

definition decodeScanKickCursor :: "schema_checks \<Rightarrow> string \<Rightarrow> cursor_point attempt" where
  "decodeScanKickCursor z cursor =
     (if length cursor > 512 then Inl invalid_cursor
      else
        (case json_parse (b64url_decode cursor) of
           None \<Rightarrow> Inl invalid_cursor
         | Some parsed \<Rightarrow>
             (case ScanKickCursor z parsed of
                None \<Rightarrow> Inl invalid_cursor
              | Some (t, i) \<Rightarrow> Inr \<lparr>cp_occurredAt = parse_date t, cp_eventId = i\<rparr>)))"


section \<open>Window and page (scan-kick-meter.query.ts)\<close>

record kick_bounds =
  b_from :: "instant option"
  b_to :: "instant option"
  b_source :: "string option"
  b_cursor :: "cursor_point option"
  b_limit :: nat

definition resolveScanKickBounds :: "schema_checks \<Rightarrow> list_query \<Rightarrow> instant \<Rightarrow> kick_bounds attempt" where
  "resolveScanKickBounds z q now =
     (let defaulted = (lq_from q = None \<and> lq_to q = None);
          bounds = (\<lambda>c. \<lparr>b_from = (if defaulted then Some (now - SCAN_KICK_DEFAULT_WINDOW_MS) else lq_from q),
                         b_to = lq_to q, b_source = lq_source q, b_cursor = c, b_limit = lq_limit q\<rparr>)
      in case lq_cursor q of
           None \<Rightarrow> Inr (bounds None)
         | Some s \<Rightarrow>
             if s = [] then Inr (bounds None)
             else (case decodeScanKickCursor z s of Inl e \<Rightarrow> Inl e | Inr c \<Rightarrow> Inr (bounds (Some c))))"

definition scanKickCountWhere :: "kick_bounds \<Rightarrow> kick_row \<Rightarrow> bool" where
  "scanKickCountWhere b k =
     ((case b_from b of None \<Rightarrow> True | Some t \<Rightarrow> t \<le> k_occurredAt k) \<and>
      (case b_to b of None \<Rightarrow> True | Some t \<Rightarrow> k_occurredAt k < t) \<and>
      (case b_source b of None \<Rightarrow> True | Some s \<Rightarrow> k_source k = s))"

text \<open>The column is a UUID: the database compares it by value, which is the order of its lower-case text.\<close>

definition kick_key :: "kick_row \<Rightarrow> int \<times> string" where
  "kick_key k = (k_occurredAt k, js_lower (k_eventId k))"

definition scanKickPageWhere :: "kick_bounds \<Rightarrow> kick_row \<Rightarrow> bool" where
  "scanKickPageWhere b k =
     (case b_cursor b of
        None \<Rightarrow> scanKickCountWhere b k
      | Some c \<Rightarrow>
          scanKickCountWhere b k \<and>
          (case cp_occurredAt c of
             None \<Rightarrow> False
           | Some t \<Rightarrow>
               k_occurredAt k < t \<or>
               (k_occurredAt k = t \<and> js_lower (k_eventId k) < js_lower (cp_eventId c))))"


section \<open>The page (scan-kick-meter.service.ts)\<close>

record kick_usage =
  us_total :: nat
  us_items :: "kick_row list"
  us_nextCursor :: "string option"

definition emptyUsage :: kick_usage where
  "emptyUsage = \<lparr>us_total = 0, us_items = [], us_nextCursor = None\<rparr>"

definition newest_first :: "kick_row list \<Rightarrow> kick_row list" where
  "newest_first ks = rev (sort_key kick_key ks)"

text \<open>An invalid date reaches the database client, which refuses it.\<close>

definition list_kicks ::
    "schema_checks \<Rightarrow> scan_db \<Rightarrow> ident \<Rightarrow> list_query \<Rightarrow> instant \<Rightarrow> kick_usage attempt" where
  "list_kicks z db org q now =
     (case resolveScanKickBounds z q now of
        Inl e \<Rightarrow> Inl e
      | Inr b \<Rightarrow>
          if (case (b_from b, b_to b) of (Some f, Some t) \<Rightarrow> f \<ge> t | _ \<Rightarrow> False) then Inr emptyUsage
          else if (case b_cursor b of Some c \<Rightarrow> cp_occurredAt c = None | None \<Rightarrow> False)
          then Inl (Server_error ''invalid date'')
          else
            (let visible = filter (\<lambda>k. k_org k = org) (scan_kicks db);
                 rows = take (Suc (b_limit b)) (newest_first (filter (scanKickPageWhere b) visible));
                 hasMore = length rows > b_limit b;
                 page = (if hasMore then take (b_limit b) rows else rows)
             in Inr \<lparr>us_total = length (filter (scanKickCountWhere b) visible), us_items = page,
                     us_nextCursor = (if hasMore \<and> page \<noteq> [] then Some (encodeScanKickCursor (last page))
                                      else None)\<rparr>))"



section \<open>The cursor round trip\<close>

definition plain :: "char \<Rightarrow> bool" where
  "plain c = (escape_char c = [c])"

lemma plain_code: "32 \<le> ccode c \<Longrightarrow> ccode c \<noteq> 34 \<Longrightarrow> ccode c \<noteq> 92 \<Longrightarrow> plain c"
  by (auto simp: plain_def escape_char_def ccode_def)

lemma plain_digit: "is_digit c \<Longrightarrow> plain c"
  by (rule plain_code) (auto simp: is_digit_def)

lemma plain_lower: "is_lower c \<Longrightarrow> plain c"
  by (rule plain_code) (auto simp: is_lower_def)

lemma plain_marks [simp]: "plain CHR ''-''" "plain CHR '':''" "plain CHR ''.''" "plain CHR ''T''" "plain CHR ''Z''"
  by (simp_all add: plain_def escape_char_def ccode_def)

lemma plain_string: "\<forall>c \<in> set s. plain c \<Longrightarrow> json_string s = CHR 0x22 # s @ [CHR 0x22]"
proof -
  have "\<forall>c \<in> set s. plain c \<Longrightarrow> concat (map escape_char s) = s"
    by (induction s) (simp_all add: plain_def)
  then show "\<forall>c \<in> set s. plain c \<Longrightarrow> json_string s = CHR 0x22 # s @ [CHR 0x22]"
    by (simp add: json_string_def)
qed

lemma plain_pad: "c \<in> set (pad k n) \<Longrightarrow> plain c"
  using pad_digits[of k n] by (auto simp: list_all_iff intro: plain_digit)

lemma plain_iso: "four_digit_year t \<Longrightarrow> \<forall>c \<in> set (toISOString t). plain c"
  by (auto simp: four_digit_year_def toISOString_def year_text_def time_text_def
      split: prod.splits dest: plain_pad)

text \<open>What the table guarantees of a row: the identifier is a UUID in the text form of the database, and
  the instant is of our time.\<close>

definition row_ok :: "schema_checks \<Rightarrow> kick_row \<Rightarrow> bool" where
  "row_ok z k =
     (four_digit_year (k_occurredAt k) \<and> datetime_ok z (toISOString (k_occurredAt k)) \<and>
      uuid_ok z (k_eventId k) \<and> length (k_eventId k) = 36 \<and>
      list_all (\<lambda>c. is_digit c \<or> is_lower c \<or> c = CHR ''-'') (k_eventId k))"

lemma cursor_length:
  assumes "row_ok z k"
  shows "length (encodeScanKickCursor k) \<le> 512"
proof -
  have "\<forall>c \<in> set (k_eventId k). plain c"
    using assms by (auto simp: row_ok_def list_all_iff intro: plain_digit plain_lower)
  then have i: "length (json_string (k_eventId k)) = 38"
    using assms by (simp add: plain_string row_ok_def)
  have t: "length (json_string (toISOString (k_occurredAt k))) = 26"
  proof -
    have y: "four_digit_year (k_occurredAt k)" using assms by (simp add: row_ok_def)
    show ?thesis unfolding plain_string[OF plain_iso[OF y]] by (simp add: toISOString_length[OF y])
  qed
  have "json_string ''occurredAt'' = CHR 0x22 # ''occurredAt'' @ [CHR 0x22]"
    "json_string ''eventId'' = CHR 0x22 # ''eventId'' @ [CHR 0x22]"
    by (rule plain_string, simp add: plain_def escape_char_def ccode_def)+
  then show ?thesis
    by (simp add: encodeScanKickCursor_def length_b64url_encode i t)
qed

lemma decode_encode:
  assumes "row_ok z k"
  shows "decodeScanKickCursor z (encodeScanKickCursor k) =
    Inr \<lparr>cp_occurredAt = Some (k_occurredAt k), cp_eventId = k_eventId k\<rparr>"
proof -
  have "json_parse (b64url_decode (encodeScanKickCursor k)) =
      Some (JObj [(''occurredAt'', JStr (toISOString (k_occurredAt k))), (''eventId'', JStr (k_eventId k))])"
    unfolding encodeScanKickCursor_def b64url_roundtrip by (rule json_roundtrip) simp
  then show ?thesis
    using assms cursor_length[OF assms] iso_roundtrip
    by (simp add: decodeScanKickCursor_def ScanKickCursor_def json_get_def row_ok_def)
qed

lemma encode_ne: "encodeScanKickCursor k \<noteq> []"
  by (simp add: encodeScanKickCursor_def)

text \<open>
  A cursor names its row. The cursor of a row survives the trip through the client: decoding the
  base64url text, parsing its JSON and its ISO date yields the instant, to the millisecond, and the
  identifier of the row, and the text is within the 512 characters that the decoder accepts. Two rows
  with different keys have different cursors.
\<close>

theorem cursor_roundtrip:
  assumes "row_ok z k"
  shows "decodeScanKickCursor z (encodeScanKickCursor k) =
      Inr \<lparr>cp_occurredAt = Some (k_occurredAt k), cp_eventId = k_eventId k\<rparr>
    \<and> length (encodeScanKickCursor k) \<le> 512
    \<and> (row_ok z k' \<longrightarrow> encodeScanKickCursor k' = encodeScanKickCursor k \<longrightarrow>
         k_occurredAt k' = k_occurredAt k \<and> k_eventId k' = k_eventId k)"
proof -
  have "k_occurredAt k' = k_occurredAt k \<and> k_eventId k' = k_eventId k"
    if "row_ok z k'" and "encodeScanKickCursor k' = encodeScanKickCursor k"
    using decode_encode[OF assms] decode_encode[OF that(1)] that(2) by simp
  then show ?thesis using decode_encode[OF assms] cursor_length[OF assms] by blast
qed

definition demo_checks :: schema_checks where
  "demo_checks = \<lparr>datetime_ok = (\<lambda>s. length s = 24), uuid_ok = (\<lambda>s. length s = 36)\<rparr>"

definition demo_kick :: kick_row where
  "demo_kick =
     \<lparr>k_eventId = ''aaaaaaaa-aaaa-4aaa-8aaa-000000000001'', k_org = ''o1'', k_scanId = ''s1'',
      k_source = ''ci'', k_scannerTypes = [''sca''], k_occurredAt = 1790337600123, k_key = None\<rparr>"

lemma demo_kick_ok: "row_ok demo_checks demo_kick"
proof -
  have "civil_of_days 20721 = (2026, 9, 25)" by code_simp
  moreover have "1790337600123 div DAY_MS = 20721" by (simp add: DAY_MS_def)
  ultimately have y: "four_digit_year 1790337600123" by (simp add: four_digit_year_def)
  have "list_all (\<lambda>c. is_digit c \<or> is_lower c \<or> c = CHR ''-'') (k_eventId demo_kick)"
    "length (k_eventId demo_kick) = 36"
    by (simp_all add: demo_kick_def is_digit_def is_lower_def ccode_def)
  moreover have "k_occurredAt demo_kick = 1790337600123" by (simp add: demo_kick_def)
  ultimately show ?thesis
    using y toISOString_length[OF y] unfolding row_ok_def demo_checks_def by simp
qed

theorem cursor_roundtrip_witness:
  "decodeScanKickCursor demo_checks (encodeScanKickCursor demo_kick) =
     Inr \<lparr>cp_occurredAt = Some 1790337600123, cp_eventId = ''aaaaaaaa-aaaa-4aaa-8aaa-000000000001''\<rparr>"
  using cursor_roundtrip[OF demo_kick_ok] by (simp add: demo_kick_def)



section \<open>Following the cursors\<close>

text \<open>A client that reads the meter: it asks for a page, then for the page after each \<^verbatim>\<open>nextCursor\<close>.\<close>

fun walk :: "nat \<Rightarrow> schema_checks \<Rightarrow> scan_db \<Rightarrow> ident \<Rightarrow> list_query \<Rightarrow> instant \<Rightarrow> kick_usage list attempt" where
  "walk 0 z db org q now = Inr []"
| "walk (Suc n) z db org q now =
     (case list_kicks z db org q now of
        Inl e \<Rightarrow> Inl e
      | Inr u \<Rightarrow>
          (case us_nextCursor u of
             None \<Rightarrow> Inr [u]
           | Some c \<Rightarrow>
               (case walk n z db org (q\<lparr>lq_cursor := Some c\<rparr>) now of
                  Inl e \<Rightarrow> Inl e | Inr us \<Rightarrow> Inr (u # us))))"

definition descending :: "kick_row list \<Rightarrow> bool" where
  "descending ks = sorted_wrt (\<lambda>a b. kick_key b < kick_key a) ks"

lemma newest_first_filter: "newest_first (filter P ks) = filter P (newest_first ks)"
  by (simp add: newest_first_def filter_sort[symmetric] rev_filter)

lemma newest_first_descending:
  assumes "distinct (map kick_key ks)"
  shows "descending (newest_first ks)"
proof -
  have "sorted (map kick_key (sort_key kick_key ks))" by simp
  moreover have "distinct (map kick_key (sort_key kick_key ks))"
    using assms by (metis distinct_map distinct_sort inj_on_cong set_sort)
  ultimately have "sorted_wrt (<) (map kick_key (sort_key kick_key ks))" by (simp add: strict_sorted_iff)
  then show ?thesis
    by (simp add: descending_def newest_first_def sorted_wrt_rev sorted_wrt_map)
qed

text \<open>In a descending list the rows below a row are the ones that come after it.\<close>

lemma filter_below:
  assumes "descending (xs @ l # ys)"
  shows "filter (\<lambda>k. kick_key k < kick_key l) (xs @ l # ys) = ys"
proof -
  have "filter (\<lambda>k. kick_key k < kick_key l) xs = []"
    using assms by (auto simp: descending_def sorted_wrt_append filter_empty_conv dest: less_asym)
  moreover have "filter (\<lambda>k. kick_key k < kick_key l) ys = ys"
    using assms by (auto simp: descending_def sorted_wrt_append)
  ultimately show ?thesis by simp
qed

lemma js_lower_id: "list_all (\<lambda>c. is_digit c \<or> is_lower c \<or> c = CHR ''-'') s \<Longrightarrow> js_lower s = s"
  unfolding js_lower_def
  by (induction s) (auto simp: is_upper_def is_lower_def is_digit_def ccode_def)

text \<open>The window of a query, with the defaults filled in.\<close>

definition in_window :: "list_query \<Rightarrow> instant \<Rightarrow> kick_row \<Rightarrow> bool" where
  "in_window q now k =
     ((case lq_from q of
         Some t \<Rightarrow> t \<le> k_occurredAt k
       | None \<Rightarrow> lq_to q = None \<longrightarrow> now - SCAN_KICK_DEFAULT_WINDOW_MS \<le> k_occurredAt k) \<and>
      (case lq_to q of None \<Rightarrow> True | Some t \<Rightarrow> k_occurredAt k < t) \<and>
      (case lq_source q of None \<Rightarrow> True | Some s \<Rightarrow> k_source k = s))"

definition matching :: "scan_db \<Rightarrow> ident \<Rightarrow> list_query \<Rightarrow> instant \<Rightarrow> kick_row list" where
  "matching db org q now = newest_first (filter (in_window q now) (filter (\<lambda>k. k_org k = org) (scan_kicks db)))"

lemma in_window_cursor [simp]: "in_window (q\<lparr>lq_cursor := c\<rparr>) now = in_window q now"
  unfolding in_window_def fun_eq_iff by (simp split: option.split)

lemma matching_cursor [simp]: "matching db org (q\<lparr>lq_cursor := c\<rparr>) now = matching db org q now"
  by (simp add: matching_def)

text \<open>What \<^verbatim>\<open>list\<close> answers for a query without a cursor, and for the cursor of a row.\<close>

definition page_of :: "list_query \<Rightarrow> nat \<Rightarrow> kick_row list \<Rightarrow> kick_usage" where
  "page_of q n rest =
     \<lparr>us_total = n, us_items = take (lq_limit q) rest,
      us_nextCursor = (if length rest > lq_limit q
        then Some (encodeScanKickCursor (last (take (lq_limit q) rest))) else None)\<rparr>"

lemma take_limit:
  assumes "0 < n"
  shows "(if length (take (Suc n) r) > n then take n (take (Suc n) r) else take (Suc n) r) = take n r"
    and "(length (take (Suc n) r) > n) = (length r > n)"
  using assms by (auto simp: min_def)

lemma resolved_bounds:
  assumes "resolveScanKickBounds z q now = Inr b"
  shows "scanKickCountWhere b = in_window q now" and "b_limit b = lq_limit q"
proof -
  have b: "b_from b = (if lq_from q = None \<and> lq_to q = None then Some (now - SCAN_KICK_DEFAULT_WINDOW_MS)
      else lq_from q)" "b_to b = lq_to q" "b_source b = lq_source q" "b_limit b = lq_limit q"
    using assms by (auto simp: resolveScanKickBounds_def Let_def split: option.splits if_splits sum.splits)
  show "scanKickCountWhere b = in_window q now"
    unfolding scanKickCountWhere_def in_window_def fun_eq_iff b(1-3)
    by (auto split: option.split)
  show "b_limit b = lq_limit q" by (rule b(4))
qed

lemma list_kicks_bounds:
  assumes "resolveScanKickBounds z q now = Inr b" and "b_cursor b = c" and "0 < lq_limit q"
    and "c = None \<or> (\<exists>p t. c = Some p \<and> cp_occurredAt p = Some t)"
    and "filter (scanKickPageWhere b) (filter (\<lambda>k. k_org k = org) (scan_kicks db)) =
         filter P (filter (in_window q now) (filter (\<lambda>k. k_org k = org) (scan_kicks db)))"
  shows "list_kicks z db org q now =
    Inr (page_of q (length (matching db org q now)) (filter P (matching db org q now)))"
proof -
  let ?vis = "filter (\<lambda>k. k_org k = org) (scan_kicks db)"
  note count = resolved_bounds(1)[OF assms(1)] and lim = resolved_bounds(2)[OF assms(1)]
  have rows: "newest_first (filter (scanKickPageWhere b) ?vis) = filter P (matching db org q now)"
    unfolding assms(5) matching_def by (simp add: newest_first_filter)
  have total: "length (filter (scanKickCountWhere b) ?vis) = length (matching db org q now)"
    unfolding count matching_def newest_first_def by simp
  have empty: "matching db org q now = []"
    if "case (b_from b, b_to b) of (Some f, Some t) \<Rightarrow> f \<ge> t | _ \<Rightarrow> False"
  proof -
    have "\<not> in_window q now k" for k
      using that unfolding count[symmetric] scanKickCountWhere_def by (auto split: option.splits)
    then show ?thesis by (simp add: matching_def newest_first_def)
  qed
  show ?thesis
  proof (cases "case (b_from b, b_to b) of (Some f, Some t) \<Rightarrow> f \<ge> t | _ \<Rightarrow> False")
    case True
    then show ?thesis
      using empty by (simp add: list_kicks_def assms(1) emptyUsage_def page_of_def split: option.splits)
  next
    case False
    have noc: "\<not> (case b_cursor b of Some c \<Rightarrow> cp_occurredAt c = None | None \<Rightarrow> False)"
      using assms(2,4) by auto
    have ne: "length r > lq_limit q \<Longrightarrow> take (lq_limit q) r \<noteq> []" for r :: "kick_row list"
      using assms(3) by auto
    show ?thesis
      unfolding list_kicks_def assms(1) sum.case if_not_P[OF False] if_not_P[OF noc] Let_def rows total
        page_of_def lim take_limit(1)[OF assms(3)] take_limit(2)[OF assms(3)]
      using ne by simp
  qed
qed

lemma list_first_page:
  assumes "lq_cursor q = None" and "0 < lq_limit q"
  shows "list_kicks z db org q now = Inr (page_of q (length (matching db org q now)) (matching db org q now))"
proof -
  obtain b where b: "resolveScanKickBounds z q now = Inr b" "b_cursor b = None"
    using assms(1) by (simp add: resolveScanKickBounds_def Let_def)
  have w: "scanKickPageWhere b = in_window q now"
    by (simp add: scanKickPageWhere_def b(2) resolved_bounds(1)[OF b(1), symmetric] fun_eq_iff)
  show ?thesis
    using list_kicks_bounds[OF b(1) refl assms(2), where P = "\<lambda>_. True"] b(2) w by simp
qed

lemma list_next_page:
  assumes "row_ok z l" and "lq_cursor q = Some (encodeScanKickCursor l)" and "0 < lq_limit q"
  shows "list_kicks z db org q now =
    Inr (page_of q (length (matching db org q now))
      (filter (\<lambda>k. kick_key k < kick_key l) (matching db org q now)))"
proof -
  let ?c = "\<lparr>cp_occurredAt = Some (k_occurredAt l), cp_eventId = k_eventId l\<rparr>"
  obtain b where b: "resolveScanKickBounds z q now = Inr b" "b_cursor b = Some ?c"
    using assms(1,2) encode_ne[of l] by (simp add: resolveScanKickBounds_def Let_def decode_encode)
  have w: "scanKickPageWhere b = (\<lambda>k. kick_key k < kick_key l \<and> in_window q now k)"
    by (auto simp: scanKickPageWhere_def b(2) resolved_bounds(1)[OF b(1), symmetric] fun_eq_iff kick_key_def)
  show ?thesis
  proof (rule list_kicks_bounds[OF b(1) b(2) assms(3)])
    show "filter (scanKickPageWhere b) (filter (\<lambda>k. k_org k = org) (scan_kicks db)) =
        filter (\<lambda>k. kick_key k < kick_key l)
          (filter (in_window q now) (filter (\<lambda>k. k_org k = org) (scan_kicks db)))"
      unfolding w filter_filter by (rule filter_cong) auto
  qed simp
qed

text \<open>Following the cursors from a point of the descending list delivers what is left of it.\<close>

lemma walk_rest:
  assumes "descending (matching db org q now)" and "\<forall>k \<in> set (matching db org q now). row_ok z k"
    and "0 < lq_limit q" and "lq_cursor q = None"
  shows "\<lbrakk>matching db org q now = xs @ l # rest; length rest < n\<rbrakk> \<Longrightarrow>
    \<exists>us. walk n z db org (q\<lparr>lq_cursor := Some (encodeScanKickCursor l)\<rparr>) now = Inr us \<and>
      concat (map us_items us) = rest \<and> (\<forall>u \<in> set us. us_total u = length (matching db org q now))"
proof (induction n arbitrary: xs l rest)
  case (Suc n)
  let ?q = "q\<lparr>lq_cursor := Some (encodeScanKickCursor l)\<rparr>"
  have ok: "row_ok z l" using assms(2) Suc.prems(1) by simp
  have below: "filter (\<lambda>k. kick_key k < kick_key l) (matching db org ?q now) = rest"
    using filter_below assms(1) Suc.prems(1) by simp
  have page: "list_kicks z db org ?q now = Inr (page_of q (length (matching db org q now)) rest)"
    using list_next_page[OF ok, of ?q db org now] assms(3) below by (simp add: page_of_def)
  show ?case
  proof (cases "length rest > lq_limit q")
    case False
    then show ?thesis using page by (simp add: page_of_def)
  next
    case True
    let ?p = "take (lq_limit q) rest"
    have ne: "?p \<noteq> []" using True assms(3) by auto
    have split: "matching db org q now = (xs @ l # butlast ?p) @ last ?p # drop (lq_limit q) rest"
      using Suc.prems(1) ne by (metis append.assoc append_Cons append_butlast_last_id append_take_drop_id append.left_neutral)
    have less: "length (drop (lq_limit q) rest) < n" using Suc.prems(2) True assms(3) by simp
    obtain us where us: "walk n z db org (q\<lparr>lq_cursor := Some (encodeScanKickCursor (last ?p))\<rparr>) now = Inr us"
        "concat (map us_items us) = drop (lq_limit q) rest"
        "\<forall>u \<in> set us. us_total u = length (matching db org q now)"
      using Suc.IH[OF split less] by blast
    show ?thesis using page True us by (simp add: page_of_def)
  qed
qed simp


definition meter_db :: scan_db where
  "meter_db = \<lparr>assets = [], scans = [], scan_jobs = [], scan_kicks = [demo_kick],
     integrations = [], idp_users = []\<rparr>"

definition meter_query :: list_query where
  "meter_query = \<lparr>lq_from = Some 0, lq_to = None, lq_source = None, lq_cursor = None, lq_limit = 1\<rparr>"


end
