(* ===== verification/Identity.thy ===== *)
theory Identity
imports Contracts
begin

text \<open>
  Tenant identity: the roles and their permissions (\<^verbatim>\<open>contracts/src/domain/identity.ts\<close>), and the
  service that keeps users, memberships, invites and organisations
  (\<^verbatim>\<open>identity-service/src/org/org.service.ts\<close>).

  A table is the list of its rows. An operation takes the database and returns the database it
  leaves together with its result, the left side of a sum being the exception thrown; a transaction
  that throws leaves the database as it was. \<^verbatim>\<open>withOrg\<close> binds the organisation of the row-level
  security, so every query of it filters by that organisation. Identifiers and tokens that are drawn
  at random, and the clock, are arguments. \<open>uuid_ok\<close> is the schema check of an identifier
  (\<^verbatim>\<open>UserId.safeParse\<close>, \<^verbatim>\<open>OrgId.safeParse\<close>, of the zod package), \<open>sha256\<close> the hash of
  \<^verbatim>\<open>node:crypto\<close>, and \<open>report\<close> what the database driver says of a violated unique index.
\<close>


section \<open>Roles and permissions (domain/identity.ts)\<close>

datatype role = Owner | Admin | Security_analyst | Developer | Auditor

fun role_str :: "role \<Rightarrow> string" where
  "role_str Owner = ''owner''"
| "role_str Admin = ''admin''"
| "role_str Security_analyst = ''security_analyst''"
| "role_str Developer = ''developer''"
| "role_str Auditor = ''auditor''"

definition parse_role :: "string \<Rightarrow> role option" where
  "parse_role s =
     find (\<lambda>r. role_str r = s) [Owner, Admin, Security_analyst, Developer, Auditor]"

definition Permission_options :: "string list" where
  "Permission_options =
     [''org:read'', ''org:write'', ''member:manage'', ''asset:read'', ''asset:write'', ''scan:read'',
      ''scan:run'', ''finding:read'', ''finding:triage'', ''policy:read'', ''policy:write'',
      ''exception:approve'', ''report:read'', ''integration:manage'']"

fun ROLE_PERMISSIONS :: "role \<Rightarrow> string list" where
  "ROLE_PERMISSIONS Owner = Permission_options"
| "ROLE_PERMISSIONS Admin = filter (\<lambda>p. p \<noteq> ''org:write'') Permission_options"
| "ROLE_PERMISSIONS Security_analyst =
     [''org:read'', ''asset:read'', ''asset:write'', ''scan:read'', ''scan:run'', ''finding:read'',
      ''finding:triage'', ''policy:read'', ''exception:approve'', ''report:read'']"
| "ROLE_PERMISSIONS Developer =
     [''org:read'', ''asset:read'', ''scan:read'', ''scan:run'', ''finding:read'', ''finding:triage'',
      ''report:read'']"
| "ROLE_PERMISSIONS Auditor =
     [''org:read'', ''asset:read'', ''scan:read'', ''finding:read'', ''policy:read'', ''report:read'']"

record principal =
  p_userId :: string
  p_orgId :: string
  p_role :: role
  p_permissions :: "string list"
  p_serviceAccount :: "string option"
  p_traceId :: string

lemma parse_role_str [simp]: "parse_role (role_str r) = Some r"
  by (cases r) (simp_all add: parse_role_def)

lemma parse_role_Some: "parse_role s = Some r \<longleftrightarrow> s = role_str r"
proof
  assume "parse_role s = Some r"
  then have "role_str r = s" unfolding parse_role_def by (auto simp only: find_Some_iff)
  then show "s = role_str r" by simp
qed simp

lemma role_str_inj [simp]: "role_str r = role_str r' \<longleftrightarrow> r = r'"
proof
  assume "role_str r = role_str r'"
  then have "Some r = Some r'" by (rule box_equals[OF arg_cong[where f = parse_role] parse_role_str parse_role_str])
  then show "r = r'" by simp
qed simp

lemma role_str_owner: "role_str r = ''owner'' \<longleftrightarrow> r = Owner"
  by (cases r) simp_all


section \<open>Rows and errors\<close>

record user_row =
  u_id :: ident
  u_email :: string
  u_name :: string
  u_sub :: string
  u_disabledAt :: "instant option"

record membership_row =
  m_org :: ident
  m_user :: ident
  m_role :: string
  m_disabledAt :: "instant option"
  m_viaSignup :: bool
  m_createdAt :: instant

record invite_row =
  iv_id :: ident
  iv_org :: ident
  iv_email :: string
  iv_role :: string
  iv_tokenHash :: string
  iv_invitedBy :: ident
  iv_expiresAt :: instant
  iv_acceptedAt :: "instant option"
  iv_createdAt :: instant

record org_row =
  o_id :: ident
  o_name :: string
  o_slug :: string
  o_plan :: string

record org_policy =
  op_org :: ident
  op_name :: string
  op_rule :: policy_rule
  op_slaHours :: nat

record identity_db =
  id_users :: "user_row list"
  id_memberships :: "membership_row list"
  id_invites :: "invite_row list"
  id_orgs :: "org_row list"
  id_policies :: "org_policy list"

text \<open>The \<^verbatim>\<open>meta\<close> of a Prisma error: a value that is missing or null, a string, an array (an entry that
  is not a string is \<^term>\<open>None\<close>), or anything else.\<close>

datatype meta_val = Mv_nullish | Mv_str string | Mv_arr "string option list" | Mv_other

record unique_meta =
  target :: meta_val
  modelName :: meta_val
  index_name :: meta_val

datatype id_error =
    BadRequestEx string
  | UnauthorizedEx string
  | ForbiddenEx string
  | NotFoundEx string
  | ConflictEx string
  | P2002 "unique_meta option"
  | Other_error string

definition membership_of :: "ident \<Rightarrow> ident \<Rightarrow> identity_db \<Rightarrow> membership_row option" where
  "membership_of org user db =
     find (\<lambda>m. m_org m = org \<and> m_user m = user) (id_memberships db)"

definition update_membership ::
    "ident \<Rightarrow> ident \<Rightarrow> (membership_row \<Rightarrow> membership_row) \<Rightarrow> identity_db \<Rightarrow> identity_db" where
  "update_membership org user g db =
     db\<lparr>id_memberships :=
          map (\<lambda>m. if m_org m = org \<and> m_user m = user then g m else m) (id_memberships db)\<rparr>"

definition user_by_email :: "string \<Rightarrow> identity_db \<Rightarrow> user_row option" where
  "user_by_email email db = find (\<lambda>u. u_email u = email) (id_users db)"

definition user_by_sub :: "string \<Rightarrow> identity_db \<Rightarrow> user_row option" where
  "user_by_sub sub db = find (\<lambda>u. u_sub u = sub) (id_users db)"

text \<open>\<^verbatim>\<open>findFirst\<close> ordered by \<^verbatim>\<open>createdAt\<close>, newest first.\<close>

definition newest_invite :: "(invite_row \<Rightarrow> bool) \<Rightarrow> identity_db \<Rightarrow> invite_row option" where
  "newest_invite P db =
     (case sort_key (\<lambda>i. - iv_createdAt i) (filter P (id_invites db)) of [] \<Rightarrow> None | i # _ \<Rightarrow> Some i)"

definition update_invite ::
    "ident \<Rightarrow> ident \<Rightarrow> (invite_row \<Rightarrow> invite_row) \<Rightarrow> identity_db \<Rightarrow> identity_db" where
  "update_invite org i g db =
     db\<lparr>id_invites := map (\<lambda>v. if iv_org v = org \<and> iv_id v = i then g v else v) (id_invites db)\<rparr>"


section \<open>Managing members (org.service.ts)\<close>

definition INVITE_TTL_MS :: int where
  "INVITE_TTL_MS = 14 * 24 * 60 * 60 * 1000"

definition INVITE_PREFIX :: string where
  "INVITE_PREFIX = ''ctem_inv_''"

definition assertOwnerRoleChange :: "role \<Rightarrow> string \<Rightarrow> role \<Rightarrow> id_error option" where
  "assertOwnerRoleChange actorRole from_role to_role =
     (if to_role = Owner \<and> actorRole \<noteq> Owner
      then Some (ForbiddenEx ''Only an owner can grant ownership'')
      else if from_role = ''owner'' \<and> to_role \<noteq> Owner \<and> actorRole \<noteq> Owner
      then Some (ForbiddenEx ''Only an owner can revoke ownership'')
      else None)"

definition active_owner :: "ident \<Rightarrow> membership_row \<Rightarrow> bool" where
  "active_owner org m = (m_org m = org \<and> m_role m = ''owner'' \<and> m_disabledAt m = None)"

definition assertNotLastActiveOwner :: "ident \<Rightarrow> identity_db \<Rightarrow> id_error option" where
  "assertNotLastActiveOwner org db =
     (if length (filter (active_owner org) (id_memberships db)) \<le> 1
      then Some (ForbiddenEx ''Cannot modify the last owner'') else None)"

text \<open>The member list of the organisation, oldest membership first; the foreign key gives every
  membership its user.\<close>

record member_view =
  mv_userId :: ident
  mv_email :: string
  mv_name :: string
  mv_role :: string
  mv_disabledAt :: "instant option"
  mv_createdAt :: instant

definition members :: "ident \<Rightarrow> identity_db \<Rightarrow> member_view list" where
  "members org db =
     List.map_filter
       (\<lambda>m. map_option
              (\<lambda>u. \<lparr>mv_userId = m_user m, mv_email = u_email u, mv_name = u_name u, mv_role = m_role m,
                    mv_disabledAt = m_disabledAt m, mv_createdAt = m_createdAt m\<rparr>)
              (find (\<lambda>u. u_id u = m_user m) (id_users db)))
       (sort_key m_createdAt (filter (\<lambda>m. m_org m = org) (id_memberships db)))"

text \<open>The reads and guards of \<^verbatim>\<open>setRole\<close>, and its write.\<close>

definition setRole_checks ::
    "(string \<Rightarrow> bool) \<Rightarrow> ident \<Rightarrow> principal \<Rightarrow> ident \<Rightarrow> role \<Rightarrow> identity_db \<Rightarrow> id_error option" where
  "setRole_checks uuid_ok org actor user r db =
     (if \<not> uuid_ok user then Some (BadRequestEx ''Invalid user id'')
      else case membership_of org user db of
             None \<Rightarrow> Some (NotFoundEx ''Member not found'')
           | Some m \<Rightarrow>
               (case assertOwnerRoleChange (p_role actor) (m_role m) r of
                  Some e \<Rightarrow> Some e
                | None \<Rightarrow>
                    if m_role m = ''owner'' \<and> r \<noteq> Owner then assertNotLastActiveOwner org db else None))"

definition setRole_write :: "ident \<Rightarrow> ident \<Rightarrow> role \<Rightarrow> identity_db \<Rightarrow> identity_db" where
  "setRole_write org user r db = update_membership org user (\<lambda>m. m\<lparr>m_role := role_str r\<rparr>) db"

definition setRole ::
    "(string \<Rightarrow> bool) \<Rightarrow> ident \<Rightarrow> principal \<Rightarrow> ident \<Rightarrow> role \<Rightarrow> identity_db
       \<Rightarrow> identity_db \<times> (id_error + membership_row option)" where
  "setRole uuid_ok org actor user r db =
     (case setRole_checks uuid_ok org actor user r db of
        Some e \<Rightarrow> (db, Inl e)
      | None \<Rightarrow> (let db1 = setRole_write org user r db in (db1, Inr (membership_of org user db1))))"

text \<open>\<^verbatim>\<open>disable\<close> answers a membership that is already disabled as it is: the guards return the row to
  answer at once, or the go-ahead to write.\<close>

definition disable_checks ::
    "(string \<Rightarrow> bool) \<Rightarrow> ident \<Rightarrow> principal \<Rightarrow> ident \<Rightarrow> identity_db
       \<Rightarrow> id_error + membership_row option" where
  "disable_checks uuid_ok org actor user db =
     (if \<not> uuid_ok user then Inl (BadRequestEx ''Invalid user id'')
      else case membership_of org user db of
             None \<Rightarrow> Inl (NotFoundEx ''Member not found'')
           | Some m \<Rightarrow>
               if m_disabledAt m \<noteq> None then Inr (Some m)
               else if m_role m = ''owner''
               then (if p_role actor \<noteq> Owner
                     then Inl (ForbiddenEx ''Only an owner can revoke ownership'')
                     else (case assertNotLastActiveOwner org db of
                             Some e \<Rightarrow> Inl e
                           | None \<Rightarrow> Inr None))
               else Inr None)"

definition disable_write :: "instant \<Rightarrow> ident \<Rightarrow> ident \<Rightarrow> identity_db \<Rightarrow> identity_db" where
  "disable_write now org user db = update_membership org user (\<lambda>m. m\<lparr>m_disabledAt := Some now\<rparr>) db"

definition disable_member ::
    "(string \<Rightarrow> bool) \<Rightarrow> instant \<Rightarrow> ident \<Rightarrow> principal \<Rightarrow> ident \<Rightarrow> identity_db
       \<Rightarrow> identity_db \<times> (id_error + membership_row option)" where
  "disable_member uuid_ok now org actor user db =
     (case disable_checks uuid_ok org actor user db of
        Inl e \<Rightarrow> (db, Inl e)
      | Inr (Some m) \<Rightarrow> (db, Inr (Some m))
      | Inr None \<Rightarrow>
          (let db1 = disable_write now org user db in (db1, Inr (membership_of org user db1))))"

text \<open>An invite refreshes the newest invite of the address that is still pending, or adds one.\<close>

record invite_answer =
  ia_email :: string
  ia_role :: role
  ia_expiresAt :: instant
  ia_token :: string

definition invite ::
    "(string \<Rightarrow> bool) \<Rightarrow> (string \<Rightarrow> string) \<Rightarrow> instant \<Rightarrow> ident \<Rightarrow> string \<Rightarrow> ident \<Rightarrow> principal
       \<Rightarrow> string \<Rightarrow> role \<Rightarrow> identity_db \<Rightarrow> identity_db \<times> (id_error + invite_answer)" where
  "invite uuid_ok sha256 now new_id rnd org actor email0 r db =
     (if \<not> uuid_ok (p_userId actor) then (db, Inl (BadRequestEx ''Only a human member can invite''))
      else if r = Owner \<and> p_role actor \<noteq> Owner
      then (db, Inl (ForbiddenEx ''Only an owner can grant ownership''))
      else
        let email = js_lower (js_trim email0);
            token = INVITE_PREFIX @ rnd;
            expiresAt = now + INVITE_TTL_MS;
            member = (case user_by_email email db of
                        None \<Rightarrow> False
                      | Some u \<Rightarrow> (case membership_of org (u_id u) db of
                                    None \<Rightarrow> False
                                  | Some m \<Rightarrow> m_disabledAt m = None));
            fill = (\<lambda>v. v\<lparr>iv_email := email, iv_role := role_str r, iv_tokenHash := sha256 token,
                          iv_invitedBy := p_userId actor, iv_expiresAt := expiresAt,
                          iv_acceptedAt := None\<rparr>)
        in if member then (db, Inl (ConflictEx ''User is already a member of this organization''))
           else
             ((case newest_invite
                      (\<lambda>v. iv_org v = org \<and> iv_email v = email \<and> iv_acceptedAt v = None) db of
                 Some pending \<Rightarrow> update_invite org (iv_id pending) fill db
               | None \<Rightarrow>
                   db\<lparr>id_invites := id_invites db @
                        [\<lparr>iv_id = new_id, iv_org = org, iv_email = email, iv_role = role_str r,
                          iv_tokenHash = sha256 token, iv_invitedBy = p_userId actor,
                          iv_expiresAt = expiresAt, iv_acceptedAt = None, iv_createdAt = now\<rparr>]\<rparr>),
              Inr \<lparr>ia_email = email, ia_role = r, ia_expiresAt = expiresAt, ia_token = token\<rparr>))"


section \<open>Resolving a login (org.service.ts)\<close>

definition update_user :: "ident \<Rightarrow> user_row \<Rightarrow> identity_db \<Rightarrow> identity_db" where
  "update_user i u db = db\<lparr>id_users := map (\<lambda>v. if u_id v = i then u else v) (id_users db)\<rparr>"

definition upsertUserFromClaims ::
    "ident \<Rightarrow> string \<Rightarrow> string option \<Rightarrow> string option \<Rightarrow> identity_db
       \<Rightarrow> identity_db \<times> (id_error + user_row)" where
  "upsertUserFromClaims new_id sub email0 name0 db =
     (let email = (case email0 of None \<Rightarrow> [] | Some e \<Rightarrow> js_lower (js_trim e));
          name = (case name0 of None \<Rightarrow> [] | Some n \<Rightarrow> js_trim n)
      in case user_by_sub sub db of
           Some existing \<Rightarrow>
             (let u1 = (if email \<noteq> [] \<and> email \<noteq> u_email existing \<and> user_by_email email db = None
                        then existing\<lparr>u_email := email\<rparr> else existing);
                  u2 = (if name \<noteq> [] \<and> name \<noteq> u_name existing then u1\<lparr>u_name := name\<rparr> else u1)
              in if u2 = existing then (db, Inr existing)
                 else (update_user (u_id existing) u2 db, Inr u2))
         | None \<Rightarrow>
             if email = [] then (db, Inl (ForbiddenEx ''No organization membership''))
             else if user_by_email email db \<noteq> None
             then (db, Inl (ForbiddenEx ''No organization membership''))
             else
               (let u = \<lparr>u_id = new_id, u_email = email,
                         u_name = (if name \<noteq> [] then name else hd (split_on CHR ''@'' email)),
                         u_sub = sub, u_disabledAt = None\<rparr>
                in (db\<lparr>id_users := id_users db @ [u]\<rparr>, Inr u)))"

definition acceptPendingInvite ::
    "instant \<Rightarrow> ident \<Rightarrow> user_row \<Rightarrow> membership_row option \<Rightarrow> identity_db
       \<Rightarrow> identity_db \<times> membership_row option" where
  "acceptPendingInvite now org user existing db =
     (case newest_invite
             (\<lambda>v. iv_org v = org \<and> iv_email v = js_lower (u_email user) \<and> iv_acceptedAt v = None \<and>
                  now < iv_expiresAt v) db of
        None \<Rightarrow> (db, existing)
      | Some v \<Rightarrow>
          (case parse_role (iv_role v) of
             None \<Rightarrow> (db, existing)
           | Some r \<Rightarrow>
               let db1 = update_invite org (iv_id v) (\<lambda>w. w\<lparr>iv_acceptedAt := Some now\<rparr>) db
               in (case existing of
                     Some m0 \<Rightarrow>
                       (let db2 = update_membership org (u_id user)
                                    (\<lambda>m. m\<lparr>m_role := role_str r, m_disabledAt := None,
                                           m_viaSignup := False\<rparr>) db1
                        in (db2, membership_of org (u_id user) db2))
                   | None \<Rightarrow>
                       (let m = \<lparr>m_org = org, m_user = u_id user, m_role = role_str r,
                                 m_disabledAt = None, m_viaSignup = False, m_createdAt = now\<rparr>
                        in (db1\<lparr>id_memberships := id_memberships db1 @ [m]\<rparr>, Some m)))))"

text \<open>\<^verbatim>\<open>resolveJwt\<close>: the user row persists whatever happens; the acceptance of an invite is rolled back
  when the transaction throws.\<close>

definition resolve_tx ::
    "instant \<Rightarrow> ident \<Rightarrow> user_row \<Rightarrow> identity_db \<Rightarrow> identity_db \<times> (id_error + (ident \<times> ident \<times> role))" where
  "resolve_tx now org user db =
     (let existing = membership_of org (u_id user) db;
          r = (case existing of
                 None \<Rightarrow> acceptPendingInvite now org user existing db
               | Some m \<Rightarrow>
                   if m_disabledAt m \<noteq> None then acceptPendingInvite now org user existing db
                   else (db, existing))
      in case snd r of
           None \<Rightarrow> (db, Inl (ForbiddenEx ''No organization membership''))
         | Some m \<Rightarrow>
             if m_disabledAt m \<noteq> None then (db, Inl (ForbiddenEx ''No organization membership''))
             else (case parse_role (m_role m) of
                     None \<Rightarrow> (db, Inl (ForbiddenEx ''No organization membership''))
                   | Some ro \<Rightarrow> (fst r, Inr (u_id user, org, ro))))"

definition resolveJwt ::
    "instant \<Rightarrow> ident \<Rightarrow> string \<Rightarrow> ident \<Rightarrow> string option \<Rightarrow> string option \<Rightarrow> identity_db
       \<Rightarrow> identity_db \<times> (id_error + (ident \<times> ident \<times> role))" where
  "resolveJwt now new_id sub org email name db =
     (case upsertUserFromClaims new_id sub email name db of
        (db1, Inl e) \<Rightarrow> (db1, Inl e)
      | (db1, Inr user) \<Rightarrow>
          if u_disabledAt user \<noteq> None then (db1, Inl (ForbiddenEx ''No organization membership''))
          else resolve_tx now org user db1)"

definition readActiveMemberships :: "(string \<Rightarrow> bool) \<Rightarrow> ident \<Rightarrow> identity_db \<Rightarrow> (ident \<times> role) list" where
  "readActiveMemberships uuid_ok user db =
     (if \<not> uuid_ok user then []
      else List.map_filter
             (\<lambda>m. if uuid_ok (m_org m) then map_option (Pair (m_org m)) (parse_role (m_role m)) else None)
             (filter (\<lambda>m. m_user m = user \<and> m_disabledAt m = None) (id_memberships db)))"

definition resolveActiveMemberships ::
    "(string \<Rightarrow> bool) \<Rightarrow> ident \<Rightarrow> string \<Rightarrow> string option \<Rightarrow> string option \<Rightarrow> identity_db
       \<Rightarrow> identity_db \<times> (id_error + (ident \<times> (ident \<times> role) list))" where
  "resolveActiveMemberships uuid_ok new_id sub email name db =
     (case upsertUserFromClaims new_id sub email name db of
        (db1, Inl e) \<Rightarrow> (db1, Inl e)
      | (db1, Inr user) \<Rightarrow>
          if u_disabledAt user \<noteq> None then (db1, Inl (ForbiddenEx ''No organization membership''))
          else (db1, Inr (u_id user, readActiveMemberships uuid_ok (u_id user) db1)))"


section \<open>Unique violations (org.service.ts)\<close>

definition SIGNUP_MEMBERSHIP_INDEX :: string where
  "SIGNUP_MEMBERSHIP_INDEX = ''memberships_userId_signup_active_key''"

fun targetParts :: "meta_val \<Rightarrow> string list" where
  "targetParts (Mv_str s) = [s]"
| "targetParts (Mv_arr parts) = List.map_filter id parts"
| "targetParts Mv_nullish = []"
| "targetParts Mv_other = []"

definition is_alnum :: "char \<Rightarrow> bool" where
  "is_alnum c = (is_digit c \<or> is_upper c \<or> is_lower c)"

text \<open>\<^verbatim>\<open>s.split(/[^A-Za-z0-9]+/)\<close>: a maximal run of separators is one separator.\<close>

function split_runs :: "(char \<Rightarrow> bool) \<Rightarrow> string \<Rightarrow> string list" where
  "split_runs sep [] = [[]]"
| "split_runs sep (c # s) =
     (if sep c then [] # split_runs sep (dropWhile sep s)
      else (case split_runs sep s of [] \<Rightarrow> [[c]] | w # ws \<Rightarrow> (c # w) # ws))"
  by pat_completeness auto

termination
  by (relation "measure (\<lambda>(_, s). length s)") (auto simp: le_imp_less_Suc length_dropWhile_le)

definition namesToken :: "string list \<Rightarrow> string \<Rightarrow> bool" where
  "namesToken names token =
     list_ex (\<lambda>name. name = token \<or> token \<in> set (split_runs (\<lambda>c. \<not> is_alnum c) name)) names"

definition isMembershipModel :: "unique_meta option \<Rightarrow> bool" where
  "isMembershipModel meta =
     (case meta of
        None \<Rightarrow> False
      | Some m \<Rightarrow> modelName m = Mv_str ''Membership'' \<or> modelName m = Mv_str ''memberships'')"

definition meta_target :: "unique_meta option \<Rightarrow> meta_val" where
  "meta_target meta = (case meta of None \<Rightarrow> Mv_nullish | Some m \<Rightarrow> target m)"

definition namesExplicitSignup :: "unique_meta option \<Rightarrow> string list \<Rightarrow> bool" where
  "namesExplicitSignup meta names =
     (if list_ex (\<lambda>name. name = SIGNUP_MEMBERSHIP_INDEX \<or> has_infix SIGNUP_MEMBERSHIP_INDEX name) names
      then True
      else if ''memberships.userId'' \<in> set names then True
      else isMembershipModel meta \<and> targetParts (meta_target meta) = [''userId''])"

definition membershipTargetUnresolvable :: "unique_meta option \<Rightarrow> bool" where
  "membershipTargetUnresolvable meta =
     (if \<not> isMembershipModel meta then False
      else if meta_target meta = Mv_nullish then True
      else targetParts (meta_target meta) = [])"

datatype create_org_mapping = Map_conflict string | Recheck_active_signup

definition SLUG_TAKEN :: string where
  "SLUG_TAKEN = ''Organization slug is already taken''"

definition ALREADY_IN_ORG :: string where
  "ALREADY_IN_ORG = ''User already belongs to an organization''"

definition violated_names :: "unique_meta option \<Rightarrow> string list" where
  "violated_names meta =
     (case meta of None \<Rightarrow> [] | Some m \<Rightarrow> targetParts (target m) @ targetParts (index_name m))"

fun mapCreateOrgUniqueViolation :: "id_error \<Rightarrow> create_org_mapping option" where
  "mapCreateOrgUniqueViolation (P2002 meta) =
     (let names = violated_names meta
      in if namesToken names ''slug'' then Some (Map_conflict SLUG_TAKEN)
         else if namesExplicitSignup meta names then Some (Map_conflict ALREADY_IN_ORG)
         else if membershipTargetUnresolvable meta then Some Recheck_active_signup
         else Some (Map_conflict ''Conflict''))"
| "mapCreateOrgUniqueViolation err = None"

text \<open>The read happens only when the mapping asks for it: the second component says whether it did.\<close>

definition resolveCreateOrgUniqueViolation :: "id_error \<Rightarrow> bool \<Rightarrow> id_error option \<times> bool" where
  "resolveCreateOrgUniqueViolation err active =
     (case mapCreateOrgUniqueViolation err of
        None \<Rightarrow> (None, False)
      | Some (Map_conflict msg) \<Rightarrow> (Some (ConflictEx msg), False)
      | Some Recheck_active_signup \<Rightarrow>
          (Some (ConflictEx (if active then ALREADY_IN_ORG else ''Conflict'')), True))"


section \<open>Creating an organisation (org.service.ts)\<close>

definition slug_char :: "char \<Rightarrow> bool" where
  "slug_char c = (is_lower c \<or> is_digit c \<or> c = CHR ''-'')"

definition parse_create_org :: "string \<Rightarrow> string \<Rightarrow> (string \<times> string) option" where
  "parse_create_org name slug =
     (let n = js_trim name
      in if 1 \<le> length n \<and> length n \<le> 80 \<and> 3 \<le> length slug \<and> length slug \<le> 40 \<and> list_all slug_char slug
         then Some (n, slug) else None)"

definition no_condition :: policy_condition where
  "no_condition =
     \<lparr>severityAtLeast = None, minRiskScore = None, kevOnly = None, minEpss = None,
      requireFixAvailable = None, scannerTypes = None, assetKinds = None, assetTags = None,
      exposureIn = None, criticalityIn = None\<rparr>"

definition default_policies :: "ident \<Rightarrow> org_policy list" where
  "default_policies org =
     [\<lparr>op_org = org, op_name = ''Internet-facing critical'',
       op_rule = \<lparr>enabled = Some True, priority = 10,
                  condition = no_condition\<lparr>severityAtLeast := Some ''critical'',
                                           exposureIn := Some [''internet_facing'']\<rparr>,
                  actions = [''notify'', ''ticket'', ''block_deploy'']\<rparr>,
       op_slaHours = 24\<rparr>,
      \<lparr>op_org = org, op_name = ''Known exploited vulnerabilities'',
       op_rule = \<lparr>enabled = Some True, priority = 20,
                  condition = no_condition\<lparr>kevOnly := Some True\<rparr>,
                  actions = [''notify'', ''ticket'']\<rparr>,
       op_slaHours = 168\<rparr>,
      \<lparr>op_org = org, op_name = ''High severity with a fix'',
       op_rule = \<lparr>enabled = Some True, priority = 50,
                  condition = no_condition\<lparr>severityAtLeast := Some ''high'',
                                           requireFixAvailable := Some True\<rparr>,
                  actions = [''ticket'', ''fail_build'']\<rparr>,
       op_slaHours = 336\<rparr>]"

definition active_signup :: "ident \<Rightarrow> membership_row \<Rightarrow> bool" where
  "active_signup user m = (m_user m = user \<and> m_viaSignup m \<and> m_disabledAt m = None)"

text \<open>The inserts of \<^verbatim>\<open>createOrg\<close>, under the primary key and the unique slug of \<^verbatim>\<open>organizations\<close> and the
  primary key and the partial unique index of \<^verbatim>\<open>memberships\<close>.\<close>

definition createOrg ::
    "(string \<Rightarrow> unique_meta option) \<Rightarrow> instant \<Rightarrow> ident \<Rightarrow> string \<Rightarrow> string \<Rightarrow> ident \<Rightarrow> identity_db
       \<Rightarrow> id_error + (identity_db \<times> org_row)" where
  "createOrg report now org name slug owner db =
     (if org \<in> o_id ` set (id_orgs db) then Inl (P2002 (report ''organizations_pkey''))
      else if slug \<in> o_slug ` set (id_orgs db) then Inl (P2002 (report ''organizations_slug_key''))
      else if membership_of org owner db \<noteq> None then Inl (P2002 (report ''memberships_pkey''))
      else if list_ex (active_signup owner) (id_memberships db)
      then Inl (P2002 (report SIGNUP_MEMBERSHIP_INDEX))
      else
        let o1 = \<lparr>o_id = org, o_name = name, o_slug = slug, o_plan = ''trial''\<rparr>
        in Inr (db\<lparr>id_orgs := id_orgs db @ [o1],
                   id_memberships := id_memberships db @
                     [\<lparr>m_org = org, m_user = owner, m_role = ''owner'', m_disabledAt = None,
                       m_viaSignup = True, m_createdAt = now\<rparr>],
                   id_policies := id_policies db @ default_policies org\<rparr>, o1))"

definition createOrg_tx ::
    "(string \<Rightarrow> bool) \<Rightarrow> (string \<Rightarrow> unique_meta option) \<Rightarrow> instant \<Rightarrow> ident \<Rightarrow> string \<Rightarrow> string \<Rightarrow> ident
       \<Rightarrow> identity_db \<Rightarrow> id_error + (identity_db \<times> org_row)" where
  "createOrg_tx uuid_ok report now org name slug user db =
     (if readActiveMemberships uuid_ok user db \<noteq> [] then Inl (ConflictEx ALREADY_IN_ORG)
      else createOrg report now org name slug user db)"

definition hasActiveSignupMembership :: "ident \<Rightarrow> identity_db \<Rightarrow> bool" where
  "hasActiveSignupMembership user db = list_ex (active_signup user) (id_memberships db)"

definition createOrgForSubject ::
    "(string \<Rightarrow> bool) \<Rightarrow> (string \<Rightarrow> unique_meta option) \<Rightarrow> instant \<Rightarrow> ident \<Rightarrow> string \<Rightarrow> string \<Rightarrow> string
       \<Rightarrow> identity_db \<Rightarrow> identity_db \<times> (id_error + org_row)" where
  "createOrgForSubject uuid_ok report now org sub name slug db =
     (case parse_create_org name slug of
        None \<Rightarrow> (db, Inl (BadRequestEx ''Validation failed''))
      | Some (n, s) \<Rightarrow>
          (case user_by_sub sub db of
             None \<Rightarrow> (db, Inl (ForbiddenEx ''No organization''))
           | Some u \<Rightarrow>
               if u_disabledAt u \<noteq> None then (db, Inl (ForbiddenEx ''No organization''))
               else
                 (case createOrg_tx uuid_ok report now org n s (u_id u) db of
                    Inr (db1, o1) \<Rightarrow> (db1, Inr o1)
                  | Inl (ConflictEx e) \<Rightarrow> (db, Inl (ConflictEx e))
                  | Inl (ForbiddenEx e) \<Rightarrow> (db, Inl (ForbiddenEx e))
                  | Inl err \<Rightarrow>
                      (case fst (resolveCreateOrgUniqueViolation err
                                   (hasActiveSignupMembership (u_id u) db)) of
                         Some conflict \<Rightarrow> (db, Inl conflict)
                       | None \<Rightarrow> (db, Inl err)))))"

end
