(* ===== verification/Membership.thy ===== *)
theory Membership
imports Identity
begin

text \<open>
  What the membership service promises over any sequence of its requests: an organisation keeps an
  active owner, ownership comes from an owner only, a login takes its role from an active membership
  and from nothing else, one sign-up organisation per user; and where two requests that overlap
  break the first of these.
\<close>


section \<open>Requests and their runs\<close>

text \<open>A request carries the instant at which it runs and the values drawn for it. The organisation of
  a member request is the one of the caller's principal, as the controllers bind it.\<close>

datatype id_request =
    Rq_set_role principal ident role
  | Rq_disable instant principal ident
  | Rq_invite instant ident string principal string role
  | Rq_login instant ident string ident "string option" "string option"
  | Rq_lookup ident string "string option" "string option"
  | Rq_create instant ident string string string

record id_env =
  e_uuid_ok :: "string \<Rightarrow> bool"
  e_sha256 :: "string \<Rightarrow> string"
  e_report :: "string \<Rightarrow> unique_meta option"

fun run_request :: "id_env \<Rightarrow> id_request \<Rightarrow> identity_db \<Rightarrow> identity_db" where
  "run_request e (Rq_set_role actor user r) db =
     fst (setRole (e_uuid_ok e) (p_orgId actor) actor user r db)"
| "run_request e (Rq_disable now actor user) db =
     fst (disable_member (e_uuid_ok e) now (p_orgId actor) actor user db)"
| "run_request e (Rq_invite now i token actor email r) db =
     fst (invite (e_uuid_ok e) (e_sha256 e) now i token (p_orgId actor) actor email r db)"
| "run_request e (Rq_login now i sub org email name) db = fst (resolveJwt now i sub org email name db)"
| "run_request e (Rq_lookup i sub email name) db =
     fst (resolveActiveMemberships (e_uuid_ok e) i sub email name db)"
| "run_request e (Rq_create now org sub name slug) db =
     fst (createOrgForSubject (e_uuid_ok e) (e_report e) now org sub name slug db)"

fun run_requests :: "id_env \<Rightarrow> id_request list \<Rightarrow> identity_db \<Rightarrow> identity_db" where
  "run_requests e [] db = db"
| "run_requests e (r # rs) db = run_requests e rs (run_request e r db)"

definition mkey :: "membership_row \<Rightarrow> ident \<times> ident" where
  "mkey m = (m_org m, m_user m)"

text \<open>The primary key of \<^verbatim>\<open>memberships\<close>.\<close>

definition keys_ok :: "identity_db \<Rightarrow> bool" where
  "keys_ok db = distinct (map mkey (id_memberships db))"

definition has_owner :: "ident \<Rightarrow> identity_db \<Rightarrow> bool" where
  "has_owner org db = (\<exists>m \<in> set (id_memberships db). active_owner org m)"


section \<open>What each operation does to the memberships\<close>

lemma membership_of_Some:
  "membership_of org user db = Some m \<Longrightarrow> m \<in> set (id_memberships db) \<and> m_org m = org \<and> m_user m = user"
  unfolding membership_of_def by (auto simp: find_Some_iff)

lemma membership_of_None:
  "membership_of org user db = None \<longleftrightarrow> (org, user) \<notin> mkey ` set (id_memberships db)"
  unfolding membership_of_def by (auto simp: find_None_iff mkey_def)

lemma membership_of_unique:
  assumes "keys_ok db" and "membership_of org user db = Some m"
    and "n \<in> set (id_memberships db)" and "m_org n = org" and "m_user n = user"
  shows "n = m"
proof -
  have "mkey n = mkey m" using membership_of_Some[OF assms(2)] assms(4,5) by (simp add: mkey_def)
  then show ?thesis
    using assms(1) membership_of_Some[OF assms(2)] assms(3) unfolding keys_ok_def
    by (meson distinct_map inj_onD)
qed

text \<open>Every request leaves the memberships alone, changes the row of one key, or adds a row with a new
  key.\<close>

inductive member_change :: "membership_row list \<Rightarrow> membership_row list \<Rightarrow> bool" where
  Same: "member_change ms ms"
| Changed: "\<lbrakk>m \<in> set ms; mkey (g m) = mkey m; \<And>n. mkey (g n) = mkey n\<rbrakk> \<Longrightarrow>
     member_change ms (map (\<lambda>n. if m_org n = m_org m \<and> m_user n = m_user m then g n else n) ms)"
| Added: "mkey m \<notin> mkey ` set ms \<Longrightarrow> member_change ms (ms @ [m])"

lemma update_membership_change:
  assumes "membership_of org user db = Some m" and "\<And>n. mkey (g n) = mkey n"
  shows "member_change (id_memberships db) (id_memberships (update_membership org user g db))"
  using Changed[of m "id_memberships db" g] membership_of_Some[OF assms(1)] assms(2)
  by (simp add: update_membership_def)

lemma upsert_memberships [simp]:
  "id_memberships (fst (upsertUserFromClaims i sub email name db)) = id_memberships db"
  unfolding upsertUserFromClaims_def Let_def update_user_def
  by (simp split: option.split)

lemma upsert_invites [simp]:
  "id_invites (fst (upsertUserFromClaims i sub email name db)) = id_invites db"
  unfolding upsertUserFromClaims_def Let_def update_user_def
  by (simp split: option.split)

lemma invite_memberships [simp]:
  "id_memberships (fst (invite ok h now i token org actor email r db)) = id_memberships db"
  unfolding invite_def Let_def update_invite_def
  by (simp split: option.split)

lemma newest_invite_Some:
  "newest_invite P db = Some v \<Longrightarrow> v \<in> set (id_invites db) \<and> P v"
proof -
  assume "newest_invite P db = Some v"
  then obtain vs where "sort_key (\<lambda>i. - iv_createdAt i) (filter P (id_invites db)) = v # vs"
    unfolding newest_invite_def by (auto split: list.splits)
  then have "v \<in> set (filter P (id_invites db))" by (metis list.set_intros(1) set_sort)
  then show ?thesis by simp
qed

text \<open>Accepting an invite: nothing, or one pending invite of the address is consumed and its role
  given to the user.\<close>

lemma acceptPendingInvite_cases [consumes 1, case_names none accepted]:
  assumes "acceptPendingInvite now org u ex db = (db', m')"
    and "db' = db \<Longrightarrow> m' = ex \<Longrightarrow> Q"
    and "\<And>v r db1. \<lbrakk>v \<in> set (id_invites db); iv_org v = org; iv_email v = js_lower (u_email u);
           iv_acceptedAt v = None; now < iv_expiresAt v; iv_role v = role_str r;
           db1 = update_invite org (iv_id v) (\<lambda>w. w\<lparr>iv_acceptedAt := Some now\<rparr>) db;
           db' = (if ex = None
                  then db1\<lparr>id_memberships := id_memberships db1 @
                         [\<lparr>m_org = org, m_user = u_id u, m_role = role_str r, m_disabledAt = None,
                           m_viaSignup = False, m_createdAt = now\<rparr>]\<rparr>
                  else update_membership org (u_id u)
                         (\<lambda>m. m\<lparr>m_role := role_str r, m_disabledAt := None, m_viaSignup := False\<rparr>) db1);
           m' = (if ex = None
                 then Some \<lparr>m_org = org, m_user = u_id u, m_role = role_str r, m_disabledAt = None,
                           m_viaSignup = False, m_createdAt = now\<rparr>
                 else membership_of org (u_id u) db')\<rbrakk> \<Longrightarrow> Q"
  shows Q
proof (cases "newest_invite (\<lambda>v. iv_org v = org \<and> iv_email v = js_lower (u_email u) \<and>
                iv_acceptedAt v = None \<and> now < iv_expiresAt v) db")
  case None
  then show ?thesis using assms(1,2) by (simp add: acceptPendingInvite_def)
next
  case (Some v)
  note v = Some newest_invite_Some[OF Some]
  show ?thesis
  proof (cases "parse_role (iv_role v)")
    case None
    then show ?thesis using assms(1,2) v by (simp add: acceptPendingInvite_def)
  next
    case (Some r)
    then show ?thesis
      using assms(1) v by (intro assms(3)[of v r])
        (auto simp: acceptPendingInvite_def Let_def parse_role_Some split: option.splits)
  qed
qed

lemma update_invite_memberships [simp]:
  "id_memberships (update_invite org i g db) = id_memberships db"
  by (simp add: update_invite_def)

lemma membership_of_update_invite [simp]:
  "membership_of org user (update_invite org' i g db) = membership_of org user db"
  by (simp add: membership_of_def)

lemma setRole_change:
  "member_change (id_memberships db) (id_memberships (fst (setRole ok org actor user r db)))"
proof (cases "setRole_checks ok org actor user r db")
  case None
  then obtain m where "membership_of org user db = Some m"
    by (auto simp: setRole_checks_def split: if_splits option.splits)
  then show ?thesis
    using None update_membership_change by (simp add: setRole_def Let_def setRole_write_def mkey_def)
qed (simp add: setRole_def Same)

lemma disable_change:
  "member_change (id_memberships db) (id_memberships (fst (disable_member ok now org actor user db)))"
proof (cases "disable_checks ok org actor user db = Inr None")
  case True
  then obtain m where "membership_of org user db = Some m"
    by (auto simp: disable_checks_def split: if_splits option.splits)
  then show ?thesis
    using True update_membership_change
    by (simp add: disable_member_def Let_def disable_write_def mkey_def)
qed (auto simp: disable_member_def Same split: sum.splits option.splits)

lemma accept_change:
  assumes "ex = membership_of org (u_id u) db"
  shows "member_change (id_memberships db) (id_memberships (fst (acceptPendingInvite now org u ex db)))"
proof -
  obtain db' m' where r: "acceptPendingInvite now org u ex db = (db', m')" by fastforce
  from r have "member_change (id_memberships db) (id_memberships db')"
  proof (cases rule: acceptPendingInvite_cases)
    case none
    then show ?thesis by (simp add: Same)
  next
    case (accepted v r db1)
    show ?thesis
    proof (cases ex)
      case None
      then have "(org, u_id u) \<notin> mkey ` set (id_memberships db)"
        using assms membership_of_None by metis
      then show ?thesis using None accepted(7,8) by (simp add: Added mkey_def)
    next
      case (Some m)
      then have "membership_of org (u_id u) db1 = Some m" using assms accepted(7) by simp
      then show ?thesis
        using Some accepted(7,8) update_membership_change[of org "u_id u" db1 m]
        by (simp add: mkey_def)
    qed
  qed
  then show ?thesis using r by simp
qed

text \<open>A login changes the memberships as the acceptance does, or not at all, and accepts only when the
  user has no active membership.\<close>

lemma resolve_tx_db:
  "fst (resolve_tx now org u db) = db \<or>
   (let ex = membership_of org (u_id u) db in
    (case ex of None \<Rightarrow> True | Some m \<Rightarrow> m_disabledAt m \<noteq> None) \<and>
    fst (resolve_tx now org u db) = fst (acceptPendingInvite now org u ex db))"
  unfolding resolve_tx_def Let_def
  by (simp split: option.split)

lemma resolveJwt_db:
  "fst (resolveJwt now i sub org email name db) = fst (upsertUserFromClaims i sub email name db) \<or>
   (\<exists>u. snd (upsertUserFromClaims i sub email name db) = Inr u \<and> u_disabledAt u = None \<and>
        fst (resolveJwt now i sub org email name db) =
        fst (resolve_tx now org u (fst (upsertUserFromClaims i sub email name db))))"
  unfolding resolveJwt_def by (auto split: prod.splits sum.splits)

lemma login_db:
  obtains (kept) "fst (resolveJwt now i sub org email name db) = fst (upsertUserFromClaims i sub email name db)"
  | (accept) u db1 ex where "db1 = fst (upsertUserFromClaims i sub email name db)"
      and "ex = membership_of org (u_id u) db1"
      and "case ex of None \<Rightarrow> True | Some m \<Rightarrow> m_disabledAt m \<noteq> None"
      and "fst (resolveJwt now i sub org email name db) = fst (acceptPendingInvite now org u ex db1)"
  using resolveJwt_db[of now i sub org email name db] resolve_tx_db by (metis (no_types, lifting))

lemma lookup_db:
  "fst (resolveActiveMemberships ok i sub email name db) = fst (upsertUserFromClaims i sub email name db)"
  unfolding resolveActiveMemberships_def by (simp split: prod.split sum.split)

text \<open>Creating an organisation adds the owner's row, or changes nothing.\<close>

lemma createOrg_Inr:
  assumes "createOrg report now org name slug owner db = Inr (db', o1)"
  shows "org \<notin> o_id ` set (id_orgs db) \<and> slug \<notin> o_slug ` set (id_orgs db) \<and>
    membership_of org owner db = None \<and> \<not> list_ex (active_signup owner) (id_memberships db) \<and>
    o1 = \<lparr>o_id = org, o_name = name, o_slug = slug, o_plan = ''trial''\<rparr> \<and>
    db' = db\<lparr>id_orgs := id_orgs db @ [o1],
             id_memberships := id_memberships db @
               [\<lparr>m_org = org, m_user = owner, m_role = ''owner'', m_disabledAt = None,
                 m_viaSignup = True, m_createdAt = now\<rparr>],
             id_policies := id_policies db @ default_policies org\<rparr>"
  using assms unfolding createOrg_def by (auto simp: Let_def split: if_splits)

lemma createOrgForSubject_db:
  obtains (kept) "fst (createOrgForSubject ok report now org sub name slug db) = db"
  | (created) u n s o1 where "user_by_sub sub db = Some u" and "u_disabledAt u = None"
      and "readActiveMemberships ok (u_id u) db = []"
      and "createOrg report now org n s (u_id u) db =
             Inr (fst (createOrgForSubject ok report now org sub name slug db), o1)"
proof -
  show thesis
  proof (cases "fst (createOrgForSubject ok report now org sub name slug db) = db")
    case False
    then have "\<exists>u n s o1. user_by_sub sub db = Some u \<and> u_disabledAt u = None \<and>
        readActiveMemberships ok (u_id u) db = [] \<and>
        createOrg report now org n s (u_id u) db =
          Inr (fst (createOrgForSubject ok report now org sub name slug db), o1)"
      unfolding createOrgForSubject_def
      by (auto simp: createOrg_tx_def split: option.splits prod.splits if_splits sum.splits id_error.splits)
    then show thesis using created by blast
  qed (rule kept)
qed



section \<open>An organisation keeps an owner\<close>

lemma request_change: "member_change (id_memberships db) (id_memberships (run_request e r db))"
proof (cases r)
  case (Rq_login now i sub org email name)
  show ?thesis
  proof (cases rule: login_db[of now i sub org email name db])
    case kept
    then show ?thesis using Rq_login by (simp add: Same)
  next
    case (accept u db1 ex)
    then have "member_change (id_memberships db1) (id_memberships (run_request e r db))"
      using Rq_login accept_change[OF accept(2)] by simp
    then show ?thesis using accept(1) by simp
  qed
next
  case (Rq_create now org sub name slug)
  show ?thesis
  proof (cases rule: createOrgForSubject_db[of "e_uuid_ok e" "e_report e" now org sub name slug db])
    case kept
    then show ?thesis using Rq_create by (simp add: Same)
  next
    case (created u n s o1)
    have "(org, u_id u) \<notin> mkey ` set (id_memberships db)"
      using createOrg_Inr[OF created(4)] membership_of_None by metis
    then show ?thesis using Rq_create createOrg_Inr[OF created(4)] by (simp add: Added mkey_def)
  qed
qed (simp_all add: setRole_change disable_change Same lookup_db)

lemma member_change_keys:
  assumes "member_change ms ms'" and "distinct (map mkey ms)"
  shows "distinct (map mkey ms')"
  using assms
proof (induction rule: member_change.induct)
  case (Changed m ms g)
  have "map mkey (map (\<lambda>n. if m_org n = m_org m \<and> m_user n = m_user m then g n else n) ms) = map mkey ms"
    using Changed(3) by simp
  then show ?case using Changed(4) by (simp only:)
qed auto

lemma request_keys_ok: "keys_ok db \<Longrightarrow> keys_ok (run_request e r db)"
  unfolding keys_ok_def using request_change member_change_keys by blast

lemma requests_keys_ok: "keys_ok db \<Longrightarrow> keys_ok (run_requests e rs db)"
  by (induction rs arbitrary: db) (simp_all add: request_keys_ok)

text \<open>When more than one owner is active, another one than the given user is.\<close>

lemma another_owner:
  assumes "keys_ok db" and "assertNotLastActiveOwner org db = None"
  shows "\<exists>n \<in> set (id_memberships db). active_owner org n \<and> m_user n \<noteq> user"
proof (rule ccontr)
  assume no: "\<not> ?thesis"
  let ?os = "filter (active_owner org) (id_memberships db)"
  have "distinct (map mkey ?os)" using assms(1) by (simp add: keys_ok_def distinct_map_filter)
  moreover have "set (map mkey ?os) \<subseteq> {(org, user)}" using no by (auto simp: mkey_def active_owner_def)
  ultimately have "length ?os \<le> 1"
    by (metis card_mono card.empty card_insert_disjoint distinct_card empty_iff finite.intros length_map One_nat_def)
  then show False using assms(2) by (simp add: assertNotLastActiveOwner_def)
qed

lemma update_keeps_owner:
  assumes "keys_ok db" and "membership_of org user db = Some m" and "has_owner org' db"
    and "active_owner org m \<Longrightarrow>
       active_owner org (g m) \<or> (\<exists>n \<in> set (id_memberships db). active_owner org n \<and> m_user n \<noteq> user)"
  shows "has_owner org' (update_membership org user g db)"
proof -
  obtain n where n: "n \<in> set (id_memberships db)" "active_owner org' n"
    using assms(3) by (auto simp: has_owner_def)
  show ?thesis
  proof (cases "m_org n = org \<and> m_user n = user")
    case False
    then show ?thesis using n by (force simp: has_owner_def update_membership_def)
  next
    case True
    then have nm: "n = m" "org' = org"
      using membership_of_unique[OF assms(1,2) n(1)] n(2) by (auto simp: active_owner_def)
    then consider "active_owner org (g m)"
      | k where "k \<in> set (id_memberships db)" "active_owner org k" "m_user k \<noteq> user"
      using assms(4) n(2) by blast
    then show ?thesis
    proof cases
      case 1
      then show ?thesis using n(1) nm True by (force simp: has_owner_def update_membership_def)
    next
      case 2
      then show ?thesis using nm by (force simp: has_owner_def update_membership_def)
    qed
  qed
qed

lemma has_owner_same: "id_memberships db' = id_memberships db \<Longrightarrow> has_owner org db' = has_owner org db"
  by (simp add: has_owner_def)

lemma has_owner_append: "has_owner org db \<Longrightarrow> id_memberships db' = id_memberships db @ ms \<Longrightarrow> has_owner org db'"
  by (auto simp: has_owner_def)

lemma setRole_keeps_owner:
  assumes "keys_ok db" and "has_owner org' db"
  shows "has_owner org' (fst (setRole ok org actor user r db))"
proof (cases "setRole_checks ok org actor user r db")
  case None
  then obtain m where m: "membership_of org user db = Some m"
    and last: "m_role m = ''owner'' \<Longrightarrow> r \<noteq> Owner \<Longrightarrow> assertNotLastActiveOwner org db = None"
    by (auto simp: setRole_checks_def split: if_splits option.splits)
  have "active_owner org m \<Longrightarrow> active_owner org (m\<lparr>m_role := role_str r\<rparr>) \<or>
      (\<exists>n \<in> set (id_memberships db). active_owner org n \<and> m_user n \<noteq> user)"
    using another_owner[OF assms(1)] last by (cases "r = Owner") (auto simp: active_owner_def)
  then show ?thesis
    using None update_keeps_owner[OF assms(1) m assms(2)] by (simp add: setRole_def Let_def setRole_write_def)
qed (simp add: setRole_def assms)

lemma disable_keeps_owner:
  assumes "keys_ok db" and "has_owner org' db"
  shows "has_owner org' (fst (disable_member ok now org actor user db))"
proof (cases "disable_checks ok org actor user db = Inr None")
  case True
  then obtain m where m: "membership_of org user db = Some m"
    and last: "m_role m = ''owner'' \<Longrightarrow> assertNotLastActiveOwner org db = None"
    by (auto simp: disable_checks_def split: if_splits option.splits)
  have "active_owner org m \<Longrightarrow> \<exists>n \<in> set (id_memberships db). active_owner org n \<and> m_user n \<noteq> user"
    using another_owner[OF assms(1)] last by (simp add: active_owner_def)
  then show ?thesis
    using True update_keeps_owner[OF assms(1) m assms(2)]
    by (simp add: disable_member_def Let_def disable_write_def)
qed (auto simp: disable_member_def assms split: sum.splits option.splits)

lemma accept_keeps_owner:
  assumes "keys_ok db" and "has_owner org' db" and "ex = membership_of org (u_id u) db"
    and "case ex of None \<Rightarrow> True | Some m \<Rightarrow> m_disabledAt m \<noteq> None"
  shows "has_owner org' (fst (acceptPendingInvite now org u ex db))"
proof -
  obtain db' m' where r: "acceptPendingInvite now org u ex db = (db', m')" by fastforce
  from r have "has_owner org' db'"
  proof (cases rule: acceptPendingInvite_cases)
    case none
    then show ?thesis using assms(2) by simp
  next
    case (accepted v r db1)
    have own: "has_owner org' db1" and k: "keys_ok db1"
      using assms(1,2) accepted(7) by (simp_all add: has_owner_def keys_ok_def)
    show ?thesis
    proof (cases ex)
      case None
      then show ?thesis using accepted(8) has_owner_append[OF own] by simp
    next
      case (Some m)
      then have m: "membership_of org (u_id u) db1 = Some m" "\<not> active_owner org m"
        using assms(3,4) accepted(7) by (auto simp: active_owner_def)
      then have "has_owner org' (update_membership org (u_id u) g db1)" for g
        using update_keeps_owner[OF k m(1) own] by blast
      then show ?thesis using Some accepted(8) by simp
    qed
  qed
  then show ?thesis using r by simp
qed

lemma request_keeps_owner:
  assumes "keys_ok db" and "has_owner org' db"
  shows "has_owner org' (run_request e r db)"
proof (cases r)
  case (Rq_login now i sub org email name)
  show ?thesis
  proof (cases rule: login_db[of now i sub org email name db])
    case kept
    then show ?thesis using Rq_login assms(2) by (simp add: has_owner_def)
  next
    case (accept u db1 ex)
    have "keys_ok db1" "has_owner org' db1" using accept(1) assms by (simp_all add: keys_ok_def has_owner_def)
    then show ?thesis using Rq_login accept(4) accept_keeps_owner[OF _ _ accept(2,3)] by simp
  qed
next
  case (Rq_create now org sub name slug)
  show ?thesis
  proof (cases rule: createOrgForSubject_db[of "e_uuid_ok e" "e_report e" now org sub name slug db])
    case (created u n s o1)
    then show ?thesis
      using Rq_create has_owner_append[OF assms(2)] createOrg_Inr[OF created(4)] by simp
  qed (use Rq_create assms(2) in simp)
next
  case (Rq_invite now i token actor email ro)
  then show ?thesis using assms(2) by (simp add: has_owner_def)
next
  case (Rq_lookup i sub email name)
  then show ?thesis using assms(2) by (simp add: lookup_db has_owner_def)
qed (use assms in \<open>simp_all add: setRole_keeps_owner disable_keeps_owner\<close>)

text \<open>A small tenant for the witnesses: two owners and a developer.\<close>

definition nonempty_id :: "string \<Rightarrow> bool" where
  "nonempty_id s = (s \<noteq> [])"

definition demo_env :: id_env where
  "demo_env = \<lparr>e_uuid_ok = nonempty_id, e_sha256 = rev, e_report = (\<lambda>_. None)\<rparr>"

definition demo_member :: "ident \<Rightarrow> role \<Rightarrow> membership_row" where
  "demo_member user r =
     \<lparr>m_org = ''acme'', m_user = user, m_role = role_str r, m_disabledAt = None, m_viaSignup = False,
      m_createdAt = 0\<rparr>"

definition demo_db :: identity_db where
  "demo_db =
     \<lparr>id_users = [\<lparr>u_id = ''ann'', u_email = ''ann@x.io'', u_name = ''ann'', u_sub = ''s1'', u_disabledAt = None\<rparr>,
                  \<lparr>u_id = ''dan'', u_email = ''dan@x.io'', u_name = ''dan'', u_sub = ''s4'', u_disabledAt = None\<rparr>],
      id_memberships = [demo_member ''ann'' Owner, demo_member ''bob'' Owner, demo_member ''cat'' Developer],
      id_invites = [], id_orgs = [], id_policies = []\<rparr>"

definition demo_principal :: "ident \<Rightarrow> role \<Rightarrow> principal" where
  "demo_principal user r =
     \<lparr>p_userId = user, p_orgId = ''acme'', p_role = r, p_permissions = ROLE_PERMISSIONS r,
      p_serviceAccount = None, p_traceId = ''t''\<rparr>"

lemma demo_keys: "keys_ok demo_db"
  by (simp add: keys_ok_def demo_db_def demo_member_def mkey_def)

lemma demo_owner: "has_owner ''acme'' demo_db"
  by (simp add: has_owner_def demo_db_def demo_member_def active_owner_def)

text \<open>
  C2 (an organisation never loses its last owner). Starting from a membership table that respects its
  primary key, no sequence of requests, whoever makes them (role changes, removals, invites, logins
  that accept an invite, organisation bootstraps), leaves an organisation that has an active owner
  without one, and the primary key is respected throughout.
\<close>

theorem owner_remains:
  assumes "keys_ok db" and "has_owner org db"
  shows "has_owner org (run_requests e rs db) \<and> keys_ok (run_requests e rs db)"
  using assms
  by (induction rs arbitrary: db) (simp_all add: request_keeps_owner request_keys_ok)

theorem owner_remains_witness:
  "has_owner ''acme''
     (run_requests demo_env
        [Rq_set_role (demo_principal ''ann'' Owner) ''bob'' Developer,
         Rq_disable 5 (demo_principal ''ann'' Owner) ''ann''] demo_db)"
  using owner_remains[OF demo_keys demo_owner] by blast

definition disabled_at :: "instant \<Rightarrow> ident \<Rightarrow> ident \<Rightarrow> membership_row \<Rightarrow> membership_row" where
  "disabled_at now org user m =
     (if m_org m = org \<and> m_user m = user then m\<lparr>m_disabledAt := Some now\<rparr> else m)"

lemma demo_members:
  "membership_of ''acme'' ''ann'' demo_db = Some (demo_member ''ann'' Owner)"
  "membership_of ''acme'' ''bob'' demo_db = Some (demo_member ''bob'' Owner)"
  by (simp_all add: membership_of_def demo_db_def demo_member_def)

lemma demo_owners:
  "active_owner ''acme'' (demo_member ''ann'' Owner)" "active_owner ''acme'' (demo_member ''bob'' Owner)"
  "m \<in> set (id_memberships demo_db) \<Longrightarrow> active_owner ''acme'' m \<Longrightarrow> m_user m = ''ann'' \<or> m_user m = ''bob''"
  by (auto simp: active_owner_def demo_member_def demo_db_def)

text \<open>
  Two owners can remove each other. The guard against removing the last owner is a count that is
  read before the write and not locked: when exactly two owners are active and each removes the other
  in transactions that overlap, both guards pass on the common snapshot and after both writes no
  active owner is left.
\<close>

theorem owners_remove_each_other:
  assumes "keys_ok db" and "a \<noteq> b" and "ok a" and "ok b"
    and "membership_of org a db = Some ma" and "active_owner org ma"
    and "membership_of org b db = Some mb" and "active_owner org mb"
    and "\<And>m. m \<in> set (id_memberships db) \<Longrightarrow> active_owner org m \<Longrightarrow> m_user m = a \<or> m_user m = b"
    and "p_role actor_a = Owner" and "p_role actor_b = Owner"
  shows "disable_checks ok org actor_a b db = Inr None \<and> disable_checks ok org actor_b a db = Inr None \<and>
    \<not> has_owner org (disable_write t2 org a (disable_write t1 org b db))"
proof -
  let ?os = "filter (active_owner org) (id_memberships db)"
  have in_os: "ma \<in> set ?os" "mb \<in> set ?os" "ma \<noteq> mb"
    using membership_of_Some[OF assms(5)] membership_of_Some[OF assms(7)] assms(2,6,8) by auto
  have "\<not> length ?os \<le> 1"
  proof
    assume "length ?os \<le> 1"
    then have "card (set ?os) \<le> 1" using card_length le_trans by blast
    moreover have "card {ma, mb} \<le> card (set ?os)" using in_os by (intro card_mono) auto
    ultimately show False using in_os(3) by simp
  qed
  then have last: "assertNotLastActiveOwner org db = None" by (simp add: assertNotLastActiveOwner_def)
  have "disable_checks ok org actor_a b db = Inr None" "disable_checks ok org actor_b a db = Inr None"
    using assms last by (simp_all add: disable_checks_def active_owner_def)
  moreover have "\<not> has_owner org (disable_write t2 org a (disable_write t1 org b db))"
  proof
    assume "has_owner org (disable_write t2 org a (disable_write t1 org b db))"
    then obtain m where m: "m \<in> set (id_memberships db)"
        "active_owner org (disabled_at t2 org a (disabled_at t1 org b m))"
      by (auto simp: has_owner_def disable_write_def update_membership_def disabled_at_def)
    then have k: "m_org m = org" "active_owner org m" "m_user m \<noteq> a" "m_user m \<noteq> b"
      by (auto simp: disabled_at_def active_owner_def split: if_splits)
    then show False using assms(9)[OF m(1) k(2)] by blast
  qed
  ultimately show ?thesis by blast
qed

theorem owners_remove_each_other_witness:
  "\<not> has_owner ''acme'' (disable_write 2 ''acme'' ''ann'' (disable_write 1 ''acme'' ''bob'' demo_db))"
  using owners_remove_each_other[OF demo_keys _ _ _ demo_members(1) demo_owners(1) demo_members(2)
      demo_owners(2) demo_owners(3), of nonempty_id "demo_principal ''ann'' Owner"
      "demo_principal ''bob'' Owner" 2 1]
  by (simp add: nonempty_id_def demo_principal_def)


section \<open>Where ownership comes from\<close>

text \<open>The requests that give \<open>user\<close> ownership of \<open>org\<close>, or offer it to someone.\<close>

fun grants_ownership :: "ident \<Rightarrow> ident \<Rightarrow> id_request \<Rightarrow> bool" where
  "grants_ownership org user (Rq_create now o1 sub name slug) = (o1 = org)"
| "grants_ownership org user (Rq_set_role actor u r) =
     (p_orgId actor = org \<and> u = user \<and> r = Owner \<and> p_role actor = Owner)"
| "grants_ownership org user _ = False"

fun offers_ownership :: "ident \<Rightarrow> id_request \<Rightarrow> bool" where
  "offers_ownership org (Rq_invite now i token actor email r) =
     (p_orgId actor = org \<and> r = Owner \<and> p_role actor = Owner)"
| "offers_ownership org _ = False"

definition owner_row :: "ident \<Rightarrow> ident \<Rightarrow> identity_db \<Rightarrow> bool" where
  "owner_row org user db =
     (\<exists>m \<in> set (id_memberships db). m_org m = org \<and> m_user m = user \<and> m_role m = ''owner'')"

definition owner_offer :: "ident \<Rightarrow> identity_db \<Rightarrow> bool" where
  "owner_offer org db = (\<exists>v \<in> set (id_invites db). iv_org v = org \<and> iv_role v = ''owner'')"

lemma owner_row_same: "id_memberships db' = id_memberships db \<Longrightarrow> owner_row org user db' = owner_row org user db"
  by (simp add: owner_row_def)

lemma setRole_owner_row:
  "owner_row org user (fst (setRole ok o1 actor u r db)) \<Longrightarrow>
   owner_row org user db \<or> (o1 = org \<and> u = user \<and> r = Owner \<and> p_role actor = Owner)"
proof (cases "setRole_checks ok o1 actor u r db")
  case None
  moreover assume "owner_row org user (fst (setRole ok o1 actor u r db))"
  ultimately have "owner_row org user (setRole_write o1 u r db)" by (simp add: setRole_def Let_def)
  moreover have "r = Owner \<Longrightarrow> p_role actor = Owner"
    using None by (auto simp: setRole_checks_def assertOwnerRoleChange_def split: if_splits option.splits)
  ultimately show ?thesis
    by (auto simp: owner_row_def setRole_write_def update_membership_def role_str_owner split: if_splits)
qed (simp add: setRole_def)

lemma disable_owner_row:
  "owner_row org user (fst (disable_member ok now o1 actor u db)) \<Longrightarrow> owner_row org user db"
  by (auto simp: disable_member_def disable_write_def update_membership_def owner_row_def Let_def
      split: sum.splits option.splits if_splits)

lemma accept_owner_row:
  assumes "owner_row org user (fst (acceptPendingInvite now o1 u ex db))"
  shows "owner_row org user db \<or> owner_offer org db"
proof -
  obtain db' m' where r: "acceptPendingInvite now o1 u ex db = (db', m')" by fastforce
  from r show ?thesis
  proof (cases rule: acceptPendingInvite_cases)
    case none
    then show ?thesis using assms r by simp
  next
    case (accepted v r db1)
    have own: "owner_row org user db'" using assms r by simp
    have off: "o1 = org \<Longrightarrow> r = Owner \<Longrightarrow> owner_offer org db"
      using accepted(1,2,6) by (auto simp: owner_offer_def)
    show ?thesis
      using own off accepted(7,8)
      by (auto simp: owner_row_def update_membership_def update_invite_def role_str_owner split: if_splits)
  qed
qed

lemma accept_owner_offer:
  "owner_offer org (fst (acceptPendingInvite now o1 u ex db)) \<Longrightarrow> owner_offer org db"
proof -
  assume off: "owner_offer org (fst (acceptPendingInvite now o1 u ex db))"
  obtain db' m' where r: "acceptPendingInvite now o1 u ex db = (db', m')" by fastforce
  from r show ?thesis
  proof (cases rule: acceptPendingInvite_cases)
    case none
    then show ?thesis using off r by simp
  next
    case (accepted v r db1)
    have "id_invites db' = id_invites db1" using accepted(8) by (simp add: update_membership_def)
    then show ?thesis
      using off r accepted(7) by (auto simp: owner_offer_def update_invite_def split: if_splits)
  qed
qed

lemma invite_owner_offer:
  assumes "owner_offer org (fst (invite ok h now i token o1 actor email r db))"
  shows "owner_offer org db \<or> (o1 = org \<and> r = Owner \<and> p_role actor = Owner)"
  using assms
  by (auto simp: invite_def Let_def owner_offer_def update_invite_def role_str_owner
      split: if_splits option.splits)

lemma setRole_invites [simp]: "id_invites (fst (setRole ok org actor user r db)) = id_invites db"
  by (simp add: setRole_def setRole_write_def update_membership_def Let_def split: option.split)

lemma disable_invites [simp]: "id_invites (fst (disable_member ok now org actor user db)) = id_invites db"
  by (simp add: disable_member_def disable_write_def update_membership_def Let_def
      split: sum.split option.split)

lemma owner_offer_same: "id_invites db' = id_invites db \<Longrightarrow> owner_offer org db' = owner_offer org db"
  by (simp add: owner_offer_def)

lemma create_invites [simp]:
  "id_invites (fst (createOrgForSubject ok report now org sub name slug db)) = id_invites db"
proof (cases rule: createOrgForSubject_db[of ok report now org sub name slug db])
  case (created u n s o1)
  then show ?thesis using createOrg_Inr by fastforce
qed simp

lemma request_owner_offer:
  "owner_offer org (run_request e r db) \<Longrightarrow> owner_offer org db \<or> offers_ownership org r"
proof (cases r)
  case (Rq_login now i sub o1 email name)
  assume off: "owner_offer org (run_request e r db)"
  show ?thesis
  proof (cases rule: login_db[of now i sub o1 email name db])
    case kept
    then show ?thesis using off Rq_login by (simp add: owner_offer_def)
  next
    case (accept u db1 ex)
    then have "owner_offer org db1" using off Rq_login accept_owner_offer by simp
    then show ?thesis using accept(1) by (simp add: owner_offer_def)
  qed
qed (auto simp: owner_offer_same[OF setRole_invites] owner_offer_same[OF disable_invites]
    owner_offer_same[OF create_invites] owner_offer_same[OF upsert_invites] lookup_db
    dest: invite_owner_offer)

lemma request_owner_row:
  "owner_row org user (run_request e r db) \<Longrightarrow>
   owner_row org user db \<or> owner_offer org db \<or> grants_ownership org user r"
proof (cases r)
  case (Rq_login now i sub o1 email name)
  assume own: "owner_row org user (run_request e r db)"
  show ?thesis
  proof (cases rule: login_db[of now i sub o1 email name db])
    case kept
    then show ?thesis using own Rq_login by (simp add: owner_row_def)
  next
    case (accept u db1 ex)
    then have "owner_row org user db1 \<or> owner_offer org db1" using own Rq_login accept_owner_row by simp
    then show ?thesis using accept(1) by (auto simp: owner_row_def owner_offer_def)
  qed
next
  case (Rq_create now o1 sub name slug)
  assume own: "owner_row org user (run_request e r db)"
  show ?thesis
  proof (cases rule: createOrgForSubject_db[of "e_uuid_ok e" "e_report e" now o1 sub name slug db])
    case kept
    then show ?thesis using own Rq_create by simp
  next
    case (created u n s o2)
    then show ?thesis using own Rq_create createOrg_Inr[OF created(4)] by (auto simp: owner_row_def)
  qed
qed (auto simp: owner_row_same[OF invite_memberships] owner_row_same[OF upsert_memberships] lookup_db
    dest: setRole_owner_row disable_owner_row)

lemma run_requests_snoc: "run_requests e (rs @ [r]) db = run_request e r (run_requests e rs db)"
  by (induction rs arbitrary: db) simp_all

text \<open>
  C24 (ownership is granted by an owner). In a database that starts without owners and without offers
  of ownership, every owner of an organisation, after any sequence of requests, has it because the
  organisation was bootstrapped by a sign-up, because a caller whose role is owner in that organisation
  set exactly this user's role, or because a caller whose role is owner in that organisation sent an
  invite for the owner role. No request of an admin, of a machine token or of another tenant creates
  an owner.
\<close>

theorem ownership_is_granted:
  assumes "\<And>org user. \<not> owner_row org user db" and "\<And>org. \<not> owner_offer org db"
    and "owner_row org user (run_requests e rs db)"
  shows "\<exists>r \<in> set rs. grants_ownership org user r \<or> offers_ownership org r"
proof -
  have "(owner_offer org (run_requests e rs db) \<longrightarrow> (\<exists>r \<in> set rs. offers_ownership org r)) \<and>
    (owner_row org user (run_requests e rs db) \<longrightarrow>
       (\<exists>r \<in> set rs. grants_ownership org user r \<or> offers_ownership org r))"
  proof (induction rs rule: rev_induct)
    case Nil
    then show ?case using assms(1,2) by simp
  next
    case (snoc r rs)
    then show ?case
      using request_owner_offer[of org e r "run_requests e rs db"]
        request_owner_row[of org user e r "run_requests e rs db"]
      unfolding run_requests_snoc by auto
  qed
  then show ?thesis using assms(3) by blast
qed

definition empty_identity :: identity_db where
  "empty_identity =
     \<lparr>id_users = [\<lparr>u_id = ''ann'', u_email = ''ann@x.io'', u_name = ''ann'', u_sub = ''s1'',
                   u_disabledAt = None\<rparr>],
      id_memberships = [], id_invites = [], id_orgs = [], id_policies = []\<rparr>"

definition bootstrap :: id_request where
  "bootstrap = Rq_create 0 ''acme'' ''s1'' ''Acme'' ''acme''"

lemma bootstrap_owner: "owner_row ''acme'' ''ann'' (run_requests demo_env [bootstrap] empty_identity)"
  by code_simp

theorem ownership_is_granted_witness:
  "\<exists>r \<in> set [bootstrap]. grants_ownership ''acme'' ''ann'' r \<or> offers_ownership ''acme'' r"
  by (rule ownership_is_granted[OF _ _ bootstrap_owner])
    (simp_all add: owner_row_def owner_offer_def empty_identity_def)



section \<open>What a login yields\<close>

lemma membership_of_update:
  assumes "\<And>n. mkey (g n) = mkey n"
  shows "membership_of org user (update_membership org user g db) = map_option g (membership_of org user db)"
proof -
  have k: "m_org (g n) = m_org n \<and> m_user (g n) = m_user n" for n using assms[of n] by (simp add: mkey_def)
  have "find (\<lambda>m. m_org m = org \<and> m_user m = user)
          (map (\<lambda>n. if m_org n = org \<and> m_user n = user then g n else n) ms) =
        map_option g (find (\<lambda>m. m_org m = org \<and> m_user m = user) ms)" for ms
    by (induction ms) (auto simp: k)
  then show ?thesis by (simp add: membership_of_def update_membership_def)
qed

lemma membership_of_append_new:
  "membership_of org user db = None \<Longrightarrow> m_org m = org \<Longrightarrow> m_user m = user \<Longrightarrow>
   membership_of org user (db\<lparr>id_memberships := id_memberships db @ [m]\<rparr>) = Some m"
  unfolding membership_of_def
  by (induction "id_memberships db" arbitrary: db) (auto simp: find_None_iff find_Some_iff nth_append)

lemma membership_of_cong:
  "id_memberships db' = id_memberships db \<Longrightarrow> membership_of org user db' = membership_of org user db"
  by (simp add: membership_of_def)

lemma accept_membership:
  assumes "acceptPendingInvite now org u (membership_of org (u_id u) db) db = (db', m')"
  shows "m' = membership_of org (u_id u) db'"
  using assms
proof (cases rule: acceptPendingInvite_cases)
  case (accepted v r db1)
  show ?thesis
  proof (cases "membership_of org (u_id u) db = None")
    case True
    then have "membership_of org (u_id u) db1 = None" using accepted(7) by simp
    then show ?thesis using True accepted(8,9) membership_of_append_new by simp
  next
    case False
    then show ?thesis using accepted(9) by (simp only: if_False)
  qed
qed simp

text \<open>The acceptance that a login made: an invite of the address, still open, now consumed.\<close>

definition consumed_invite ::
    "instant \<Rightarrow> ident \<Rightarrow> string \<Rightarrow> role \<Rightarrow> identity_db \<Rightarrow> identity_db \<Rightarrow> bool" where
  "consumed_invite now org email r db db' =
     (\<exists>v \<in> set (id_invites db). iv_org v = org \<and> iv_email v = js_lower email \<and> iv_acceptedAt v = None \<and>
        now < iv_expiresAt v \<and> iv_role v = role_str r \<and>
        (\<forall>w \<in> set (id_invites db'). iv_org w = org \<and> iv_id w = iv_id v \<longrightarrow> iv_acceptedAt w = Some now))"

lemma update_invite_hit:
  assumes "w \<in> set (id_invites (update_invite org i g db))" and "iv_org w = org" and "iv_id w = i"
  shows "\<exists>x. w = g x"
  using assms unfolding update_invite_def by (auto split: if_splits)

lemma accept_consumes:
  assumes "acceptPendingInvite now org u ex db = (db', Some m)" and "ex = membership_of org (u_id u) db"
    and "m_disabledAt m = None" and "m_role m = role_str r"
    and "case ex of None \<Rightarrow> True | Some n \<Rightarrow> m_disabledAt n \<noteq> None"
  shows "consumed_invite now org (u_email u) r db db'"
  using assms(1)
proof (cases rule: acceptPendingInvite_cases)
  case none
  then show ?thesis using assms(3,5) by auto
next
  case (accepted v r' db1)
  have inv: "id_invites db' = id_invites db1" using accepted(8) by (simp add: update_membership_def)
  have mem: "membership_of org (u_id u) db1 = ex" using accepted(7) assms(2) by simp
  have "m_role m = role_str r'"
    using accepted(8,9) mem membership_of_update[of "\<lambda>m. m\<lparr>m_role := role_str r', m_disabledAt := None,
        m_viaSignup := False\<rparr>" org "u_id u" db1]
    by (cases ex) (auto simp: mkey_def)
  then have r: "r' = r" using assms(4) role_str_inj by metis
  have "iv_acceptedAt w = Some now"
    if "w \<in> set (id_invites db')" and "iv_org w = org" and "iv_id w = iv_id v" for w
    using update_invite_hit[OF that(1)[unfolded inv accepted(7)] that(2,3)] by auto
  then have "\<forall>w \<in> set (id_invites db'). iv_org w = org \<and> iv_id w = iv_id v \<longrightarrow> iv_acceptedAt w = Some now"
    by blast
  with accepted(2-6) show ?thesis
    unfolding consumed_invite_def r by (intro bexI[OF _ accepted(1)] conjI)
qed

lemma resolve_outcome:
  assumes "(case x of None \<Rightarrow> (db, Inl e)
     | Some m \<Rightarrow> if m_disabledAt m \<noteq> None then (db, Inl e)
                 else (case parse_role (m_role m) of None \<Rightarrow> (db, Inl e) | Some ro \<Rightarrow> (d2, Inr (a, b, ro)))) =
     (db', Inr (user, o1, r))"
  shows "\<exists>m. x = Some m \<and> m_disabledAt m = None \<and> parse_role (m_role m) = Some r \<and> db' = d2 \<and>
    user = a \<and> o1 = b"
  using assms by (simp split: option.splits if_splits)

lemma resolve_tx_Inr:
  assumes "resolve_tx now org u db = (db', Inr (user, o1, r))"
  shows "user = u_id u \<and> o1 = org \<and>
    (\<exists>m. membership_of org user db' = Some m \<and> m_disabledAt m = None \<and> m_role m = role_str r) \<and>
    (db' = db \<or> consumed_invite now org (u_email u) r db db')"
proof -
  let ?ex = "membership_of org (u_id u) db"
  let ?r = "case ?ex of None \<Rightarrow> acceptPendingInvite now org u ?ex db
    | Some m \<Rightarrow> if m_disabledAt m \<noteq> None then acceptPendingInvite now org u ?ex db else (db, ?ex)"
  obtain m where m: "snd ?r = Some m" "m_disabledAt m = None" "parse_role (m_role m) = Some r"
      "db' = fst ?r" "user = u_id u" "o1 = org"
    using resolve_outcome[OF assms[unfolded resolve_tx_def Let_def]] by blast
  have role: "m_role m = role_str r" using m(3) by (simp add: parse_role_Some)
  show ?thesis
  proof (cases "case ?ex of None \<Rightarrow> True | Some n \<Rightarrow> m_disabledAt n \<noteq> None")
    case True
    then have "acceptPendingInvite now org u ?ex db = ?r" by (auto split: option.splits)
    then have acc: "acceptPendingInvite now org u ?ex db = (db', Some m)" using m(1,4) by (metis prod.collapse)
    then show ?thesis
      using accept_membership[OF acc, symmetric] accept_consumes[OF acc refl m(2) role True] m(2,5,6) role
      by simp
  next
    case False
    then have "?r = (db, ?ex)" by (auto split: option.splits)
    then show ?thesis using m role by simp
  qed
qed

lemma login_result:
  assumes "snd (resolveJwt now i sub org email name db) = Inr (user, o1, r)"
    and "db' = fst (resolveJwt now i sub org email name db)"
  shows "o1 = org \<and>
    (\<exists>m. membership_of org user db' = Some m \<and> m_disabledAt m = None \<and> m_role m = role_str r) \<and>
    (id_memberships db' = id_memberships db \<or>
     (\<exists>u :: user_row. u_id u = user \<and> consumed_invite now org (u_email u) r db db'))"
proof -
  let ?db1 = "fst (upsertUserFromClaims i sub email name db)"
  obtain u where u: "resolve_tx now org u ?db1 = (db', Inr (user, o1, r))"
  proof -
    have "\<exists>u. snd (upsertUserFromClaims i sub email name db) = Inr u \<and>
        resolveJwt now i sub org email name db = resolve_tx now org u ?db1"
      using assms(1) unfolding resolveJwt_def by (auto split: prod.splits sum.splits if_splits)
    then obtain u where "resolveJwt now i sub org email name db = resolve_tx now org u ?db1" by blast
    then show thesis using that assms by (metis prod.collapse)
  qed
  have "consumed_invite now org e r ?db1 db' = consumed_invite now org e r db db'" for e
    by (simp add: consumed_invite_def)
  moreover have "db' = ?db1 \<Longrightarrow> id_memberships db' = id_memberships db" by simp
  ultimately show ?thesis using resolve_tx_Inr[OF u] by metis
qed





section \<open>Sign-up\<close>

definition one_signup :: "identity_db \<Rightarrow> bool" where
  "one_signup db = (\<forall>user. length (filter (active_signup user) (id_memberships db)) \<le> 1)"

lemma filter_signup_update:
  assumes "\<And>n. mkey (g n) = mkey n" and "\<And>n. m_viaSignup (g n) \<Longrightarrow> m_viaSignup n"
    and "\<And>n. m_viaSignup (g n) \<Longrightarrow> m_disabledAt (g n) = None \<Longrightarrow> m_disabledAt n = None"
  shows "length (filter (active_signup u) (map (\<lambda>n. if P n then g n else n) ms)) \<le>
    length (filter (active_signup u) ms)"
proof (induction ms)
  case (Cons n ms)
  have "active_signup u (g n) \<Longrightarrow> active_signup u n"
    using assms(1)[of n] assms(2,3)[of n] by (simp add: active_signup_def mkey_def)
  then show ?case using Cons by auto
qed simp

lemma one_signup_update:
  assumes "one_signup db" and "\<And>n. mkey (g n) = mkey n" and "\<And>n. m_viaSignup (g n) \<Longrightarrow> m_viaSignup n"
    and "\<And>n. m_viaSignup (g n) \<Longrightarrow> m_disabledAt (g n) = None \<Longrightarrow> m_disabledAt n = None"
  shows "one_signup (update_membership org user g db)"
  unfolding one_signup_def update_membership_def
  using filter_signup_update[OF assms(2-4)] assms(1) by (fastforce simp: one_signup_def intro: order_trans)

lemma one_signup_same: "id_memberships db' = id_memberships db \<Longrightarrow> one_signup db' = one_signup db"
  by (simp add: one_signup_def)

lemma setRole_one_signup: "one_signup db \<Longrightarrow> one_signup (fst (setRole ok org actor user r db))"
  by (auto simp: setRole_def setRole_write_def Let_def mkey_def intro: one_signup_update split: option.split)

lemma disable_one_signup: "one_signup db \<Longrightarrow> one_signup (fst (disable_member ok now org actor user db))"
  by (auto simp: disable_member_def disable_write_def Let_def mkey_def intro: one_signup_update
      split: option.split sum.split)

lemma accept_one_signup:
  assumes "one_signup db"
  shows "one_signup (fst (acceptPendingInvite now org u ex db))"
proof -
  obtain db' m' where r: "acceptPendingInvite now org u ex db = (db', m')" by fastforce
  from r have "one_signup db'"
  proof (cases rule: acceptPendingInvite_cases)
    case none
    then show ?thesis using assms by simp
  next
    case (accepted v r db1)
    have d: "one_signup db1" using assms accepted(7) by (simp add: one_signup_def)
    then have "one_signup (update_membership org (u_id u)
        (\<lambda>m. m\<lparr>m_role := role_str r, m_disabledAt := None, m_viaSignup := False\<rparr>) db1)"
      by (rule one_signup_update) (simp_all add: mkey_def)
    then show ?thesis using accepted(8) d by (simp add: one_signup_def active_signup_def)
  qed
  then show ?thesis using r by simp
qed

lemma createOrg_one_signup:
  assumes "one_signup db" and "createOrg report now org name slug owner db = Inr (db', o1)"
  shows "one_signup db'"
proof -
  have none: "filter (active_signup owner) (id_memberships db) = []"
    using createOrg_Inr[OF assms(2)] by (auto simp: list_ex_iff filter_empty_conv)
  have "length (filter (active_signup u) (id_memberships db')) \<le> 1" for u
    using assms(1) createOrg_Inr[OF assms(2)] none
    by (cases "u = owner") (auto simp: one_signup_def active_signup_def)
  then show ?thesis by (simp add: one_signup_def)
qed

lemma request_one_signup: "one_signup db \<Longrightarrow> one_signup (run_request e r db)"
proof (cases r)
  case (Rq_login now i sub o1 email name)
  assume one: "one_signup db"
  show ?thesis
  proof (cases rule: login_db[of now i sub o1 email name db])
    case kept
    then show ?thesis using one Rq_login by (simp add: one_signup_def)
  next
    case (accept u db1 ex)
    then have "one_signup db1" using one by (simp add: one_signup_def)
    then show ?thesis using accept(4) Rq_login accept_one_signup by simp
  qed
next
  case (Rq_create now o1 sub name slug)
  assume one: "one_signup db"
  show ?thesis
  proof (cases rule: createOrgForSubject_db[of "e_uuid_ok e" "e_report e" now o1 sub name slug db])
    case (created u n s o2)
    then show ?thesis using Rq_create createOrg_one_signup[OF one created(4)] by simp
  qed (use one Rq_create in simp)
qed (simp_all add: setRole_one_signup disable_one_signup lookup_db one_signup_same[OF invite_memberships]
    one_signup_same[OF upsert_memberships])

lemma violation_is_conflict:
  "\<exists>msg. fst (resolveCreateOrgUniqueViolation (P2002 meta) active) = Some (ConflictEx msg)"
proof (cases "mapCreateOrgUniqueViolation (P2002 meta)")
  case None
  then show ?thesis by (simp only: mapCreateOrgUniqueViolation.simps Let_def split: if_splits) simp_all
next
  case (Some m)
  then show ?thesis
    by (cases m) (simp_all add: resolveCreateOrgUniqueViolation_def del: mapCreateOrgUniqueViolation.simps)
qed

lemma createOrg_Inl: "createOrg report now org name slug owner db = Inl err \<Longrightarrow> \<exists>meta. err = P2002 meta"
  by (auto simp: createOrg_def Let_def split: if_splits)

text \<open>The answer of a sign-up whose transaction has run: created, refused, or mapped.\<close>

lemma createOrg_tx_Inl:
  assumes "createOrg_tx ok report now org name slug user db = Inl err"
  shows "(\<exists>msg. err = ConflictEx msg) \<or> (\<exists>meta. err = P2002 meta)"
  using assms createOrg_Inl by (auto simp: createOrg_tx_def split: if_splits)

lemma createOrgForSubject_Inl:
  assumes "createOrgForSubject ok report now org sub name slug db = (db', Inl err)"
  shows "db' = db \<and> (\<exists>msg. err = BadRequestEx msg \<or> err = ForbiddenEx msg \<or> err = ConflictEx msg)"
proof (cases "parse_create_org name slug")
  case None
  then show ?thesis using assms by (auto simp: createOrgForSubject_def)
next
  case p: (Some ns)
  obtain n s where ns: "ns = (n, s)" by fastforce
  show ?thesis
  proof (cases "\<exists>u. user_by_sub sub db = Some u \<and> u_disabledAt u = None")
    case False
    then show ?thesis
      using assms p ns by (auto simp: createOrgForSubject_def split: option.splits if_splits)
  next
    case True
    then obtain u where u: "user_by_sub sub db = Some u" "u_disabledAt u = None" by blast
    show ?thesis
    proof (cases "createOrg_tx ok report now org n s (u_id u) db")
      case (Inl err')
      then consider msg where "err' = ConflictEx msg" | meta where "err' = P2002 meta"
        using createOrg_tx_Inl by blast
      then show ?thesis
      proof cases
        case 1
        then show ?thesis using assms p ns u Inl by (auto simp: createOrgForSubject_def)
      next
        case (2 meta)
        obtain msg where "fst (resolveCreateOrgUniqueViolation (P2002 meta)
            (hasActiveSignupMembership (u_id u) db)) = Some (ConflictEx msg)"
          using violation_is_conflict by blast
        then show ?thesis
          using assms p ns u Inl 2 by (auto simp: createOrgForSubject_def)
      qed
    next
      case (Inr r)
      then show ?thesis using assms p ns u by (simp add: createOrgForSubject_def split: prod.splits)
    qed
  qed
qed

lemma createOrgForSubject_Inr:
  assumes "createOrgForSubject ok report now org sub name slug db = (db', Inr o1)"
  shows "o_id o1 = org \<and> o_slug o1 = slug \<and> id_policies db' = id_policies db @ default_policies org \<and>
    (\<exists>u m. user_by_sub sub db = Some u \<and> readActiveMemberships ok (u_id u) db = [] \<and>
       active_owner org m \<and> m_user m = u_id u \<and> id_memberships db' = id_memberships db @ [m])"
proof -
  obtain n s u where p: "parse_create_org name slug = Some (n, s)" "user_by_sub sub db = Some u"
      "createOrg_tx ok report now org n s (u_id u) db = Inr (db', o1)"
    using assms unfolding createOrgForSubject_def
    by (auto split: option.splits prod.splits sum.splits if_splits id_error.splits)
  then have c: "createOrg report now org n s (u_id u) db = Inr (db', o1)"
      "readActiveMemberships ok (u_id u) db = []"
    by (auto simp: createOrg_tx_def split: if_splits)
  have "s = slug" using p(1) by (auto simp: parse_create_org_def Let_def split: if_splits)
  then show ?thesis using createOrg_Inr[OF c(1)] c(2) p(2) by (simp add: active_owner_def)
qed

text \<open>
  Sign-up gives one organisation and never a server error. Whatever the driver reports of a violated
  index (nothing, a wrong model, a null target), a sign-up either creates the organisation, with the
  caller as its only member and owner and with the three default policies, or it changes nothing and
  answers 400, 403 or 409. Over any sequence of requests a user has at most one active membership that
  came from a sign-up.
\<close>

theorem signup_creates_one_organisation:
  assumes "one_signup db" and "createOrgForSubject ok report now org sub name slug db = (db', res)"
  shows "one_signup (run_requests e rs db') \<and>
    (case res of
       Inr o1 \<Rightarrow> o_id o1 = org \<and> o_slug o1 = slug \<and> id_policies db' = id_policies db @ default_policies org \<and>
         (\<exists>u m. user_by_sub sub db = Some u \<and> readActiveMemberships ok (u_id u) db = [] \<and>
            active_owner org m \<and> m_user m = u_id u \<and> id_memberships db' = id_memberships db @ [m])
     | Inl err \<Rightarrow> db' = db \<and>
         (\<exists>msg. err = BadRequestEx msg \<or> err = ForbiddenEx msg \<or> err = ConflictEx msg))"
proof -
  have "one_signup db'"
    using request_one_signup[OF assms(1), of "\<lparr>e_uuid_ok = ok, e_sha256 = id, e_report = report\<rparr>"
        "Rq_create now org sub name slug"] assms(2) by simp
  then have "one_signup (run_requests e rs db')"
    by (induction rs arbitrary: db') (simp_all add: request_one_signup)
  then show ?thesis
    using assms(2) createOrgForSubject_Inl createOrgForSubject_Inr by (cases res) auto
qed

theorem signup_creates_one_organisation_witness:
  "one_signup (run_requests demo_env [bootstrap]
     (fst (createOrgForSubject nonempty_id (\<lambda>_. None) 0 ''acme'' ''s1'' ''Acme'' ''acme'' empty_identity)))"
  by (rule conjunct1[OF signup_creates_one_organisation[OF _ surjective_pairing]])
    (simp add: one_signup_def empty_identity_def)



section \<open>The gates of a new organisation\<close>

definition new_org_rules :: "ident \<Rightarrow> policy_rule list" where
  "new_org_rules org = map op_rule (default_policies org)"

lemma ordered_new_org_rules: "ordered_policies (new_org_rules org) = new_org_rules org"
  by (simp add: ordered_policies_def new_org_rules_def default_policies_def)

definition severe :: "match_finding \<Rightarrow> bool" where
  "severe f = (mf_severity f \<in> {''critical'', ''high''})"

definition exposed_critical :: "match_finding \<Rightarrow> bool" where
  "exposed_critical f = (mf_severity f = ''critical'' \<and> a_exposure (mf_asset f) = ''internet_facing'')"

definition known_severity :: "match_finding \<Rightarrow> bool" where
  "known_severity f = (mf_severity f \<in> {''critical'', ''high'', ''medium'', ''low'', ''info''})"

lemma new_org_policy_loop:
  assumes "known_severity f"
  shows "policy_loop ''fail_build'' f (new_org_rules org) \<longleftrightarrow>
      severe f \<and> mf_fixAvailable f \<and> \<not> mf_kev f \<and> \<not> exposed_critical f"
    and "policy_loop ''block_deploy'' f (new_org_rules org) \<longleftrightarrow> exposed_critical f"
  using assms
  by (auto simp: new_org_rules_def default_policies_def no_condition_def matchesPolicyCondition_def
      truthy_def SEVERITY_ORDER_def list_refuses_def severe_def exposed_critical_def known_severity_def)

text \<open>
  What a new organisation's gates let through. With the default policies of a sign-up, a finished
  scan whose findings are loaded blocks the deployment exactly when an unsuppressed finding is critical
  on an internet-facing asset. It fails the build exactly when an unsuppressed finding is high or
  critical, has a fix, is not on the KEV list and is not critical on an internet-facing asset: the first
  rule that matches decides, and the two more urgent rules do not carry \<^verbatim>\<open>fail_build\<close>, so the findings
  they catch never fail a build although a fix is available.
\<close>

theorem new_organisation_gates:
  assumes "ci_status i \<notin> {''queued'', ''running''}" and "ci_findings i \<noteq> []"
    and "ci_policies i = new_org_rules org" and "\<forall>f \<in> set (ci_findings i). known_severity f"
  shows "(concludeDeploy i = D_blocked \<longleftrightarrow>
            (\<exists>f \<in> set (ci_findings i). mf_id f \<notin> suppressed_ids i \<and> exposed_critical f)) \<and>
         (concludeScan i = C_failed \<longleftrightarrow>
            (\<exists>f \<in> set (ci_findings i). mf_id f \<notin> suppressed_ids i \<and> severe f \<and> mf_fixAvailable f \<and>
               \<not> mf_kev f \<and> \<not> exposed_critical f))"
proof -
  have g: "concludeByAction i a =
      (if finding_loop a (suppressed_ids i) (new_org_rules org) (ci_findings i)
       then Gate_matched else Gate_unmatched)" for a
    using assms(1-3) by (simp add: concludeByAction_def ordered_new_org_rules)
  show ?thesis
    using assms(4) by (auto simp: concludeScan_def concludeDeploy_def g finding_loop_iff new_org_policy_loop)
qed

definition exposed_kev_input :: conclude_input where
  "exposed_kev_input = \<lparr>ci_status = ''succeeded'', ci_findings = [gate_finding],
     ci_policies = new_org_rules ''acme'', ci_suppressed = None, ci_expected = Some 1\<rparr>"

theorem new_organisation_gates_witness:
  "concludeScan exposed_kev_input \<noteq> C_failed \<and> mf_fixAvailable gate_finding \<and> severe gate_finding"
  using new_organisation_gates[of exposed_kev_input "''acme''"]
  by (simp add: exposed_kev_input_def gate_finding_def known_severity_def severe_def)

end
