(* ===== verification/Gateway.thy ===== *)
theory Gateway
imports Membership Wire Resilience
begin

text \<open>
  The edge: machine tokens (\<^verbatim>\<open>identity-service/src/tokens/api-token.service.ts\<close>), the signed principal
  and the internal guard (\<^verbatim>\<open>libs/auth/src\<close>), the gateway's authentication guard
  (\<^verbatim>\<open>api-gateway/src/auth/gateway-auth.guard.ts\<close>) and its proxy
  (\<^verbatim>\<open>api-gateway/src/proxy/service-proxy.ts\<close>).

  \<open>sha256\<close> and \<open>hmac\<close> are the digests of \<^verbatim>\<open>node:crypto\<close>, \<open>jwt\<close> the verification of the \<^verbatim>\<open>jose\<close> package
  (\<^term>\<open>None\<close> when it throws), \<open>uuid_ok\<close> and \<open>email_ok\<close> schema checks of zod.
\<close>


section \<open>Machine tokens (api-token.service.ts)\<close>

record token_row =
  t_id :: ident
  t_org :: ident
  t_name :: string
  t_hash :: string
  t_scopes :: "string list"
  t_lastUsedAt :: "instant option"
  t_expiresAt :: "instant option"
  t_revokedAt :: "instant option"

definition PAT_PREFIX :: string where
  "PAT_PREFIX = ''ctem_pat_''"

record issued_token =
  it_id :: ident
  it_name :: string
  it_token :: string
  it_expiresAt :: "instant option"

definition issue_token ::
    "(string \<Rightarrow> string) \<Rightarrow> ident \<Rightarrow> string \<Rightarrow> ident \<Rightarrow> string \<Rightarrow> string list \<Rightarrow> instant option \<Rightarrow> token_row list
       \<Rightarrow> token_row list \<times> issued_token" where
  "issue_token sha256 new_id rnd org name scopes expiresAt ts =
     (let secret = PAT_PREFIX @ rnd
      in (ts @ [\<lparr>t_id = new_id, t_org = org, t_name = name, t_hash = sha256 secret, t_scopes = scopes,
                 t_lastUsedAt = None, t_expiresAt = expiresAt, t_revokedAt = None\<rparr>],
          \<lparr>it_id = new_id, it_name = name, it_token = secret, it_expiresAt = expiresAt\<rparr>))"

record pat_record =
  pr_orgId :: "string option"
  pr_tokenId :: "string option"
  pr_scopes :: "string list option"
  pr_name :: "string option"

text \<open>The write of \<^verbatim>\<open>lastUsedAt\<close> is best effort: \<open>touched\<close> says whether it went through. The hash is
  unique, so the first row is the only one.\<close>

definition verify_token ::
    "(string \<Rightarrow> string) \<Rightarrow> instant \<Rightarrow> bool \<Rightarrow> string \<Rightarrow> token_row list
       \<Rightarrow> token_row list \<times> (id_error + pat_record)" where
  "verify_token sha256 now touched presented ts =
     (if \<not> prefix PAT_PREFIX presented then (ts, Inl (UnauthorizedEx ''Malformed token''))
      else
        (case find (\<lambda>t. t_hash t = sha256 presented) ts of
           None \<Rightarrow> (ts, Inl (UnauthorizedEx ''Invalid token''))
         | Some t \<Rightarrow>
             if t_revokedAt t \<noteq> None then (ts, Inl (UnauthorizedEx ''Invalid token''))
             else if (case t_expiresAt t of None \<Rightarrow> False | Some e \<Rightarrow> e < now)
             then (ts, Inl (UnauthorizedEx ''Token expired''))
             else
               ((if touched
                 then map (\<lambda>r. if t_org r = t_org t \<and> t_id r = t_id t then r\<lparr>t_lastUsedAt := Some now\<rparr> else r) ts
                 else ts),
                Inr \<lparr>pr_orgId = Some (t_org t), pr_tokenId = Some (t_id t), pr_scopes = Some (t_scopes t),
                     pr_name = Some (t_name t)\<rparr>)))"

text \<open>Revoking a token that the organisation does not have is an error of the database client.\<close>

definition revoke_token :: "instant \<Rightarrow> ident \<Rightarrow> ident \<Rightarrow> token_row list \<Rightarrow> token_row list \<times> (id_error + unit)" where
  "revoke_token now org i ts =
     (if list_ex (\<lambda>t. t_org t = org \<and> t_id t = i) ts
      then (map (\<lambda>t. if t_org t = org \<and> t_id t = i then t\<lparr>t_revokedAt := Some now\<rparr> else t) ts, Inr ())
      else (ts, Inl (Other_error ''P2025'')))"


section \<open>The signed principal (auth/src/principal.ts)\<close>

definition permissionsForRole :: "role \<Rightarrow> string list" where
  "permissionsForRole r = ROLE_PERMISSIONS r"

definition principal_json :: "principal \<Rightarrow> json" where
  "principal_json p = JObj
     [(''userId'', JStr (p_userId p)), (''orgId'', JStr (p_orgId p)), (''role'', JStr (role_str (p_role p))),
      (''permissions'', JArr (map JStr (p_permissions p))),
      (''serviceAccount'', (case p_serviceAccount p of None \<Rightarrow> JNull | Some s \<Rightarrow> JStr s)),
      (''traceId'', JStr (p_traceId p))]"

text \<open>The schema \<^verbatim>\<open>Principal\<close>: a missing \<^verbatim>\<open>serviceAccount\<close> is null.\<close>

fun json_strings :: "json list \<Rightarrow> string list option" where
  "json_strings [] = Some []"
| "json_strings (JStr s # js) = map_option ((#) s) (json_strings js)"
| "json_strings (_ # js) = None"

definition get_string :: "string \<Rightarrow> json \<Rightarrow> string option" where
  "get_string k j = (case json_get k j of Some (JStr s) \<Rightarrow> Some s | _ \<Rightarrow> None)"

definition get_permissions :: "json \<Rightarrow> string list option" where
  "get_permissions j =
     (case json_get ''permissions'' j of
        Some (JArr js) \<Rightarrow>
          (case json_strings js of
             Some ps \<Rightarrow> if list_all (\<lambda>p. p \<in> set Permission_options) ps then Some ps else None
           | None \<Rightarrow> None)
      | _ \<Rightarrow> None)"

definition get_account :: "json \<Rightarrow> string option option" where
  "get_account j =
     (case json_get ''serviceAccount'' j of
        None \<Rightarrow> Some None | Some JNull \<Rightarrow> Some None | Some (JStr s) \<Rightarrow> Some (Some s) | _ \<Rightarrow> None)"

definition parse_principal :: "json \<Rightarrow> principal option" where
  "parse_principal j =
     (case (get_string ''userId'' j, get_string ''orgId'' j, Option.bind (get_string ''role'' j) parse_role,
            get_permissions j, get_account j, get_string ''traceId'' j) of
        (Some u, Some org, Some r, Some ps, Some acc, Some tr) \<Rightarrow>
          Some \<lparr>p_userId = u, p_orgId = org, p_role = r, p_permissions = ps, p_serviceAccount = acc,
                p_traceId = tr\<rparr>
      | _ \<Rightarrow> None)"

record signed_headers =
  h_value :: string
  h_signature :: string

definition encodePrincipal :: "(string \<Rightarrow> string) \<Rightarrow> principal \<Rightarrow> signed_headers" where
  "encodePrincipal hmac p =
     (let value = b64url_encode (json_text (principal_json p))
      in \<lparr>h_value = value, h_signature = hmac value\<rparr>)"

definition decodePrincipal :: "(string \<Rightarrow> string) \<Rightarrow> string \<Rightarrow> string \<Rightarrow> principal option" where
  "decodePrincipal hmac value signature =
     (if signature \<noteq> hmac value then None
      else Option.bind (json_parse (b64url_decode value)) parse_principal)"


section \<open>Guards (auth/src/auth.guard.ts, gateway-auth.guard.ts)\<close>

record route =
  rt_public :: bool
  rt_permissions :: "string list option"

definition missing_permissions :: "route \<Rightarrow> principal \<Rightarrow> string list" where
  "missing_permissions rt p =
     filter (\<lambda>x. x \<notin> set (p_permissions p)) (case rt_permissions rt of None \<Rightarrow> [] | Some ps \<Rightarrow> ps)"

definition missing_error :: "string list \<Rightarrow> id_error" where
  "missing_error ms = ForbiddenEx (''Missing permission(s): '' @ join_with '', '' ms)"

datatype guard_result = Admitted_public | Admitted_signup string | Admitted principal | Refused id_error

definition internal_guard ::
    "(string \<Rightarrow> string) \<Rightarrow> route \<Rightarrow> string option \<Rightarrow> string option \<Rightarrow> guard_result" where
  "internal_guard hmac rt raw signature =
     (if rt_public rt then Admitted_public
      else if \<not> truthy raw \<or> \<not> truthy signature then Refused (UnauthorizedEx ''Missing principal'')
      else
        (case decodePrincipal hmac (case raw of Some s \<Rightarrow> s | None \<Rightarrow> [])
                (case signature of Some s \<Rightarrow> s | None \<Rightarrow> []) of
           None \<Rightarrow> Refused (UnauthorizedEx ''Invalid principal'')
         | Some p \<Rightarrow>
             if missing_permissions rt p \<noteq> [] then Refused (missing_error (missing_permissions rt p))
             else Admitted p))"

text \<open>What the gateway gets from identity-service: no answer, or a status and a body, the body being
  \<^term>\<open>None\<close> when it is no JSON or not of the expected schema.\<close>

datatype 'a reply = Unreachable | Reply nat "'a option"

record resolve_body =
  rb_sub :: string
  rb_orgId :: string
  rb_email :: "string option"
  rb_name :: "string option"

record jwt_claims =
  jc_sub :: string
  jc_org_id :: "string option"
  jc_email :: "string option"
  jc_name :: "string option"

record gateway_env =
  g_jwt :: "string \<Rightarrow> jwt_claims option"
  g_uuid_ok :: "string \<Rightarrow> bool"
  g_email_ok :: "string \<Rightarrow> bool"
  g_traceId :: string
  g_resolve :: "resolve_body \<Rightarrow> (ident \<times> ident \<times> role) reply"
  g_memberships :: "resolve_body \<Rightarrow> (ident \<times> (ident \<times> role) list) reply"
  g_verify :: "string \<Rightarrow> pat_record reply"

record gateway_request =
  gr_authorization :: "string option"
  gr_method :: "string option"
  gr_paths :: "string option list"

definition strip_slashes :: "string \<Rightarrow> string" where
  "strip_slashes s = rev (dropWhile (\<lambda>c. c = CHR ''/'') (rev s))"

text \<open>\<open>gr_paths\<close> are \<^verbatim>\<open>path\<close>, \<^verbatim>\<open>originalUrl\<close> and \<^verbatim>\<open>url\<close>.\<close>

definition isCreateOrgRequest :: "gateway_request \<Rightarrow> bool" where
  "isCreateOrgRequest req =
     (if js_upper (case gr_method req of None \<Rightarrow> [] | Some m \<Rightarrow> m) \<noteq> ''POST'' then False
      else list_ex
        (\<lambda>v. case v of
               None \<Rightarrow> False
             | Some s \<Rightarrow>
                 if s = [] then False
                 else
                   (let path = strip_slashes (hd (split_on CHR ''?'' s))
                    in (if path = [] then ''/'' else path) = ''/v1/orgs''))
        (gr_paths req))"

definition principalFromMembership :: "gateway_env \<Rightarrow> ident \<Rightarrow> ident \<Rightarrow> role \<Rightarrow> principal" where
  "principalFromMembership env user org r =
     \<lparr>p_userId = user, p_orgId = org, p_role = r, p_permissions = permissionsForRole r,
      p_serviceAccount = None, p_traceId = g_traceId env\<rparr>"

text \<open>The body sent to identity-service: an email or a name that is not valid is left out.\<close>

definition resolve_body_of :: "gateway_env \<Rightarrow> jwt_claims \<Rightarrow> string \<Rightarrow> resolve_body" where
  "resolve_body_of env c org =
     \<lparr>rb_sub = jc_sub c, rb_orgId = org,
      rb_email = (case jc_email c of None \<Rightarrow> None | Some e \<Rightarrow> if g_email_ok env e then Some e else None),
      rb_name = (case jc_name c of
                   None \<Rightarrow> None | Some n \<Rightarrow> if js_trim n \<noteq> [] then Some (js_trim n) else None)\<rparr>"

definition verification_failed :: id_error where
  "verification_failed = UnauthorizedEx ''Token verification failed''"

definition membership_reply :: "'a reply \<Rightarrow> id_error + 'a" where
  "membership_reply r =
     (case r of
        Unreachable \<Rightarrow> Inl verification_failed
      | Reply st body \<Rightarrow>
          if st = 403 then Inl (ForbiddenEx ''No organization membership'')
          else if \<not> res_ok st then Inl verification_failed
          else (case body of None \<Rightarrow> Inl verification_failed | Some x \<Rightarrow> Inr x))"

definition resolveMembership :: "gateway_env \<Rightarrow> jwt_claims \<Rightarrow> string \<Rightarrow> id_error + (ident \<times> ident \<times> role)" where
  "resolveMembership env c org =
     (if \<not> g_uuid_ok env org then Inl (ForbiddenEx ''No organization selected'')
      else
        (case membership_reply (g_resolve env (resolve_body_of env c org)) of
           Inl e \<Rightarrow> Inl e
         | Inr (u, org', r) \<Rightarrow> if org' \<noteq> org then Inl verification_failed else Inr (u, org', r)))"

datatype jwt_result = Jwt_principal principal | Jwt_signup string | Jwt_refused id_error

definition verifyJwt :: "gateway_env \<Rightarrow> string \<Rightarrow> gateway_request \<Rightarrow> jwt_result" where
  "verifyJwt env token req =
     (case g_jwt env token of
        None \<Rightarrow> Jwt_refused (UnauthorizedEx ''Invalid token'')
      | Some c \<Rightarrow>
          (case jc_org_id c of
             Some org \<Rightarrow>
               (case resolveMembership env c org of
                  Inl e \<Rightarrow> Jwt_refused e
                | Inr (u, _, r) \<Rightarrow> Jwt_principal (principalFromMembership env u org r))
           | None \<Rightarrow>
               (case membership_reply (g_memberships env (resolve_body_of env c [])) of
                  Inl e \<Rightarrow> Jwt_refused e
                | Inr (u, ms) \<Rightarrow>
                    (case ms of
                       [] \<Rightarrow>
                         if isCreateOrgRequest req then Jwt_signup (jc_sub c)
                         else Jwt_refused (ForbiddenEx ''No organization'')
                     | [(org, r)] \<Rightarrow> Jwt_principal (principalFromMembership env u org r)
                     | _ \<Rightarrow> Jwt_refused (ConflictEx ''multiple organizations'')))))"

definition verifyPat :: "gateway_env \<Rightarrow> string \<Rightarrow> id_error + principal" where
  "verifyPat env token =
     (case g_verify env token of
        Unreachable \<Rightarrow> Inl verification_failed
      | Reply st body \<Rightarrow>
          if \<not> res_ok st then Inl (UnauthorizedEx ''Invalid token'')
          else
            (case body of
               None \<Rightarrow> Inl (UnauthorizedEx ''Invalid token'')
             | Some v \<Rightarrow>
                 if \<not> truthy (pr_orgId v) \<or> \<not> truthy (pr_tokenId v) then Inl (UnauthorizedEx ''Invalid token'')
                 else
                   Inr \<lparr>p_userId = (case pr_tokenId v of Some s \<Rightarrow> s | None \<Rightarrow> []),
                        p_orgId = (case pr_orgId v of Some s \<Rightarrow> s | None \<Rightarrow> []), p_role = Developer,
                        p_permissions =
                          filter (\<lambda>s. s \<in> set Permission_options)
                            (case pr_scopes v of Some ss \<Rightarrow> ss | None \<Rightarrow> []),
                        p_serviceAccount = pr_name v, p_traceId = g_traceId env\<rparr>))"

definition authorize :: "route \<Rightarrow> principal \<Rightarrow> guard_result" where
  "authorize rt p =
     (if missing_permissions rt p \<noteq> [] then Refused (missing_error (missing_permissions rt p))
      else Admitted p)"

definition canActivate :: "gateway_env \<Rightarrow> route \<Rightarrow> gateway_request \<Rightarrow> guard_result" where
  "canActivate env rt req =
     (if rt_public rt then Admitted_public
      else
        (case gr_authorization req of
           None \<Rightarrow> Refused (UnauthorizedEx ''Missing bearer token'')
         | Some header \<Rightarrow>
             if \<not> prefix ''Bearer '' header then Refused (UnauthorizedEx ''Missing bearer token'')
             else
               (let token = drop 7 header
                in if prefix PAT_PREFIX token then
                     (if isCreateOrgRequest req then Refused (UnauthorizedEx ''Invalid token'')
                      else (case verifyPat env token of Inl e \<Rightarrow> Refused e | Inr p \<Rightarrow> authorize rt p))
                   else
                     (case verifyJwt env token req of
                        Jwt_refused e \<Rightarrow> Refused e
                      | Jwt_signup sub \<Rightarrow> Admitted_signup sub
                      | Jwt_principal p \<Rightarrow> authorize rt p))))"


section \<open>The proxy (service-proxy.ts)\<close>

datatype 'a proxied = Payload "'a option" | Http_error nat "'a option" | Rethrown js_err

text \<open>\<open>body\<close> is what the response's JSON parses to, \<^term>\<open>None\<close> when it does not. The body of an error is
  passed on, or replaced by a problem with the status (\<^term>\<open>None\<close>).\<close>

definition forward :: "exec_result \<Rightarrow> 'a option \<Rightarrow> 'a proxied" where
  "forward r body =
     (case r of
        Threw_circuit_open \<Rightarrow> Http_error 503 None
      | Threw e \<Rightarrow>
          if isTimeoutError e then Http_error 504 None
          else if isRetryableError e then Http_error 503 None
          else Rethrown e
      | Threw_exhausted \<Rightarrow> Rethrown Not_object
      | Returned st \<Rightarrow>
          (let payload = (if st = 204 then None else body)
           in if \<not> res_ok st then Http_error st payload else Payload payload))"



section \<open>The principal on the wire\<close>

lemma json_strings_map [simp]: "json_strings (map JStr ps) = Some ps"
  by (induction ps) simp_all

lemma parse_principal_json:
  assumes "set (p_permissions p) \<subseteq> set Permission_options"
  shows "parse_principal (principal_json p) = Some p"
proof -
  have "list_all (\<lambda>x. x \<in> set Permission_options) (p_permissions p)" using assms by (auto simp: list_all_iff)
  then have "get_permissions (principal_json p) = Some (p_permissions p)"
    by (simp add: get_permissions_def principal_json_def json_get_def)
  moreover have "get_account (principal_json p) = Some (p_serviceAccount p)"
    by (simp add: get_account_def principal_json_def json_get_def split: option.split)
  ultimately show ?thesis
    by (simp add: parse_principal_def get_string_def) (simp add: principal_json_def json_get_def)
qed

lemma printable_principal: "printable (principal_json p)"
  by (auto simp: principal_json_def split: option.split)

lemma decode_encode_principal:
  assumes "set (p_permissions p) \<subseteq> set Permission_options"
  shows "decodePrincipal hmac (h_value (encodePrincipal hmac p)) (h_signature (encodePrincipal hmac p)) = Some p"
  using assms
  by (simp add: decodePrincipal_def encodePrincipal_def Let_def b64url_roundtrip json_roundtrip
      printable_principal parse_principal_json)

lemma encode_value_ne: "h_value (encodePrincipal hmac p) \<noteq> []"
  by (simp add: encodePrincipal_def Let_def principal_json_def)

text \<open>
  C30 (the principal a service sees is the one the gateway signed). For every principal whose permissions
  are of the enumeration, the headers the gateway attaches decode to exactly that principal, and the
  internal guard admits it iff it holds every permission the route requires; otherwise the answer
  names the missing ones. A pair of headers that the guard admits carries the digest of its value, so
  changing the value without the key is refused.
\<close>

theorem principal_roundtrip:
  assumes "set (p_permissions p) \<subseteq> set Permission_options" and "\<And>v. hmac v \<noteq> []" and "\<not> rt_public rt"
  shows "internal_guard hmac rt (Some (h_value (encodePrincipal hmac p)))
        (Some (h_signature (encodePrincipal hmac p))) = authorize rt p
    \<and> (internal_guard hmac rt (Some value) (Some signature) = Admitted q \<longrightarrow>
         signature = hmac value \<and> missing_permissions rt q = [] \<and>
         json_parse (b64url_decode value) \<noteq> None)"
proof -
  have sig: "h_signature (encodePrincipal hmac p) \<noteq> []" using assms(2) by (simp add: encodePrincipal_def Let_def)
  have "internal_guard hmac rt (Some (h_value (encodePrincipal hmac p)))
      (Some (h_signature (encodePrincipal hmac p))) = authorize rt p"
    using assms(3) sig encode_value_ne[of hmac p] decode_encode_principal[OF assms(1), of hmac]
    by (simp add: internal_guard_def truthy_def authorize_def)
  moreover have "signature = hmac value \<and> missing_permissions rt q = [] \<and> json_parse (b64url_decode value) \<noteq> None"
    if "internal_guard hmac rt (Some value) (Some signature) = Admitted q"
    using that assms(3)
    by (auto simp: internal_guard_def decodePrincipal_def bind_eq_Some_conv split: if_splits option.splits)
  ultimately show ?thesis by blast
qed

theorem principal_roundtrip_witness:
  "internal_guard (\<lambda>v. ''sig'') \<lparr>rt_public = False, rt_permissions = Some [''org:write'']\<rparr>
     (Some (h_value (encodePrincipal (\<lambda>v. ''sig'') (demo_principal ''ann'' Admin)))) (Some ''sig'') =
   Refused (ForbiddenEx ''Missing permission(s): org:write'')"
proof -
  let ?rt = "\<lparr>rt_public = False, rt_permissions = Some [''org:write'']\<rparr>"
  have "set (p_permissions (demo_principal ''ann'' Admin)) \<subseteq> set Permission_options"
    by (auto simp: demo_principal_def)
  then have "internal_guard (\<lambda>v. ''sig'') ?rt
      (Some (h_value (encodePrincipal (\<lambda>v. ''sig'') (demo_principal ''ann'' Admin))))
      (Some (h_signature (encodePrincipal (\<lambda>v. ''sig'') (demo_principal ''ann'' Admin)))) =
      authorize ?rt (demo_principal ''ann'' Admin)"
    using principal_roundtrip[of "demo_principal ''ann'' Admin" "\<lambda>v. ''sig''" ?rt] by simp
  then show ?thesis
    by (simp add: authorize_def missing_permissions_def missing_error_def encodePrincipal_def Let_def
        demo_principal_def Permission_options_def)
qed


section \<open>Whom the gateway admits\<close>

text \<open>How an exception of identity-service looks to the gateway.\<close>

fun status_of :: "id_error \<Rightarrow> nat" where
  "status_of (BadRequestEx m) = 400"
| "status_of (UnauthorizedEx m) = 401"
| "status_of (ForbiddenEx m) = 403"
| "status_of (NotFoundEx m) = 404"
| "status_of (ConflictEx m) = 409"
| "status_of (P2002 meta) = 500"
| "status_of (Other_error m) = 500"

definition reply_of :: "id_error + 'a \<Rightarrow> 'a reply" where
  "reply_of r = (case r of Inl e \<Rightarrow> Reply (status_of e) None | Inr x \<Rightarrow> Reply 201 (Some x))"

text \<open>The gateway in front of identity-service with these tables.\<close>

definition connected ::
    "gateway_env \<Rightarrow> (string \<Rightarrow> string) \<Rightarrow> instant \<Rightarrow> ident \<Rightarrow> identity_db \<Rightarrow> token_row list \<Rightarrow> gateway_env" where
  "connected env sha256 now new_id db ts =
     env\<lparr>g_resolve := \<lambda>b. reply_of (snd (resolveJwt now new_id (rb_sub b) (rb_orgId b) (rb_email b) (rb_name b) db)),
         g_memberships := \<lambda>b. reply_of (snd (resolveActiveMemberships (g_uuid_ok env) new_id (rb_sub b)
                                              (rb_email b) (rb_name b) db)),
         g_verify := \<lambda>t. reply_of (snd (verify_token sha256 now True t ts))\<rparr>"

lemma membership_reply_of: "membership_reply (reply_of r) = Inr x \<Longrightarrow> r = Inr x"
  by (cases r) (auto simp: membership_reply_def reply_of_def res_ok_def split: if_splits)

lemma authorize_Admitted: "authorize rt p = Admitted q \<longleftrightarrow> q = p \<and> missing_permissions rt p = []"
  by (auto simp: authorize_def)

text \<open>The rows of a user that count as memberships.\<close>

lemma readActiveMemberships_in:
  "(org, r) \<in> set (readActiveMemberships ok user db) \<Longrightarrow>
   \<exists>m \<in> set (id_memberships db). m_org m = org \<and> m_user m = user \<and> m_disabledAt m = None \<and> m_role m = role_str r"
  by (auto simp: readActiveMemberships_def in_map_filter parse_role_Some split: if_splits)

lemma resolveActive_outcome:
  assumes "snd (resolveActiveMemberships ok new_id sub email name db) = Inr (u, ms)"
  shows "\<exists>db1. id_memberships db1 = id_memberships db \<and> readActiveMemberships ok u db1 = ms"
proof -
  let ?db1 = "fst (upsertUserFromClaims new_id sub email name db)"
  have "readActiveMemberships ok u ?db1 = ms"
    using assms unfolding resolveActiveMemberships_def
    by (auto split: prod.splits sum.splits if_splits)
  then show ?thesis using upsert_memberships by blast
qed

definition bearer :: "gateway_request \<Rightarrow> string \<Rightarrow> bool" where
  "bearer req token = (gr_authorization req = Some (''Bearer '' @ token))"

lemma canActivate_jwt:
  assumes "bearer req token" and "\<not> prefix PAT_PREFIX token" and "\<not> rt_public rt"
    and "canActivate env rt req = Admitted p"
  shows "verifyJwt env token req = Jwt_principal p \<and> missing_permissions rt p = []"
  using assms
  by (auto simp: canActivate_def bearer_def authorize_Admitted split: jwt_result.splits)

lemma canActivate_pat:
  assumes "bearer req token" and "prefix PAT_PREFIX token" and "\<not> rt_public rt"
  shows "canActivate env rt req =
    (if isCreateOrgRequest req then Refused (UnauthorizedEx ''Invalid token'')
     else (case verifyPat env token of Inl e \<Rightarrow> Refused e | Inr p \<Rightarrow> authorize rt p))"
  using assms by (simp add: canActivate_def bearer_def)

text \<open>
  C6 (a human has the authority of a membership). Whatever the token claims, a principal that the
  gateway mints for a JWT carries the permissions of its role and all that the route requires, and it
  is not a service account. With an organisation in the token it is that organisation, and
  identity-service holds an active membership of the user there with exactly that role when the
  resolution is over; without one, it is the only active membership that the user has.
\<close>

theorem human_authority_is_membership:
  assumes "bearer req token" and "\<not> prefix PAT_PREFIX token" and "\<not> rt_public rt"
    and "env = connected env0 sha256 now new_id db ts"
    and "g_jwt env0 token = Some c" and "canActivate env rt req = Admitted p"
  shows "p_permissions p = ROLE_PERMISSIONS (p_role p) \<and> missing_permissions rt p = [] \<and>
    p_serviceAccount p = None \<and>
    (case jc_org_id c of
       Some org \<Rightarrow>
         p_orgId p = org \<and>
         (\<exists>m b. b = resolve_body_of env c org \<and>
            membership_of org (p_userId p) (fst (resolveJwt now new_id (rb_sub b) org (rb_email b) (rb_name b) db)) = Some m \<and>
            m_disabledAt m = None \<and> m_role m = role_str (p_role p))
     | None \<Rightarrow>
         (\<exists>m \<in> set (id_memberships db). m_org m = p_orgId p \<and> m_user m = p_userId p \<and>
            m_disabledAt m = None \<and> m_role m = role_str (p_role p)) \<and>
         (\<exists>db1. id_memberships db1 = id_memberships db \<and>
            readActiveMemberships (g_uuid_ok env0) (p_userId p) db1 = [(p_orgId p, p_role p)]))"
proof -
  have v: "verifyJwt env token req = Jwt_principal p" and miss: "missing_permissions rt p = []"
    using canActivate_jwt[OF assms(1-3,6)] by blast+
  have jwt: "g_jwt env token = Some c" using assms(4,5) by (simp add: connected_def)
  show ?thesis
  proof (cases "jc_org_id c")
    case (Some org)
    let ?b = "resolve_body_of env c org"
    have org: "rb_orgId ?b = org" by (simp add: resolve_body_of_def)
    obtain u r where res: "resolveMembership env c org = Inr (u, org, r)"
      and p: "p = principalFromMembership env u org r"
      using v jwt Some
      by (auto simp: verifyJwt_def resolveMembership_def split: sum.splits prod.splits if_splits)
    have "membership_reply (g_resolve env ?b) = Inr (u, org, r)"
      using res by (auto simp: resolveMembership_def split: if_splits sum.splits prod.splits)
    then have "snd (resolveJwt now new_id (rb_sub ?b) org (rb_email ?b) (rb_name ?b) db) = Inr (u, org, r)"
      using assms(4) org membership_reply_of by (simp add: connected_def)
    from login_result[OF this refl] show ?thesis
      using miss Some p by (auto simp: principalFromMembership_def permissionsForRole_def)
  next
    case None
    let ?b = "resolve_body_of env c []"
    obtain u org r where rep: "membership_reply (g_memberships env ?b) = Inr (u, [(org, r)])"
      and p: "p = principalFromMembership env u org r"
      using v jwt None
      by (auto simp: verifyJwt_def split: sum.splits prod.splits if_splits list.splits)
    have "snd (resolveActiveMemberships (g_uuid_ok env0) new_id (rb_sub ?b) (rb_email ?b) (rb_name ?b) db) =
        Inr (u, [(org, r)])"
      using rep assms(4) membership_reply_of by (simp add: connected_def)
    from resolveActive_outcome[OF this] obtain db1 where db1: "id_memberships db1 = id_memberships db"
        "readActiveMemberships (g_uuid_ok env0) u db1 = [(org, r)]"
      by blast
    then have "\<exists>m \<in> set (id_memberships db1). m_org m = org \<and> m_user m = u \<and> m_disabledAt m = None \<and>
        m_role m = role_str r"
      using readActiveMemberships_in[of org r "g_uuid_ok env0" u db1] by simp
    then show ?thesis
      using miss None p db1 by (auto simp: principalFromMembership_def permissionsForRole_def)
  qed
qed

definition demo_gateway :: gateway_env where
  "demo_gateway =
     \<lparr>g_jwt = (\<lambda>t. Some \<lparr>jc_sub = t, jc_org_id = Some ''acme'', jc_email = None, jc_name = None\<rparr>),
      g_uuid_ok = nonempty_id, g_email_ok = nonempty_id, g_traceId = ''t1'', g_resolve = (\<lambda>b. Unreachable),
      g_memberships = (\<lambda>b. Unreachable), g_verify = (\<lambda>t. Unreachable)\<rparr>"

definition demo_request :: "string \<Rightarrow> gateway_request" where
  "demo_request token =
     \<lparr>gr_authorization = Some (''Bearer '' @ token), gr_method = Some ''GET'',
      gr_paths = [Some ''/v1/scans'', Some ''/v1/scans'', None]\<rparr>"

definition demo_route :: route where
  "demo_route = \<lparr>rt_public = False, rt_permissions = Some [''member:manage'']\<rparr>"

definition demo_ann :: principal where
  "demo_ann = \<lparr>p_userId = ''ann'', p_orgId = ''acme'', p_role = Owner, p_permissions = Permission_options,
     p_serviceAccount = None, p_traceId = ''t1''\<rparr>"

theorem human_authority_is_membership_witness:
  "p_permissions demo_ann = ROLE_PERMISSIONS (p_role demo_ann) \<and> missing_permissions demo_route demo_ann = []"
proof -
  let ?env = "connected demo_gateway rev 5 ''n'' demo_db []"
  have "canActivate ?env demo_route (demo_request ''s1'') = Admitted demo_ann"
    by code_simp
  moreover have "bearer (demo_request ''s1'') ''s1''" "\<not> prefix PAT_PREFIX ''s1''" "\<not> rt_public demo_route"
    by (simp_all add: bearer_def demo_request_def PAT_PREFIX_def demo_route_def)
  moreover have "g_jwt demo_gateway ''s1'' =
      Some \<lparr>jc_sub = ''s1'', jc_org_id = Some ''acme'', jc_email = None, jc_name = None\<rparr>"
    by (simp add: demo_gateway_def)
  ultimately show ?thesis
    using human_authority_is_membership[of "demo_request ''s1''" "''s1''" demo_route ?env demo_gateway rev 5
        "''n''" demo_db "[]"] by blast
qed

text \<open>What stands behind a machine token that is admitted.\<close>

lemma verify_token_Inr:
  assumes "snd (verify_token sha256 now touched tok ts) = Inr v"
  shows "prefix PAT_PREFIX tok \<and>
    (\<exists>t \<in> set ts. t_hash t = sha256 tok \<and> t_revokedAt t = None \<and>
       (\<forall>e. t_expiresAt t = Some e \<longrightarrow> now \<le> e) \<and>
       v = \<lparr>pr_orgId = Some (t_org t), pr_tokenId = Some (t_id t), pr_scopes = Some (t_scopes t),
            pr_name = Some (t_name t)\<rparr>)"
proof -
  have "prefix PAT_PREFIX tok" using assms by (auto simp: verify_token_def split: if_splits)
  moreover obtain t where "find (\<lambda>t. t_hash t = sha256 tok) ts = Some t" "t_revokedAt t = None"
      "\<not> (case t_expiresAt t of None \<Rightarrow> False | Some e \<Rightarrow> e < now)"
      "v = \<lparr>pr_orgId = Some (t_org t), pr_tokenId = Some (t_id t), pr_scopes = Some (t_scopes t),
            pr_name = Some (t_name t)\<rparr>"
    using assms by (auto simp: verify_token_def split: if_splits option.splits)
  ultimately show ?thesis by (auto simp: find_Some_iff not_less split: option.splits)
qed

lemma verifyPat_connected:
  assumes "verifyPat (connected env sha256 now new_id db ts) tok = Inr p"
  shows "\<exists>t \<in> set ts. t_hash t = sha256 tok \<and> t_revokedAt t = None \<and>
    (\<forall>e. t_expiresAt t = Some e \<longrightarrow> now \<le> e) \<and> p_userId p = t_id t \<and> p_orgId p = t_org t \<and>
    p_role p = Developer \<and> p_permissions p = filter (\<lambda>s. s \<in> set Permission_options) (t_scopes t) \<and>
    p_serviceAccount p = Some (t_name t)"
proof -
  obtain v where v: "snd (verify_token sha256 now True tok ts) = Inr v"
    and p: "verifyPat (connected env sha256 now new_id db ts) tok = Inr p"
    using assms
    by (cases "snd (verify_token sha256 now True tok ts)")
      (auto simp: verifyPat_def connected_def reply_of_def split: if_splits)
  show ?thesis
    using verify_token_Inr[OF v] p v
    by (auto simp: verifyPat_def connected_def reply_of_def res_ok_def split: if_splits)
qed

text \<open>
  C26 (a machine token has the authority of its scopes). A principal minted for a machine token stands for
  one row of the token table with the digest of the presented secret, not revoked and not expired: its
  organisation is that of the row, its permissions are the scopes of the row that are permissions, it is
  never an owner, and it holds all that the route requires. A revoked token is refused from then on,
  and no machine token can create an organisation.
\<close>

theorem machine_authority_is_scopes:
  assumes "bearer req tok" and "prefix PAT_PREFIX tok" and "\<not> rt_public rt"
    and "canActivate (connected env sha256 now new_id db ts) rt req = Admitted p"
  shows "missing_permissions rt p = [] \<and> \<not> isCreateOrgRequest req \<and> p_role p \<noteq> Owner \<and>
    (\<exists>t \<in> set ts. t_hash t = sha256 tok \<and> t_revokedAt t = None \<and>
       (\<forall>e. t_expiresAt t = Some e \<longrightarrow> now \<le> e) \<and> p_orgId p = t_org t \<and>
       set (p_permissions p) = set (t_scopes t) \<inter> set Permission_options)"
proof -
  have a: "\<not> isCreateOrgRequest req" "verifyPat (connected env sha256 now new_id db ts) tok = Inr p"
      "missing_permissions rt p = []"
    using assms(4) unfolding canActivate_pat[OF assms(1-3)]
    by (auto simp: authorize_Admitted split: if_splits sum.splits)
  show ?thesis using a(1,3) verifyPat_connected[OF a(2)] by fastforce
qed

definition demo_token :: token_row where
  "demo_token = \<lparr>t_id = ''tok1'', t_org = ''acme'', t_name = ''ci'', t_hash = rev ''ctem_pat_x'',
     t_scopes = [''member:manage'', ''everything''], t_lastUsedAt = None, t_expiresAt = Some 9,
     t_revokedAt = None\<rparr>"

definition demo_machine :: principal where
  "demo_machine = \<lparr>p_userId = ''tok1'', p_orgId = ''acme'', p_role = Developer,
     p_permissions = [''member:manage''], p_serviceAccount = Some ''ci'', p_traceId = ''t1''\<rparr>"

lemma demo_machine_admitted:
  "canActivate (connected demo_gateway rev 5 ''n'' demo_db [demo_token]) demo_route (demo_request ''ctem_pat_x'') =
   Admitted demo_machine"
  by code_simp

lemma demo_bearer:
  "bearer (demo_request ''ctem_pat_x'') ''ctem_pat_x''" "prefix PAT_PREFIX ''ctem_pat_x''" "\<not> rt_public demo_route"
  by (simp_all add: bearer_def demo_request_def PAT_PREFIX_def demo_route_def)

theorem machine_authority_is_scopes_witness:
  "missing_permissions demo_route demo_machine = [] \<and> p_role demo_machine \<noteq> Owner"
  using machine_authority_is_scopes[OF demo_bearer demo_machine_admitted] by blast

text \<open>Revoking a token of the organisation takes every later verification of its secret away.\<close>

lemma revoked_token_refused:
  assumes "revoke_token now org i ts = (ts', Inr ())" and "distinct (map t_hash ts)"
    and "t \<in> set ts" and "t_org t = org" and "t_id t = i" and "t_hash t = sha256 tok"
  shows "\<exists>e. snd (verify_token sha256 later touched tok ts') = Inl (UnauthorizedEx e)"
proof (cases "prefix PAT_PREFIX tok")
  case True
  let ?g = "\<lambda>t. if t_org t = org \<and> t_id t = i then t\<lparr>t_revokedAt := Some now\<rparr> else t"
  have ts': "ts' = map ?g ts" using assms(1) by (simp add: revoke_token_def split: if_splits)
  have h: "map t_hash ts' = map t_hash ts" by (simp add: ts')
  have "?g t \<in> set ts'" using assms(3) by (simp add: ts')
  then have "find (\<lambda>x. t_hash x = t_hash (?g t)) ts' = Some (?g t)"
    using find_distinct_key[of t_hash ts' "?g t"] assms(2) h by simp
  then show ?thesis using True assms(4-6) by (simp add: verify_token_def)
qed (simp add: verify_token_def)

text \<open>\<^verbatim>\<open>invite\<close> means to refuse callers that are not people by the shape of the caller's identifier; a
  machine token's identifier has that shape too.\<close>

lemma machine_token_invites:
  assumes "verifyPat (connected env sha256 now new_id db ts) tok = Inr p"
    and "\<forall>t \<in> set ts. ok (t_id t)" and "r \<noteq> Owner"
    and "user_by_email (js_lower (js_trim email)) idb = None"
  shows "\<exists>answer. snd (invite ok h t i rnd (p_orgId p) p email r idb) = Inr answer \<and> ia_role answer = r"
proof -
  have "ok (p_userId p)" using verifyPat_connected[OF assms(1)] assms(2) by auto
  then show ?thesis using assms(3,4) by (simp add: invite_def Let_def)
qed

end
