(* ===== verification/VersionRange.thy ===== *)
theory VersionRange
imports Prelude "HOL-Library.List_Lexorder" "HOL-Library.Char_ord"
begin

text \<open>
  Version comparison and advisory ranges (\<^verbatim>\<open>libs/vuln-intel/src/osv-range.ts\<close>): whether an installed
  version falls in what an advisory lists. The comparison is shown to be a total preorder (the locale
  \<open>comparator\<close>, interpreted on it), and the walk over a range's events to agree with the evaluation
  algorithm of the OSV format.
\<close>


section \<open>Comparison functions\<close>

locale comparator =
  fixes cmp :: "'a \<Rightarrow> 'a \<Rightarrow> int"
  assumes swap: "cmp y x = - cmp x y"
    and unit: "cmp x y \<in> {-1, 0, 1}"
    and trans_le: "cmp x y \<le> 0 \<Longrightarrow> cmp y z \<le> 0 \<Longrightarrow> cmp x z \<le> 0"
begin

lemma refl [simp]: "cmp x x = 0"
  using swap[of x x] by simp

lemma less_le_trans: "cmp x y < 0 \<Longrightarrow> cmp y z \<le> 0 \<Longrightarrow> cmp x z < 0"
  using trans_le[of x y z] trans_le[of y z x] swap[of x y] swap[of x z] by linarith

lemma le_less_trans: "cmp x y \<le> 0 \<Longrightarrow> cmp y z < 0 \<Longrightarrow> cmp x z < 0"
  using trans_le[of x y z] trans_le[of z x y] swap[of x z] swap[of y z] by linarith

lemma eq_left: "cmp x y = 0 \<Longrightarrow> cmp x z = cmp y z"
  using trans_le[of x y z] trans_le[of y x z] less_le_trans[of y x z] le_less_trans[of x y z]
    le_less_trans[of y x z] swap[of x y] unit[of x z] unit[of y z] by (auto; linarith)

lemma ge_iff: "0 \<le> cmp x y \<longleftrightarrow> cmp y x \<le> 0"
  using swap[of x y] by simp

end


section \<open>Segments\<close>

text \<open>
  \<^verbatim>\<open>Number\<close> on a run of digits is the nearest double: 53 significant bits, halves to even, and infinity
  from \<open>2 ^ 1024\<close> on.
\<close>

function excess_bits :: "int \<Rightarrow> nat" where
  "excess_bits n = (if n < 9007199254740992 then 0 else Suc (excess_bits (n div 2)))"
  by auto
termination by (relation "measure nat") auto

declare excess_bits.simps [simp del]

definition round53 :: "int \<Rightarrow> int" where
  "round53 n =
     (let k = excess_bits n; q = n div 2 ^ k; r = n mod 2 ^ k
      in (if 2 ^ k < 2 * r \<or> (2 ^ k = 2 * r \<and> odd q) then q + 1 else q) * 2 ^ k)"

definition js_integer :: "string \<Rightarrow> int" where
  "js_integer s =
     (let n = int (digits_val s)
      in if n < 9007199254740992 then n else min (round53 n) (2 ^ 1024))"

definition segment_number :: "string \<Rightarrow> int option" where
  "segment_number s = (if all_digits s then Some (js_integer s) else None)"

definition compare_segment :: "string \<Rightarrow> string \<Rightarrow> int" where
  "compare_segment sa sb =
     (case segment_number sa of
        Some na \<Rightarrow>
          (case segment_number sb of
             Some nb \<Rightarrow> if na \<noteq> nb then (if na < nb then -1 else 1) else 0
           | None \<Rightarrow> -1)
      | None \<Rightarrow>
          (case segment_number sb of
             Some nb \<Rightarrow> 1
           | None \<Rightarrow> if sa \<noteq> sb then (if sa < sb then -1 else 1) else 0))"

fun compare_segments :: "string list \<Rightarrow> string list \<Rightarrow> int" where
  "compare_segments [] [] = 0"
| "compare_segments [] (_ # _) = -1"
| "compare_segments (_ # _) [] = 1"
| "compare_segments (a # as) (b # bs) =
     (let c = compare_segment a b in if c \<noteq> 0 then c else compare_segments as bs)"

definition compareDotted :: "string \<Rightarrow> string \<Rightarrow> int" where
  "compareDotted a b = compare_segments (split_on CHR ''.'' a) (split_on CHR ''.'' b)"


section \<open>Versions\<close>

definition strip_v :: "string \<Rightarrow> string" where
  "strip_v s = (case s of [] \<Rightarrow> [] | c # r \<Rightarrow> if c = CHR ''v'' \<or> c = CHR ''V'' then r else s)"

definition normalize :: "string \<Rightarrow> string" where
  "normalize v = takeWhile (\<lambda>c. c \<noteq> CHR ''+'') (strip_v (js_trim v))"

definition splitPrerelease :: "string \<Rightarrow> string \<times> string option" where
  "splitPrerelease v =
     (takeWhile (\<lambda>c. c \<noteq> CHR ''-'') v,
      case dropWhile (\<lambda>c. c \<noteq> CHR ''-'') v of [] \<Rightarrow> None | _ # pre \<Rightarrow> Some pre)"

definition compare_prerelease :: "string option \<Rightarrow> string option \<Rightarrow> int" where
  "compare_prerelease preA preB =
     (case (preA, preB) of
        (None, None) \<Rightarrow> 0
      | (None, Some _) \<Rightarrow> 1
      | (Some _, None) \<Rightarrow> -1
      | (Some a, Some b) \<Rightarrow> compareDotted a b)"

definition compareVersions :: "string \<Rightarrow> string \<Rightarrow> int" where
  "compareVersions a b =
     (case (splitPrerelease (normalize a), splitPrerelease (normalize b)) of
        ((mainA, preA), (mainB, preB)) \<Rightarrow>
          (let main = compareDotted mainA mainB
           in if main \<noteq> 0 then main else compare_prerelease preA preB))"


section \<open>The comparison is a total preorder\<close>

interpretation segment: comparator compare_segment
  by unfold_locales (auto simp: compare_segment_def split: option.splits if_splits)

lemma segments_comparator: "comparator compare_segments"
proof -
  show ?thesis
  proof
    show "compare_segments ys xs = - compare_segments xs ys" for xs ys
    proof (induction xs ys rule: compare_segments.induct)
      case (4 a as b bs)
      then show ?case using segment.swap[of b a] by (auto simp: Let_def)
    qed auto
    show "compare_segments xs ys \<in> {-1, 0, 1}" for xs ys
      using segment.unit by (induction xs ys rule: compare_segments.induct) (auto simp: Let_def)
    show "compare_segments xs ys \<le> 0 \<Longrightarrow> compare_segments ys zs \<le> 0 \<Longrightarrow> compare_segments xs zs \<le> 0" for xs ys zs
    proof (induction xs ys arbitrary: zs rule: compare_segments.induct)
      case (1 zs)
      then show ?case by simp
    next
      case (2 b bs)
      then show ?case by (cases zs) auto
    next
      case (3 a as)
      then show ?case by simp
    next
      case (4 a as b bs)
      then obtain c cs where zs: "zs = c # cs" by (cases zs) auto
      show ?case
        using "4.prems" "4.IH"[of "compare_segment a b" cs] segment.less_le_trans[of a b c] segment.le_less_trans[of a b c]
          segment.eq_left[of a b c]
        by (auto simp: zs Let_def split: if_splits)
    qed
  qed
qed


text \<open>A comparator of a key, and the lexicographic product of two comparators.\<close>

lemma comparator_key: "comparator cmp \<Longrightarrow> comparator (\<lambda>x y. cmp (f x) (f y))"
  by unfold_locales (auto dest: comparator.swap comparator.unit comparator.trans_le)

lemma comparator_then:
  assumes "comparator f" and "comparator g"
  shows "comparator (\<lambda>x y. if f x y \<noteq> 0 then f x y else g x y)"
proof -
  note f = comparator.swap[OF assms(1)] comparator.unit[OF assms(1)]
  note g = comparator.swap[OF assms(2)] comparator.unit[OF assms(2)]
  show ?thesis
  proof
    show "(if f y x \<noteq> 0 then f y x else g y x) = - (if f x y \<noteq> 0 then f x y else g x y)" for x y
      using f(1)[of y x] g(1)[of y x] by auto
    show "(if f x y \<noteq> 0 then f x y else g x y) \<in> {-1, 0, 1}" for x y using f(2) g(2) by auto
    show "(if f x z \<noteq> 0 then f x z else g x z) \<le> 0"
      if "(if f x y \<noteq> 0 then f x y else g x y) \<le> 0" "(if f y z \<noteq> 0 then f y z else g y z) \<le> 0" for x y z
      using that comparator.less_le_trans[OF assms(1), of x y z] comparator.le_less_trans[OF assms(1), of x y z]
        comparator.eq_left[OF assms(1), of x y z] comparator.trans_le[OF assms(2), of x y z]
      by (auto split: if_splits)
  qed
qed

interpretation dotted: comparator compareDotted
  unfolding compareDotted_def by (rule comparator_key[OF segments_comparator])

lemma prerelease_comparator: "comparator compare_prerelease"
proof -
  show ?thesis
  proof
    show "compare_prerelease q p = - compare_prerelease p q" for p q
      using dotted.swap[of "the q" "the p"] by (cases p; cases q) (simp_all add: compare_prerelease_def)
    show "compare_prerelease p q \<in> {-1, 0, 1}" for p q
      using dotted.unit[of "the p" "the q"] by (cases p; cases q) (simp_all add: compare_prerelease_def)
    show "compare_prerelease p q \<le> 0 \<Longrightarrow> compare_prerelease q r \<le> 0 \<Longrightarrow> compare_prerelease p r \<le> 0" for p q r
      using dotted.trans_le[of "the p" "the q" "the r"]
      by (cases p; cases q; cases r) (simp_all add: compare_prerelease_def)
  qed
qed

interpretation versions: comparator compareVersions
proof -
  let ?f = "\<lambda>a b. compareDotted (fst (splitPrerelease (normalize a))) (fst (splitPrerelease (normalize b)))"
  let ?g = "\<lambda>a b. compare_prerelease (snd (splitPrerelease (normalize a))) (snd (splitPrerelease (normalize b)))"
  have "compareVersions = (\<lambda>a b. if ?f a b \<noteq> 0 then ?f a b else ?g a b)"
    by (simp add: compareVersions_def Let_def fun_eq_iff split: prod.splits)
  moreover have "comparator (\<lambda>a b. if ?f a b \<noteq> 0 then ?f a b else ?g a b)"
    by (rule comparator_then[OF comparator_key[OF dotted.comparator_axioms] comparator_key[OF prerelease_comparator]])
  ultimately show "comparator compareVersions" by simp
qed

lemmas version_defs = compareVersions_def normalize_def strip_v_def splitPrerelease_def compareDotted_def
  compare_segment_def segment_number_def js_integer_def compare_prerelease_def all_digits_def
  is_digit_def ccode_def digits_val_def js_trim_def js_ws_def


section \<open>Advisory ranges\<close>

text \<open>A missing list (\<^verbatim>\<open>undefined\<close>) is \<^term>\<open>None\<close>.\<close>

record osv_event =
  introduced :: "string option"
  fixed :: "string option"
  last_affected :: "string option"
  limit :: "string option"

record osv_range =
  range_type :: "string option"
  events :: "osv_event list option"

record osv_affected =
  package_name :: "string option"
  package_ecosystem :: "string option"
  versions :: "string list option"
  ranges :: "osv_range list option"

definition or_empty :: "'a list option \<Rightarrow> 'a list" where
  "or_empty xs = (case xs of None \<Rightarrow> [] | Some ys \<Rightarrow> ys)"

definition gte :: "string \<Rightarrow> string \<Rightarrow> bool" where
  "gte version i = (i = ''0'' \<or> 0 \<le> compareVersions version i)"

text \<open>The loop over the events with its variable \<^verbatim>\<open>openedAt\<close>.\<close>

fun range_loop :: "string \<Rightarrow> string option \<Rightarrow> osv_event list \<Rightarrow> bool" where
  "range_loop version openedAt [] = (case openedAt of None \<Rightarrow> False | Some i \<Rightarrow> gte version i)"
| "range_loop version openedAt (e # es) =
     (case introduced e of
        Some i \<Rightarrow> range_loop version (Some i) es
      | None \<Rightarrow>
          (case openedAt of
             None \<Rightarrow> range_loop version None es
           | Some i \<Rightarrow>
               (case fixed e of
                  Some f \<Rightarrow>
                    if gte version i \<and> compareVersions version f < 0 then True
                    else range_loop version None es
                | None \<Rightarrow>
                    (case last_affected e of
                       Some l \<Rightarrow>
                         if gte version i \<and> compareVersions version l \<le> 0 then True
                         else range_loop version None es
                     | None \<Rightarrow> range_loop version (Some i) es))))"

definition inRange :: "string \<Rightarrow> osv_event list \<Rightarrow> bool" where
  "inRange version evs = range_loop version None evs"

text \<open>A name (an ecosystem) of the entry that differs from the wanted one, both given, skips the entry.\<close>

definition mismatch :: "string option \<Rightarrow> string option \<Rightarrow> bool" where
  "mismatch wanted given = (truthy wanted \<and> truthy given \<and> given \<noteq> wanted)"

definition entry_affects :: "string \<Rightarrow> osv_affected \<Rightarrow> bool" where
  "entry_affects version e =
     (if or_empty (versions e) \<noteq> [] then
        version \<in> set (or_empty (versions e)) \<or> (CHR ''v'' # version) \<in> set (or_empty (versions e))
      else list_ex (\<lambda>r. range_type r \<noteq> Some ''GIT'' \<and> inRange version (or_empty (events r))) (or_empty (ranges e)))"

definition versionAffected :: "string \<Rightarrow> osv_affected list option \<Rightarrow> string option \<Rightarrow> string option \<Rightarrow> bool" where
  "versionAffected version affected name ecosystem =
     list_ex (\<lambda>e. \<not> mismatch name (package_name e) \<and> \<not> mismatch ecosystem (package_ecosystem e)
                  \<and> entry_affects version e) (or_empty affected)"


section \<open>Agreement with the evaluation algorithm of the OSV format\<close>

text \<open>An event as the format has it: exactly one bound.\<close>

datatype bound = From string | Until string | Through string

definition no_event :: osv_event where
  "no_event = \<lparr>introduced = None, fixed = None, last_affected = None, limit = None\<rparr>"

fun event_of :: "bound \<Rightarrow> osv_event" where
  "event_of (From i) = no_event\<lparr>introduced := Some i\<rparr>"
| "event_of (Until f) = no_event\<lparr>fixed := Some f\<rparr>"
| "event_of (Through l) = no_event\<lparr>last_affected := Some l\<rparr>"

text \<open>The format's algorithm keeps one flag over the sorted events.\<close>

fun osv_status :: "string \<Rightarrow> bool \<Rightarrow> bound list \<Rightarrow> bool" where
  "osv_status v flag [] = flag"
| "osv_status v flag (From i # bs) = osv_status v (if gte v i then True else flag) bs"
| "osv_status v flag (Until f # bs) = osv_status v (if 0 \<le> compareVersions v f then False else flag) bs"
| "osv_status v flag (Through l # bs) = osv_status v (if 0 < compareVersions v l then False else flag) bs"

text \<open>Sorted events, each interval closed before the next one opens; only the first may open at \<open>0\<close>, and
  no interval that ends with a fix is empty.\<close>

definition reaches :: "string option \<Rightarrow> string \<Rightarrow> bool" where
  "reaches prev b = (case prev of None \<Rightarrow> True | Some l \<Rightarrow> compareVersions l b \<le> 0)"

definition passes :: "string option \<Rightarrow> string \<Rightarrow> bool" where
  "passes prev b = (case prev of None \<Rightarrow> True | Some l \<Rightarrow> compareVersions l b < 0)"

fun osv_ordered :: "bool \<Rightarrow> string option \<Rightarrow> bound list \<Rightarrow> bool" where
  "osv_ordered is_open prev [] = True"
| "osv_ordered is_open prev (From i # bs) =
     (\<not> is_open \<and> reaches prev i \<and> (prev \<noteq> None \<longrightarrow> i \<noteq> ''0'')
      \<and> osv_ordered True (if i = ''0'' then None else Some i) bs)"
| "osv_ordered is_open prev (Until f # bs) = (is_open \<and> passes prev f \<and> osv_ordered False (Some f) bs)"
| "osv_ordered is_open prev (Through l # bs) = (is_open \<and> reaches prev l \<and> osv_ordered False (Some l) bs)"

text \<open>A version below everything that is still to come keeps its status.\<close>

lemma status_frozen:
  "\<lbrakk>osv_ordered is_open (Some l) bs; compareVersions v l < 0\<rbrakk> \<Longrightarrow> osv_status v flag bs = flag"
proof (induction bs arbitrary: is_open l flag)
  case (Cons b bs)
  have below: "compareVersions v x < 0" if "compareVersions l x \<le> 0" for x
    using versions.less_le_trans Cons.prems(2) that by blast
  show ?case
  proof (cases b)
    case (From i)
    then have "compareVersions v i < 0" using below Cons.prems(1) by (simp add: reaches_def)
    then show ?thesis using From Cons by (auto simp: gte_def)
  next
    case (Until f)
    then have "compareVersions v f < 0" using below[of f] Cons.prems(1) by (simp add: passes_def)
    then show ?thesis using Until Cons by auto
  next
    case (Through t)
    then have "compareVersions v t < 0" using below Cons.prems(1) by (simp add: reaches_def)
    then show ?thesis using Through Cons by auto
  qed
qed simp

text \<open>A version that is affected and not above the last bound stays affected.\<close>

lemma status_kept:
  "\<lbrakk>osv_ordered is_open (Some l) bs; compareVersions v l \<le> 0\<rbrakk> \<Longrightarrow> osv_status v True bs"
proof (induction bs arbitrary: is_open l)
  case (Cons b bs)
  have below: "compareVersions v x \<le> 0" if "compareVersions l x \<le> 0" for x
    using versions.trans_le Cons.prems(2) that by blast
  show ?case
  proof (cases b)
    case (From i)
    then show ?thesis using below[of i] Cons by (auto simp: reaches_def)
  next
    case (Until f)
    then have "compareVersions v f < 0"
      using versions.le_less_trans[OF Cons.prems(2)] Cons.prems(1) by (simp add: passes_def)
    then show ?thesis using Until Cons.prems(1) status_frozen[of False f bs v True] by simp
  next
    case (Through t)
    then show ?thesis using below[of t] Cons by (auto simp: reaches_def)
  qed
qed simp

lemma range_loop_status:
  "osv_ordered (opened \<noteq> None) prev bs \<Longrightarrow>
     range_loop v opened (map event_of bs) = osv_status v (case opened of None \<Rightarrow> False | Some i \<Rightarrow> gte v i) bs"
proof (induction bs arbitrary: opened prev)
  case (Cons b bs)
  show ?case
  proof (cases b)
    case (From i)
    then have "opened = None" "osv_ordered True (if i = ''0'' then None else Some i) bs"
      using Cons.prems(1) by auto
    then show ?thesis using From Cons.IH[of "Some i" "if i = ''0'' then None else Some i"]
      by (simp add: no_event_def)
  next
    case (Until f)
    then obtain i where o: "opened = Some i" "osv_ordered False (Some f) bs" using Cons.prems(1) by auto
    have IH: "range_loop v None (map event_of bs) = osv_status v False bs"
      using Cons.IH[of None "Some f"] o(2) by simp
    show ?thesis
    proof (cases "compareVersions v f < 0")
      case True
      then show ?thesis using status_frozen[OF o(2) True] IH by (simp add: Until o no_event_def)
    qed (use IH in \<open>simp add: Until o no_event_def\<close>)
  next
    case (Through l)
    then obtain i where o: "opened = Some i" "osv_ordered False (Some l) bs" using Cons.prems(1) by auto
    have IH: "range_loop v None (map event_of bs) = osv_status v False bs"
      using Cons.IH[of None "Some l"] o(2) by simp
    show ?thesis
    proof (cases "compareVersions v l \<le> 0")
      case True
      then show ?thesis using status_kept[OF o(2) True] IH by (simp add: Through o no_event_def)
    qed (use IH in \<open>simp add: Through o no_event_def\<close>)
  qed
qed (simp split: option.split)




text \<open>
  C5 (ranges are evaluated as the OSV format prescribes). For an advisory entry without an enumerated
  list whose ranges have sorted events, each interval closed before the next one opens, a version is
  affected exactly when the evaluation algorithm of the OSV format says so for one of the ranges: from
  \<^verbatim>\<open>introduced\<close> on, no longer from \<^verbatim>\<open>fixed\<close> on, and still at \<^verbatim>\<open>last_affected\<close>.
\<close>

theorem affected_agrees_with_osv:
  assumes "versions e = None" and "ty \<noteq> Some ''GIT''"
    and "ranges e = Some (map (\<lambda>bs. \<lparr>range_type = ty, events = Some (map event_of bs)\<rparr>) bss)"
    and "\<forall>bs \<in> set bss. osv_ordered False None bs"
  shows "versionAffected v (Some [e]) (package_name e) (package_ecosystem e) \<longleftrightarrow>
    (\<exists>bs \<in> set bss. osv_status v False bs)"
proof -
  have "inRange v (map event_of bs) = osv_status v False bs" if "bs \<in> set bss" for bs
    using range_loop_status[of None None bs v] assms(4) that by (simp add: inRange_def)
  then show ?thesis
    using assms(1-3) by (auto simp: versionAffected_def entry_affects_def or_empty_def mismatch_def list_ex_iff)
qed

definition express_entry :: osv_affected where
  "express_entry = \<lparr>package_name = Some ''express'', package_ecosystem = Some ''npm'', versions = None,
     ranges = Some (map (\<lambda>bs. \<lparr>range_type = Some ''SEMVER'', events = Some (map event_of bs)\<rparr>)
       [[From ''0'', Until ''3.11.0'', From ''4.0.0'', Through ''4.17.2'']])\<rparr>"

theorem affected_agrees_with_osv_witness:
  "versionAffected ''4.17.2'' (Some [express_entry]) (Some ''express'') (Some ''npm'')
   \<and> \<not> versionAffected ''3.11.0'' (Some [express_entry]) (Some ''express'') (Some ''npm'')"
proof -
  let ?bs = "[From ''0'', Until ''3.11.0'', From ''4.0.0'', Through ''4.17.2'']"
  have ord: "osv_ordered False None ?bs" by code_simp
  have "versionAffected v (Some [express_entry]) (Some ''express'') (Some ''npm'') = osv_status v False ?bs" for v
    using affected_agrees_with_osv[of express_entry "Some ''SEMVER''" "[?bs]" v] ord
    by (simp only: express_entry_def) simp
  moreover have "osv_status ''4.17.2'' False ?bs" by code_simp
  moreover have "\<not> osv_status ''3.11.0'' False ?bs" by code_simp
  ultimately show ?thesis by (simp only:) simp
qed

text \<open>An \<^verbatim>\<open>introduced\<close> that follows another one without a fix between them replaces it, while the format's
  algorithm keeps the versions from the first one on affected.\<close>

lemma second_introduced_replaces_the_first:
  "\<not> inRange ''1.5.0'' (map event_of [From ''1.0.0'', From ''2.0.0'', Until ''3.0.0''])"
  "osv_status ''1.5.0'' False [From ''1.0.0'', From ''2.0.0'', Until ''3.0.0'']"
  by code_simp+

end
