(* ===== verification/JsNumber.thy ===== *)
theory JsNumber
imports Wire
begin

text \<open>
  What the source uses of the standard library's numbers: \<^verbatim>\<open>Number\<close> and \<^verbatim>\<open>parseInt\<close> on a text, and \<^verbatim>\<open>String\<close>
  on a number. Numbers are exact rationals.
\<close>


section \<open>Number and String\<close>

text \<open>\<^verbatim>\<open>Number\<close> on a text, \<^term>\<open>None\<close> for NaN; an infinity is a number beyond every double.\<close>

definition beyond_double :: rat where
  "beyond_double = 10 ^ 400"

definition decimal_value :: "string \<Rightarrow> rat option" where
  "decimal_value s =
     (case digits_of s of
        (w, r) \<Rightarrow>
          (case (case r of c # t \<Rightarrow> if c = CHR ''.'' then digits_of t else ([], r) | [] \<Rightarrow> ([], r)) of
             (f, r2) \<Rightarrow>
               if w @ f = [] then None
               else
                 (case exp_part r2 of
                    Some (x, []) \<Rightarrow> Some (of_nat (digits_val (w @ f)) / 10 ^ length f * x)
                  | _ \<Rightarrow> None)))"

definition radix_value :: "nat \<Rightarrow> string \<Rightarrow> rat option" where
  "radix_value base s =
     (if s \<noteq> [] \<and> list_all (\<lambda>c. case hex_val c of None \<Rightarrow> False | Some d \<Rightarrow> d < base) s
      then Some (of_nat (foldl (\<lambda>n c. base * n + the (hex_val c)) 0 s)) else None)"

definition unsigned_value :: "string \<Rightarrow> rat option" where
  "unsigned_value s = (if s = ''Infinity'' then Some beyond_double else decimal_value s)"

definition js_number :: "string \<Rightarrow> rat option" where
  "js_number s =
     (let t = js_trim s
      in if t = [] then Some 0
         else if js_lower (take 2 t) = ''0x'' then radix_value 16 (drop 2 t)
         else if js_lower (take 2 t) = ''0o'' then radix_value 8 (drop 2 t)
         else if js_lower (take 2 t) = ''0b'' then radix_value 2 (drop 2 t)
         else if hd t = CHR ''-'' then map_option uminus (unsigned_value (tl t))
         else if hd t = CHR ''+'' then unsigned_value (tl t)
         else unsigned_value t)"

text \<open>\<^verbatim>\<open>String\<close> on a number, in plain decimal notation.\<close>

fun fraction_digits :: "nat \<Rightarrow> rat \<Rightarrow> string" where
  "fraction_digits 0 r = []"
| "fraction_digits (Suc n) r =
     (if r = 0 then []
      else char_of (48 + nat \<lfloor>10 * r\<rfloor>) # fraction_digits n (10 * r - of_int \<lfloor>10 * r\<rfloor>))"

definition number_text :: "rat \<Rightarrow> string" where
  "number_text q =
     (if q < 0 then ''-'' else []) @ string_of_nat (nat \<lfloor>\<bar>q\<bar>\<rfloor>) @
     (if \<bar>q\<bar> = of_int \<lfloor>\<bar>q\<bar>\<rfloor> then [] else CHR ''.'' # fraction_digits 17 (\<bar>q\<bar> - of_int \<lfloor>\<bar>q\<bar>\<rfloor>))"

end
