(* ===== verification/VulnFeed.thy ===== *)
theory VulnFeed
imports VersionRange JsNumber
begin

text \<open>
  The vulnerability mirror (\<^verbatim>\<open>apps/risk-service/src/feed\<close>): the mappings of OSV, GHSA and NVD documents to
  rows (\<^verbatim>\<open>vuln-feed.mapper.ts\<close>, \<^verbatim>\<open>ghsa.mapper.ts\<close>, \<^verbatim>\<open>nvd.mapper.ts\<close>) and the service that writes them
  (\<^verbatim>\<open>vuln-feed.service.ts\<close>).

  Scores are exact rationals. \<open>date\<close> is \<^verbatim>\<open>new Date\<close> on a text, \<^term>\<open>None\<close> for an invalid date, which the
  database client refuses.
\<close>


section \<open>Rows\<close>

text \<open>A timestamp column: \<^term>\<open>Some None\<close> is an invalid date.\<close>

type_synonym date_value = "instant option option"

record vuln_row =
  v_id :: string
  v_source :: string
  v_aliases :: "string list"
  v_summary :: string
  v_details :: string
  v_severity :: string
  v_cvssVector :: "string option"
  v_cvssScore :: "rat option"
  v_publishedAt :: date_value
  v_modifiedAt :: date_value
  v_references :: "json list"
  v_affected :: "osv_affected list"

record osv_advisory =
  adv_id :: string
  adv_aliases :: "string list option"
  adv_summary :: "string option"
  adv_details :: "string option"
  adv_published :: "string option"
  adv_modified :: "string option"
  adv_severity :: "(string option \<times> string) list option"
  adv_references :: "json list option"
  adv_affected :: "osv_affected list option"

definition parseCvssBaseScore :: "string \<Rightarrow> rat option" where
  "parseCvssBaseScore vector = js_number vector"

definition severityFromScore :: "rat option \<Rightarrow> string" where
  "severityFromScore score =
     (case score of
        None \<Rightarrow> ''medium''
      | Some s \<Rightarrow>
          if 9 \<le> s then ''critical'' else if 7 \<le> s then ''high'' else if 4 \<le> s then ''medium''
          else if 0 < s then ''low'' else ''info'')"

definition date_column :: "(string \<Rightarrow> instant option) \<Rightarrow> string option \<Rightarrow> date_value" where
  "date_column date t = (if truthy t then Some (date (the t)) else None)"

definition is_cvss :: "string option \<times> string \<Rightarrow> bool" where
  "is_cvss s = (case fst s of None \<Rightarrow> False | Some ty \<Rightarrow> prefix ''CVSS'' ty)"

definition source_of :: "string \<Rightarrow> string" where
  "source_of i = (if prefix ''GHSA'' i then ''GHSA'' else if prefix ''CVE'' i then ''CVE'' else ''OSV'')"

definition summary_of :: "string option \<Rightarrow> string option \<Rightarrow> string" where
  "summary_of summary details =
     (case summary of Some s \<Rightarrow> s | None \<Rightarrow> (case details of Some d \<Rightarrow> take 500 d | None \<Rightarrow> []))"

definition advisoryToRow :: "(string \<Rightarrow> instant option) \<Rightarrow> osv_advisory \<Rightarrow> vuln_row" where
  "advisoryToRow date a =
     (let cvss = find is_cvss (or_empty (adv_severity a));
          score = Option.bind cvss (\<lambda>c. parseCvssBaseScore (snd c))
      in \<lparr>v_id = adv_id a, v_source = source_of (adv_id a), v_aliases = or_empty (adv_aliases a),
          v_summary = summary_of (adv_summary a) (adv_details a),
          v_details = (case adv_details a of Some d \<Rightarrow> d | None \<Rightarrow> []),
          v_severity = severityFromScore score, v_cvssVector = map_option snd cvss, v_cvssScore = score,
          v_publishedAt = date_column date (adv_published a), v_modifiedAt = date_column date (adv_modified a),
          v_references = or_empty (adv_references a), v_affected = or_empty (adv_affected a)\<rparr>)"

text \<open>\<^verbatim>\<open>Map.set\<close>: an existing key keeps its place.\<close>

fun assoc_set :: "'k \<Rightarrow> 'v \<Rightarrow> ('k \<times> 'v) list \<Rightarrow> ('k \<times> 'v) list" where
  "assoc_set k v [] = [(k, v)]"
| "assoc_set k v ((k', v') # kvs) = (if k' = k then (k, v) # kvs else (k', v') # assoc_set k v kvs)"

definition affects_key :: "string \<Rightarrow> string \<Rightarrow> string" where
  "affects_key ecosystem name = ecosystem @ '':'' @ name"

definition advisoryAffects :: "osv_affected list option \<Rightarrow> (string \<times> string) list" where
  "advisoryAffects affected =
     map snd (foldl (\<lambda>seen e.
         if \<not> truthy (package_ecosystem e) \<or> \<not> truthy (package_name e) then seen
         else (let ecosystem = the (package_ecosystem e); name = the (package_name e)
               in assoc_set (affects_key ecosystem name) (ecosystem, name) seen))
       [] (or_empty affected))"


section \<open>GitHub advisories (ghsa.mapper.ts)\<close>

definition GHSA_TO_OSV :: "(string \<times> string) list" where
  "GHSA_TO_OSV =
     [(''npm'', ''npm''), (''pip'', ''PyPI''), (''maven'', ''Maven''), (''nuget'', ''NuGet''),
      (''composer'', ''Packagist''), (''go'', ''Go''), (''rust'', ''crates.io''), (''rubygems'', ''RubyGems''),
      (''erlang'', ''Hex''), (''pub'', ''Pub''), (''swift'', ''SwiftURL''), (''actions'', ''GitHub Actions'')]"

definition OSV_TO_GHSA :: "(string \<times> string) list" where
  "OSV_TO_GHSA =
     [(''npm'', ''npm''), (''PyPI'', ''pip''), (''Maven'', ''maven''), (''NuGet'', ''nuget''),
      (''Packagist'', ''composer''), (''Go'', ''go''), (''crates.io'', ''rust''), (''RubyGems'', ''rubygems''),
      (''Hex'', ''erlang''), (''Pub'', ''pub''), (''SwiftURL'', ''swift''), (''GitHub Actions'', ''actions'')]"

definition ghsaEcosystemToOsv :: "string option \<Rightarrow> string option" where
  "ghsaEcosystemToOsv ecosystem =
     (if \<not> truthy ecosystem then None
      else (case map_of GHSA_TO_OSV (js_lower (the ecosystem)) of Some e \<Rightarrow> Some e | None \<Rightarrow> ecosystem))"

definition osvEcosystemToGhsa :: "string \<Rightarrow> string" where
  "osvEcosystemToGhsa ecosystem =
     (case map_of OSV_TO_GHSA ecosystem of Some e \<Rightarrow> e | None \<Rightarrow> js_lower ecosystem)"

record ghsa_vulnerability =
  gv_ecosystem :: "string option"
  gv_name :: "string option"
  gv_range :: "string option"
  gv_patched :: "string option"

record ghsa_advisory =
  ga_id :: string
  ga_cve :: "string option"
  ga_summary :: "string option"
  ga_description :: "string option"
  ga_severity :: "string option"
  ga_published :: "string option"
  ga_updated :: "string option"
  ga_withdrawn :: "string option"
  ga_score :: "rat option"
  ga_vector :: "string option"
  ga_references :: "string list option"
  ga_vulnerabilities :: "ghsa_vulnerability list option"

definition text_of :: "string option \<Rightarrow> string" where
  "text_of t = (case t of None \<Rightarrow> [] | Some s \<Rightarrow> s)"

text \<open>One constraint: \<^verbatim>\<open>/^(>=|<=|>|<|==|=)\s*(.+)$/\<close> tried operator by operator, or a bare version. The part is
  already trimmed; the dot matches no line terminator.\<close>

definition try_op :: "string \<Rightarrow> string \<Rightarrow> (string \<times> string) option" where
  "try_op op part =
     (if prefix op part then
        (let rest = dropWhile js_ws (drop (length op) part)
         in if rest \<noteq> [] \<and> list_all (\<lambda>c. ccode c \<noteq> 10 \<and> ccode c \<noteq> 13) rest
            then Some (if op = ''=='' then ''='' else op, js_trim rest) else None)
      else None)"

fun first_some :: "('a \<Rightarrow> 'b option) \<Rightarrow> 'a list \<Rightarrow> 'b option" where
  "first_some f [] = None"
| "first_some f (x # xs) = (case f x of Some y \<Rightarrow> Some y | None \<Rightarrow> first_some f xs)"

definition bare_version :: "string \<Rightarrow> bool" where
  "bare_version part =
     (case strip_v part of [] \<Rightarrow> False | c # _ \<Rightarrow> is_digit c)"

definition parseConstraint :: "string \<Rightarrow> (string \<times> string) option" where
  "parseConstraint part =
     (case first_some (\<lambda>op. try_op op part) [''>='', ''<='', ''>'', ''<'', ''=='', ''=''] of
        Some m \<Rightarrow> Some m
      | None \<Rightarrow> if bare_version part then Some (''='', part) else None)"

record range_acc =
  ra_introduced :: string
  ra_fixed :: "string option"
  ra_last :: "string option"
  ra_exact :: "string option"

definition add_constraint :: "range_acc \<Rightarrow> string \<Rightarrow> range_acc" where
  "add_constraint acc part =
     (case parseConstraint part of
        None \<Rightarrow> acc
      | Some (op, version) \<Rightarrow>
          if op = ''='' then acc\<lparr>ra_exact := Some version\<rparr>
          else if op = ''>='' \<or> op = ''>'' then acc\<lparr>ra_introduced := version\<rparr>
          else if op = ''<'' then acc\<lparr>ra_fixed := Some version\<rparr>
          else acc\<lparr>ra_last := Some version\<rparr>)"

definition constraints :: "string \<Rightarrow> string list" where
  "constraints r = filter (\<lambda>p. p \<noteq> []) (map js_trim (split_on CHR '','' r))"

text \<open>The versions and the ranges of an entry.\<close>

definition semver :: "bound list \<Rightarrow> osv_range list option" where
  "semver bs = Some [\<lparr>range_type = Some ''SEMVER'', events = Some (map event_of bs)\<rparr>]"

definition ghsaRangeToOsv :: "string option \<Rightarrow> string option \<Rightarrow> string list option \<times> osv_range list option" where
  "ghsaRangeToOsv rng patched =
     (if js_trim (text_of rng) = [] then
        (if \<not> truthy patched then (None, None)
         else (None, semver [From ''0'', Until (the patched)]))
      else
        (let acc = foldl add_constraint \<lparr>ra_introduced = ''0'', ra_fixed = None, ra_last = None, ra_exact = None\<rparr>
                     (constraints (the rng));
             exact = ra_exact acc;
             unbounded = \<not> truthy (ra_fixed acc) \<and> \<not> truthy (ra_last acc)
         in if truthy exact \<and> unbounded \<and> ra_introduced acc = ''0'' then (Some [the exact], None)
            else
              (let upper = (if unbounded \<and> truthy patched then patched else ra_fixed acc)
               in (None, semver (From (ra_introduced acc) #
                          (if truthy upper then [Until (the upper)]
                           else if truthy (ra_last acc) then [Through (the (ra_last acc))] else []))))))"

definition ghsaVulnerableEntries :: "ghsa_advisory \<Rightarrow> ghsa_vulnerability list" where
  "ghsaVulnerableEntries a =
     filter (\<lambda>v. truthy (gv_name v) \<and> truthy (gv_ecosystem v) \<and>
                 (js_trim (text_of (gv_range v)) \<noteq> [] \<or> truthy (gv_patched v)))
       (or_empty (ga_vulnerabilities a))"

definition ghsa_entry :: "ghsa_vulnerability \<Rightarrow> osv_affected" where
  "ghsa_entry v =
     (case ghsaRangeToOsv (gv_range v) (gv_patched v) of
        (vs, rs) \<Rightarrow> \<lparr>package_name = gv_name v, package_ecosystem = ghsaEcosystemToOsv (gv_ecosystem v),
                     versions = vs, ranges = rs\<rparr>)"

definition ghsaToRow :: "(string \<Rightarrow> instant option) \<Rightarrow> ghsa_advisory \<Rightarrow> vuln_row" where
  "ghsaToRow date a =
     (let row = advisoryToRow date
            \<lparr>adv_id = ga_id a, adv_aliases = Some (if truthy (ga_cve a) then [the (ga_cve a)] else []),
             adv_summary = ga_summary a, adv_details = ga_description a, adv_published = ga_published a,
             adv_modified = ga_updated a,
             adv_severity = map_option (\<lambda>q. [(Some ''CVSS_V3'', number_text q)]) (ga_score a),
             adv_references = Some (map (\<lambda>u. JObj [(''url'', JStr u)]) (or_empty (ga_references a))),
             adv_affected = Some (map ghsa_entry (ghsaVulnerableEntries a))\<rparr>;
          row1 = (if truthy (ga_vector a) then row\<lparr>v_cvssVector := ga_vector a\<rparr> else row)
      in (case ga_score a of
            Some q \<Rightarrow> row1\<lparr>v_cvssScore := Some q, v_severity := severityFromScore (Some q)\<rparr>
          | None \<Rightarrow>
              if truthy (ga_severity a) then row1\<lparr>v_severity := js_lower (the (ga_severity a))\<rparr> else row1))"

definition ghsaAffects :: "ghsa_advisory \<Rightarrow> (string \<times> string) list" where
  "ghsaAffects a = advisoryAffects (Some (map ghsa_entry (ghsaVulnerableEntries a)))"


section \<open>NVD documents (nvd.mapper.ts)\<close>

record nvd_metric =
  nm_type :: "string option"
  nm_baseScore :: "rat option"
  nm_vector :: "string option"
  nm_severity :: "string option"

record nvd_cve =
  nc_id :: string
  nc_published :: "string option"
  nc_lastModified :: "string option"
  nc_descriptions :: "(string option \<times> string option) list option"
  nc_v40 :: "nvd_metric list option"
  nc_v31 :: "nvd_metric list option"
  nc_v30 :: "nvd_metric list option"
  nc_v2 :: "nvd_metric list option"
  nc_references :: "string option list option"

record nvd_cvss =
  nv_score :: rat
  nv_vector :: string
  nv_severity :: string

definition nvdSeverity :: "string option \<Rightarrow> rat \<Rightarrow> string" where
  "nvdSeverity raw score =
     (if \<not> truthy raw then severityFromScore (Some score)
      else if js_lower (the raw) = ''none'' then ''info'' else js_lower (the raw))"

definition group_cvss :: "nvd_metric list option \<Rightarrow> nvd_cvss option" where
  "group_cvss g =
     (case or_empty g of
        [] \<Rightarrow> None
      | m0 # ms \<Rightarrow>
          (let chosen = (case find (\<lambda>m. nm_type m = Some ''Primary'') (m0 # ms) of Some m \<Rightarrow> m | None \<Rightarrow> m0)
           in (case nm_baseScore chosen of
                 None \<Rightarrow> None
               | Some q \<Rightarrow>
                   Some \<lparr>nv_score = q,
                         nv_vector = (case nm_vector chosen of Some v \<Rightarrow> v | None \<Rightarrow> number_text q),
                         nv_severity = nvdSeverity (nm_severity chosen) q\<rparr>)))"

definition pickNvdCvss :: "nvd_cve \<Rightarrow> nvd_cvss option" where
  "pickNvdCvss c = first_some group_cvss [nc_v40 c, nc_v31 c, nc_v30 c, nc_v2 c]"

definition nvd_text :: "nvd_cve \<Rightarrow> string" where
  "nvd_text c =
     (case find (\<lambda>d. fst d = Some ''en'') (or_empty (nc_descriptions c)) of
        Some d \<Rightarrow> text_of (snd d)
      | None \<Rightarrow> (case or_empty (nc_descriptions c) of [] \<Rightarrow> [] | d # _ \<Rightarrow> text_of (snd d)))"

definition nvdToRow :: "(string \<Rightarrow> instant option) \<Rightarrow> nvd_cve \<Rightarrow> vuln_row" where
  "nvdToRow date c =
     (let cvss = pickNvdCvss c
      in \<lparr>v_id = nc_id c, v_source = ''NVD'', v_aliases = [], v_summary = take 500 (nvd_text c),
          v_details = nvd_text c,
          v_severity = (case cvss of Some q \<Rightarrow> nv_severity q | None \<Rightarrow> severityFromScore None),
          v_cvssVector = map_option nv_vector cvss, v_cvssScore = map_option nv_score cvss,
          v_publishedAt = date_column date (nc_published c), v_modifiedAt = date_column date (nc_lastModified c),
          v_references = map (\<lambda>u. JObj [(''url'', JStr (the u))]) (filter truthy (or_empty (nc_references c))),
          v_affected = []\<rparr>)"


section \<open>The mirror and its writes (vuln-feed.service.ts)\<close>

definition MIRROR_TTL_MS :: int where "MIRROR_TTL_MS = 24 * 3600000"
definition MAX_PAGES :: nat where "MAX_PAGES = 10"
definition REFRESH_BATCH :: nat where "REFRESH_BATCH = 50"
definition NVD_PER_PACKAGE :: nat where "NVD_PER_PACKAGE = 15"
definition NVD_RECENT_MS :: int where "NVD_RECENT_MS = 24 * 3600000"
definition GHSA_PAGE_SIZE :: nat where "GHSA_PAGE_SIZE = 100"

text \<open>A row of the table \<^verbatim>\<open>vulnerabilities\<close>: the advisory and the columns that enrichment owns.\<close>

record mirror_row =
  m_row :: vuln_row
  m_kev :: bool
  m_kevDueDate :: "instant option"
  m_epssScore :: "rat option"
  m_epssPercentile :: "rat option"

record sync_row =
  sy_ecosystem :: string
  sy_package :: string
  sy_syncedAt :: instant
  sy_advisories :: nat

record vuln_store =
  mirror :: "mirror_row list"
  affects_index :: "(string \<times> string \<times> string) list"
  syncs :: "sync_row list"

definition vid :: "mirror_row \<Rightarrow> string" where
  "vid m = v_id (m_row m)"

definition new_mirror_row :: "vuln_row \<Rightarrow> mirror_row" where
  "new_mirror_row row =
     \<lparr>m_row = row, m_kev = False, m_kevDueDate = None, m_epssScore = None, m_epssPercentile = None\<rparr>"

definition or_value :: "'a option \<Rightarrow> 'a option \<Rightarrow> 'a option" where
  "or_value a b = (case a of None \<Rightarrow> b | Some x \<Rightarrow> Some x)"

definition or_text :: "string \<Rightarrow> string \<Rightarrow> string" where
  "or_text a b = (if a \<noteq> [] then a else b)"

text \<open>The database client refuses an invalid date.\<close>

definition storable :: "vuln_row \<Rightarrow> bool" where
  "storable row = (v_publishedAt row \<noteq> Some None \<and> v_modifiedAt row \<noteq> Some None)"

definition invalid_date :: string where
  "invalid_date = ''Invalid value for argument: Provided Date object is invalid''"

definition set_row :: "vuln_row \<Rightarrow> vuln_store \<Rightarrow> vuln_store" where
  "set_row row st = st\<lparr>mirror := map (\<lambda>m. if vid m = v_id row then m\<lparr>m_row := row\<rparr> else m) (mirror st)\<rparr>"

definition upsert_row :: "vuln_row \<Rightarrow> vuln_store \<Rightarrow> vuln_store" where
  "upsert_row row st =
     (if list_ex (\<lambda>m. vid m = v_id row) (mirror st) then set_row row st
      else st\<lparr>mirror := mirror st @ [new_mirror_row row]\<rparr>)"

text \<open>\<^verbatim>\<open>createMany\<close> with \<^verbatim>\<open>skipDuplicates\<close>, and \<^verbatim>\<open>deleteMany\<close>.\<close>

definition index_package :: "string \<Rightarrow> (string \<times> string) list \<Rightarrow> vuln_store \<Rightarrow> vuln_store" where
  "index_package i affs st =
     st\<lparr>affects_index := foldl (\<lambda>ix a. if (i, a) \<in> set ix then ix else ix @ [(i, a)]) (affects_index st) affs\<rparr>"

definition unindex :: "string \<Rightarrow> vuln_store \<Rightarrow> vuln_store" where
  "unindex i st = st\<lparr>affects_index := filter (\<lambda>(j, a). j \<noteq> i) (affects_index st)\<rparr>"

datatype write_mode = Replace | Fill

definition filled_row :: "vuln_row \<Rightarrow> vuln_row \<Rightarrow> vuln_row" where
  "filled_row old row =
     old\<lparr>v_summary := or_text (v_summary old) (v_summary row), v_details := or_text (v_details old) (v_details row),
         v_severity := (if v_cvssScore old \<noteq> None then v_severity old else v_severity row),
         v_cvssVector := or_value (v_cvssVector old) (v_cvssVector row),
         v_cvssScore := or_value (v_cvssScore old) (v_cvssScore row),
         v_publishedAt := or_value (v_publishedAt old) (v_publishedAt row),
         v_modifiedAt := or_value (v_modifiedAt row) (v_modifiedAt old),
         v_aliases := uniq (v_aliases old @ v_aliases row)\<rparr>"

definition stored :: "string \<Rightarrow> vuln_store \<Rightarrow> vuln_row option" where
  "stored i st = map_option m_row (find (\<lambda>m. vid m = i) (mirror st))"

definition rewrite_advisory :: "vuln_row \<Rightarrow> (string \<times> string) list \<Rightarrow> vuln_store \<Rightarrow> string + vuln_store" where
  "rewrite_advisory row affs st =
     (if \<not> storable row then Inl invalid_date
      else Inr (index_package (v_id row) affs (unindex (v_id row) (upsert_row row st))))"

definition writeAdvisory ::
    "write_mode \<Rightarrow> vuln_row \<Rightarrow> (string \<times> string) list \<Rightarrow> vuln_store \<Rightarrow> string + vuln_store" where
  "writeAdvisory mode row affs st =
     (case (mode, stored (v_id row) st) of
        (Fill, Some old) \<Rightarrow>
          if v_affected old \<noteq> [] then
            (let new = filled_row old row
             in if \<not> storable new then Inl invalid_date
                else Inr (index_package (v_id row) affs (set_row new st)))
          else rewrite_advisory row affs st
      | _ \<Rightarrow> rewrite_advisory row affs st)"

definition overlaid_row :: "vuln_row \<Rightarrow> vuln_row \<Rightarrow> vuln_row" where
  "overlaid_row old row =
     old\<lparr>v_summary := or_text (v_summary row) (v_summary old), v_details := or_text (v_details row) (v_details old),
         v_severity := (if v_cvssScore row \<noteq> None then v_severity row else v_severity old),
         v_cvssVector := or_value (v_cvssVector row) (v_cvssVector old),
         v_cvssScore := or_value (v_cvssScore row) (v_cvssScore old),
         v_publishedAt := or_value (v_publishedAt row) (v_publishedAt old),
         v_modifiedAt := or_value (v_modifiedAt row) (v_modifiedAt old),
         v_references := v_references row,
         v_source := (if v_source old = ''OSV'' \<or> v_source old = ''GHSA'' then v_source old else ''NVD'')\<rparr>"

text \<open>The official score goes to every advisory that has this CVE as an alias and no score of its own.\<close>

definition score_aliases :: "vuln_row \<Rightarrow> vuln_store \<Rightarrow> vuln_store" where
  "score_aliases row st =
     st\<lparr>mirror := map (\<lambda>m.
         if v_id row \<in> set (v_aliases (m_row m)) \<and> v_cvssScore (m_row m) = None
         then m\<lparr>m_row := (m_row m)\<lparr>v_cvssScore := v_cvssScore row, v_cvssVector := v_cvssVector row,
                                  v_severity := v_severity row\<rparr>\<rparr>
         else m) (mirror st)\<rparr>"

definition writeNvd :: "(string \<Rightarrow> instant option) \<Rightarrow> nvd_cve \<Rightarrow> vuln_store \<Rightarrow> string + vuln_store" where
  "writeNvd date c st =
     (let row = nvdToRow date c;
          new = (case stored (v_id row) st of Some old \<Rightarrow> overlaid_row old row | None \<Rightarrow> row)
      in if \<not> storable new then Inl invalid_date
         else
           (let st1 = upsert_row new st
            in Inr (if v_cvssScore row = None then st1 else score_aliases row st1)))"

text \<open>Writes one after the other: an error stops the rest and keeps what is written.\<close>

fun write_all :: "('a \<Rightarrow> vuln_store \<Rightarrow> string + vuln_store) \<Rightarrow> 'a list \<Rightarrow> vuln_store
    \<Rightarrow> vuln_store \<times> string option" where
  "write_all w [] st = (st, None)"
| "write_all w (x # xs) st = (case w x st of Inl e \<Rightarrow> (st, Some e) | Inr st' \<Rightarrow> write_all w xs st')"

text \<open>The feeds: OSV answers a page token with advisories and the next token, GitHub a page number with its
  advisories, NVD an identifier with a document, NVD's recent changes a start index with a page.\<close>

record nvd_page =
  np_cves :: "nvd_cve list"
  np_resultsPerPage :: "nat option"
  np_totalResults :: "nat option"

record feed_env =
  fe_osv :: "string \<Rightarrow> string \<Rightarrow> string option \<Rightarrow> string + (osv_advisory list \<times> string option)"
  fe_ghsa :: "string \<Rightarrow> string \<Rightarrow> nat \<Rightarrow> string + ghsa_advisory list"
  fe_nvd :: "string \<Rightarrow> string + nvd_cve option"
  fe_recent_ghsa :: "nat \<Rightarrow> string + ghsa_advisory list"
  fe_recent_nvd :: "nat \<Rightarrow> string + nvd_page"
  fe_date :: "string \<Rightarrow> instant option"

definition truncatedError :: "string \<Rightarrow> string \<Rightarrow> string" where
  "truncatedError source what = source @ '' listing truncated at 10 pages for '' @ what"

definition isTruncated :: "string \<Rightarrow> bool" where
  "isTruncated message = has_infix ''truncated at'' message"

fun osv_pages ::
    "nat \<Rightarrow> (string option \<Rightarrow> string + (osv_advisory list \<times> string option)) \<Rightarrow> string \<Rightarrow> string option
       \<Rightarrow> osv_advisory list \<Rightarrow> string + osv_advisory list" where
  "osv_pages 0 fetch what token acc = (if truthy token then Inl (truncatedError ''OSV'' what) else Inr acc)"
| "osv_pages (Suc n) fetch what token acc =
     (case fetch token of
        Inl e \<Rightarrow> Inl e
      | Inr (vulns, next) \<Rightarrow>
          if truthy next then osv_pages n fetch what next (acc @ vulns) else Inr (acc @ vulns))"

definition fetchAdvisories :: "feed_env \<Rightarrow> string \<Rightarrow> string \<Rightarrow> string + osv_advisory list" where
  "fetchAdvisories env ecosystem name =
     osv_pages MAX_PAGES (fe_osv env ecosystem name) (ecosystem @ ''/'' @ name) None []"

fun ghsa_pages ::
    "nat \<Rightarrow> (nat \<Rightarrow> string + ghsa_advisory list) \<Rightarrow> string \<Rightarrow> nat \<Rightarrow> ghsa_advisory list
       \<Rightarrow> string + ghsa_advisory list" where
  "ghsa_pages 0 fetch what page acc = Inr acc"
| "ghsa_pages (Suc n) fetch what page acc =
     (case fetch page of
        Inl e \<Rightarrow> Inl e
      | Inr items \<Rightarrow>
          (let acc1 = acc @ filter (\<lambda>a. \<not> truthy (ga_withdrawn a)) items
           in if length items < GHSA_PAGE_SIZE then Inr acc1
              else if n = 0 then Inl (truncatedError ''GHSA'' what)
              else ghsa_pages n fetch what (Suc page) acc1))"

definition fetchGhsa :: "feed_env \<Rightarrow> string \<Rightarrow> string \<Rightarrow> string + ghsa_advisory list" where
  "fetchGhsa env ecosystem name =
     ghsa_pages MAX_PAGES (fe_ghsa env (osvEcosystemToGhsa ecosystem) name) (ecosystem @ ''/'' @ name) 1 []"

definition fetchGhsaSafe :: "feed_env \<Rightarrow> string \<Rightarrow> string \<Rightarrow> string + ghsa_advisory list" where
  "fetchGhsaSafe env ecosystem name =
     (case fetchGhsa env ecosystem name of
        Inr xs \<Rightarrow> Inr xs
      | Inl e \<Rightarrow> if isTruncated e then Inl e else Inr [])"

definition collectCves :: "osv_advisory list \<Rightarrow> ghsa_advisory list \<Rightarrow> string list" where
  "collectCves osv ghsa =
     uniq (filter (prefix ''CVE-'')
       (concat (map (\<lambda>a. adv_id a # or_empty (adv_aliases a)) osv) @ List.map_filter ga_cve ghsa))"

definition enrich_one :: "feed_env \<Rightarrow> string \<Rightarrow> vuln_store \<Rightarrow> vuln_store" where
  "enrich_one env cve st =
     (case fe_nvd env cve of
        Inr (Some doc) \<Rightarrow> (case writeNvd (fe_date env) doc st of Inr st' \<Rightarrow> st' | Inl _ \<Rightarrow> st)
      | _ \<Rightarrow> st)"

definition enrichFromNvd :: "feed_env \<Rightarrow> string list \<Rightarrow> vuln_store \<Rightarrow> vuln_store" where
  "enrichFromNvd env cves st = fold (enrich_one env) cves st"

definition upsert_sync :: "string \<Rightarrow> string \<Rightarrow> instant \<Rightarrow> nat \<Rightarrow> vuln_store \<Rightarrow> vuln_store" where
  "upsert_sync ecosystem name now count st =
     (let hit = (\<lambda>y. sy_ecosystem y = ecosystem \<and> sy_package y = name)
      in if list_ex hit (syncs st)
         then st\<lparr>syncs := map (\<lambda>y. if hit y then y\<lparr>sy_syncedAt := now, sy_advisories := count\<rparr> else y) (syncs st)\<rparr>
         else st\<lparr>syncs := syncs st @ [\<lparr>sy_ecosystem = ecosystem, sy_package = name, sy_syncedAt = now,
                                       sy_advisories = count\<rparr>]\<rparr>)"

definition write_osv :: "feed_env \<Rightarrow> osv_advisory \<Rightarrow> vuln_store \<Rightarrow> string + vuln_store" where
  "write_osv env a = writeAdvisory Replace (advisoryToRow (fe_date env) a) (advisoryAffects (adv_affected a))"

definition write_ghsa :: "feed_env \<Rightarrow> ghsa_advisory \<Rightarrow> vuln_store \<Rightarrow> string + vuln_store" where
  "write_ghsa env a = writeAdvisory Fill (ghsaToRow (fe_date env) a) (ghsaAffects a)"

text \<open>The answer is the error that \<^verbatim>\<open>mirrorPackage\<close> throws, if any.\<close>

definition mirrorPackage ::
    "feed_env \<Rightarrow> instant \<Rightarrow> string \<Rightarrow> string \<Rightarrow> vuln_store \<Rightarrow> vuln_store \<times> string option" where
  "mirrorPackage env now ecosystem name st =
     (case fetchAdvisories env ecosystem name of
        Inl e \<Rightarrow> (st, Some e)
      | Inr advisories \<Rightarrow>
          (case write_all (write_osv env) advisories st of
             (st1, Some e) \<Rightarrow> (st1, Some e)
           | (st1, None) \<Rightarrow>
               (case fetchGhsaSafe env ecosystem name of
                  Inl e \<Rightarrow> (st1, Some e)
                | Inr ghsa \<Rightarrow>
                    (case write_all (write_ghsa env) ghsa st1 of
                       (st2, Some e) \<Rightarrow> (st2, Some e)
                     | (st2, None) \<Rightarrow>
                         (let cves = take NVD_PER_PACKAGE (collectCves advisories ghsa);
                              st3 = enrichFromNvd env cves st2
                          in (upsert_sync ecosystem name now (length advisories + length ghsa) st3, None))))))"

text \<open>A package whose turn comes at \<open>asked\<close> and whose mirroring ends at \<open>done_at\<close>.\<close>

record observed_package =
  op_ecosystem :: string
  op_name :: string
  op_asked :: instant
  op_done :: instant

definition sync_of :: "string \<Rightarrow> string \<Rightarrow> vuln_store \<Rightarrow> sync_row option" where
  "sync_of ecosystem name st = find (\<lambda>y. sy_ecosystem y = ecosystem \<and> sy_package y = name) (syncs st)"

definition still_fresh :: "instant \<Rightarrow> sync_row option \<Rightarrow> bool" where
  "still_fresh now sync = (case sync of None \<Rightarrow> False | Some y \<Rightarrow> now - sy_syncedAt y < MIRROR_TTL_MS)"

fun mirrorPackages :: "feed_env \<Rightarrow> observed_package list \<Rightarrow> vuln_store \<Rightarrow> vuln_store \<times> nat" where
  "mirrorPackages env [] st = (st, 0)"
| "mirrorPackages env (p # ps) st =
     (if still_fresh (op_asked p) (sync_of (op_ecosystem p) (op_name p) st) then mirrorPackages env ps st
      else
        (case mirrorPackage env (op_done p) (op_ecosystem p) (op_name p) st of
           (st1, err) \<Rightarrow>
             (case mirrorPackages env ps st1 of
                (st2, n) \<Rightarrow> (st2, if err = None then n + 1 else n))))"

definition stale_syncs :: "instant \<Rightarrow> vuln_store \<Rightarrow> sync_row list" where
  "stale_syncs now st =
     take REFRESH_BATCH (sort_key sy_syncedAt (filter (\<lambda>y. sy_syncedAt y < now - MIRROR_TTL_MS) (syncs st)))"

definition refreshStale :: "feed_env \<Rightarrow> instant \<Rightarrow> (nat \<Rightarrow> instant) \<Rightarrow> vuln_store \<Rightarrow> vuln_store" where
  "refreshStale env now done_at st =
     foldl (\<lambda>acc (k, y). fst (mirrorPackage env (done_at k) (sy_ecosystem y) (sy_package y) acc)) st
       (enumerate 0 (stale_syncs now st))"

text \<open>The crawl of recent changes: the count is what the caller logs, \<open>0\<close> when the crawl throws.\<close>

definition isUpdatedSince :: "(string \<Rightarrow> instant option) \<Rightarrow> string option \<Rightarrow> instant \<Rightarrow> bool" where
  "isUpdatedSince date updatedAt since =
     (if \<not> truthy updatedAt then True
      else (case date (the updatedAt) of None \<Rightarrow> True | Some updated \<Rightarrow> since \<le> updated))"

fun recent_ghsa :: "nat \<Rightarrow> feed_env \<Rightarrow> instant \<Rightarrow> nat \<Rightarrow> nat \<Rightarrow> vuln_store \<Rightarrow> vuln_store \<times> (string + nat)" where
  "recent_ghsa 0 env since page ingested st = (st, Inr ingested)"
| "recent_ghsa (Suc n) env since page ingested st =
     (case fe_recent_ghsa env page of
        Inl e \<Rightarrow> (st, Inl e)
      | Inr items \<Rightarrow>
          (let new = filter (\<lambda>a. \<not> truthy (ga_withdrawn a)
                                 \<and> isUpdatedSince (fe_date env) (ga_updated a) since) items
           in (case write_all (write_ghsa env) new st of
                 (st1, Some e) \<Rightarrow> (st1, Inl e)
               | (st1, None) \<Rightarrow>
                   if length items < GHSA_PAGE_SIZE then (st1, Inr (ingested + length new))
                   else if n = 0 then (st1, Inl (truncatedError ''GHSA'' ''recent feed''))
                   else recent_ghsa n env since (Suc page) (ingested + length new) st1)))"

fun recent_nvd :: "nat \<Rightarrow> feed_env \<Rightarrow> nat \<Rightarrow> nat \<Rightarrow> nat \<Rightarrow> vuln_store \<Rightarrow> vuln_store \<times> (string + nat)" where
  "recent_nvd 0 env startIndex results ingested st =
     (st, if startIndex < results then Inl (truncatedError ''NVD'' ''recent feed'') else Inr ingested)"
| "recent_nvd (Suc n) env startIndex results ingested st =
     (case fe_recent_nvd env startIndex of
        Inl e \<Rightarrow> (st, Inl e)
      | Inr page \<Rightarrow>
          (case write_all (writeNvd (fe_date env)) (np_cves page) st of
             (st1, Some e) \<Rightarrow> (st1, Inl e)
           | (st1, None) \<Rightarrow>
               (let pageSize = (case np_resultsPerPage page of Some k \<Rightarrow> k | None \<Rightarrow> length (np_cves page));
                    results1 = (case np_totalResults page of Some k \<Rightarrow> k | None \<Rightarrow> results);
                    start1 = startIndex + pageSize;
                    ingested1 = ingested + length (np_cves page)
                in if pageSize = 0 \<or> results1 \<le> start1 then
                     (st1, if start1 < results1 then Inl (truncatedError ''NVD'' ''recent feed'') else Inr ingested1)
                   else recent_nvd n env start1 results1 ingested1 st1)))"

definition count_or_zero :: "string + nat \<Rightarrow> nat" where
  "count_or_zero r = (case r of Inl _ \<Rightarrow> 0 | Inr n \<Rightarrow> n)"

definition ingestRecentFeeds :: "feed_env \<Rightarrow> instant \<Rightarrow> vuln_store \<Rightarrow> vuln_store \<times> nat \<times> nat" where
  "ingestRecentFeeds env now st =
     (case recent_ghsa MAX_PAGES env (now - NVD_RECENT_MS) 1 0 st of
        (st1, g) \<Rightarrow>
          (case recent_nvd MAX_PAGES env 0 0 0 st1 of
             (st2, n) \<Rightarrow> (st2, count_or_zero g, count_or_zero n)))"

end
