(* ===== verification/VulnMatch.thy ===== *)
theory VulnMatch
imports VulnFeed
begin

text \<open>
  Matching components against the mirror (\<^verbatim>\<open>libs/vuln-intel/src/vuln.matcher.ts\<close>) and the paged EPSS client
  (\<^verbatim>\<open>libs/vuln-intel/src/epss.client.ts\<close>, of which \<^verbatim>\<open>apps/risk-service/src/feed/epss.client.ts\<close> is a copy).

  The live OSV query, the feeds and whether the database answers are arguments. The texts of EPSS scores
  are the rationals that they denote.
\<close>


section \<open>EPSS pages\<close>

definition EPSS_PAGE_SIZE :: nat where "EPSS_PAGE_SIZE = 100"
definition EPSS_CVE_BATCH :: nat where "EPSS_CVE_BATCH = 80"
definition EPSS_MAX_PAGES :: nat where "EPSS_MAX_PAGES = 50"
definition EPSS_LIVE_PAGES :: nat where "EPSS_LIVE_PAGES = 5"

record epss_score =
  es_epss :: rat
  es_percentile :: "rat option"

record epss_entry =
  ee_cve :: string
  ee_score :: epss_score

record epss_body =
  eb_total :: "nat option"
  eb_offset :: "nat option"
  eb_limit :: "nat option"
  eb_data :: "epss_entry list option"

record epss_page =
  ep_total :: nat
  ep_offset :: nat
  ep_limit :: nat
  ep_data :: "epss_entry list"

definition or_nat :: "nat option \<Rightarrow> nat \<Rightarrow> nat" where
  "or_nat x d = (case x of None \<Rightarrow> d | Some n \<Rightarrow> n)"

definition parseEpssPage :: "epss_body \<Rightarrow> epss_page" where
  "parseEpssPage raw =
     (let d = or_empty (eb_data raw)
      in \<lparr>ep_total = or_nat (eb_total raw) (length d), ep_offset = or_nat (eb_offset raw) 0,
          ep_limit = or_nat (eb_limit raw) (length d), ep_data = d\<rparr>)"

definition nextEpssOffset :: "epss_page \<Rightarrow> nat option" where
  "nextEpssOffset page =
     (if ep_data page = [] then None
      else (let next = ep_offset page + length (ep_data page) in if next < ep_total page then Some next else None))"

text \<open>A request throws (\<^term>\<open>Inl\<close>), is answered with a status that is not a success (\<^term>\<open>Inr None\<close>), or with a body.
  It is asked with the page size and the offset. Reaching the page cap ends the loop.\<close>

type_synonym epss_fetch = "nat \<Rightarrow> nat \<Rightarrow> string + epss_body option"

type_synonym epss_map = "string \<rightharpoonup> epss_score"

definition put_scores :: "epss_entry list \<Rightarrow> epss_map \<Rightarrow> epss_map" where
  "put_scores d into = foldl (\<lambda>m e. m(ee_cve e \<mapsto> ee_score e)) into d"

fun pageQuery :: "nat \<Rightarrow> epss_fetch \<Rightarrow> nat \<Rightarrow> nat \<Rightarrow> epss_map \<Rightarrow> string + epss_map" where
  "pageQuery 0 fetch pageSize offset into = Inr into"
| "pageQuery (Suc n) fetch pageSize offset into =
     (case fetch pageSize offset of
        Inl e \<Rightarrow> Inl e
      | Inr None \<Rightarrow> Inr into
      | Inr (Some body) \<Rightarrow>
          (let page = parseEpssPage body; into1 = put_scores (ep_data page) into
           in (case nextEpssOffset page of
                 None \<Rightarrow> Inr into1
               | Some next \<Rightarrow> pageQuery n fetch pageSize next into1)))"

function chunk :: "'a list \<Rightarrow> nat \<Rightarrow> 'a list list" where
  "chunk items n = (if items = [] \<or> n = 0 then [] else take n items # chunk (drop n items) n)"
  by auto
termination by (relation "measure (length \<circ> fst)") auto

declare chunk.simps [simp del]

fun batch_queries ::
    "(string list \<Rightarrow> epss_fetch) \<Rightarrow> nat \<Rightarrow> nat \<Rightarrow> string list list \<Rightarrow> epss_map \<Rightarrow> string + epss_map" where
  "batch_queries fetch maxPages pageSize [] into = Inr into"
| "batch_queries fetch maxPages pageSize (b # bs) into =
     (case pageQuery maxPages (fetch b) pageSize 0 into of
        Inl e \<Rightarrow> Inl e
      | Inr into1 \<Rightarrow> batch_queries fetch maxPages pageSize bs into1)"

definition fetchEpssPaged ::
    "(string list \<Rightarrow> epss_fetch) \<Rightarrow> string list option \<Rightarrow> nat option \<Rightarrow> nat option \<Rightarrow> string + epss_map" where
  "fetchEpssPaged fetch cves maxPages pageSize =
     (let pages = or_nat maxPages EPSS_MAX_PAGES; size = or_nat pageSize EPSS_PAGE_SIZE
      in (case cves of
            Some cs \<Rightarrow>
              batch_queries fetch pages size (chunk (uniq (filter (prefix ''CVE-'') cs)) EPSS_CVE_BATCH) Map.empty
          | None \<Rightarrow> pageQuery pages (fetch []) size 0 Map.empty))"


section \<open>The matcher\<close>

record matchable =
  mc_name :: string
  mc_version :: string
  mc_ecosystem :: string

record vuln_match =
  vm_id :: string
  vm_source :: string
  vm_aliases :: "string list"
  vm_summary :: string
  vm_severity :: string
  vm_cvssVector :: "string option"
  vm_cvssScore :: "rat option"
  vm_epssScore :: "rat option"
  vm_kev :: bool
  vm_fixedVersion :: "string option"

record match_result =
  mr_matches :: "vuln_match list"
  mr_mirrored :: bool

text \<open>The caches of the matcher.\<close>

record vuln_intel =
  in_kev :: "string list"
  in_epss :: epss_map

definition Severity_options :: "string list" where
  "Severity_options = [''critical'', ''high'', ''medium'', ''low'', ''info'']"

definition fixed_in :: "osv_range \<Rightarrow> string option" where
  "fixed_in r = first_some (\<lambda>e. if truthy (fixed e) then fixed e else None) (or_empty (events r))"

definition firstFixedVersion :: "osv_affected list option \<Rightarrow> string \<Rightarrow> string option" where
  "firstFixedVersion affected ecosystem =
     first_some (\<lambda>a.
         if truthy (package_ecosystem a) \<and> package_ecosystem a \<noteq> Some ecosystem then None
         else first_some fixed_in (or_empty (ranges a)))
       (or_empty affected)"

definition cve_of :: "string \<Rightarrow> string list \<Rightarrow> string option" where
  "cve_of i aliases = find (prefix ''CVE-'') (i # aliases)"

definition cached_epss :: "vuln_intel \<Rightarrow> string option \<Rightarrow> rat option" where
  "cached_epss intel cve = (case cve of None \<Rightarrow> None | Some c \<Rightarrow> map_option es_epss (in_epss intel c))"

definition cached_kev :: "vuln_intel \<Rightarrow> string option \<Rightarrow> bool" where
  "cached_kev intel cve = (case cve of None \<Rightarrow> False | Some c \<Rightarrow> c \<in> set (in_kev intel))"

definition rowToMatch :: "vuln_intel \<Rightarrow> matchable \<Rightarrow> mirror_row \<Rightarrow> vuln_match" where
  "rowToMatch intel c m =
     (let row = m_row m; cve = cve_of (v_id row) (v_aliases row)
      in \<lparr>vm_id = v_id row, vm_source = v_source row, vm_aliases = v_aliases row, vm_summary = v_summary row,
          vm_severity = (if v_severity row \<in> set Severity_options then v_severity row else ''medium''),
          vm_cvssVector = v_cvssVector row, vm_cvssScore = v_cvssScore row,
          vm_epssScore = or_value (cached_epss intel cve) (m_epssScore m),
          vm_kev = (m_kev m \<or> cached_kev intel cve),
          vm_fixedVersion = firstFixedVersion (Some (v_affected row)) (mc_ecosystem c)\<rparr>)"

text \<open>Which of the two queries of the local lookup the database answers.\<close>

record mirror_db =
  db_store :: vuln_store
  db_sync_ok :: bool
  db_rows_ok :: bool

text \<open>The rows of the index joined with their advisories.\<close>

definition indexed_rows :: "vuln_store \<Rightarrow> string \<Rightarrow> string \<Rightarrow> mirror_row list" where
  "indexed_rows st ecosystem name =
     List.map_filter (\<lambda>(i, a). if a = (ecosystem, name) then find (\<lambda>m. vid m = i) (mirror st) else None)
       (affects_index st)"

definition matchLocal :: "vuln_intel \<Rightarrow> mirror_db option \<Rightarrow> matchable \<Rightarrow> vuln_match list option" where
  "matchLocal intel prisma c =
     (case prisma of
        None \<Rightarrow> None
      | Some db \<Rightarrow>
          if mc_ecosystem c = ''unknown'' then None
          else if \<not> db_sync_ok db then None
          else if sync_of (mc_ecosystem c) (mc_name c) (db_store db) = None then None
          else if \<not> db_rows_ok db then Some []
          else
            Some (map (rowToMatch intel c)
              (filter (\<lambda>m. versionAffected (mc_version c) (Some (v_affected (m_row m)))
                             (Some (mc_name c)) (Some (mc_ecosystem c)))
                (indexed_rows (db_store db) (mc_ecosystem c) (mc_name c)))))"

definition toMatch :: "vuln_intel \<Rightarrow> matchable \<Rightarrow> osv_advisory \<Rightarrow> vuln_match" where
  "toMatch intel c v =
     (let cvss = find is_cvss (or_empty (adv_severity v));
          score = Option.bind cvss (\<lambda>x. parseCvssBaseScore (snd x));
          cve = cve_of (adv_id v) (or_empty (adv_aliases v))
      in \<lparr>vm_id = adv_id v, vm_source = source_of (adv_id v), vm_aliases = or_empty (adv_aliases v),
          vm_summary = summary_of (adv_summary v) (adv_details v), vm_severity = severityFromScore score,
          vm_cvssVector = map_option snd cvss, vm_cvssScore = score, vm_epssScore = cached_epss intel cve,
          vm_kev = cached_kev intel cve, vm_fixedVersion = firstFixedVersion (adv_affected v) (mc_ecosystem c)\<rparr>)"

text \<open>The live query: \<^term>\<open>None\<close> when it throws or its status is not a success.\<close>

definition matchLive :: "vuln_intel \<Rightarrow> (matchable \<Rightarrow> osv_advisory list option) \<Rightarrow> matchable \<Rightarrow> vuln_match list" where
  "matchLive intel live c = map (toMatch intel c) (or_empty (live c))"

definition match_component ::
    "vuln_intel \<Rightarrow> mirror_db option \<Rightarrow> (matchable \<Rightarrow> osv_advisory list option) \<Rightarrow> matchable \<Rightarrow> match_result" where
  "match_component intel prisma live c =
     (case matchLocal intel prisma c of
        Some ms \<Rightarrow> \<lparr>mr_matches = ms, mr_mirrored = True\<rparr>
      | None \<Rightarrow> \<lparr>mr_matches = matchLive intel live c, mr_mirrored = False\<rparr>)"

text \<open>Warming the caches. The KEV feed throws (\<^term>\<open>None\<close>) or answers a body, whatever its status, with the
  catalog's identifiers, if it has any.\<close>

definition loadKev :: "string list option option \<Rightarrow> vuln_intel \<Rightarrow> vuln_intel" where
  "loadKev answer intel =
     (case answer of None \<Rightarrow> intel | Some ids \<Rightarrow> intel\<lparr>in_kev := or_empty ids\<rparr>)"

definition mirroredCves :: "vuln_store \<Rightarrow> string list" where
  "mirroredCves st =
     uniq (filter (prefix ''CVE-'') (concat (map (\<lambda>m. v_id (m_row m) # v_aliases (m_row m)) (mirror st))))"

definition loadEpss :: "(string list \<Rightarrow> epss_fetch) \<Rightarrow> vuln_store option \<Rightarrow> vuln_intel \<Rightarrow> vuln_intel" where
  "loadEpss fetch prisma intel =
     (case (case prisma of
              None \<Rightarrow> fetchEpssPaged fetch None (Some EPSS_LIVE_PAGES) None
            | Some st \<Rightarrow> fetchEpssPaged fetch (Some (mirroredCves st)) None None) of
        Inl e \<Rightarrow> intel
      | Inr scores \<Rightarrow> intel\<lparr>in_epss := scores\<rparr>)"

definition refreshIntel ::
    "string list option option \<Rightarrow> (string list \<Rightarrow> epss_fetch) \<Rightarrow> vuln_store option \<Rightarrow> vuln_intel \<Rightarrow> vuln_intel" where
  "refreshIntel kev fetch prisma intel = loadEpss fetch prisma (loadKev kev intel)"

text \<open>The version that a match proposes as the fix is the first one listed, not the first one above what is
  installed: on a later release line it is older than what is installed.\<close>

lemma proposed_fix_is_a_downgrade:
  fixes e :: osv_affected
  defines "e \<equiv> express_entry\<lparr>ranges := Some [\<lparr>range_type = Some ''SEMVER'', events = Some (map event_of
      [From ''1.0.0'', Until ''1.2.0'', From ''2.0.0'', Until ''2.3.0''])\<rparr>]\<rparr>"
  shows "versionAffected ''2.1.0'' (Some [e]) (Some ''express'') (Some ''npm'')"
    and "firstFixedVersion (Some [e]) ''npm'' = Some ''1.2.0''" and "compareVersions ''1.2.0'' ''2.1.0'' < 0"
  unfolding e_def by code_simp+

end
