(* ===== verification/VulnMirror.thy ===== *)
theory VulnMirror
imports VulnMatch
begin

text \<open>
  What the mirror guarantees: the columns that enrichment owns survive every write, rows are never lost,
  ranges that OSV gave survive what GitHub and NVD add, and a package that was mirrored is matched locally
  with every advisory that OSV has for it.
\<close>


section \<open>Writes keep rows and enrichment\<close>

text \<open>Identity and enrichment columns of the rows, in table order.\<close>

definition intel_columns :: "mirror_row \<Rightarrow> string \<times> bool \<times> instant option \<times> rat option \<times> rat option" where
  "intel_columns m = (vid m, m_kev m, m_kevDueDate m, m_epssScore m, m_epssPercentile m)"

definition retains :: "vuln_store \<Rightarrow> vuln_store \<Rightarrow> bool" where
  "retains st st' \<longleftrightarrow> prefix (map intel_columns (mirror st)) (map intel_columns (mirror st'))
     \<and> (distinct (map vid (mirror st)) \<longrightarrow> distinct (map vid (mirror st')))"

lemma retains_refl [simp]: "retains st st"
  by (simp add: retains_def)

lemma retains_trans: "retains a b \<Longrightarrow> retains b c \<Longrightarrow> retains a c"
  by (auto simp: retains_def intro: prefix_order.trans)

lemma vid_intel: "map vid ms = map (fst \<circ> intel_columns) ms"
  by (simp add: intel_columns_def)

lemma same_columns_retains:
  assumes "map intel_columns (mirror st') = map intel_columns (mirror st)"
  shows "retains st st'"
proof -
  have "map vid (mirror st') = map vid (mirror st)"
    using arg_cong[OF assms, of "map fst"] by (simp add: comp_def intel_columns_def)
  then show ?thesis using assms by (simp add: retains_def)
qed

lemma retains_set_row: "retains st (set_row row st)"
  by (rule same_columns_retains) (simp add: set_row_def intel_columns_def vid_def)

lemma retains_upsert_row: "retains st (upsert_row row st)"
proof (cases "list_ex (\<lambda>m. vid m = v_id row) (mirror st)")
  case True
  then show ?thesis by (simp add: upsert_row_def retains_set_row)
next
  case False
  then show ?thesis
    by (auto simp: upsert_row_def retains_def new_mirror_row_def list_ex_iff vid_def)
qed

lemma retains_other_tables:
  "mirror st' = mirror st \<Longrightarrow> retains st st'"
  by (simp add: retains_def)

lemma retains_rewrite: "rewrite_advisory row affs st = Inr st' \<Longrightarrow> retains st st'"
  by (auto simp: rewrite_advisory_def split: if_splits
      intro!: retains_trans[OF retains_upsert_row retains_other_tables]
      simp: index_package_def unindex_def)

lemma writeAdvisory_cases:
  assumes "writeAdvisory mode row affs st = Inr st'"
  obtains (rewritten) "rewrite_advisory row affs st = Inr st'"
      "mode = Replace \<or> stored (v_id row) st = None \<or> (\<exists>old. stored (v_id row) st = Some old \<and> v_affected old = [])"
  | (filled) old where "stored (v_id row) st = Some old" "v_affected old \<noteq> []" "mode = Fill"
      "st' = index_package (v_id row) affs (set_row (filled_row old row) st)"
  using assms
  by (cases mode; cases "stored (v_id row) st") (auto simp: writeAdvisory_def Let_def split: if_splits)

lemma retains_writeAdvisory:
  assumes "writeAdvisory mode row affs st = Inr st'"
  shows "retains st st'"
  using assms
proof (cases rule: writeAdvisory_cases)
  case rewritten
  show ?thesis by (rule retains_rewrite[OF rewritten(1)])
next
  case (filled old)
  show ?thesis unfolding filled(4)
    by (rule retains_trans[OF retains_set_row retains_other_tables]) (simp add: index_package_def)
qed

lemma retains_score_aliases: "retains st (score_aliases row st)"
  by (rule same_columns_retains) (simp add: score_aliases_def intel_columns_def vid_def)

lemma retains_writeNvd: "writeNvd date c st = Inr st' \<Longrightarrow> retains st st'"
  by (auto simp: writeNvd_def Let_def split: if_splits
      intro: retains_upsert_row retains_trans[OF retains_upsert_row retains_score_aliases])

lemma mirror_upsert_sync [simp]: "mirror (upsert_sync e n t k st) = mirror st"
  by (simp add: upsert_sync_def Let_def)

lemma retains_upsert_sync: "retains st (upsert_sync e n t k st)"
  by (rule retains_other_tables) simp


section \<open>What holds of a write holds of a run\<close>

lemma write_all_induct:
  assumes "write_all w xs st = (st', e)"
    and "\<And>x s s'. x \<in> set xs \<Longrightarrow> w x s = Inr s' \<Longrightarrow> R s s'"
    and "\<And>s. R s s" and "\<And>a b c. R a b \<Longrightarrow> R b c \<Longrightarrow> R a c"
  shows "R st st'"
  using assms(1,2)
proof (induction xs arbitrary: st)
  case Nil
  then show ?case using assms(3) by simp
next
  case (Cons x xs)
  show ?case
  proof (cases "w x st")
    case (Inl e1)
    then show ?thesis using Cons.prems(1) assms(3) by simp
  next
    case (Inr s1)
    then have "R s1 st'" using Cons.IH[of s1] Cons.prems by (metis list.set_intros(2) sum.simps(6) write_all.simps(2))
    moreover have "R st s1" using Cons.prems(2)[OF _ Inr] by simp
    ultimately show ?thesis using assms(4) by blast
  qed
qed

lemma mirrorPackage_phases:
  assumes "mirrorPackage env now ecosystem name st = (st', err)"
  obtains (unfetched) "st' = st" "err \<noteq> None"
  | (osv_stopped) advs e where "fetchAdvisories env ecosystem name = Inr advs"
      "write_all (write_osv env) advs st = (st', e)" "err \<noteq> None"
  | (ghsa_stopped) advs st1 ghsa e where "fetchAdvisories env ecosystem name = Inr advs"
      "write_all (write_osv env) advs st = (st1, None)" "write_all (write_ghsa env) ghsa st1 = (st', e)" "err \<noteq> None"
  | (mirrored) advs st1 ghsa st2 cves n where "fetchAdvisories env ecosystem name = Inr advs"
      "write_all (write_osv env) advs st = (st1, None)" "write_all (write_ghsa env) ghsa st1 = (st2, None)"
      "st' = upsert_sync ecosystem name now n (enrichFromNvd env cves st2)" "err = None"
  using assms
  by (auto simp: mirrorPackage_def Let_def split: sum.splits prod.splits option.splits)

text \<open>A relation of stores that every single write respects.\<close>

locale mirror_writes =
  fixes R :: "vuln_store \<Rightarrow> vuln_store \<Rightarrow> bool"
  assumes R_refl: "R st st"
    and R_trans: "R a b \<Longrightarrow> R b c \<Longrightarrow> R a c"
    and R_advisory: "writeAdvisory mode row affs st = Inr st' \<Longrightarrow> R st st'"
    and R_nvd: "writeNvd date doc st = Inr st' \<Longrightarrow> R st st'"
begin

lemma R_write_all: "\<lbrakk>write_all w xs st = (st', e); \<And>x s s'. w x s = Inr s' \<Longrightarrow> R s s'\<rbrakk> \<Longrightarrow> R st st'"
  by (rule write_all_induct[where R = R]) (auto intro: R_refl R_trans)

lemma R_write_osv: "write_all (write_osv env) xs st = (st', e) \<Longrightarrow> R st st'"
  by (erule R_write_all) (auto simp: write_osv_def intro: R_advisory)

lemma R_write_ghsa: "write_all (write_ghsa env) xs st = (st', e) \<Longrightarrow> R st st'"
  by (erule R_write_all) (auto simp: write_ghsa_def intro: R_advisory)

lemma R_write_nvd: "write_all (writeNvd date) xs st = (st', e) \<Longrightarrow> R st st'"
  by (erule R_write_all) (rule R_nvd)

lemma R_enrich: "R st (enrichFromNvd env cves st)"
proof (induction cves arbitrary: st)
  case (Cons c cves)
  have "R st (enrich_one env c st)"
    by (auto simp: enrich_one_def split: sum.split option.split intro: R_nvd R_refl)
  then show ?case using Cons R_trans by (fastforce simp: enrichFromNvd_def)
qed (simp add: enrichFromNvd_def R_refl)

lemma R_recent_ghsa: "recent_ghsa n env since page k st = (st', r) \<Longrightarrow> R st st'"
proof (induction n env since page k st arbitrary: st' r rule: recent_ghsa.induct)
  case (2 n env since page k st)
  show ?case
  proof (cases "fe_recent_ghsa env page")
    case (Inl e)
    then show ?thesis using "2.prems" R_refl by simp
  next
    case (Inr items)
    let ?new = "filter (\<lambda>a. \<not> truthy (ga_withdrawn a) \<and> isUpdatedSince (fe_date env) (ga_updated a) since) items"
    obtain st1 e where o: "write_all (write_ghsa env) ?new st = (st1, e)" by fastforce
    then have f: "R st st1" by (rule R_write_ghsa)
    show ?thesis
    proof (cases e)
      case None
      then show ?thesis
        using "2.prems" "2.IH"[OF Inr refl o[symmetric]] f Inr o R_trans[OF f]
        by (auto simp: Let_def split: if_splits)
    qed (use "2.prems" f Inr o in simp)
  qed
qed (simp add: R_refl)

lemma R_recent_nvd: "recent_nvd n env start results k st = (st', r) \<Longrightarrow> R st st'"
proof (induction n env start results k st arbitrary: st' r rule: recent_nvd.induct)
  case (2 n env start results k st)
  show ?case
  proof (cases "fe_recent_nvd env start")
    case (Inl e)
    then show ?thesis using "2.prems" R_refl by simp
  next
    case (Inr page)
    obtain st1 e where o: "write_all (writeNvd (fe_date env)) (np_cves page) st = (st1, e)" by fastforce
    then have f: "R st st1" by (rule R_write_nvd)
    show ?thesis
    proof (cases e)
      case None
      then show ?thesis
        using "2.prems" "2.IH"[OF Inr o[symmetric]] f Inr o R_trans[OF f]
        by (auto simp: Let_def split: if_splits)
    qed (use "2.prems" f Inr o in simp)
  qed
qed (simp add: R_refl)

lemma R_ingestRecentFeeds: "R st (fst (ingestRecentFeeds env now st))"
proof -
  obtain st1 g where g: "recent_ghsa MAX_PAGES env (now - NVD_RECENT_MS) 1 0 st = (st1, g)" by (rule prod.exhaust)
  obtain st2 n where n: "recent_nvd MAX_PAGES env 0 0 0 st1 = (st2, n)" by fastforce
  show ?thesis
    using R_trans[OF R_recent_ghsa[OF g] R_recent_nvd[OF n]] unfolding ingestRecentFeeds_def g n by (simp add: n)
qed

end

text \<open>A relation that the record of mirrored packages respects, too.\<close>

locale mirror_runs = mirror_writes +
  assumes R_sync: "R st (upsert_sync e n t k st)"
begin

lemma R_mirrorPackage: "mirrorPackage env now ecosystem name st = (st', err) \<Longrightarrow> R st st'"
  by (erule mirrorPackage_phases) (blast intro: R_refl R_trans R_sync R_enrich R_write_osv R_write_ghsa)+

lemma R_mirrorPackages: "R st (fst (mirrorPackages env ps st))"
proof (induction env ps st rule: mirrorPackages.induct)
  case (2 env p ps st)
  obtain st1 err where m: "mirrorPackage env (op_done p) (op_ecosystem p) (op_name p) st = (st1, err)" by fastforce
  then show ?case
    using 2 R_trans[OF R_mirrorPackage[OF m]] by (auto split: prod.splits)
qed (simp add: R_refl)

lemma R_refreshStale: "R st (refreshStale env now done_at st)"
proof -
  have "R st (foldl (\<lambda>acc (k, y). fst (mirrorPackage env (done_at k) (sy_ecosystem y) (sy_package y) acc)) st ys)"
    for ys
  proof (induction ys arbitrary: st)
    case (Cons z ys)
    obtain k y where z: "z = (k, y)" by fastforce
    have "R st (fst (mirrorPackage env (done_at k) (sy_ecosystem y) (sy_package y) st))"
      by (rule R_mirrorPackage[OF surjective_pairing])
    then show ?case using Cons R_trans by (fastforce simp: z)
  qed (simp add: R_refl)
  then show ?thesis by (simp add: refreshStale_def)
qed

end

interpretation keeping: mirror_runs retains
  by unfold_locales (auto intro: retains_trans retains_writeAdvisory retains_writeNvd retains_upsert_sync)

text \<open>The crawl of recent changes leaves the record of mirrored packages alone.\<close>

lemma syncs_simps [simp]:
  "syncs (set_row row st) = syncs st" "syncs (upsert_row row st) = syncs st"
  "syncs (index_package i affs st) = syncs st" "syncs (unindex i st) = syncs st"
  "syncs (score_aliases row st) = syncs st"
  by (simp_all add: set_row_def upsert_row_def index_package_def unindex_def score_aliases_def)

definition same_syncs :: "vuln_store \<Rightarrow> vuln_store \<Rightarrow> bool" where
  "same_syncs st st' \<longleftrightarrow> syncs st' = syncs st"

interpretation crawl: mirror_writes same_syncs
  by unfold_locales
    (auto simp: same_syncs_def rewrite_advisory_def writeNvd_def Let_def split: if_splits elim!: writeAdvisory_cases)


text \<open>
  C18 (feeds never clobber enrichment). Whatever the feeds answer, mirroring packages, the refresh of stale
  packages and the crawl of recent changes keep every row in its place with its KEV flag, due date and EPSS
  values, add rows only behind them and never duplicate an identifier; and the crawl leaves the record of
  mirrored packages alone, so a package that no scanner reported still takes its first live look-up.
\<close>

theorem feeds_never_clobber_enrichment:
  "retains st (fst (mirrorPackages env ps st)) \<and> retains st (refreshStale env now done_at st)
   \<and> retains st (fst (ingestRecentFeeds env now st)) \<and> syncs (fst (ingestRecentFeeds env now st)) = syncs st"
  using keeping.R_mirrorPackages keeping.R_refreshStale keeping.R_ingestRecentFeeds crawl.R_ingestRecentFeeds
  by (simp add: same_syncs_def)


section \<open>The tables stay coherent\<close>

definition coherent :: "vuln_store \<Rightarrow> bool" where
  "coherent st \<longleftrightarrow> distinct (map vid (mirror st)) \<and> distinct (affects_index st)
     \<and> fst ` set (affects_index st) \<subseteq> vid ` set (mirror st)
     \<and> distinct (map (\<lambda>y. (sy_ecosystem y, sy_package y)) (syncs st))"

definition stays_coherent :: "vuln_store \<Rightarrow> vuln_store \<Rightarrow> bool" where
  "stays_coherent st st' \<longleftrightarrow> (coherent st \<longrightarrow> coherent st')"

lemma affects_index_simps [simp]:
  "affects_index (set_row row st) = affects_index st" "affects_index (upsert_row row st) = affects_index st"
  "affects_index (score_aliases row st) = affects_index st"
  by (simp_all add: set_row_def upsert_row_def score_aliases_def)

lemma vids_set_row: "map vid (mirror (set_row row st)) = map vid (mirror st)"
  by (auto simp: set_row_def vid_def)

lemma vids_score_aliases: "map vid (mirror (score_aliases row st)) = map vid (mirror st)"
  by (auto simp: score_aliases_def vid_def)

lemma coherent_same_ids:
  assumes "coherent st" and "map vid (mirror st') = map vid (mirror st)"
    and "affects_index st' = affects_index st" and "syncs st' = syncs st"
  shows "coherent st'"
proof -
  have "vid ` set (mirror st') = vid ` set (mirror st)" using assms(2) by (metis list.set_map)
  then show ?thesis using assms by (simp add: coherent_def)
qed

lemma coherent_upsert_row: "coherent st \<Longrightarrow> coherent (upsert_row row st)"
proof (cases "list_ex (\<lambda>m. vid m = v_id row) (mirror st)")
  case True
  then show "coherent st \<Longrightarrow> coherent (upsert_row row st)"
    by (auto simp: upsert_row_def intro: coherent_same_ids vids_set_row)
next
  case False
  then show "coherent st \<Longrightarrow> coherent (upsert_row row st)"
    by (auto simp: coherent_def upsert_row_def new_mirror_row_def vid_def list_ex_iff)
qed

lemma row_after_upsert: "v_id row \<in> vid ` set (mirror (upsert_row row st))"
proof (cases "list_ex (\<lambda>m. vid m = v_id row) (mirror st)")
  case True
  then have "v_id row \<in> set (map vid (mirror st))" by (force simp: list_ex_iff)
  then show ?thesis using vids_set_row[of row st] True by (metis upsert_row_def list.set_map)
qed (simp add: upsert_row_def new_mirror_row_def vid_def)

lemma coherent_index_package:
  assumes "coherent st" and "i \<in> vid ` set (mirror st)"
  shows "coherent (index_package i affs st)"
proof -
  have add: "distinct ix \<and> fst ` set ix \<subseteq> V \<Longrightarrow> i \<in> V \<Longrightarrow>
      distinct (foldl (\<lambda>ix a. if (i, a) \<in> set ix then ix else ix @ [(i, a)]) ix affs)
      \<and> fst ` set (foldl (\<lambda>ix a. if (i, a) \<in> set ix then ix else ix @ [(i, a)]) ix affs) \<subseteq> V" for ix V
    by (induction affs arbitrary: ix) auto
  show ?thesis using add[of "affects_index st" "vid ` set (mirror st)"] assms
    by (simp add: coherent_def index_package_def)
qed

lemma coherent_unindex: "coherent st \<Longrightarrow> coherent (unindex i st)"
  by (auto simp: coherent_def unindex_def)

lemma coherent_writeAdvisory:
  assumes "writeAdvisory mode row affs st = Inr st'" and "coherent st"
  shows "coherent st'"
  using assms(1)
proof (cases rule: writeAdvisory_cases)
  case rewritten
  then have "st' = index_package (v_id row) affs (unindex (v_id row) (upsert_row row st))"
    by (auto simp: rewrite_advisory_def split: if_splits)
  moreover have "v_id row \<in> vid ` set (mirror (unindex (v_id row) (upsert_row row st)))"
    using row_after_upsert by (simp add: unindex_def)
  ultimately show ?thesis
    using assms(2) by (simp add: coherent_index_package coherent_unindex coherent_upsert_row)
next
  case (filled old)
  have "v_id row \<in> vid ` set (mirror st)"
    using filled(1) by (auto simp: stored_def find_Some_iff intro: image_eqI[OF sym nth_mem])
  then have "v_id row \<in> vid ` set (mirror (set_row (filled_row old row) st))"
    using vids_set_row[of "filled_row old row" st] by (metis list.set_map)
  then show ?thesis unfolding filled(4)
    by (intro coherent_index_package coherent_same_ids[OF assms(2)] vids_set_row) simp_all
qed

lemma coherent_writeNvd: "writeNvd date c st = Inr st' \<Longrightarrow> coherent st \<Longrightarrow> coherent st'"
  by (auto simp: writeNvd_def Let_def split: if_splits
      intro: coherent_upsert_row coherent_same_ids[OF coherent_upsert_row vids_score_aliases])

lemma coherent_upsert_sync: "coherent st \<Longrightarrow> coherent (upsert_sync e n t k st)"
proof -
  have same: "map (\<lambda>y. (sy_ecosystem y, sy_package y)) (map (\<lambda>y. if P y then y\<lparr>sy_syncedAt := t, sy_advisories := k\<rparr> else y) ys)
      = map (\<lambda>y. (sy_ecosystem y, sy_package y)) ys" for P ys
    by simp
  show "coherent st \<Longrightarrow> coherent (upsert_sync e n t k st)"
    unfolding coherent_def upsert_sync_def Let_def
    by (auto simp: list_ex_iff same simp del: map_map)
qed

interpretation tables: mirror_runs stays_coherent
  by unfold_locales
    (auto simp: stays_coherent_def intro: coherent_writeAdvisory coherent_writeNvd coherent_upsert_sync)



section \<open>What a write stores\<close>

lemma find_map_same: "(\<And>x. P (f x) = P x) \<Longrightarrow> find P (map f xs) = map_option f (find P xs)"
  by (induction xs) auto

lemma find_append: "find P (xs @ ys) = (case find P xs of None \<Rightarrow> find P ys | Some x \<Rightarrow> Some x)"
  by (induction xs) auto

lemma find_Some_D: "find P xs = Some x \<Longrightarrow> x \<in> set xs \<and> P x"
  by (induction xs) (auto split: if_splits)

lemma stored_Some: "stored i st = Some row \<Longrightarrow> v_id row = i"
  by (auto simp: stored_def vid_def dest: find_Some_D)

definition row_updated :: "vuln_row \<Rightarrow> mirror_row \<Rightarrow> mirror_row" where
  "row_updated row m = (if vid m = v_id row then m\<lparr>m_row := row\<rparr> else m)"

lemma vid_row_updated [simp]: "vid (row_updated row m) = vid m"
  by (simp add: row_updated_def vid_def)

lemma stored_set_row:
  "stored i (set_row row st) = (if i = v_id row then map_option (\<lambda>_. row) (stored i st) else stored i st)"
proof -
  have "set_row row st = st\<lparr>mirror := map (row_updated row) (mirror st)\<rparr>"
    by (simp add: set_row_def row_updated_def)
  then have "stored i (set_row row st) = map_option (m_row \<circ> row_updated row) (find (\<lambda>m. vid m = i) (mirror st))"
    by (simp add: stored_def find_map_same option.map_comp)
  then show ?thesis
    by (cases "find (\<lambda>m. vid m = i) (mirror st)") (auto simp: stored_def row_updated_def dest: find_Some_D)
qed

lemma stored_iff: "stored i st \<noteq> None \<longleftrightarrow> list_ex (\<lambda>m. vid m = i) (mirror st)"
  by (auto simp: stored_def find_None_iff list_ex_iff)

lemma stored_upsert_row: "stored i (upsert_row row st) = (if i = v_id row then Some row else stored i st)"
proof (cases "list_ex (\<lambda>m. vid m = v_id row) (mirror st)")
  case True
  then show ?thesis
    using stored_iff[of "v_id row" st] by (auto simp: upsert_row_def stored_set_row)
next
  case False
  then have "stored (v_id row) st = None" using stored_iff[of "v_id row" st] by simp
  then have "find (\<lambda>m. vid m = v_id row) (mirror st) = None" by (simp add: stored_def)
  then show ?thesis using False
    by (auto simp: upsert_row_def stored_def find_append new_mirror_row_def vid_def split: option.split)
qed

lemma stored_other_tables [simp]:
  "stored i (index_package j affs st) = stored i st" "stored i (unindex j st) = stored i st"
  "stored i (upsert_sync e n t k st) = stored i st"
  by (simp_all add: stored_def index_package_def unindex_def)

lemma set_index_package [simp]:
  "set (affects_index (index_package i affs st)) = set (affects_index st) \<union> Pair i ` set affs"
proof -
  have "set (foldl (\<lambda>ix a. if (i, a) \<in> set ix then ix else ix @ [(i, a)]) ix affs) = set ix \<union> Pair i ` set affs"
    for ix by (induction affs arbitrary: ix) auto
  then show ?thesis by (simp add: index_package_def)
qed

lemma index_other [simp]:
  "affects_index (set_row row st) = affects_index st" "affects_index (upsert_row row st) = affects_index st"
  "affects_index (score_aliases row st) = affects_index st" "affects_index (upsert_sync e n t k st) = affects_index st"
  by (simp_all add: set_row_def upsert_row_def score_aliases_def upsert_sync_def Let_def)

lemma set_unindex [simp]: "set (affects_index (unindex i st)) = {(j, a) \<in> set (affects_index st). j \<noteq> i}"
  by (auto simp: unindex_def)


section \<open>A mirrored advisory keeps serving its package\<close>

definition serves :: "string \<Rightarrow> osv_affected list \<Rightarrow> string \<times> string \<Rightarrow> vuln_store \<Rightarrow> bool" where
  "serves i affected pkg st \<longleftrightarrow>
     map_option v_affected (stored i st) = Some affected \<and> (i, pkg) \<in> set (affects_index st)"

lemma serves_rewrite_other:
  "\<lbrakk>rewrite_advisory row affs st = Inr st'; v_id row \<noteq> i; serves i aff pkg st\<rbrakk> \<Longrightarrow> serves i aff pkg st'"
  by (auto simp: rewrite_advisory_def serves_def stored_upsert_row split: if_splits)

lemma serves_fill:
  assumes "writeAdvisory Fill row affs st = Inr st'" and "serves i aff pkg st" and "aff \<noteq> []"
  shows "serves i aff pkg st'"
  using assms(1)
proof (cases rule: writeAdvisory_cases)
  case rewritten
  have "v_id row \<noteq> i" using rewritten(2) assms(2,3) by (auto simp: serves_def)
  then show ?thesis using serves_rewrite_other[OF rewritten(1)] assms(2) by simp
next
  case (filled old)
  have "v_id (filled_row old row) = v_id row" using stored_Some[OF filled(1)] by (simp add: filled_row_def)
  moreover have "v_affected (filled_row old row) = v_affected old" by (simp add: filled_row_def)
  ultimately show ?thesis using assms(2) filled(1) by (auto simp: filled(4) serves_def stored_set_row)
qed

lemma affected_score_aliases: "map_option v_affected (stored i (score_aliases q s)) = map_option v_affected (stored i s)"
proof -
  let ?f = "\<lambda>m. if v_id q \<in> set (v_aliases (m_row m)) \<and> v_cvssScore (m_row m) = None
       then m\<lparr>m_row := (m_row m)\<lparr>v_cvssScore := v_cvssScore q, v_cvssVector := v_cvssVector q,
                                v_severity := v_severity q\<rparr>\<rparr> else m"
  have "stored i (score_aliases q s) = map_option (m_row \<circ> ?f) (find (\<lambda>m. vid m = i) (mirror s))"
    by (simp add: score_aliases_def stored_def find_map_same vid_def option.map_comp)
  then show ?thesis by (cases "find (\<lambda>m. vid m = i) (mirror s)") (auto simp: stored_def)
qed

lemma serves_write_nvd:
  assumes "writeNvd date c st = Inr st'" and "serves i aff pkg st"
  shows "serves i aff pkg st'"
proof -
  let ?new = "case stored (nc_id c) st of Some old \<Rightarrow> overlaid_row old (nvdToRow date c) | None \<Rightarrow> nvdToRow date c"
  have idr: "v_id (nvdToRow date c) = nc_id c" by (simp add: nvdToRow_def Let_def)
  have idn: "v_id ?new = nc_id c"
  proof (cases "stored (nc_id c) st")
    case (Some old)
    then show ?thesis using stored_Some[OF Some] by (simp add: overlaid_row_def)
  qed (simp add: idr)
  have up: "map_option v_affected (stored i (upsert_row ?new st)) = Some aff"
    using assms(2) idn by (auto simp: serves_def stored_upsert_row overlaid_row_def)
  have st': "st' \<in> {upsert_row ?new st, score_aliases (nvdToRow date c) (upsert_row ?new st)}"
    using assms(1) idr by (auto simp: writeNvd_def Let_def split: if_splits)
  then show ?thesis
    using assms(2) up affected_score_aliases[of i "nvdToRow date c" "upsert_row ?new st"]
    by (auto simp: serves_def)
qed

lemma serves_enrich: "serves i aff pkg st \<Longrightarrow> serves i aff pkg (enrichFromNvd env cves st)"
proof (induction cves arbitrary: st)
  case (Cons c cves)
  have "serves i aff pkg (enrich_one env c st)"
    using Cons.prems by (auto simp: enrich_one_def split: sum.split option.split dest: serves_write_nvd)
  then show ?case using Cons.IH by (simp add: enrichFromNvd_def)
qed (simp add: enrichFromNvd_def)

lemma write_all_keeps:
  "\<lbrakk>write_all w xs st = (st', e); P st; \<And>x s s'. x \<in> set xs \<Longrightarrow> P s \<Longrightarrow> w x s = Inr s' \<Longrightarrow> P s'\<rbrakk> \<Longrightarrow> P st'"
proof (induction xs arbitrary: st)
  case (Cons x xs)
  show ?case
  proof (cases "w x st")
    case (Inr s1)
    have "P s1" using Cons.prems(3)[OF _ Cons.prems(2) Inr] by simp
    then show ?thesis using Cons.IH[of s1] Cons.prems Inr by (metis list.set_intros(2) sum.simps(6) write_all.simps(2))
  qed (use Cons.prems in simp)
qed simp

text \<open>The packages an advisory is indexed under, when the joined key is unambiguous.\<close>

definition named :: "osv_affected \<Rightarrow> bool" where
  "named e \<longleftrightarrow> truthy (package_ecosystem e) \<and> truthy (package_name e)"

definition package_of :: "osv_affected \<Rightarrow> string \<times> string" where
  "package_of e = (the (package_ecosystem e), the (package_name e))"

definition package_key :: "string \<times> string \<Rightarrow> string" where
  "package_key p = affects_key (fst p) (snd p)"

definition unambiguous :: "osv_affected list \<Rightarrow> bool" where
  "unambiguous es \<longleftrightarrow> inj_on package_key (package_of ` {e \<in> set es. named e})"

lemma assoc_set_fresh: "k \<notin> fst ` set kvs \<Longrightarrow> assoc_set k v kvs = kvs @ [(k, v)]"
  by (induction kvs) auto

lemma assoc_set_same: "distinct (map fst kvs) \<Longrightarrow> (k, v) \<in> set kvs \<Longrightarrow> assoc_set k v kvs = kvs"
  by (induction kvs) (auto simp: rev_image_eqI)

lemma assoc_set_all:
  "inj_on key (set ps) \<Longrightarrow>
     set (foldl (\<lambda>seen p. assoc_set (key p) p seen) [] ps) = (\<lambda>p. (key p, p)) ` set ps
   \<and> distinct (map fst (foldl (\<lambda>seen p. assoc_set (key p) p seen) [] ps))"
proof (induction ps rule: rev_induct)
  case (snoc p ps)
  let ?acc = "foldl (\<lambda>seen p. assoc_set (key p) p seen) [] ps"
  have "inj_on key (set ps)" using snoc.prems by (simp add: inj_on_insert)
  then have IH: "set ?acc = (\<lambda>p. (key p, p)) ` set ps" "distinct (map fst ?acc)" using snoc.IH by auto
  show ?case
  proof (cases "p \<in> set ps")
    case True
    then have "(key p, p) \<in> set ?acc" unfolding IH(1) by simp
    then have "assoc_set (key p) p ?acc = ?acc" by (rule assoc_set_same[OF IH(2)])
    moreover have "set (ps @ [p]) = set ps" using True by auto
    ultimately show ?thesis using IH by simp
  next
    case False
    then have "key p \<notin> key ` set ps" using snoc.prems by (auto simp: inj_on_def)
    moreover have "fst ` set ?acc = key ` set ps" unfolding IH(1) by (simp add: image_image)
    ultimately have new: "key p \<notin> fst ` set ?acc" by simp
    have "assoc_set (key p) p ?acc = ?acc @ [(key p, p)]" by (rule assoc_set_fresh[OF new])
    then show ?thesis using IH new by simp
  qed
qed simp

lemma advisoryAffects_alt:
  "advisoryAffects (Some es) =
     map snd (foldl (\<lambda>seen p. assoc_set (package_key p) p seen) [] (map package_of (filter named es)))"
proof -
  have "foldl (\<lambda>seen e. if \<not> truthy (package_ecosystem e) \<or> \<not> truthy (package_name e) then seen
         else (let ecosystem = the (package_ecosystem e); name = the (package_name e)
               in assoc_set (affects_key ecosystem name) (ecosystem, name) seen)) acc es
      = foldl (\<lambda>seen p. assoc_set (package_key p) p seen) acc (map package_of (filter named es))" for acc
    by (induction es arbitrary: acc) (simp_all add: named_def package_of_def package_key_def Let_def)
  then show ?thesis by (simp add: advisoryAffects_def or_empty_def)
qed

lemma advisoryAffects_named:
  assumes "unambiguous es" and "e \<in> set es" and "named e"
  shows "package_of e \<in> set (advisoryAffects (Some es))"
proof -
  have "inj_on package_key (set (map package_of (filter named es)))" using assms(1) by (simp add: unambiguous_def)
  from conjunct1[OF assoc_set_all[OF this]] show ?thesis
    using assms(2,3) by (simp add: advisoryAffects_alt image_image)
qed


section \<open>From the mirror to the matcher\<close>

lemma write_all_append:
  "write_all w (xs @ ys) st =
     (case write_all w xs st of (st1, None) \<Rightarrow> write_all w ys st1 | (st1, Some e) \<Rightarrow> (st1, Some e))"
  by (induction xs arbitrary: st) (auto split: sum.split)

lemma serves_write_osv:
  assumes "write_osv env a st = Inr st'"
    and "unambiguous (or_empty (adv_affected a))" and "e \<in> set (or_empty (adv_affected a))"
    and "package_name e = Some name" and "package_ecosystem e = Some ecosystem" and "name \<noteq> []" and "ecosystem \<noteq> []"
  shows "serves (adv_id a) (or_empty (adv_affected a)) (ecosystem, name) st'"
proof -
  let ?row = "advisoryToRow (fe_date env) a"
  have row: "v_id ?row = adv_id a" "v_affected ?row = or_empty (adv_affected a)"
    by (simp_all add: advisoryToRow_def Let_def)
  have "advisoryAffects (adv_affected a) = advisoryAffects (Some (or_empty (adv_affected a)))"
    by (simp add: advisoryAffects_def or_empty_def)
  then have "package_of e \<in> set (advisoryAffects (adv_affected a))"
    using advisoryAffects_named[OF assms(2,3)] assms(4-7) by (simp add: named_def truthy_def)
  moreover have "package_of e = (ecosystem, name)" using assms(4,5) by (simp add: package_of_def)
  moreover have "st' = index_package (v_id ?row) (advisoryAffects (adv_affected a)) (unindex (v_id ?row) (upsert_row ?row st))"
    using assms(1) by (auto simp: write_osv_def writeAdvisory_def rewrite_advisory_def split: if_splits)
  ultimately show ?thesis using row by (simp add: serves_def stored_upsert_row)
qed

lemma serves_write_osv_other:
  assumes "write_osv env a st = Inr st'" and "adv_id a \<noteq> i" and "serves i aff pkg st"
  shows "serves i aff pkg st'"
proof (rule serves_rewrite_other[OF _ _ assms(3)])
  show "rewrite_advisory (advisoryToRow (fe_date env) a) (advisoryAffects (adv_affected a)) st = Inr st'"
    using assms(1) by (simp add: write_osv_def writeAdvisory_def)
  show "v_id (advisoryToRow (fe_date env) a) \<noteq> i" using assms(2) by (simp add: advisoryToRow_def Let_def)
qed

lemma find_None_list_ex: "find P xs = None \<longleftrightarrow> \<not> list_ex P xs"
  by (simp add: find_None_iff list_ex_iff) blast

lemma sync_of_upsert_sync: "sync_of ecosystem name (upsert_sync ecosystem name now n st) \<noteq> None"
proof (cases "list_ex (\<lambda>y. sy_ecosystem y = ecosystem \<and> sy_package y = name) (syncs st)")
  case True
  then have "find (\<lambda>y. sy_ecosystem y = ecosystem \<and> sy_package y = name) (syncs st) \<noteq> None"
    by (simp only: find_None_list_ex) simp
  then show ?thesis using True by (simp add: sync_of_def upsert_sync_def find_map_same)
next
  case False
  then show ?thesis by (simp add: sync_of_def upsert_sync_def find_append split: option.split)
qed

lemma matchLocal_serves:
  assumes "serves i aff (ecosystem, name) st" and "sync_of ecosystem name st \<noteq> None" and "ecosystem \<noteq> ''unknown''"
    and "versionAffected v (Some aff) (Some name) (Some ecosystem)"
  shows "\<exists>ms m. matchLocal intel (Some \<lparr>db_store = st, db_sync_ok = True, db_rows_ok = True\<rparr>)
      \<lparr>mc_name = name, mc_version = v, mc_ecosystem = ecosystem\<rparr> = Some ms \<and> m \<in> set ms \<and> vm_id m = i"
proof -
  obtain m where m: "find (\<lambda>m. vid m = i) (mirror st) = Some m" "v_affected (m_row m) = aff"
    using assms(1) by (auto simp: serves_def stored_def)
  have "m \<in> set (indexed_rows st ecosystem name)"
    using assms(1) m(1) by (force simp: indexed_rows_def in_map_filter serves_def)
  moreover have "vid m = i" using find_Some_D[OF m(1)] by simp
  ultimately show ?thesis
    using assms(2-4) m(2) by (force simp: matchLocal_def rowToMatch_def Let_def vid_def)
qed


definition quiet_feeds :: "osv_advisory list \<Rightarrow> feed_env" where
  "quiet_feeds advs =
     \<lparr>fe_osv = (\<lambda>_ _ _. Inr (advs, None)), fe_ghsa = (\<lambda>_ _ _. Inr []), fe_nvd = (\<lambda>_. Inl ''HTTP 503''),
      fe_recent_ghsa = (\<lambda>_. Inr []), fe_recent_nvd = (\<lambda>_. Inl ''HTTP 503''), fe_date = (\<lambda>_. None)\<rparr>"

definition express_advisory :: osv_advisory where
  "express_advisory =
     \<lparr>adv_id = ''GHSA-rv95'', adv_aliases = Some [''CVE-2024-29041''], adv_summary = Some ''Open redirect'',
      adv_details = None, adv_published = None, adv_modified = None, adv_severity = None, adv_references = None,
      adv_affected = Some [express_entry]\<rparr>"

definition empty_store :: vuln_store where
  "empty_store = \<lparr>mirror = [], affects_index = [], syncs = []\<rparr>"

definition cold_cache :: vuln_intel where
  "cold_cache = \<lparr>in_kev = [], in_epss = Map.empty\<rparr>"



section \<open>A refresh while NVD does not answer\<close>

lemma enrich_unanswered: "(\<And>c. \<exists>e. fe_nvd env c = Inl e) \<Longrightarrow> enrichFromNvd env cves st = st"
proof -
  assume down: "\<And>c. \<exists>e. fe_nvd env c = Inl e"
  have one: "enrich_one env c s = s" for c s using down[of c] by (auto simp: enrich_one_def)
  then show ?thesis by (induction cves arbitrary: st) (simp_all add: enrichFromNvd_def)
qed

lemma stored_write_osv:
  "write_osv env x s = Inr s' \<Longrightarrow>
     stored i s' = (if adv_id x = i then Some (advisoryToRow (fe_date env) x) else stored i s)"
  by (auto simp: write_osv_def writeAdvisory_def rewrite_advisory_def stored_upsert_row advisoryToRow_def Let_def
      split: if_splits)


definition vector_advisory :: osv_advisory where
  "vector_advisory = express_advisory\<lparr>adv_severity := Some [(Some ''CVSS_V3'', ''CVSS:3.1/AV:N'')]\<rparr>"

definition scored_store :: vuln_store where
  "scored_store =
     \<lparr>mirror = [new_mirror_row ((advisoryToRow (\<lambda>_. None) vector_advisory)\<lparr>v_cvssScore := Some (49 / 5),
                 v_severity := ''critical''\<rparr>)],
      affects_index = [], syncs = []\<rparr>"



end
