(* ===== verification/Enrichment.thy ===== *)
theory Enrichment
imports VulnMirror Findings
begin

text \<open>
  Enrichment (\<^verbatim>\<open>apps/risk-service/src/feed/enrichment.logic.ts\<close>, \<^verbatim>\<open>enrichment.service.ts\<close>): the KEV
  catalog and EPSS scores update the mirrored advisories, and what changed is pushed down to the open findings.

  The KEV feed, the EPSS requests and whether a publish succeeds are arguments.
\<close>


section \<open>Which rows change (enrichment.logic.ts)\<close>

text \<open>A catalog entry's due date: none, an invalid date (\<^term>\<open>Some None\<close>), or an instant.\<close>

type_synonym kev_catalog = "string \<rightharpoonup> date_value"

record kev_update =
  ku_id :: string
  ku_cve :: string
  ku_kev :: bool
  ku_dueDate :: date_value

record epss_update =
  eu_id :: string
  eu_cve :: string
  eu_score :: rat
  eu_percentile :: "rat option"

definition resolveCve :: "mirror_row \<Rightarrow> string option" where
  "resolveCve m = cve_of (vid m) (v_aliases (m_row m))"

text \<open>The time of an invalid date is NaN, which differs from everything.\<close>

definition due_differs :: "date_value \<Rightarrow> instant option \<Rightarrow> bool" where
  "due_differs due old = (case due of None \<Rightarrow> old \<noteq> None | Some None \<Rightarrow> True | Some (Some t) \<Rightarrow> old \<noteq> Some t)"

definition kev_update_of :: "kev_catalog \<Rightarrow> mirror_row \<Rightarrow> kev_update option" where
  "kev_update_of catalog m =
     (case resolveCve m of
        None \<Rightarrow> None
      | Some cve \<Rightarrow>
          (let kev = (catalog cve \<noteq> None); due = (case catalog cve of None \<Rightarrow> None | Some d \<Rightarrow> d)
           in if kev \<noteq> m_kev m \<or> (kev \<and> due_differs due (m_kevDueDate m))
              then Some \<lparr>ku_id = vid m, ku_cve = cve, ku_kev = kev, ku_dueDate = due\<rparr> else None))"

definition computeKevUpdates :: "mirror_row list \<Rightarrow> kev_catalog \<Rightarrow> kev_update list" where
  "computeKevUpdates rows catalog = List.map_filter (kev_update_of catalog) rows"

definition EPSS_THRESHOLD :: rat where
  "EPSS_THRESHOLD = 1 / 1000"

definition epss_update_of :: "epss_map \<Rightarrow> mirror_row \<Rightarrow> epss_update option" where
  "epss_update_of scores m =
     (case resolveCve m of
        None \<Rightarrow> None
      | Some cve \<Rightarrow>
          (case scores cve of
             None \<Rightarrow> None
           | Some latest \<Rightarrow>
               if (case m_epssScore m of None \<Rightarrow> True | Some old \<Rightarrow> EPSS_THRESHOLD < \<bar>es_epss latest - old\<bar>)
               then Some \<lparr>eu_id = vid m, eu_cve = cve, eu_score = es_epss latest,
                          eu_percentile = es_percentile latest\<rparr>
               else None))"

definition computeEpssUpdates :: "mirror_row list \<Rightarrow> epss_map \<Rightarrow> epss_update list" where
  "computeEpssUpdates rows scores = List.map_filter (epss_update_of scores) rows"

record intel_patch =
  ip_kev :: "bool option"
  ip_epss :: "rat option"

record finding_patch =
  fp_kev :: "bool option"
  fp_epss :: "rat option"
  fp_validation :: "validation_verdict option"

definition findingIntelPatch :: "finding_row \<Rightarrow> intel_patch \<Rightarrow> finding_patch" where
  "findingIntelPatch f intel =
     \<lparr>fp_kev = ip_kev intel, fp_epss = ip_epss intel,
      fp_validation = (case ip_kev intel of
                         None \<Rightarrow> None
                       | Some kev \<Rightarrow> promoteScaValidation (f_scannerType f) (JObj (f_evidence f)) kev)\<rparr>"


section \<open>The refresh (enrichment.service.ts)\<close>

record enrich_db =
  ed_mirror :: "mirror_row list"
  ed_findings :: "finding_row list"

record enrich_env =
  ee_kev :: "string + (string \<times> date_value) list"
  ee_epss :: "string list \<Rightarrow> epss_fetch"
  ee_bus_ok :: "ident \<Rightarrow> bool"

record enrichment_summary =
  sm_advisories :: nat
  sm_kevChanged :: nat
  sm_epssChanged :: nat
  sm_findingsUpdated :: nat
  sm_orgsNotified :: nat

text \<open>Later entries of the feed replace earlier ones.\<close>

definition catalog_of :: "(string \<times> date_value) list \<Rightarrow> kev_catalog" where
  "catalog_of vs = map_of (rev vs)"

text \<open>The row updates: an invalid due date is refused by the database client and ends the refresh.\<close>

fun write_kev :: "kev_update list \<Rightarrow> mirror_row list \<Rightarrow> mirror_row list \<times> string option" where
  "write_kev [] ms = (ms, None)"
| "write_kev (u # us) ms =
     (if ku_dueDate u = Some None then (ms, Some invalid_date)
      else write_kev us (map (\<lambda>m. if vid m = ku_id u
             then m\<lparr>m_kev := ku_kev u, m_kevDueDate := Option.bind (ku_dueDate u) id\<rparr> else m) ms))"

definition write_epss :: "epss_update list \<Rightarrow> mirror_row list \<Rightarrow> mirror_row list" where
  "write_epss us ms =
     foldl (\<lambda>ms u. map (\<lambda>m. if vid m = eu_id u
         then m\<lparr>m_epssScore := Some (eu_score u), m_epssPercentile := eu_percentile u\<rparr> else m) ms) ms us"

definition epss_cves :: "mirror_row list \<Rightarrow> string list" where
  "epss_cves rows = uniq (filter (\<lambda>c. c \<noteq> []) (List.map_filter resolveCve rows))"

text \<open>The map \<^verbatim>\<open>byCve\<close>, in insertion order.\<close>

definition no_patch :: intel_patch where
  "no_patch = \<lparr>ip_kev = None, ip_epss = None\<rparr>"

definition patch_at :: "string \<Rightarrow> (string \<times> intel_patch) list \<Rightarrow> intel_patch" where
  "patch_at cve ps = (case map_of ps cve of None \<Rightarrow> no_patch | Some p \<Rightarrow> p)"

definition by_cve :: "kev_update list \<Rightarrow> epss_update list \<Rightarrow> (string \<times> intel_patch) list" where
  "by_cve kus eus =
     foldl (\<lambda>ps u. assoc_set (eu_cve u) ((patch_at (eu_cve u) ps)\<lparr>ip_epss := Some (eu_score u)\<rparr>) ps)
       (foldl (\<lambda>ps u. assoc_set (ku_cve u) ((patch_at (ku_cve u) ps)\<lparr>ip_kev := Some (ku_kev u)\<rparr>) ps) [] kus) eus"

definition concerned :: "string \<Rightarrow> finding_row \<Rightarrow> bool" where
  "concerned cve f = (f_state f \<in> set OPEN_STATES \<and> list_ex (\<lambda>i. snd i = cve) (f_identifiers f))"

text \<open>Findings with equal data share one \<^verbatim>\<open>updateMany\<close>.\<close>

definition patch_groups :: "intel_patch \<Rightarrow> finding_row list \<Rightarrow> (finding_patch \<times> ident list) list" where
  "patch_groups patch fs =
     foldl (\<lambda>gs f. let d = findingIntelPatch f patch
                   in assoc_set d ((case map_of gs d of None \<Rightarrow> [] | Some ids \<Rightarrow> ids) @ [f_id f]) gs) [] fs"

definition apply_patch :: "finding_patch \<Rightarrow> finding_row \<Rightarrow> finding_row" where
  "apply_patch d f =
     f\<lparr>f_kev := (case fp_kev d of Some k \<Rightarrow> k | None \<Rightarrow> f_kev f),
       f_epssScore := (case fp_epss d of Some q \<Rightarrow> Some q | None \<Rightarrow> f_epssScore f),
       f_validation := (case fp_validation d of Some v \<Rightarrow> v | None \<Rightarrow> f_validation f)\<rparr>"

definition update_many :: "finding_patch \<times> ident list \<Rightarrow> finding_row list \<Rightarrow> finding_row list" where
  "update_many g fs = map (\<lambda>f. if f_id f \<in> set (snd g) then apply_patch (fst g) f else f) fs"

text \<open>The findings touched per organisation, in order and without repetition.\<close>

definition touch :: "(ident \<times> ident list) list \<Rightarrow> finding_row \<Rightarrow> (ident \<times> ident list) list" where
  "touch t f =
     (let ids = (case map_of t (f_org f) of None \<Rightarrow> [] | Some known \<Rightarrow> known)
      in assoc_set (f_org f) (if f_id f \<in> set ids then ids else ids @ [f_id f]) t)"

fun push_down :: "(string \<times> intel_patch) list \<Rightarrow> finding_row list \<Rightarrow> (ident \<times> ident list) list
    \<Rightarrow> finding_row list \<times> (ident \<times> ident list) list" where
  "push_down [] fs touched = (fs, touched)"
| "push_down ((cve, patch) # ps) fs touched =
     (let hit = filter (concerned cve) fs
      in push_down ps (foldl (\<lambda>fs g. update_many g fs) fs (patch_groups patch hit)) (foldl touch touched hit))"

text \<open>One rescore request per organisation; a publish that throws ends the refresh.\<close>

fun notify_orgs :: "(ident \<Rightarrow> bool) \<Rightarrow> (ident \<times> ident list) list \<Rightarrow> (ident \<times> ident list) list \<times> bool" where
  "notify_orgs ok [] = ([], True)"
| "notify_orgs ok ((org, ids) # ts) =
     (if \<not> ok org then ([], False) else (case notify_orgs ok ts of (pub, r) \<Rightarrow> ((org, ids) # pub, r)))"

definition doRefresh ::
    "enrich_env \<Rightarrow> enrich_db \<Rightarrow> enrich_db \<times> (ident \<times> ident list) list \<times> (string + enrichment_summary)" where
  "doRefresh env db =
     (let rows = ed_mirror db in
      case ee_kev env of
        Inl e \<Rightarrow> (db, [], Inl e)
      | Inr vs \<Rightarrow>
          (let kus = computeKevUpdates rows (catalog_of vs) in
           case write_kev kus rows of
             (ms, Some e) \<Rightarrow> (db\<lparr>ed_mirror := ms\<rparr>, [], Inl e)
           | (ms, None) \<Rightarrow>
               (case fetchEpssPaged (ee_epss env) (Some (epss_cves rows)) None None of
                  Inl e \<Rightarrow> (db\<lparr>ed_mirror := ms\<rparr>, [], Inl e)
                | Inr scores \<Rightarrow>
                    (let eus = computeEpssUpdates rows scores;
                         ms2 = write_epss eus ms;
                         pushed = push_down (by_cve kus eus) (ed_findings db) [];
                         db2 = \<lparr>ed_mirror = ms2, ed_findings = fst pushed\<rparr>;
                         sent = notify_orgs (ee_bus_ok env) (snd pushed)
                     in if \<not> snd sent then (db2, fst sent, Inl ''publish failed'')
                        else (db2, fst sent,
                              Inr \<lparr>sm_advisories = length rows, sm_kevChanged = length kus,
                                   sm_epssChanged = length eus,
                                   sm_findingsUpdated = sum_list (map (length \<circ> snd) (snd pushed)),
                                   sm_orgsNotified = length (snd pushed)\<rparr>)))))"

text \<open>A refresh that overlaps another one of the same process is skipped.\<close>

definition refresh ::
    "bool \<Rightarrow> enrich_env \<Rightarrow> enrich_db \<Rightarrow> enrich_db \<times> (ident \<times> ident list) list \<times> (string + enrichment_summary)" where
  "refresh running env db =
     (if running then (db, [], Inr \<lparr>sm_advisories = 0, sm_kevChanged = 0, sm_epssChanged = 0,
                                     sm_findingsUpdated = 0, sm_orgsNotified = 0\<rparr>)
      else doRefresh env db)"


section \<open>Grouped updates are per-finding updates\<close>

lemma map_of_assoc_set [simp]: "map_of (assoc_set k v kvs) = (map_of kvs)(k \<mapsto> v)"
  by (induction kvs) auto

lemma fst_assoc_set: "fst ` set (assoc_set k v kvs) = insert k (fst ` set kvs)"
  by (metis Map.dom_fun_upd dom_map_of_conv_image_fst map_of_assoc_set option.distinct(1))

lemma distinct_assoc_set: "distinct (map fst kvs) \<Longrightarrow> distinct (map fst (assoc_set k v kvs))"
proof (induction kvs)
  case (Cons kv kvs)
  obtain k' v' where kv: "kv = (k', v')" by fastforce
  have "k' \<notin> fst ` set (assoc_set k v kvs)" if "k' \<noteq> k" using Cons.prems that kv by (simp add: fst_assoc_set)
  then show ?case using Cons kv by auto
qed simp

lemma patch_groups_ids:
  "distinct (map fst (patch_groups patch fs))
   \<and> (\<forall>d ids. (d, ids) \<in> set (patch_groups patch fs) \<longrightarrow>
        set ids = f_id ` {f \<in> set fs. findingIntelPatch f patch = d})
   \<and> (\<forall>f \<in> set fs. findingIntelPatch f patch \<in> fst ` set (patch_groups patch fs))"
proof (induction fs rule: rev_induct)
  case Nil
  then show ?case by (simp add: patch_groups_def)
next
  case (snoc f fs)
  let ?gs = "patch_groups patch fs" and ?d = "findingIntelPatch f patch"
  let ?old = "case map_of ?gs ?d of None \<Rightarrow> [] | Some ids \<Rightarrow> ids"
  have step: "patch_groups patch (fs @ [f]) = assoc_set ?d (?old @ [f_id f]) ?gs"
    by (simp add: patch_groups_def Let_def)
  have dist: "distinct (map fst (patch_groups patch (fs @ [f])))"
    unfolding step by (rule distinct_assoc_set) (use snoc in simp)
  have old: "set ?old = f_id ` {x \<in> set fs. findingIntelPatch x patch = ?d}"
  proof (cases "map_of ?gs ?d")
    case None
    then have "?d \<notin> fst ` set ?gs" by (simp add: map_of_eq_None_iff)
    then have "findingIntelPatch x patch \<noteq> ?d" if "x \<in> set fs" for x using snoc.IH that by metis
    then have "{x \<in> set fs. findingIntelPatch x patch = ?d} = {}" by simp
    then show ?thesis using None by (simp only:) simp
  next
    case (Some ids)
    then show ?thesis using snoc.IH map_of_SomeD[OF Some] by simp
  qed
  have entry: "set ids = f_id ` {x \<in> set (fs @ [f]). findingIntelPatch x patch = d}"
    if "(d, ids) \<in> set (patch_groups patch (fs @ [f]))" for d ids
  proof -
    have m: "map_of (assoc_set ?d (?old @ [f_id f]) ?gs) d = Some ids"
      using map_of_is_SomeI[OF dist that] by (simp only: step)
    show ?thesis
    proof (cases "d = ?d")
      case True
      then have "ids = ?old @ [f_id f]" using m by simp
      moreover have "{x \<in> set (fs @ [f]). findingIntelPatch x patch = d} = insert f {x \<in> set fs. findingIntelPatch x patch = ?d}"
        using True by auto
      ultimately show ?thesis using old by simp
    next
      case False
      then have "(d, ids) \<in> set ?gs" using m by (simp add: map_of_SomeD)
      moreover have "{x \<in> set (fs @ [f]). findingIntelPatch x patch = d} = {x \<in> set fs. findingIntelPatch x patch = d}"
        using False by auto
      ultimately show ?thesis using snoc.IH by simp
    qed
  qed
  show ?case using dist entry snoc.IH by (auto simp: step fst_assoc_set)
qed

lemma f_id_apply_patch [simp]: "f_id (apply_patch d f) = f_id f"
  by (simp add: apply_patch_def)

definition patched :: "string \<Rightarrow> intel_patch \<Rightarrow> finding_row \<Rightarrow> finding_row" where
  "patched cve patch f = (if concerned cve f then apply_patch (findingIntelPatch f patch) f else f)"

text \<open>What a list of groups does to one finding.\<close>

definition grouped :: "(finding_patch \<times> ident list) list \<Rightarrow> finding_row \<Rightarrow> finding_row" where
  "grouped gs f = foldl (\<lambda>f g. if f_id f \<in> set (snd g) then apply_patch (fst g) f else f) f gs"

lemma update_groups: "foldl (\<lambda>fs g. update_many g fs) fs gs = map (grouped gs) fs"
  by (induction gs arbitrary: fs) (simp_all add: grouped_def[abs_def] update_many_def comp_def)

lemma grouped_outside: "(\<And>g. g \<in> set gs \<Longrightarrow> f_id f \<notin> set (snd g)) \<Longrightarrow> grouped gs f = f"
  by (induction gs) (simp_all add: grouped_def)

lemma grouped_once:
  assumes "distinct (map fst gs)" and "(d, ids) \<in> set gs" and "f_id f \<in> set ids"
    and "\<And>d' ids'. (d', ids') \<in> set gs \<Longrightarrow> f_id f \<in> set ids' \<Longrightarrow> d' = d"
  shows "grouped gs f = apply_patch d f"
  using assms
proof (induction gs arbitrary: f)
  case (Cons g gs)
  obtain d1 ids1 where g: "g = (d1, ids1)" by fastforce
  show ?case
  proof (cases "f_id f \<in> set ids1")
    case True
    then have d: "d1 = d" using Cons.prems(4)[of d1 ids1] g by simp
    have "f_id f \<notin> set (snd h)" if "h \<in> set gs" for h
    proof
      assume "f_id f \<in> set (snd h)"
      then have "fst h = d" using Cons.prems(4)[of "fst h" "snd h"] that by simp
      then show False using Cons.prems(1) g d that by force
    qed
    then have "grouped gs (apply_patch d f) = apply_patch d f" by (intro grouped_outside) simp
    then show ?thesis using True g d by (simp add: grouped_def)
  next
    case False
    then have in_gs: "(d, ids) \<in> set gs" using Cons.prems(2,3) g by auto
    have dgs: "distinct (map fst gs)" using Cons.prems(1) by simp
    have only: "d' = d" if "(d', ids') \<in> set gs" "f_id f \<in> set ids'" for d' ids'
      by (rule Cons.prems(4)[of d' ids']) (use that in simp_all)
    have "grouped gs f = apply_patch d f" by (rule Cons.IH[OF dgs in_gs Cons.prems(3) only])
    then show ?thesis using False g by (simp add: grouped_def)
  qed
qed simp

lemma push_groups:
  assumes "distinct (map f_id fs)"
  shows "foldl (\<lambda>fs g. update_many g fs) fs (patch_groups patch (filter (concerned cve) fs)) = map (patched cve patch) fs"
  unfolding update_groups
proof (rule map_cong[OF refl])
  fix f assume f: "f \<in> set fs"
  let ?hit = "filter (concerned cve) fs"
  let ?gs = "patch_groups patch ?hit"
  have keys: "distinct (map fst ?gs)"
    and ids: "set is1 = f_id ` {f \<in> set ?hit. findingIntelPatch f patch = d}" if "(d, is1) \<in> set ?gs" for d is1
    using patch_groups_ids[of patch ?hit] that by blast+
  have all: "findingIntelPatch x patch \<in> fst ` set ?gs" if "x \<in> set ?hit" for x
    using patch_groups_ids[of patch ?hit] that by blast
  have same: "x = f" if "x \<in> set fs" "f_id x = f_id f" for x
    using assms f that by (simp add: distinct_map inj_on_def)
  show "grouped ?gs f = patched cve patch f"
  proof (cases "concerned cve f")
    case True
    let ?d = "findingIntelPatch f patch"
    have "f \<in> set ?hit" using True f by simp
    then obtain hits where g: "(?d, hits) \<in> set ?gs" using all by force
    have f_hit: "f_id f \<in> set hits" unfolding ids[OF g] using \<open>f \<in> set ?hit\<close> by simp
    have only: "d' = ?d" if d': "(d', ids') \<in> set ?gs" "f_id f \<in> set ids'" for d' ids'
    proof -
      have "f_id f \<in> f_id ` {x \<in> set ?hit. findingIntelPatch x patch = d'}"
        using d'(2) unfolding ids[OF d'(1)] .
      then obtain x where x: "x \<in> {x \<in> set ?hit. findingIntelPatch x patch = d'}" "f_id f = f_id x" by (rule imageE)
      then have "x = f" by (intro same) simp_all
      then show ?thesis using x(1) by simp
    qed
    have "grouped ?gs f = apply_patch ?d f" by (rule grouped_once[OF keys[OF g] g f_hit only])
    then show ?thesis using True by (simp only: patched_def if_True)
  next
    case False
    have "f_id f \<notin> set (snd g)" if "g \<in> set ?gs" for g
    proof
      assume in_g: "f_id f \<in> set (snd g)"
      have "(fst g, snd g) \<in> set ?gs" using that by simp
      from in_g[unfolded ids[OF this]]
      obtain x where x: "x \<in> {x \<in> set ?hit. findingIntelPatch x patch = fst g}" "f_id f = f_id x" by (rule imageE)
      then have "x = f" by (intro same) simp_all
      then show False using x(1) False by simp
    qed
    then show ?thesis using grouped_outside False by (simp add: patched_def)
  qed
qed

lemma f_id_patched [simp]: "f_id (patched cve patch f) = f_id f"
  by (simp add: patched_def)

lemma push_down_findings:
  "distinct (map f_id fs) \<Longrightarrow>
     fst (push_down ps fs touched) = map (\<lambda>f. foldl (\<lambda>f (cve, patch). patched cve patch f) f ps) fs"
proof (induction ps arbitrary: fs touched)
  case (Cons p ps)
  obtain cve patch where p: "p = (cve, patch)" by fastforce
  have "distinct (map f_id (map (patched cve patch) fs))" using Cons.prems by (simp add: comp_def)
  then show ?case using Cons by (simp add: p push_groups[OF Cons.prems] comp_def Let_def)
qed simp


section \<open>After a refresh\<close>

text \<open>Row updates by identifier, one after the other, are one update per row.\<close>

definition kev_written :: "kev_update \<Rightarrow> mirror_row \<Rightarrow> mirror_row" where
  "kev_written u m = m\<lparr>m_kev := ku_kev u, m_kevDueDate := Option.bind (ku_dueDate u) id\<rparr>"

definition kev_applied :: "kev_update list \<Rightarrow> mirror_row \<Rightarrow> mirror_row" where
  "kev_applied us m = foldl (\<lambda>m u. if vid m = ku_id u then kev_written u m else m) m us"

lemma vid_kev_written [simp]: "vid (kev_written u m) = vid m"
  by (simp add: kev_written_def vid_def)

lemma kev_applied_Nil [simp]: "kev_applied [] = id"
  by (simp add: kev_applied_def fun_eq_iff)

lemma write_kev_map: "write_kev us ms = (ms', None) \<Longrightarrow> ms' = map (kev_applied us) ms \<and> (\<forall>u \<in> set us. ku_dueDate u \<noteq> Some None)"
  by (induction us ms rule: write_kev.induct)
    (auto simp: kev_applied_def kev_written_def comp_def split: if_splits)

lemma kev_applied_relevant: "kev_applied us m = kev_applied (filter (\<lambda>u. ku_id u = vid m) us) m"
proof (induction us arbitrary: m)
  case (Cons u us)
  have step: "kev_applied (u # us) x = kev_applied us (if vid x = ku_id u then kev_written u x else x)" for us x
    by (simp add: kev_applied_def)
  show ?case using Cons[of "kev_written u m"] Cons[of m] by (simp add: step)
qed (simp add: kev_applied_def)

lemma filter_map_filter_key:
  assumes "distinct (map key xs)" and "x \<in> set xs" and "\<And>y u. g y = Some u \<Longrightarrow> kid u = key y"
  shows "filter (\<lambda>u. kid u = key x) (List.map_filter g xs) = (case g x of None \<Rightarrow> [] | Some u \<Rightarrow> [u])"
  using assms(1,2)
proof (induction xs)
  case (Cons y xs)
  have none: "filter (\<lambda>u. kid u = key x) (List.map_filter g zs) = []" if "key x \<notin> key ` set zs" for zs
  proof -
    have "kid u \<noteq> key x" if "u \<in> set (List.map_filter g zs)" for u
      using that \<open>key x \<notin> key ` set zs\<close> assms(3) by (metis in_map_filter image_eqI)
    then show ?thesis by simp
  qed
  show ?case
  proof (cases "y = x")
    case True
    then have "key x \<notin> key ` set xs" using Cons.prems(1) by simp
    then show ?thesis using True none assms(3)[of x] by (auto simp: List.map_filter_simps split: option.split)
  next
    case False
    then have "key y \<noteq> key x" using Cons.prems by (auto simp: rev_image_eqI)
    then show ?thesis using False Cons assms(3)[of y] by (auto simp: List.map_filter_simps split: option.split)
  qed
qed simp

lemma kev_update_of_Some:
  "kev_update_of catalog m = Some u \<Longrightarrow> ku_id u = vid m \<and> resolveCve m = Some (ku_cve u)
     \<and> ku_kev u = (catalog (ku_cve u) \<noteq> None)"
  by (auto simp: kev_update_of_def Let_def split: option.splits if_splits)

lemma resolveCve_kev_written [simp]: "resolveCve (kev_written u m) = resolveCve m"
  by (simp add: resolveCve_def kev_written_def vid_def)

lemma written_is_current:
  "\<lbrakk>kev_update_of catalog m = Some u; ku_dueDate u \<noteq> Some None\<rbrakk> \<Longrightarrow> kev_update_of catalog (kev_written u m) = None"
  by (auto simp: kev_update_of_def kev_written_def Let_def due_differs_def resolveCve_def vid_def
      split: option.splits if_splits)

lemma write_kev_current:
  assumes "distinct (map vid rows)" and "write_kev (computeKevUpdates rows catalog) rows = (ms, None)" and "m \<in> set ms"
  shows "kev_update_of catalog m = None"
proof -
  let ?us = "computeKevUpdates rows catalog"
  obtain r where r: "r \<in> set rows" "m = kev_applied ?us r" using write_kev_map[OF assms(2)] assms(3) by auto
  have "filter (\<lambda>u. ku_id u = vid r) ?us = (case kev_update_of catalog r of None \<Rightarrow> [] | Some u \<Rightarrow> [u])"
    unfolding computeKevUpdates_def
    by (rule filter_map_filter_key[OF assms(1) r(1)]) (simp add: kev_update_of_Some)
  then have m: "m = kev_applied (case kev_update_of catalog r of None \<Rightarrow> [] | Some u \<Rightarrow> [u]) r"
    using r(2) kev_applied_relevant[of ?us r] by simp
  show ?thesis
  proof (cases "kev_update_of catalog r")
    case None
    then show ?thesis using m by (simp add: kev_applied_def)
  next
    case (Some u)
    have "u \<in> set ?us" unfolding computeKevUpdates_def in_map_filter using Some r(1) by blast
    then have "ku_dueDate u \<noteq> Some None" using write_kev_map[OF assms(2)] by blast
    then show ?thesis using written_is_current[OF Some] m Some kev_update_of_Some[OF Some] by (simp add: kev_applied_def)
  qed
qed

definition kev_view :: "mirror_row \<Rightarrow> vuln_row \<times> bool \<times> instant option" where
  "kev_view m = (m_row m, m_kev m, m_kevDueDate m)"

lemma write_epss_view: "map kev_view (write_epss us ms) = map kev_view ms"
  by (induction us arbitrary: ms) (simp_all add: write_epss_def kev_view_def comp_def if_distrib cong: if_cong)

lemma kev_update_of_view: "kev_view m = kev_view m' \<Longrightarrow> kev_update_of catalog m = kev_update_of catalog m'"
proof -
  assume v: "kev_view m = kev_view m'"
  then have "vid m = vid m'" "resolveCve m = resolveCve m'" "m_kev m = m_kev m'" "m_kevDueDate m = m_kevDueDate m'"
    by (simp_all add: kev_view_def resolveCve_def vid_def)
  then show ?thesis unfolding kev_update_of_def by (cases "resolveCve m'") (auto simp: Let_def)
qed

lemma doRefresh_done:
  assumes "doRefresh env db = (db2, pub, Inr s)"
  obtains vs ms scores where "ee_kev env = Inr vs"
    "write_kev (computeKevUpdates (ed_mirror db) (catalog_of vs)) (ed_mirror db) = (ms, None)"
    "ed_mirror db2 = write_epss (computeEpssUpdates (ed_mirror db) scores) ms"
    "push_down (by_cve (computeKevUpdates (ed_mirror db) (catalog_of vs)) (computeEpssUpdates (ed_mirror db) scores))
       (ed_findings db) [] = (ed_findings db2, pub)"
proof -
  have n: "notify_orgs ok ts = (p, True) \<Longrightarrow> p = ts" for ok ts p
    by (induction ok ts arbitrary: p rule: notify_orgs.induct) (auto split: if_splits prod.splits)
  obtain vs where vs: "ee_kev env = Inr vs" using assms by (auto simp: doRefresh_def Let_def split: sum.splits)
  let ?kus = "computeKevUpdates (ed_mirror db) (catalog_of vs)"
  obtain ms e where w: "write_kev ?kus (ed_mirror db) = (ms, e)" by fastforce
  have e: "e = None" using assms vs w by (cases e) (auto simp: doRefresh_def Let_def)
  obtain scores where sc: "fetchEpssPaged (ee_epss env) (Some (epss_cves (ed_mirror db))) None None = Inr scores"
    using assms vs w e by (auto simp: doRefresh_def Let_def split: sum.splits)
  let ?eus = "computeEpssUpdates (ed_mirror db) scores"
  obtain fs t where pd: "push_down (by_cve ?kus ?eus) (ed_findings db) [] = (fs, t)" by fastforce
  obtain p ok where no: "notify_orgs (ee_bus_ok env) t = (p, ok)" by fastforce
  have ok: "ok" using assms vs w e sc pd no by (auto simp: doRefresh_def Let_def split: if_splits)
  then have "pub = t" "ed_findings db2 = fs" "ed_mirror db2 = write_epss ?eus ms"
    using assms vs w e sc pd no n by (auto simp: doRefresh_def Let_def)
  then show thesis using that[OF vs w[unfolded e]] pd by simp
qed

lemma refresh_current:
  assumes "doRefresh env db = (db2, pub, Inr s)" and "distinct (map vid (ed_mirror db))" and "ee_kev env = Inr vs"
  shows "computeKevUpdates (ed_mirror db2) (catalog_of vs) = []"
proof -
  from doRefresh_done[OF assms(1)] obtain ms scores where w:
      "write_kev (computeKevUpdates (ed_mirror db) (catalog_of vs)) (ed_mirror db) = (ms, None)"
      "ed_mirror db2 = write_epss (computeEpssUpdates (ed_mirror db) scores) ms"
    using assms(3) by (metis sum.inject(2))
  have "kev_update_of (catalog_of vs) m = None" if "m \<in> set (ed_mirror db2)" for m
  proof -
    have "kev_view m \<in> set (map kev_view ms)" using that unfolding w(2) by (metis image_eqI image_set write_epss_view)
    then obtain m' where "m' \<in> set ms" "kev_view m = kev_view m'" by auto
    then show ?thesis using write_kev_current[OF assms(2) w(1)] kev_update_of_view by metis
  qed
  then have "u \<notin> set (computeKevUpdates (ed_mirror db2) (catalog_of vs))" for u
    unfolding computeKevUpdates_def in_map_filter by auto
  then show ?thesis by (metis list.set_intros(1) neq_Nil_conv)
qed


section \<open>What reaches the findings\<close>

definition shows_patch :: "string \<Rightarrow> (string \<times> intel_patch) list \<Rightarrow> bool \<Rightarrow> bool" where
  "shows_patch cve ps kev \<longleftrightarrow> (\<exists>p. map_of ps cve = Some p \<and> ip_kev p = Some kev)"

lemma by_cve_kev:
  assumes "u \<in> set kus" and "\<And>u'. u' \<in> set kus \<Longrightarrow> ku_cve u' = ku_cve u \<Longrightarrow> ku_kev u' = ku_kev u"
  shows "shows_patch (ku_cve u) (by_cve kus eus) (ku_kev u)" and "distinct (map fst (by_cve kus eus))"
proof -
  let ?k = "\<lambda>ps u. assoc_set (ku_cve u) ((patch_at (ku_cve u) ps)\<lparr>ip_kev := Some (ku_kev u)\<rparr>) ps"
  let ?e = "\<lambda>ps u. assoc_set (eu_cve u) ((patch_at (eu_cve u) ps)\<lparr>ip_epss := Some (eu_score u)\<rparr>) ps"
  have k: "(u \<in> set us \<longrightarrow> shows_patch (ku_cve u) (foldl ?k [] us) (ku_kev u)) \<and> distinct (map fst (foldl ?k [] us))"
    if "\<And>u'. u' \<in> set us \<Longrightarrow> ku_cve u' = ku_cve u \<Longrightarrow> ku_kev u' = ku_kev u" for us
    using that
  proof (induction us rule: rev_induct)
    case (snoc x us)
    have IH: "(u \<in> set us \<longrightarrow> shows_patch (ku_cve u) (foldl ?k [] us) (ku_kev u)) \<and> distinct (map fst (foldl ?k [] us))"
    proof (rule snoc.IH)
      fix u' assume m: "u' \<in> set us" and e: "ku_cve u' = ku_cve u"
      have "u' \<in> set (us @ [x])" using m by simp
      then show "ku_kev u' = ku_kev u" by (rule snoc.prems[OF _ e])
    qed
    show ?case
    proof (cases "ku_cve x = ku_cve u")
      case True
      have kev: "ku_kev x = ku_kev u" by (rule snoc.prems[OF _ True]) simp
      show ?thesis using IH by (simp add: True kev shows_patch_def distinct_assoc_set)
    next
      case False
      then have "u \<noteq> x" "ku_cve u \<noteq> ku_cve x" by force+
      then show ?thesis using IH by (simp add: shows_patch_def distinct_assoc_set del: map_of_eq_Some_iff)
    qed
  qed simp
  have e: "shows_patch c (foldl ?e ps us) b \<and> distinct (map fst (foldl ?e ps us))"
    if "shows_patch c ps b" "distinct (map fst ps)" for c b us ps
    using that
  proof (induction us arbitrary: ps)
    case (Cons x us)
    have "shows_patch c (?e ps x) b"
      using Cons.prems(1) by (auto simp: shows_patch_def patch_at_def simp del: map_of_eq_Some_iff)
    moreover have "distinct (map fst (?e ps x))" using Cons.prems(2) by (rule distinct_assoc_set)
    ultimately show ?case using Cons.IH[of "?e ps x"] by simp
  qed simp
  have kk: "shows_patch (ku_cve u) (foldl ?k [] kus) (ku_kev u)" "distinct (map fst (foldl ?k [] kus))"
    using k[OF assms(2)] assms(1) by blast+
  show "shows_patch (ku_cve u) (by_cve kus eus) (ku_kev u)" "distinct (map fst (by_cve kus eus))"
    using e[OF kk] unfolding by_cve_def by blast+
qed

lemma concerned_patched [simp]: "concerned c (patched cve patch f) = concerned c f"
  by (simp add: concerned_def patched_def apply_patch_def)

lemma patched_only:
  assumes "distinct (map fst ps)" and "map_of ps c = Some p" and "concerned c f" and "\<And>c'. concerned c' f \<Longrightarrow> c' = c"
  shows "foldl (\<lambda>f (cve, patch). patched cve patch f) f ps = apply_patch (findingIntelPatch f p) f"
proof -
  have other: "foldl (\<lambda>f (cve, patch). patched cve patch f) g qs = g"
    if "c \<notin> fst ` set qs" "\<And>c'. concerned c' g \<Longrightarrow> c' = c" for g qs
    using that by (induction qs) (auto simp: patched_def)
  show ?thesis using assms(1,2)
  proof (induction ps)
    case (Cons q qs)
    obtain cve patch where q: "q = (cve, patch)" by fastforce
    show ?case
    proof (cases "cve = c")
      case True
      let ?g = "apply_patch (findingIntelPatch f patch) f"
      have "concerned c' ?g = concerned c' f" for c' by (simp add: concerned_def apply_patch_def)
      then have "foldl (\<lambda>f (cve, patch). patched cve patch f) ?g qs = ?g"
        using other[of qs ?g] Cons.prems(1) assms(4) True q by auto
      then show ?thesis using True q Cons.prems(2) assms(3) by (simp add: patched_def)
    next
      case False
      then have "patched cve patch f = f" using assms(4) by (auto simp: patched_def)
      then show ?thesis using Cons False q by simp
    qed
  qed simp
qed

definition told :: "ident \<Rightarrow> ident \<Rightarrow> (ident \<times> ident list) list \<Rightarrow> bool" where
  "told org i t \<longleftrightarrow> (\<exists>ids. map_of t org = Some ids \<and> i \<in> set ids)"

lemma told_touch: "told (f_org f) (f_id f) (touch t f)" "told org i t \<Longrightarrow> told org i (touch t f)"
  by (auto simp: told_def touch_def Let_def)

lemma told_foldl: "told org i t \<Longrightarrow> told org i (foldl touch t fs)"
  by (induction fs arbitrary: t) (auto intro: told_touch(2))

lemma told_hit: "f \<in> set fs \<Longrightarrow> told (f_org f) (f_id f) (foldl touch t fs)"
  by (induction fs arbitrary: t) (auto intro: told_foldl told_touch(1))

lemma told_later: "told org i t \<Longrightarrow> told org i (snd (push_down ps fs t))"
  by (induction ps fs t rule: push_down.induct) (auto simp: Let_def intro: told_foldl)

lemma push_down_told:
  "\<lbrakk>distinct (map f_id fs); c \<in> fst ` set ps; f \<in> set fs; concerned c f\<rbrakk> \<Longrightarrow>
     told (f_org f) (f_id f) (snd (push_down ps fs t))"
proof (induction ps arbitrary: fs f t)
  case (Cons p ps)
  obtain cve patch where p: "p = (cve, patch)" by fastforce
  let ?fs = "map (patched cve patch) fs"
  have rec: "push_down (p # ps) fs t = push_down ps ?fs (foldl touch t (filter (concerned cve) fs))"
    by (simp add: p push_groups[OF Cons.prems(1)] Let_def)
  show ?case
  proof (cases "cve = c")
    case True
    then have "told (f_org f) (f_id f) (foldl touch t (filter (concerned cve) fs))"
      by (intro told_hit) (use Cons.prems in simp)
    then show ?thesis unfolding rec by (rule told_later)
  next
    case False
    have "f_org (patched cve patch f) = f_org f" by (simp add: patched_def apply_patch_def)
    moreover have "distinct (map f_id ?fs)" using Cons.prems(1) by (simp add: comp_def)
    ultimately show ?thesis
      using Cons.IH[of ?fs "patched cve patch f" "foldl touch t (filter (concerned cve) fs)"] Cons.prems False p
      unfolding rec by simp
  qed
qed simp

text \<open>
  C13 (a refresh brings the flags up to date). After a refresh that succeeds, every mirrored advisory of a CVE is
  flagged exactly when the catalog lists its CVE, and a second look at the same catalog finds nothing to change.
  An open finding that names the CVE of a changed advisory, and no other, carries the new flag, is re-validated by
  the rule that ingest uses, and its organisation is asked to rescore it.
\<close>

theorem refresh_brings_flags_up_to_date:
  assumes run: "doRefresh env db = (db2, pub, Inr s)" and kev: "ee_kev env = Inr vs"
    and ids: "distinct (map vid (ed_mirror db))" "distinct (map f_id (ed_findings db))"
  shows "computeKevUpdates (ed_mirror db2) (catalog_of vs) = []
    \<and> (\<forall>m \<in> set (ed_mirror db2). \<forall>c. resolveCve m = Some c \<longrightarrow> m_kev m = (catalog_of vs c \<noteq> None))
    \<and> (\<forall>u \<in> set (computeKevUpdates (ed_mirror db) (catalog_of vs)). \<forall>f \<in> set (ed_findings db).
         concerned (ku_cve u) f \<longrightarrow> (\<forall>c. concerned c f \<longrightarrow> c = ku_cve u) \<longrightarrow>
         (\<exists>f' \<in> set (ed_findings db2). f_id f' = f_id f \<and> f_kev f' = ku_kev u
            \<and> f_validation f' = (case promoteScaValidation (f_scannerType f) (JObj (f_evidence f)) (ku_kev u) of
                                    Some v \<Rightarrow> v | None \<Rightarrow> f_validation f)
            \<and> told (f_org f) (f_id f) pub))"
proof -
  let ?kus = "computeKevUpdates (ed_mirror db) (catalog_of vs)"
  have none: "computeKevUpdates (ed_mirror db2) (catalog_of vs) = []" by (rule refresh_current[OF run ids(1) kev])
  have flags: "m_kev m = (catalog_of vs c \<noteq> None)" if "m \<in> set (ed_mirror db2)" "resolveCve m = Some c" for m c
  proof -
    have "kev_update_of (catalog_of vs) m = None"
      using none that(1) unfolding computeKevUpdates_def
      by (metis in_map_filter list.set(1) empty_iff not_Some_eq)
    then show ?thesis using that(2) by (auto simp: kev_update_of_def Let_def split: if_splits)
  qed
  obtain scores where push: "push_down (by_cve ?kus (computeEpssUpdates (ed_mirror db) scores)) (ed_findings db) []
      = (ed_findings db2, pub)"
    using doRefresh_done[OF run] kev by (metis sum.inject(2))
  let ?ps = "by_cve ?kus (computeEpssUpdates (ed_mirror db) scores)"
  have finding: "\<exists>f' \<in> set (ed_findings db2). f_id f' = f_id f \<and> f_kev f' = ku_kev u
      \<and> f_validation f' = (case promoteScaValidation (f_scannerType f) (JObj (f_evidence f)) (ku_kev u) of
                              Some v \<Rightarrow> v | None \<Rightarrow> f_validation f)
      \<and> told (f_org f) (f_id f) pub"
    if u: "u \<in> set ?kus" and f: "f \<in> set (ed_findings db)" "concerned (ku_cve u) f" "\<forall>c. concerned c f \<longrightarrow> c = ku_cve u" for u f
  proof -
    have same: "ku_kev u' = ku_kev u" if "u' \<in> set ?kus" "ku_cve u' = ku_cve u" for u'
      using u that kev_update_of_Some unfolding computeKevUpdates_def in_map_filter by metis
    obtain p where p: "map_of ?ps (ku_cve u) = Some p" "ip_kev p = Some (ku_kev u)"
      using by_cve_kev(1)[OF u same, of "computeEpssUpdates (ed_mirror db) scores"] by (auto simp: shows_patch_def)
    have d: "distinct (map fst ?ps)" by (rule by_cve_kev(2)[OF u same])
    let ?f' = "apply_patch (findingIntelPatch f p) f"
    have fs: "set (ed_findings db2) = (\<lambda>f. foldl (\<lambda>f (cve, patch). patched cve patch f) f ?ps) ` set (ed_findings db)"
      using push_down_findings[OF ids(2), of ?ps "[]"] unfolding push by simp
    have "foldl (\<lambda>f (cve, patch). patched cve patch f) f ?ps = ?f'"
      by (rule patched_only[OF d p(1) f(2)]) (use f(3) in blast)
    then have "?f' \<in> set (ed_findings db2)"
      unfolding fs by (rule image_eqI[OF sym f(1)])
    moreover have "ku_cve u \<in> fst ` set ?ps" using map_of_SomeD[OF p(1)] by force
    then have "told (f_org f) (f_id f) pub"
      using push_down_told[OF ids(2) _ f(1,2), of ?ps "[]"] push by simp
    ultimately show ?thesis using p(2)
      by (intro bexI[of _ ?f']) (auto simp: apply_patch_def findingIntelPatch_def)
  qed
  show ?thesis using none flags finding by blast
qed

definition express_row :: mirror_row where
  "express_row = new_mirror_row
     \<lparr>v_id = ''GHSA-rv95'', v_source = ''osv'', v_aliases = [''CVE-2024-29041''], v_summary = ''open redirect'',
      v_details = [], v_severity = ''medium'', v_cvssVector = None, v_cvssScore = None, v_publishedAt = None,
      v_modifiedAt = None, v_references = [], v_affected = []\<rparr>"

definition express_finding :: finding_row where
  "express_finding =
     \<lparr>f_id = ''f1'', f_org = ''acme'', f_assetId = ''a1'', f_fingerprint = ''fp'', f_scannerType = ''sca'',
      f_scannerName = ''sca'', f_title = ''t'', f_description = [], f_severity = ''medium'', f_riskScore = 0,
      f_state = ''open'', f_validation = Reachable, f_identifiers = [(''cve'', ''CVE-2024-29041'')],
      f_cvssScore = None, f_cvssVector = None, f_epssScore = None, f_kev = False, f_location = [],
      f_evidence = [(''reachability'', JStr ''reachable'')], f_fixAvailable = True, f_fixedVersion = None,
      f_artifactKey = None, f_slaDueAt = None, f_slaNotifiedAt = None, f_firstSeenAt = 0, f_lastSeenAt = 0,
      f_resolvedAt = None\<rparr>"

definition intel_db :: enrich_db where
  "intel_db = \<lparr>ed_mirror = [express_row], ed_findings = [express_finding]\<rparr>"

definition listed :: "string + epss_body option \<Rightarrow> enrich_env" where
  "listed epss = \<lparr>ee_kev = Inr [(''CVE-2024-29041'', Some (Some 86400000))], ee_epss = \<lambda>_ _ _. epss, ee_bus_ok = \<lambda>_. True\<rparr>"

definition ends_well :: "enrich_db \<times> (ident \<times> ident list) list \<times> (string + enrichment_summary) \<Rightarrow> bool" where
  "ends_well r = (case snd (snd r) of Inr _ \<Rightarrow> True | Inl _ \<Rightarrow> False)"

lemma ends_wellE: "ends_well r \<Longrightarrow> (\<And>db p s. r = (db, p, Inr s) \<Longrightarrow> thesis) \<Longrightarrow> thesis"
  by (cases r) (auto simp: ends_well_def split: sum.splits)

lemma listed_refresh:
  "ends_well (doRefresh (listed (Inr None)) intel_db)"
  "map f_kev (ed_findings (fst (doRefresh (listed (Inr None)) intel_db))) = [True]"
  by code_simp+

theorem refresh_brings_flags_up_to_date_witness:
  "map f_kev (ed_findings intel_db) = [False] \<and>
   f_kev (hd (ed_findings (fst (doRefresh (listed (Inr None)) intel_db)))) \<and>
   computeKevUpdates (ed_mirror (fst (doRefresh (listed (Inr None)) intel_db)))
     (catalog_of [(''CVE-2024-29041'', Some (Some 86400000))]) = []"
proof -
  obtain db2 p s where run: "doRefresh (listed (Inr None)) intel_db = (db2, p, Inr s)"
    by (rule ends_wellE[OF listed_refresh(1)])
  have k: "map f_kev (ed_findings db2) = [True]" using listed_refresh(2) unfolding run by simp
  have "computeKevUpdates (ed_mirror db2) (catalog_of [(''CVE-2024-29041'', Some (Some 86400000))]) = []"
    using refresh_brings_flags_up_to_date[OF run, of "[(''CVE-2024-29041'', Some (Some 86400000))]"]
    by (simp add: listed_def intel_db_def)
  moreover have "f_kev (hd (ed_findings db2))" using k by (cases "ed_findings db2") auto
  ultimately show ?thesis unfolding run by (simp add: intel_db_def express_finding_def)
qed


section \<open>A refresh that is interrupted\<close>

lemma by_cve_no_kev: "(c, p) \<in> set (by_cve [] eus) \<Longrightarrow> ip_kev p = None"
proof -
  let ?e = "\<lambda>ps u. assoc_set (eu_cve u) ((patch_at (eu_cve u) ps)\<lparr>ip_epss := Some (eu_score u)\<rparr>) ps"
  have in_set: "(c, p) \<in> set (assoc_set k v kvs) \<Longrightarrow> (c, p) = (k, v) \<or> (c, p) \<in> set kvs"
    for c k :: string and p v :: intel_patch and kvs
    by (induction kvs) (auto split: if_splits)
  have old: "ip_kev (patch_at k ps) = None" if "\<And>c p. (c, p) \<in> set ps \<Longrightarrow> ip_kev p = None" for k ps
    using that by (auto simp: patch_at_def no_patch_def split: option.splits dest: map_of_SomeD)
  have "\<forall>c p. (c, p) \<in> set (foldl ?e [] eus) \<longrightarrow> ip_kev p = None"
  proof (induction eus rule: rev_induct)
    case (snoc u us)
    then have "ip_kev (patch_at (eu_cve u) (foldl ?e [] us)) = None" by (intro old) blast
    then show ?case using snoc in_set by fastforce
  qed simp
  then show "(c, p) \<in> set (by_cve [] eus) \<Longrightarrow> ip_kev p = None" by (simp add: by_cve_def)
qed

lemma patched_keeps_kev:
  "(\<And>c p. (c, p) \<in> set ps \<Longrightarrow> ip_kev p = None) \<Longrightarrow>
     f_kev (foldl (\<lambda>f (cve, patch). patched cve patch f) f ps) = f_kev f
   \<and> f_validation (foldl (\<lambda>f (cve, patch). patched cve patch f) f ps) = f_validation f"
proof (induction ps arbitrary: f)
  case (Cons q ps)
  obtain cve patch where q: "q = (cve, patch)" by fastforce
  have "ip_kev patch = None" by (rule Cons.prems[of cve]) (simp add: q)
  then have "f_kev (patched cve patch f) = f_kev f" "f_validation (patched cve patch f) = f_validation f"
    by (simp_all add: patched_def apply_patch_def findingIntelPatch_def)
  moreover have "ip_kev p = None" if "(c, p) \<in> set ps" for c p by (rule Cons.prems[of c]) (use that in simp)
  ultimately show ?case using Cons.IH[of "patched cve patch f"] q by simp
qed simp

text \<open>
  C39 (an interrupted refresh loses the flip). When the EPSS request throws after the rows of the catalog were
  written, no finding was touched and nobody was told. The rows are already current by then, so that the next
  refresh against the same catalog sees nothing to push down: it succeeds, and every finding keeps the flag
  and the verdict that it had before.
\<close>

theorem interrupted_refresh_loses_the_flip:
  assumes first: "doRefresh env db = (db1, pub, Inl e)" "ee_kev env = Inr vs"
      "fetchEpssPaged (ee_epss env) (Some (epss_cves (ed_mirror db))) None None = Inl e"
      "write_kev (computeKevUpdates (ed_mirror db) (catalog_of vs)) (ed_mirror db) = (ms, None)"
    and ids: "distinct (map vid (ed_mirror db))" "distinct (map f_id (ed_findings db))"
    and again: "doRefresh env2 db1 = (db2, pub2, Inr s)" "ee_kev env2 = Inr vs"
  shows "ed_findings db1 = ed_findings db \<and> pub = [] \<and> sm_kevChanged s = 0
    \<and> map f_kev (ed_findings db2) = map f_kev (ed_findings db)
    \<and> map f_validation (ed_findings db2) = map f_validation (ed_findings db)"
proof -
  have db1: "db1 = db\<lparr>ed_mirror := ms\<rparr>" "pub = []" using first by (simp_all add: doRefresh_def Let_def)
  have "u \<notin> set (computeKevUpdates ms (catalog_of vs))" for u
    using write_kev_current[OF ids(1) first(4)] unfolding computeKevUpdates_def in_map_filter by fastforce
  then have none: "computeKevUpdates (ed_mirror db1) (catalog_of vs) = []"
    unfolding db1 by (metis enrich_db.select_convs(1) enrich_db.surjective enrich_db.update_convs(1) list.set_intros(1) neq_Nil_conv)
  obtain eus where push: "push_down (by_cve [] eus) (ed_findings db1) [] = (ed_findings db2, pub2)"
    using doRefresh_done[OF again(1)] again(2) none by (metis sum.inject(2))
  have "ed_findings db2 = map (\<lambda>f. foldl (\<lambda>f (cve, patch). patched cve patch f) f (by_cve [] eus)) (ed_findings db)"
    using push_down_findings[OF ids(2), of "by_cve [] eus" "[]"] push db1 by simp
  then have "map f_kev (ed_findings db2) = map f_kev (ed_findings db)"
      "map f_validation (ed_findings db2) = map f_validation (ed_findings db)"
    using patched_keeps_kev[of "by_cve [] eus"] by_cve_no_kev by simp_all
  moreover have "sm_kevChanged s = 0"
    using again none by (auto simp: doRefresh_def Let_def split: prod.splits option.splits sum.splits if_splits)
  ultimately show ?thesis using db1 by simp
qed

theorem interrupted_refresh_loses_the_flip_witness:
  "map f_kev (ed_findings (fst (doRefresh (listed (Inr None)) intel_db))) = [True] \<and>
   map f_kev (ed_findings (fst (doRefresh (listed (Inr None)) (fst (doRefresh (listed (Inl ''timeout'')) intel_db))))) = [False]"
proof -
  let ?cut = "listed (Inl ''timeout'')" and ?vs = "[(''CVE-2024-29041'', Some (Some 86400000))]"
  let ?kus = "computeKevUpdates (ed_mirror intel_db) (catalog_of ?vs)"
  obtain db1 pub where one: "doRefresh ?cut intel_db = (db1, pub, Inl ''timeout'')"
  proof -
    have "snd (snd (doRefresh ?cut intel_db)) = Inl ''timeout''" by code_simp
    then show thesis by (metis that prod.collapse)
  qed
  have "ends_well (doRefresh (listed (Inr None)) (fst (doRefresh ?cut intel_db)))" by code_simp
  then obtain db2 p s where two: "doRefresh (listed (Inr None)) db1 = (db2, p, Inr s)"
    unfolding one fst_conv by (rule ends_wellE)
  have cut: "fetchEpssPaged (ee_epss ?cut) (Some (epss_cves (ed_mirror intel_db))) None None = Inl ''timeout''"
  proof -
    have cve: "epss_cves (ed_mirror intel_db) = [''CVE-2024-29041'']" by code_simp
    have b: "chunk (uniq (filter (prefix ''CVE-'') [''CVE-2024-29041''])) EPSS_CVE_BATCH = [[''CVE-2024-29041'']]"
      by code_simp
    show ?thesis unfolding cve fetchEpssPaged_def Let_def option.case b
      by (simp add: listed_def or_nat_def EPSS_MAX_PAGES_def numeral_eq_Suc)
  qed
  have w: "snd (write_kev ?kus (ed_mirror intel_db)) = None" by code_simp
  obtain ms where w: "write_kev ?kus (ed_mirror intel_db) = (ms, None)" using w by (metis prod.collapse)
  have "map f_kev (ed_findings db2) = map f_kev (ed_findings intel_db)"
    using interrupted_refresh_loses_the_flip[OF one _ cut w _ _ two] by (simp add: listed_def intel_db_def)
  moreover have "map f_kev (ed_findings intel_db) = [False]" by (simp add: intel_db_def express_finding_def)
  moreover have "map f_kev (ed_findings (fst (doRefresh (listed (Inr None)) intel_db))) = [True]"
    by (rule listed_refresh(2))
  ultimately show ?thesis unfolding one fst_conv two by simp
qed

end
