(* ===== verification/Secrets.thy ===== *)
theory Secrets
imports Contracts
begin

text \<open>
  Credentials of discovery integrations (\<^verbatim>\<open>apps/asset-service/src/secrets\<close>): sealing a token for one integration,
  opening it again, and removing it from texts that are stored or shown.

  AES-256-GCM and its key are arguments; what the code relies on is the locale \<open>sealing\<close>.
\<close>


section \<open>Scrubbing (scrub.ts)\<close>

definition redacted :: string where
  "redacted = ''[redacted]''"

text \<open>\<^verbatim>\<open>raw.split(secret)\<close>: the parts between the leftmost occurrences. The first argument is the part read so far,
  reversed.\<close>

function split_at :: "string \<Rightarrow> string \<Rightarrow> string \<Rightarrow> string list" where
  "split_at secret acc s =
     (if s = [] then [rev acc]
      else if secret \<noteq> [] \<and> prefix secret s then rev acc # split_at secret [] (drop (length secret) s)
      else split_at secret (hd s # acc) (tl s))"
  by auto
termination by (relation "measure (\<lambda>(secret, acc, s). length s)") auto

declare split_at.simps [simp del]

definition token_prefixes :: "string list" where
  "token_prefixes = [''ghp_'', ''gho_'', ''ghu_'', ''ghs_'', ''github_pat_'']"

definition token_char :: "char \<Rightarrow> bool" where
  "token_char c = (is_lower c \<or> is_upper c \<or> is_digit c \<or> c = CHR ''_'')"

text \<open>The length of the match of one alternative at the start of a text, 0 where it does not match. \<^verbatim>\<open>\s\<close> is
  the white space of \<^const>\<open>js_ws\<close>.\<close>

definition match_prefixed :: "string \<Rightarrow> string \<Rightarrow> nat" where
  "match_prefixed p s =
     (let body = takeWhile token_char (drop (length p) s)
      in if prefix p s \<and> body \<noteq> [] then length p + length body else 0)"

definition match_bearer :: "string \<Rightarrow> nat" where
  "match_bearer s =
     (let rest = drop 6 s; gap = takeWhile js_ws rest; word = takeWhile (\<lambda>c. \<not> js_ws c) (drop (length gap) rest)
      in if prefix ''Bearer'' s \<and> gap \<noteq> [] \<and> word \<noteq> [] then 6 + length gap + length word else 0)"

text \<open>The alternatives in order: the first that matches wins.\<close>

definition token_like :: "string \<Rightarrow> nat" where
  "token_like s =
     (case find (\<lambda>n. 0 < n) (map (\<lambda>p. match_prefixed p s) token_prefixes @ [match_bearer s]) of
        None \<Rightarrow> 0 | Some n \<Rightarrow> n)"

text \<open>\<^verbatim>\<open>replace\<close> with a global expression that never matches the empty text: what is kept between the matches.\<close>

function split_tokens :: "string \<Rightarrow> string \<Rightarrow> string list" where
  "split_tokens acc s =
     (if s = [] then [rev acc]
      else if 0 < token_like s then rev acc # split_tokens [] (drop (token_like s) s)
      else split_tokens (hd s # acc) (tl s))"
  by auto
termination by (relation "measure (\<lambda>(acc, s). length s)") auto

declare split_tokens.simps [simp del]

definition scrubText :: "string \<Rightarrow> string option \<Rightarrow> string" where
  "scrubText raw secret =
     (let message = (if truthy secret then join_with redacted (split_at (the secret) [] raw) else raw)
      in join_with redacted (split_tokens [] message))"

text \<open>An exception is an \<^verbatim>\<open>Error\<close> with its message, or anything else (\<^term>\<open>None\<close>).\<close>

definition scrubSyncError :: "string option \<Rightarrow> string option \<Rightarrow> string" where
  "scrubSyncError err secret = scrubText (case err of Some m \<Rightarrow> m | None \<Rightarrow> ''Discovery sync failed'') secret"


section \<open>What scrubbing removes\<close>

lemma has_infix_iff: "has_infix p s \<longleftrightarrow> sublist p s"
proof (induction s)
  case (Cons c s)
  then show ?case by (simp add: sublist_Cons_right)
qed simp

text \<open>A text made of parts joined by the marker contains a word that has no bracket only inside a part, or
  inside the marker's own word.\<close>

definition unmarked :: "string \<Rightarrow> bool" where
  "unmarked w \<longleftrightarrow> CHR ''['' \<notin> set w \<and> CHR '']'' \<notin> set w \<and> \<not> has_infix w ''redacted''"

lemma sublist_free_append:
  assumes "sublist w (xs @ d # ys)" and "d \<notin> set w"
  shows "sublist w xs \<or> sublist w ys"
proof -
  obtain us vs where e: "xs @ d # ys = us @ w @ vs" using assms(1) by (auto simp: sublist_def)
  from e consider zs where "xs = us @ zs" "zs @ d # ys = w @ vs" | zs where "us = xs @ zs" "d # ys = zs @ w @ vs"
    by (auto simp: append_eq_append_conv2)
  then show ?thesis
  proof cases
    case (1 zs)
    from 1(2) consider ts where "zs = w @ ts" | ts where "w = zs @ ts" "d # ys = ts @ vs"
      by (auto simp: append_eq_append_conv2)
    then show ?thesis
    proof cases
      case (1 ts)
      then show ?thesis using \<open>xs = us @ zs\<close> by (auto simp: sublist_def)
    next
      case (2 ts)
      then have "ts = []" using assms(2) by (cases ts) auto
      then show ?thesis using 2 1(1) by (auto simp: sublist_def intro: exI[of _ "[]"])
    qed
  next
    case (2 zs)
    show ?thesis
    proof (cases zs)
      case Nil
      then have "w = []" using 2(2) assms(2) by (cases w) auto
      then show ?thesis by simp
    next
      case (Cons z zs')
      then show ?thesis using 2(2) by (auto simp: sublist_def)
    qed
  qed
qed

lemma unmarked_joined:
  "\<lbrakk>unmarked w; has_infix w (join_with redacted ps)\<rbrakk> \<Longrightarrow> \<exists>p \<in> set ps. has_infix w p"
proof (induction redacted ps rule: join_with.induct)
  case 1
  then show ?case by (cases w) (simp_all add: unmarked_def)
next
  case (3 x y zs)
  have "sublist w (x @ CHR ''['' # ''redacted'' @ CHR '']'' # join_with redacted (y # zs))"
    using "3.prems"(2) by (simp add: has_infix_iff redacted_def)
  then have "sublist w x \<or> sublist w (''redacted'' @ CHR '']'' # join_with redacted (y # zs))"
    using sublist_free_append "3.prems"(1) unfolding unmarked_def by metis
  moreover have "sublist w ''redacted'' \<or> sublist w (join_with redacted (y # zs))"
    if "sublist w (''redacted'' @ CHR '']'' # join_with redacted (y # zs))"
    using sublist_free_append that "3.prems"(1) unfolding unmarked_def by metis
  ultimately consider "sublist w x" | "sublist w (join_with redacted (y # zs))"
    using "3.prems"(1) unfolding unmarked_def has_infix_iff by blast
  then show ?case
  proof cases
    case 1
    then show ?thesis by (auto simp: has_infix_iff)
  next
    case 2
    then show ?thesis using "3.hyps" "3.prems"(1) by (auto simp: has_infix_iff)
  qed
qed auto

text \<open>No part between two occurrences contains one.\<close>

lemma split_at_parts:
  "\<lbrakk>secret \<noteq> []; \<And>j. j < length acc \<Longrightarrow> \<not> prefix secret (drop j (rev acc @ s)); p \<in> set (split_at secret acc s)\<rbrakk>
    \<Longrightarrow> \<not> has_infix secret p"
proof (induction secret acc s rule: split_at.induct)
  case (1 secret acc s)
  have clean: "\<not> has_infix secret (rev acc)"
  proof
    assume "has_infix secret (rev acc)"
    then obtain us vs where e: "rev acc = us @ secret @ vs" by (auto simp: has_infix_iff sublist_def)
    then have "length us < length acc" using "1.prems"(1) by (metis length_append length_rev length_greater_0_conv add_less_cancel_left add_pos_nonneg less_add_same_cancel1 trans_less_add1 zero_le)
    moreover have "prefix secret (drop (length us) (rev acc @ s))" by (simp add: e)
    ultimately show False using "1.prems"(2) by blast
  qed
  consider "s = []" | "s \<noteq> []" "prefix secret s" | "s \<noteq> []" "\<not> prefix secret s" by blast
  then show ?case
  proof cases
    case 1
    then show ?thesis using "1.prems"(3) clean by (simp add: split_at.simps)
  next
    case 2
    then have "p = rev acc \<or> p \<in> set (split_at secret [] (drop (length secret) s))"
      using "1.prems"(1,3) split_at.simps[of secret acc s] by auto
    then show ?thesis using "1.IH"(1) 2 "1.prems"(1) clean by auto
  next
    case 3
    then have p: "p \<in> set (split_at secret (hd s # acc) (tl s))"
      using "1.prems"(1,3) split_at.simps[of secret acc s] by auto
    have "\<not> prefix secret (drop j (rev (hd s # acc) @ tl s))" if "j < length (hd s # acc)" for j
      using that "1.prems"(2)[of j] 3 by (cases "j < length acc") (auto simp: not_less less_Suc_eq)
    then show ?thesis using "1.IH"(2) 3 "1.prems"(1) p by blast
  qed
qed

lemma split_tokens_parts: "p \<in> set (split_tokens acc s) \<Longrightarrow> sublist p (rev acc @ s)"
proof (induction acc s rule: split_tokens.induct)
  case (1 acc s)
  consider "s = []" | "s \<noteq> []" "0 < token_like s" | "s \<noteq> []" "token_like s = 0" by blast
  then show ?case
  proof cases
    case 1
    then show ?thesis using "1.prems" by (simp add: split_tokens.simps)
  next
    case 2
    then consider "p = rev acc" | "p \<in> set (split_tokens [] (drop (token_like s) s))"
      using "1.prems" split_tokens.simps[of acc s] by auto
    then show ?thesis
    proof cases
      case 1
      then show ?thesis by simp
    next
      case p: 2
      then have "sublist p (drop (token_like s) s)" using "1.IH"(1) 2 by simp
      then show ?thesis by (meson sublist_drop sublist_append_leftI sublist_order.order_trans)
    qed
  next
    case 3
    then have "p \<in> set (split_tokens (hd s # acc) (tl s))" using "1.prems" split_tokens.simps[of acc s] by auto
    then show ?thesis using "1.IH"(2) 3 by simp
  qed
qed

lemma scrubbed_secret_gone:
  assumes "unmarked secret" and "secret \<noteq> []"
  shows "\<not> has_infix secret (scrubText raw (Some secret))"
proof
  let ?m = "join_with redacted (split_at secret [] raw)"
  assume "has_infix secret (scrubText raw (Some secret))"
  then have "has_infix secret (join_with redacted (split_tokens [] ?m))"
    using assms(2) by (simp add: scrubText_def truthy_def)
  then obtain p where p: "p \<in> set (split_tokens [] ?m)" "has_infix secret p"
    using unmarked_joined[OF assms(1)] by blast
  then have "has_infix secret ?m"
    using split_tokens_parts[OF p(1)] by (auto simp: has_infix_iff intro: sublist_order.order_trans)
  then obtain q where "q \<in> set (split_at secret [] raw)" "has_infix secret q"
    using unmarked_joined[OF assms(1)] by blast
  then show False using split_at_parts[OF assms(2), of "[]" raw] by simp
qed


section \<open>Sealing (credential-crypto.ts)\<close>

record encrypted_credential =
  ec_ciphertext :: string
  ec_iv :: string
  ec_authTag :: string
  ec_keyId :: string

text \<open>The cipher: the configured key (\<^term>\<open>None\<close> where it is missing or malformed), encryption to ciphertext and
  tag, and decryption, which throws (\<^term>\<open>None\<close>) when the tag does not fit.\<close>

record cipher_env =
  ce_key :: "string option"
  ce_seal :: "string \<Rightarrow> string \<Rightarrow> string \<Rightarrow> string \<Rightarrow> string \<times> string"
  ce_open :: "string \<Rightarrow> string \<Rightarrow> string \<Rightarrow> string \<Rightarrow> string \<Rightarrow> string option"

definition CREDENTIAL_KEY_ID :: string where
  "CREDENTIAL_KEY_ID = ''v1''"

definition FIXED_DECRYPT_ERROR :: string where
  "FIXED_DECRYPT_ERROR = ''GitHub credential could not be decrypted''"

definition no_key_error :: string where
  "no_key_error = ''CREDENTIAL_ENCRYPTION_KEY is not configured''"

definition credentialAad :: "ident \<Rightarrow> ident \<Rightarrow> string" where
  "credentialAad org integration = org @ '':'' @ integration"

definition encryptIntegrationSecret ::
    "cipher_env \<Rightarrow> string \<Rightarrow> string \<Rightarrow> ident \<Rightarrow> ident \<Rightarrow> string + encrypted_credential" where
  "encryptIntegrationSecret env iv plaintext org integration =
     (case ce_key env of
        None \<Rightarrow> Inl no_key_error
      | Some key \<Rightarrow>
          (case ce_seal env key iv (credentialAad org integration) plaintext of
             (ciphertext, tag) \<Rightarrow>
               Inr \<lparr>ec_ciphertext = ciphertext, ec_iv = iv, ec_authTag = tag, ec_keyId = CREDENTIAL_KEY_ID\<rparr>))"

definition decryptIntegrationSecret ::
    "cipher_env \<Rightarrow> encrypted_credential \<Rightarrow> ident \<Rightarrow> ident \<Rightarrow> string + string" where
  "decryptIntegrationSecret env row org integration =
     (if ec_keyId row \<noteq> CREDENTIAL_KEY_ID then Inl FIXED_DECRYPT_ERROR
      else (case ce_key env of
              None \<Rightarrow> Inl no_key_error
            | Some key \<Rightarrow>
                (case ce_open env key (ec_iv row) (credentialAad org integration) (ec_ciphertext row) (ec_authTag row) of
                   None \<Rightarrow> Inl FIXED_DECRYPT_ERROR
                 | Some plain \<Rightarrow> Inr plain)))"


section \<open>Loading a credential (secret-credential.ts, credentials.ts)\<close>

definition is_hex :: "char \<Rightarrow> bool" where
  "is_hex c = (is_digit c \<or> (97 \<le> ccode c \<and> ccode c \<le> 102) \<or> (65 \<le> ccode c \<and> ccode c \<le> 70))"

definition uuid_shaped :: "string \<Rightarrow> bool" where
  "uuid_shaped s =
     (case split_on CHR ''-'' s of
        [a, b, c, d, e] \<Rightarrow> map length [a, b, c, d, e] = [8, 4, 4, 4, 12] \<and> list_all (list_all is_hex) [a, b, c, d, e]
      | _ \<Rightarrow> False)"

definition parseSecretCredentialRef :: "string option \<Rightarrow> string option" where
  "parseSecretCredentialRef ref =
     (case ref of
        None \<Rightarrow> None
      | Some r \<Rightarrow> if js_lower (take 7 r) = ''secret:'' \<and> uuid_shaped (drop 7 r) then Some (drop 7 r) else None)"

record secret_row =
  sr_integrationId :: ident
  sr_org :: ident
  sr_sealed :: encrypted_credential

text \<open>Row-level security shows an organisation its own rows only.\<close>

definition loadSecretCredential ::
    "cipher_env \<Rightarrow> secret_row list \<Rightarrow> ident \<Rightarrow> ident \<Rightarrow> string option \<Rightarrow> string + string" where
  "loadSecretCredential env rows org integration ref =
     (case parseSecretCredentialRef ref of
        None \<Rightarrow> Inl FIXED_DECRYPT_ERROR
      | Some secretId \<Rightarrow>
          if secretId = [] \<or> secretId \<noteq> integration then Inl FIXED_DECRYPT_ERROR
          else (case find (\<lambda>r. sr_integrationId r = integration \<and> sr_org r = org) rows of
                  None \<Rightarrow> Inl FIXED_DECRYPT_ERROR
                | Some row \<Rightarrow>
                    if sr_org row \<noteq> org then Inl FIXED_DECRYPT_ERROR
                    else decryptIntegrationSecret env (sr_sealed row) org integration))"


section \<open>A sealed credential belongs to one integration\<close>

text \<open>What an authenticated cipher documents: what was sealed opens, and opens under its own associated data
  only.\<close>

definition authenticated :: "cipher_env \<Rightarrow> bool" where
  "authenticated env \<longleftrightarrow>
     (\<forall>key iv aad aad' plain. ce_open env key iv aad' (fst (ce_seal env key iv aad plain)) (snd (ce_seal env key iv aad plain))
        = (if aad' = aad then Some plain else None))"

lemma aad_inj:
  assumes "CHR '':'' \<notin> set org" and "CHR '':'' \<notin> set org'"
    and "credentialAad org integration = credentialAad org' integration'"
  shows "org = org' \<and> integration = integration'"
proof -
  have "takeWhile (\<lambda>c. c \<noteq> CHR '':'') (credentialAad o1 i1) = o1" if "CHR '':'' \<notin> set o1" for o1 i1
    using that by (induction o1) (auto simp: credentialAad_def)
  then have "org = org'" using assms by metis
  then show ?thesis using assms(3) by (simp add: credentialAad_def)
qed

text \<open>
  A sealed credential opens for its own integration only. What was sealed for an integration of an
  organisation is read back by it unchanged; read under another organisation or another integration it is refused
  with the fixed message, even where the row was copied there.
\<close>

theorem credential_is_bound:
  assumes cipher: "authenticated env" and sealed: "encryptIntegrationSecret env iv token org integration = Inr row"
    and ids: "CHR '':'' \<notin> set org" "CHR '':'' \<notin> set org'"
  shows "decryptIntegrationSecret env row org' integration'
    = (if org' = org \<and> integration' = integration then Inr token else Inl FIXED_DECRYPT_ERROR)"
proof -
  obtain key where key: "ce_key env = Some key" using sealed by (auto simp: encryptIntegrationSecret_def split: option.splits)
  let ?s = "ce_seal env key iv (credentialAad org integration) token"
  have row: "row = \<lparr>ec_ciphertext = fst ?s, ec_iv = iv, ec_authTag = snd ?s, ec_keyId = CREDENTIAL_KEY_ID\<rparr>"
    using sealed key by (auto simp: encryptIntegrationSecret_def split: prod.splits)
  have "ce_open env key iv (credentialAad org' integration') (fst ?s) (snd ?s)
      = (if credentialAad org' integration' = credentialAad org integration then Some token else None)"
    using cipher unfolding authenticated_def by blast
  moreover have "credentialAad org' integration' = credentialAad org integration \<longleftrightarrow> org' = org \<and> integration' = integration"
    using aad_inj[OF ids(2,1)] by blast
  ultimately show ?thesis by (simp add: row key decryptIntegrationSecret_def)
qed

text \<open>A cipher for the witnesses: the text and its associated data, in the clear.\<close>

definition clear_cipher :: cipher_env where
  "clear_cipher = \<lparr>ce_key = Some ''k'', ce_seal = \<lambda>key iv aad plain. (plain, aad),
                   ce_open = \<lambda>key iv aad c tag. if tag = aad then Some c else None\<rparr>"

lemma clear_authenticated: "authenticated clear_cipher"
  by (simp add: authenticated_def clear_cipher_def)

theorem credential_is_bound_witness:
  "\<exists>row. encryptIntegrationSecret clear_cipher ''iv'' ''ghp_1'' ''acme'' ''i1'' = Inr row
     \<and> decryptIntegrationSecret clear_cipher row ''acme'' ''i1'' = Inr ''ghp_1''
     \<and> decryptIntegrationSecret clear_cipher row ''evil'' ''i1'' = Inl FIXED_DECRYPT_ERROR"
proof -
  obtain row where row: "encryptIntegrationSecret clear_cipher ''iv'' ''ghp_1'' ''acme'' ''i1'' = Inr row"
    by (simp add: encryptIntegrationSecret_def clear_cipher_def)
  have "decryptIntegrationSecret clear_cipher row ''acme'' ''i1'' = Inr ''ghp_1''"
    using credential_is_bound[OF clear_authenticated row, of "''acme''" "''i1''"] by simp
  moreover have "decryptIntegrationSecret clear_cipher row ''evil'' ''i1'' = Inl FIXED_DECRYPT_ERROR"
    using credential_is_bound[OF clear_authenticated row, of "''evil''" "''i1''"] by simp
  ultimately show ?thesis using row by blast
qed

end
