(* ===== verification/Inventory.thy ===== *)
theory Inventory
imports Secrets Coordination
begin

text \<open>
  The asset inventory (\<^verbatim>\<open>apps/asset-service/src/assets/assets.service.ts\<close>) and continuous discovery
  (\<^verbatim>\<open>apps/asset-service/src/connectors/discovery-scheduler.service.ts\<close>, \<^verbatim>\<open>connector.registry.ts\<close>): an integration's
  connector yields upsert requests, and what a completed sync did not see is archived.

  A connector is an argument: from its context to the requests that it yields and whether it then throws. The
  clock's readings, new identifiers and the outcome of each publish are arguments, too.
\<close>


section \<open>Assets (assets.service.ts)\<close>

record asset_item =
  as_id :: ident
  as_org :: ident
  as_kind :: string
  as_externalKey :: string
  as_name :: string
  as_source :: string
  as_exposure :: string
  as_criticality :: string
  as_dataClasses :: "string list"
  as_ownerTeam :: "string option"
  as_ownerEmail :: "string option"
  as_tags :: "(string \<times> json) list"
  as_attributes :: "(string \<times> json) list"
  as_firstSeenAt :: instant
  as_lastSeenAt :: instant
  as_archivedAt :: "instant option"
  as_integrationId :: "ident option"

record upsert_request =
  ur_kind :: string
  ur_externalKey :: string
  ur_name :: string
  ur_source :: string
  ur_exposure :: "string option"
  ur_criticality :: "string option"
  ur_dataClasses :: "string list option"
  ur_ownerTeam :: "string option"
  ur_ownerEmail :: "string option"
  ur_tags :: "(string \<times> json) list option"
  ur_attributes :: "(string \<times> json) list option"

definition keyed :: "ident \<Rightarrow> string \<Rightarrow> asset_item \<Rightarrow> bool" where
  "keyed org key a = (as_org a = org \<and> as_externalKey a = key)"

definition at_key :: "ident \<Rightarrow> string \<Rightarrow> asset_item list \<Rightarrow> asset_item option" where
  "at_key org key assets = find (keyed org key) assets"

text \<open>\<^verbatim>\<open>a ?? b ?? c\<close>.\<close>

definition first_of :: "'a option \<Rightarrow> 'a option \<Rightarrow> 'a \<Rightarrow> 'a" where
  "first_of a b c = (case a of Some x \<Rightarrow> x | None \<Rightarrow> (case b of Some y \<Rightarrow> y | None \<Rightarrow> c))"

definition else_old :: "'a option \<Rightarrow> 'a option \<Rightarrow> 'a option" where
  "else_old a b = (case a of Some x \<Rightarrow> Some x | None \<Rightarrow> b)"

text \<open>The row that is written; a new row gets an identifier and its first-seen instant from the database.\<close>

definition asset_data ::
    "instant \<Rightarrow> ident \<Rightarrow> ident \<Rightarrow> upsert_request \<Rightarrow> ident option \<Rightarrow> asset_item option \<Rightarrow> asset_item" where
  "asset_data now newId org q integration old =
     \<lparr>as_id = (case old of Some a \<Rightarrow> as_id a | None \<Rightarrow> newId),
      as_org = org, as_kind = ur_kind q, as_externalKey = ur_externalKey q, as_name = ur_name q, as_source = ur_source q,
      as_exposure = first_of (ur_exposure q) (map_option as_exposure old) ''unknown'',
      as_criticality = first_of (ur_criticality q) (map_option as_criticality old) ''unknown'',
      as_dataClasses = first_of (ur_dataClasses q) (map_option as_dataClasses old) [],
      as_ownerTeam = else_old (ur_ownerTeam q) (Option.bind old as_ownerTeam),
      as_ownerEmail = else_old (ur_ownerEmail q) (Option.bind old as_ownerEmail),
      as_tags = first_of (ur_tags q) (map_option as_tags old) [],
      as_attributes = first_of (ur_attributes q) (map_option as_attributes old) [],
      as_firstSeenAt = (case old of Some a \<Rightarrow> as_firstSeenAt a | None \<Rightarrow> now),
      as_lastSeenAt = now, as_archivedAt = None,
      as_integrationId = else_old integration (Option.bind old as_integrationId)\<rparr>"

definition upsert_asset ::
    "instant \<Rightarrow> ident \<Rightarrow> ident \<Rightarrow> upsert_request \<Rightarrow> ident option \<Rightarrow> asset_item list
      \<Rightarrow> asset_item list \<times> asset_item \<times> bool" where
  "upsert_asset now newId org q integration assets =
     (let old = at_key org (ur_externalKey q) assets; row = asset_data now newId org q integration old
      in (case old of
            None \<Rightarrow> assets @ [row]
          | Some _ \<Rightarrow> map (\<lambda>a. if keyed org (ur_externalKey q) a then row else a) assets,
          row, old = None))"

definition archiveStale :: "instant \<Rightarrow> ident \<Rightarrow> string \<Rightarrow> instant \<Rightarrow> ident \<Rightarrow> asset_item list \<Rightarrow> asset_item list \<times> nat" where
  "archiveStale now org source seenBefore integration assets =
     (let stale = (\<lambda>a. as_org a = org \<and> as_source a = source \<and> as_integrationId a = Some integration
                      \<and> as_lastSeenAt a < seenBefore \<and> as_archivedAt a = None)
      in (map (\<lambda>a. if stale a then a\<lparr>as_archivedAt := Some now\<rparr> else a) assets, length (filter stale assets)))"

definition get_asset :: "ident \<Rightarrow> ident \<Rightarrow> asset_item list \<Rightarrow> string + asset_item" where
  "get_asset org i assets =
     (case find (\<lambda>a. as_id a = i \<and> as_org a = org) assets of
        None \<Rightarrow> Inl (''Asset '' @ i @ '' not found'') | Some a \<Rightarrow> Inr a)"


section \<open>The tables and an upsert with its event\<close>

record integration_row =
  ig_id :: ident
  ig_org :: ident
  ig_provider :: string
  ig_displayName :: string
  ig_config :: "(string \<times> json) list"
  ig_credentialRef :: "string option"
  ig_enabled :: bool
  ig_lastSyncAt :: "instant option"
  ig_lastSyncError :: "string option"

record inventory =
  iv_assets :: "asset_item list"
  iv_events :: "(string \<times> ident \<times> asset_item) list"
  iv_integrations :: "integration_row list"
  iv_secrets :: "secret_row list"

definition assetDiscovered :: string where "assetDiscovered = ''ctem.asset.discovered''"
definition assetUpdated :: string where "assetUpdated = ''ctem.asset.updated''"

text \<open>The row is committed before its event is published; a publish that throws (its message) ends the upsert.\<close>

definition upsert ::
    "instant \<Rightarrow> ident \<Rightarrow> string option \<Rightarrow> ident \<Rightarrow> upsert_request \<Rightarrow> ident option \<Rightarrow> inventory
      \<Rightarrow> inventory \<times> (string + asset_item)" where
  "upsert now newId publish_error org q integration db =
     (case upsert_asset now newId org q integration (iv_assets db) of
        (assets, row, created) \<Rightarrow>
          (let db1 = db\<lparr>iv_assets := assets\<rparr>
           in (case publish_error of
                 Some e \<Rightarrow> (db1, Inl e)
               | None \<Rightarrow>
                   (db1\<lparr>iv_events := iv_events db @ [(if created then assetDiscovered else assetUpdated, org, row)]\<rparr>,
                    Inr row))))"


section \<open>Discovery (discovery-scheduler.service.ts)\<close>

record discovery_context =
  dc_org :: ident
  dc_integrationId :: ident
  dc_config :: "(string \<times> json) list"
  dc_credentialRef :: "string option"
  dc_resolvedCredential :: "string option"
  dc_since :: "instant option"

text \<open>What a connector yields, and the exception with which it then ends, if any: one with a message or
  another value.\<close>

type_synonym connector = "discovery_context \<Rightarrow> upsert_request list \<times> string option option"

record sync_env =
  se_registry :: "string \<Rightarrow> connector option"
  se_cipher :: cipher_env
  se_clock :: "nat \<Rightarrow> instant"
  se_newId :: "nat \<Rightarrow> ident"
  se_publish :: "nat \<Rightarrow> string option"

record sync_result =
  sy_integrationId :: ident
  sy_provider :: string
  sy_upserted :: nat
  sy_archived :: nat
  sy_error :: "string option"

fun upsert_all :: "sync_env \<Rightarrow> ident \<Rightarrow> ident \<Rightarrow> nat \<Rightarrow> upsert_request list \<Rightarrow> inventory \<Rightarrow> inventory \<times> string option" where
  "upsert_all env org integration k [] db = (db, None)"
| "upsert_all env org integration k (q # qs) db =
     (case upsert (se_clock env (Suc k)) (se_newId env k) (se_publish env k) org q (Some integration) db of
        (db1, Inl e) \<Rightarrow> (db1, Some e)
      | (db1, Inr _) \<Rightarrow> upsert_all env org integration (Suc k) qs db1)"

definition set_integration ::
    "integration_row \<Rightarrow> (integration_row \<Rightarrow> integration_row) \<Rightarrow> inventory \<Rightarrow> inventory" where
  "set_integration ig f db =
     db\<lparr>iv_integrations := map (\<lambda>i. if ig_id i = ig_id ig \<and> ig_org i = ig_org ig then f i else i) (iv_integrations db)\<rparr>"

definition sync_failed ::
    "integration_row \<Rightarrow> string option \<Rightarrow> string option \<Rightarrow> inventory \<Rightarrow> inventory \<times> sync_result" where
  "sync_failed ig err secret db =
     (let message = scrubSyncError err secret
      in (set_integration ig (\<lambda>i. i\<lparr>ig_lastSyncError := Some message\<rparr>) db,
          \<lparr>sy_integrationId = ig_id ig, sy_provider = ig_provider ig, sy_upserted = 0, sy_archived = 0,
           sy_error = Some message\<rparr>))"

text \<open>The credential of a \<^verbatim>\<open>secret:\<close> reference is decrypted for this run; other references are the connector's.\<close>

definition resolved_credential :: "sync_env \<Rightarrow> integration_row \<Rightarrow> inventory \<Rightarrow> string + string option" where
  "resolved_credential env ig db =
     (case ig_credentialRef ig of
        Some ref \<Rightarrow>
          if prefix ''secret:'' ref then
            map_sum id Some (loadSecretCredential (se_cipher env) (iv_secrets db) (ig_org ig) (ig_id ig) (Some ref))
          else Inr None
      | None \<Rightarrow> Inr None)"

definition context_of :: "integration_row \<Rightarrow> string option \<Rightarrow> discovery_context" where
  "context_of ig secret =
     \<lparr>dc_org = ig_org ig, dc_integrationId = ig_id ig, dc_config = ig_config ig,
      dc_credentialRef = ig_credentialRef ig, dc_resolvedCredential = secret, dc_since = ig_lastSyncAt ig\<rparr>"

definition syncIntegration :: "sync_env \<Rightarrow> integration_row \<Rightarrow> inventory \<Rightarrow> inventory \<times> sync_result" where
  "syncIntegration env ig db =
     (case se_registry env (ig_provider ig) of
        None \<Rightarrow>
          (db, \<lparr>sy_integrationId = ig_id ig, sy_provider = ig_provider ig, sy_upserted = 0, sy_archived = 0,
                 sy_error = Some ''no connector registered''\<rparr>)
      | Some connector \<Rightarrow>
          (let started = se_clock env 0 in
           case resolved_credential env ig db of
             Inl e \<Rightarrow> sync_failed ig (Some e) None db
           | Inr secret \<Rightarrow>
               (case connector (context_of ig secret) of
                  (found, thrown) \<Rightarrow>
                    (case upsert_all env (ig_org ig) (ig_id ig) 0 found db of
                       (db1, Some e) \<Rightarrow> sync_failed ig (Some e) secret db1
                     | (db1, None) \<Rightarrow>
                         (case thrown of
                            Some err \<Rightarrow> sync_failed ig err secret db1
                          | None \<Rightarrow>
                              (case archiveStale (se_clock env (Suc (length found))) (ig_org ig) (ig_provider ig) started
                                      (ig_id ig) (iv_assets db1) of
                                 (assets, n) \<Rightarrow>
                                   (set_integration ig (\<lambda>i. i\<lparr>ig_lastSyncAt := Some started, ig_lastSyncError := None\<rparr>)
                                      (db1\<lparr>iv_assets := assets\<rparr>),
                                    \<lparr>sy_integrationId = ig_id ig, sy_provider = ig_provider ig,
                                     sy_upserted = length found, sy_archived = n, sy_error = None\<rparr>)))))))"

text \<open>A sweep reads the enabled integrations first; each sync has its own readings of the clock.\<close>

definition sync_each :: "(ident \<Rightarrow> sync_env) \<Rightarrow> integration_row list \<Rightarrow> inventory \<Rightarrow> inventory \<times> sync_result list" where
  "sync_each env igs db =
     foldl (\<lambda>(db, rs) ig. case syncIntegration (env (ig_id ig)) ig db of (db1, r) \<Rightarrow> (db1, rs @ [r])) (db, []) igs"

definition syncOrg :: "(ident \<Rightarrow> sync_env) \<Rightarrow> ident \<Rightarrow> inventory \<Rightarrow> inventory \<times> sync_result list" where
  "syncOrg env org db = sync_each env (filter (\<lambda>i. ig_org i = org \<and> ig_enabled i) (iv_integrations db)) db"

definition discovery_tick :: "(ident \<Rightarrow> sync_env) \<Rightarrow> inventory \<Rightarrow> inventory" where
  "discovery_tick env db = fst (sync_each env (filter ig_enabled (iv_integrations db)) db)"

definition runDiscoveryTick ::
    "'s lease_ops \<Rightarrow> instant \<Rightarrow> leader_lease \<Rightarrow> (ident \<Rightarrow> sync_env) \<Rightarrow> 's \<Rightarrow> inventory
      \<Rightarrow> bool \<times> leader_lease \<times> 's \<times> inventory" where
  "runDiscoveryTick ops now l env = runIfLeader ops now l (discovery_tick env)"


section \<open>Looking up an asset\<close>

lemma at_key_Some: "at_key org key assets = Some a \<Longrightarrow> as_org a = org \<and> as_externalKey a = key \<and> a \<in> set assets"
  unfolding at_key_def by (induction assets) (auto simp: keyed_def split: if_splits)

lemma at_key_map:
  "(\<And>a. as_org (f a) = as_org a \<and> as_externalKey (f a) = as_externalKey a) \<Longrightarrow>
     at_key org key (map f assets) = map_option f (at_key org key assets)"
  unfolding at_key_def by (induction assets) (auto simp: keyed_def)

lemma at_key_replaced:
  assumes "at_key org key assets = Some old" and "keyed org key row"
  shows "at_key org' key' (map (\<lambda>a. if keyed org key a then row else a) assets)
    = (if org' = org \<and> key' = key then Some row else at_key org' key' assets)"
proof -
  let ?f = "\<lambda>a. if keyed org key a then row else a"
  have "at_key org' key' (map ?f assets) = map_option ?f (at_key org' key' assets)"
    by (rule at_key_map) (use assms(2) in \<open>auto simp: keyed_def\<close>)
  moreover have "keyed org' key' a" if "at_key org' key' assets = Some a" for a
    using at_key_Some[OF that] by (simp add: keyed_def)
  ultimately show ?thesis
    using assms(1) by (cases "at_key org' key' assets") (auto simp: keyed_def)
qed

lemma at_key_append:
  "at_key org key (xs @ ys) = (case at_key org key xs of None \<Rightarrow> at_key org key ys | Some a \<Rightarrow> Some a)"
  unfolding at_key_def by (induction xs) auto

lemma at_key_upsert:
  assumes "upsert_asset now newId org q integration assets = (assets', row, created)"
  shows "row = asset_data now newId org q integration (at_key org (ur_externalKey q) assets)"
    and "created \<longleftrightarrow> at_key org (ur_externalKey q) assets = None"
    and "at_key org' key (assets') = (if org' = org \<and> key = ur_externalKey q then Some row else at_key org' key assets)"
proof -
  let ?old = "at_key org (ur_externalKey q) assets"
  show row: "row = asset_data now newId org q integration ?old"
    and "created \<longleftrightarrow> at_key org (ur_externalKey q) assets = None"
    using assms by (auto simp: upsert_asset_def Let_def)
  have keyed_row: "keyed org (ur_externalKey q) row" by (simp add: row keyed_def asset_data_def)
  show "at_key org' key (assets') = (if org' = org \<and> key = ur_externalKey q then Some row else at_key org' key assets)"
  proof (cases ?old)
    case None
    then have "assets' = assets @ [row]" using assms by (auto simp: upsert_asset_def Let_def)
    then show ?thesis using None keyed_row
      by (auto simp: at_key_append split: option.splits) (auto simp: at_key_def keyed_def)
  next
    case (Some old)
    then have "assets' = map (\<lambda>a. if keyed org (ur_externalKey q) a then row else a) assets"
      using assms by (auto simp: upsert_asset_def Let_def)
    then show ?thesis using at_key_replaced[OF Some keyed_row] by simp
  qed
qed


section \<open>A completed sync is the inventory of its integration\<close>

definition keys_of :: "upsert_request list \<Rightarrow> string set" where
  "keys_of qs = ur_externalKey ` set qs"

text \<open>An asset that this sync has seen.\<close>

definition seen_by :: "ident \<Rightarrow> instant set \<Rightarrow> asset_item option \<Rightarrow> bool" where
  "seen_by integration ts a \<longleftrightarrow>
     (\<exists>x. a = Some x \<and> as_integrationId x = Some integration \<and> as_archivedAt x = None \<and> as_lastSeenAt x \<in> ts)"

lemma upsert_at_key:
  assumes "upsert now newId pe org q (Some integration) db = (db1, r)"
  shows "at_key org' key (iv_assets db1) =
      (if org' = org \<and> key = ur_externalKey q
       then Some (asset_data now newId org q (Some integration) (at_key org key (iv_assets db)))
       else at_key org' key (iv_assets db))"
    and "iv_integrations db1 = iv_integrations db" and "iv_secrets db1 = iv_secrets db"
proof -
  obtain assets row created where u: "upsert_asset now newId org q (Some integration) (iv_assets db) = (assets, row, created)"
    by (metis prod_cases3)
  show "at_key org' key (iv_assets db1) =
      (if org' = org \<and> key = ur_externalKey q
       then Some (asset_data now newId org q (Some integration) (at_key org key (iv_assets db)))
       else at_key org' key (iv_assets db))"
    and "iv_integrations db1 = iv_integrations db" and "iv_secrets db1 = iv_secrets db"
    using assms u at_key_upsert(1,3)[OF u]
    by (auto simp: upsert_def Let_def split: option.splits)
qed

lemma asset_data_seen: "now \<in> ts \<Longrightarrow> seen_by integration ts (Some (asset_data now newId org q (Some integration) old))"
  by (simp add: seen_by_def asset_data_def else_old_def)

text \<open>Whatever stops the upserts, a key holds what it held or has been seen.\<close>

lemma upsert_all_keeps:
  assumes "\<And>j. se_clock env j \<in> ts"
  shows "upsert_all env org integration k qs db = (db1, e) \<Longrightarrow>
    (at_key org' key (iv_assets db1) = at_key org' key (iv_assets db)
      \<or> (org' = org \<and> key \<in> keys_of qs \<and> seen_by integration ts (at_key org' key (iv_assets db1))))
    \<and> iv_integrations db1 = iv_integrations db
    \<and> (e = None \<longrightarrow> org' = org \<longrightarrow> key \<in> keys_of qs \<longrightarrow> seen_by integration ts (at_key org' key (iv_assets db1)))"
proof (induction qs arbitrary: k db)
  case (Cons q qs)
  obtain d r where u: "upsert (se_clock env (Suc k)) (se_newId env k) (se_publish env k) org q (Some integration) db = (d, r)"
    by fastforce
  note d = upsert_at_key(1)[OF u, of org' key] upsert_at_key(2)[OF u]
  have new: "seen_by integration ts (at_key org' key (iv_assets d))" if "org' = org" "key = ur_externalKey q"
    using that d(1) asset_data_seen[OF assms] by simp
  show ?case
  proof (cases r)
    case (Inl x)
    then have "db1 = d" "e = Some x" using Cons.prems u by simp_all
    then show ?thesis using d new by (auto simp: keys_of_def)
  next
    case (Inr x)
    then have "upsert_all env org integration (Suc k) qs d = (db1, e)" using Cons.prems u by simp
    from Cons.IH[OF this] show ?thesis using d new by (auto simp: keys_of_def split: if_splits)
  qed
qed (simp add: keys_of_def)

lemma iv_assets_set_integration [simp]: "iv_assets (set_integration ig f db) = iv_assets db"
  by (simp add: set_integration_def)

lemma sync_failed_simps [simp]:
  "sy_error (snd (sync_failed ig err secret db)) = Some (scrubSyncError err secret)"
  "fst (sync_failed ig err secret db) = set_integration ig (\<lambda>i. i\<lparr>ig_lastSyncError := Some (scrubSyncError err secret)\<rparr>) db"
  by (simp_all add: sync_failed_def Let_def)

lemma syncIntegration_cases:
  assumes "syncIntegration env ig db = (db', r)"
  obtains (unregistered) "se_registry env (ig_provider ig) = None" "db' = db" "sy_error r \<noteq> None"
  | (no_credential) e where "resolved_credential env ig db = Inl e" "sync_failed ig (Some e) None db = (db', r)"
  | (failed) connector secret found thrown db1 up err where
      "se_registry env (ig_provider ig) = Some connector" "resolved_credential env ig db = Inr secret"
      "connector (context_of ig secret) = (found, thrown)"
      "upsert_all env (ig_org ig) (ig_id ig) 0 found db = (db1, up)" "sync_failed ig err secret db1 = (db', r)"
  | (synced) connector secret found db1 where
      "se_registry env (ig_provider ig) = Some connector" "resolved_credential env ig db = Inr secret"
      "connector (context_of ig secret) = (found, None)"
      "upsert_all env (ig_org ig) (ig_id ig) 0 found db = (db1, None)"
      "iv_assets db' = fst (archiveStale (se_clock env (Suc (length found))) (ig_org ig) (ig_provider ig)
                              (se_clock env 0) (ig_id ig) (iv_assets db1))"
      "sy_error r = None" "sy_upserted r = length found"
      "iv_integrations db' = map (\<lambda>i. if ig_id i = ig_id ig \<and> ig_org i = ig_org ig
          then i\<lparr>ig_lastSyncAt := Some (se_clock env 0), ig_lastSyncError := None\<rparr> else i) (iv_integrations db1)"
  using assms
  by (auto simp: syncIntegration_def set_integration_def Let_def split: option.splits sum.splits prod.splits)

text \<open>The row that the archival leaves, with nothing of this sync among the stale ones.\<close>

definition unseen :: "integration_row \<Rightarrow> instant \<Rightarrow> instant \<Rightarrow> asset_item \<Rightarrow> asset_item" where
  "unseen ig t now a =
     (if as_source a = ig_provider ig \<and> as_integrationId a = Some (ig_id ig) \<and> as_archivedAt a = None \<and> as_lastSeenAt a < t
      then a\<lparr>as_archivedAt := Some now\<rparr> else a)"

lemma at_key_archiveStale:
  "at_key org' key (fst (archiveStale now (ig_org ig) (ig_provider ig) t (ig_id ig) assets))
   = (if org' = ig_org ig then map_option (unseen ig t now) (at_key org' key assets) else at_key org' key assets)"
proof -
  let ?f = "\<lambda>a. if as_org a = ig_org ig \<and> as_source a = ig_provider ig \<and> as_integrationId a = Some (ig_id ig)
      \<and> as_lastSeenAt a < t \<and> as_archivedAt a = None then a\<lparr>as_archivedAt := Some now\<rparr> else a"
  have "at_key org' key (map ?f assets) = map_option ?f (at_key org' key assets)" by (rule at_key_map) simp
  moreover have "as_org a = org'" if "at_key org' key assets = Some a" for a using at_key_Some[OF that] by simp
  ultimately show ?thesis
    by (cases "at_key org' key assets") (auto simp: archiveStale_def unseen_def Let_def)
qed

lemma seen_unseen: "seen_by (ig_id ig) {t..} a \<Longrightarrow> seen_by (ig_id ig) {t..} (map_option (unseen ig t now) a)"
  by (cases a) (auto simp: seen_by_def unseen_def)

lemma completed_sync:
  assumes run: "syncIntegration env ig db = (db', r)" and ok: "sy_error r = None"
    and clock: "\<And>j. se_clock env 0 \<le> se_clock env j"
  shows "\<exists>connector secret found. se_registry env (ig_provider ig) = Some connector
    \<and> connector (context_of ig secret) = (found, None) \<and> sy_upserted r = length found
    \<and> (\<forall>key org'. org' \<noteq> ig_org ig \<or> key \<notin> keys_of found \<longrightarrow> at_key org' key (iv_assets db') =
         (if org' \<noteq> ig_org ig then at_key org' key (iv_assets db)
          else map_option (unseen ig (se_clock env 0) (se_clock env (Suc (length found)))) (at_key org' key (iv_assets db))))
    \<and> (\<forall>key \<in> keys_of found. seen_by (ig_id ig) {se_clock env 0..} (at_key (ig_org ig) key (iv_assets db')))"
  using run
proof (cases rule: syncIntegration_cases)
  case (synced connector secret found db1)
  let ?now = "se_clock env (Suc (length found))" and ?t = "se_clock env 0"
  have "se_clock env j \<in> {?t..}" for j using clock[of j] by simp
  note kept = upsert_all_keeps[of env "{?t..}", OF this synced(4)]
  have seen: "seen_by (ig_id ig) {?t..} (at_key (ig_org ig) key (iv_assets db1))" if "key \<in> keys_of found" for key
    by (rule kept[THEN conjunct2, THEN conjunct2, rule_format, OF refl refl that])
  have same: "at_key org' key (iv_assets db1) = at_key org' key (iv_assets db)"
    if "org' \<noteq> ig_org ig \<or> key \<notin> keys_of found" for org' key
    using kept[of org' key, THEN conjunct1] that by (elim disjE) simp_all
  have at: "at_key org' key (iv_assets db') = (if org' = ig_org ig
      then map_option (unseen ig ?t ?now) (at_key org' key (iv_assets db1)) else at_key org' key (iv_assets db1))" for org' key
    unfolding synced(5) by (rule at_key_archiveStale)
  have "seen_by (ig_id ig) {?t..} (at_key (ig_org ig) key (iv_assets db'))" if "key \<in> keys_of found" for key
    using seen_unseen[OF seen[OF that]] unfolding at by simp
  moreover have "at_key org' key (iv_assets db') = (if org' \<noteq> ig_org ig then at_key org' key (iv_assets db)
      else map_option (unseen ig ?t ?now) (at_key org' key (iv_assets db)))"
    if "org' \<noteq> ig_org ig \<or> key \<notin> keys_of found" for org' key
    unfolding at same[OF that] by simp
  ultimately show ?thesis using synced(1,3,7) by blast
next
  case (no_credential e)
  then have "r = snd (sync_failed ig (Some e) None db)" by simp
  then show ?thesis using ok by simp
next
  case (failed connector secret found thrown db1 up err)
  then have "r = snd (sync_failed ig err secret db1)" by simp
  then show ?thesis using ok by simp
qed (use ok in simp)

text \<open>
  C8 (a completed sync is the inventory of its integration). After a sync without an error, every asset that the
  connector yielded is live and belongs to the integration; every other asset of the organisation keeps its
  row, but for those of this integration and source that were last seen before the sync began, which
  are archived; and no other organisation's asset changes.
\<close>

theorem sync_reconciles_inventory:
  assumes run: "syncIntegration env ig db = (db', r)" and ok: "sy_error r = None"
    and clock: "\<And>j. se_clock env 0 \<le> se_clock env j"
  shows "\<exists>connector secret found. se_registry env (ig_provider ig) = Some connector
    \<and> connector (context_of ig secret) = (found, None) \<and> sy_upserted r = length found
    \<and> (\<forall>key org'. org' \<noteq> ig_org ig \<or> key \<notin> keys_of found \<longrightarrow> at_key org' key (iv_assets db') =
         (if org' \<noteq> ig_org ig then at_key org' key (iv_assets db)
          else map_option (unseen ig (se_clock env 0) (se_clock env (Suc (length found)))) (at_key org' key (iv_assets db))))
    \<and> (\<forall>key \<in> keys_of found. seen_by (ig_id ig) {se_clock env 0..} (at_key (ig_org ig) key (iv_assets db')))"
  using assms by (rule completed_sync)

lemma upsert_all_other_tables:
  "upsert_all env org integration k qs db = (db1, e) \<Longrightarrow>
     iv_secrets db1 = iv_secrets db \<and> iv_integrations db1 = iv_integrations db"
proof (induction qs arbitrary: k db)
  case (Cons q qs)
  obtain d r where u: "upsert (se_clock env (Suc k)) (se_newId env k) (se_publish env k) org q (Some integration) db = (d, r)"
    by fastforce
  then show ?case
    using Cons upsert_at_key(2,3)[OF u] by (auto split: sum.splits)
qed simp

lemma failed_sync_record:
  assumes run: "syncIntegration env ig db = (db', r)" and failed: "sy_error r = Some message"
    and registered: "se_registry env (ig_provider ig) \<noteq> None"
  shows "iv_integrations db' = map (\<lambda>i. if ig_id i = ig_id ig \<and> ig_org i = ig_org ig
      then i\<lparr>ig_lastSyncError := Some message\<rparr> else i) (iv_integrations db)"
  using run
proof (cases rule: syncIntegration_cases)
  case (no_credential e)
  then have e: "db' = fst (sync_failed ig (Some e) None db)" "r = snd (sync_failed ig (Some e) None db)"
    by simp_all
  then show ?thesis using failed by (simp add: set_integration_def)
next
  case (failed connector secret found thrown db1 up err)
  then have e: "db' = fst (sync_failed ig err secret db1)" "r = snd (sync_failed ig err secret db1)"
    by simp_all
  then show ?thesis using upsert_all_other_tables[OF failed(4)] assms(2) by (simp add: set_integration_def)
qed (use assms in simp_all)


text \<open>
  A stored sync error never holds the credential. When the credential of an integration was decrypted for
  a sync that fails, the text that is stored and returned does not contain it anywhere, whatever the
  connector's exception says, given that the credential has no bracket and is not part of the marker's word
  (tokens of GitHub consist of letters, digits and underscores).
\<close>

theorem sync_error_hides_credential:
  assumes run: "syncIntegration env ig db = (db', r)" and failed: "sy_error r = Some message"
    and registered: "se_registry env (ig_provider ig) \<noteq> None"
    and credential: "resolved_credential env ig db = Inr (Some secret)"
    and token: "unmarked secret" "secret \<noteq> []"
  shows "\<not> has_infix secret message
    \<and> (\<forall>i \<in> set (iv_integrations db'). ig_id i = ig_id ig \<longrightarrow> ig_org i = ig_org ig \<longrightarrow>
          ig_lastSyncError i = Some message)"
  using run
proof (cases rule: syncIntegration_cases)
  case (failed connector secret' found thrown db1 up err)
  then have "r = snd (sync_failed ig err (Some secret) db1)" "secret' = Some secret" using credential by simp_all
  then have "message = scrubSyncError err (Some secret)" using assms(2) by simp
  then have "\<not> has_infix secret message"
    unfolding scrubSyncError_def by (simp only:) (rule scrubbed_secret_gone[OF token])
  then show ?thesis unfolding failed_sync_record[OF run assms(2) registered] by auto
next
  case unregistered
  then show ?thesis using registered by simp
next
  case (no_credential e)
  then show ?thesis using credential by simp
next
  case (synced connector secret' found db1)
  then show ?thesis using assms(2) by simp
qed



section \<open>Witnesses\<close>

definition repo_request :: "string \<Rightarrow> upsert_request" where
  "repo_request key =
     \<lparr>ur_kind = ''repository'', ur_externalKey = key, ur_name = key, ur_source = ''github'', ur_exposure = None,
      ur_criticality = None, ur_dataClasses = None, ur_ownerTeam = None, ur_ownerEmail = None, ur_tags = None,
      ur_attributes = None\<rparr>"

definition github_integration :: "ident \<Rightarrow> integration_row" where
  "github_integration i =
     \<lparr>ig_id = i, ig_org = ''acme'', ig_provider = ''github'', ig_displayName = ''github:acme'', ig_config = [],
      ig_credentialRef = None, ig_enabled = True, ig_lastSyncAt = None, ig_lastSyncError = None\<rparr>"

definition yielding :: "instant \<Rightarrow> string list \<Rightarrow> string option option \<Rightarrow> sync_env" where
  "yielding t keys thrown =
     \<lparr>se_registry = \<lambda>p. if p = ''github'' then Some (\<lambda>_. (map repo_request keys, thrown)) else None,
      se_cipher = clear_cipher, se_clock = \<lambda>_. t, se_newId = \<lambda>_. ''a1'', se_publish = \<lambda>_. None\<rparr>"

definition empty_inventory :: inventory where
  "empty_inventory = \<lparr>iv_assets = [], iv_events = [], iv_integrations = [github_integration ''i1''], iv_secrets = []\<rparr>"

definition first_sync :: "inventory \<times> sync_result" where
  "first_sync = syncIntegration (yielding 1000 [''github:acme/api''] None) (github_integration ''i1'') empty_inventory"

definition liveness :: "inventory \<Rightarrow> (string \<times> bool) list" where
  "liveness db = map (\<lambda>a. (as_externalKey a, as_archivedAt a = None)) (iv_assets db)"

lemma first_sync_done: "sy_error (snd first_sync) = None" "liveness (fst first_sync) = [(''github:acme/api'', True)]"
  by code_simp+

theorem sync_reconciles_inventory_witness:
  "liveness (fst first_sync) = [(''github:acme/api'', True)] \<and>
   at_key ''acme'' ''github:acme/other'' (iv_assets (fst first_sync)) = None"
proof -
  have run: "syncIntegration (yielding 1000 [''github:acme/api''] None) (github_integration ''i1'') empty_inventory
      = (fst first_sync, snd first_sync)"
    by (simp add: first_sync_def)
  obtain connector secret found where c: "se_registry (yielding 1000 [''github:acme/api''] None) ''github'' = Some connector"
      "connector (context_of (github_integration ''i1'') secret) = (found, None)"
    and other: "\<And>key. key \<notin> keys_of found \<Longrightarrow> at_key ''acme'' key (iv_assets (fst first_sync))
        = map_option (unseen (github_integration ''i1'') 1000 1000) (at_key ''acme'' key (iv_assets empty_inventory))"
    using sync_reconciles_inventory[OF run first_sync_done(1)]
    by (auto simp: yielding_def github_integration_def)
  have "found = [repo_request ''github:acme/api'']" using c by (auto simp: yielding_def)
  then have "''github:acme/other'' \<notin> keys_of found" by (simp add: keys_of_def repo_request_def)
  from other[OF this] have "at_key ''acme'' ''github:acme/other'' (iv_assets (fst first_sync)) = None"
    by (simp add: empty_inventory_def at_key_def)
  then show ?thesis using first_sync_done(2) by blast
qed

definition cut_sync :: "inventory \<times> sync_result" where
  "cut_sync = syncIntegration (yielding 2000 [] (Some (Some ''rate limited''))) (github_integration ''i1'') (fst first_sync)"


definition sealed_row :: secret_row where
  "sealed_row =
     \<lparr>sr_integrationId = ''0a1b2c3d-0000-4000-8000-000000000001'', sr_org = ''acme'',
      sr_sealed = \<lparr>ec_ciphertext = ''ghp_t0ken'', ec_iv = ''iv'',
                   ec_authTag = credentialAad ''acme'' ''0a1b2c3d-0000-4000-8000-000000000001'', ec_keyId = CREDENTIAL_KEY_ID\<rparr>\<rparr>"

definition pasted_integration :: integration_row where
  "pasted_integration = (github_integration ''0a1b2c3d-0000-4000-8000-000000000001'')
     \<lparr>ig_credentialRef := Some ''secret:0a1b2c3d-0000-4000-8000-000000000001''\<rparr>"

definition leaking_sync :: "inventory \<times> sync_result" where
  "leaking_sync = syncIntegration (yielding 1000 [] (Some (Some ''GET /user with ghp_t0ken: 401''))) pasted_integration
     \<lparr>iv_assets = [], iv_events = [], iv_integrations = [pasted_integration], iv_secrets = [sealed_row]\<rparr>"

theorem sync_error_hides_credential_witness:
  "sy_error (snd leaking_sync) = Some ''GET /user with [redacted]: 401'' \<and>
   \<not> has_infix ''ghp_t0ken'' (the (sy_error (snd leaking_sync)))"
proof -
  let ?env = "yielding 1000 [] (Some (Some ''GET /user with ghp_t0ken: 401''))"
  let ?db = "\<lparr>iv_assets = [], iv_events = [], iv_integrations = [pasted_integration], iv_secrets = [sealed_row]\<rparr>"
  have run: "syncIntegration ?env pasted_integration ?db = (fst leaking_sync, snd leaking_sync)"
    by (simp add: leaking_sync_def)
  have err: "sy_error (snd leaking_sync) = Some ''GET /user with [redacted]: 401''" by code_simp
  have cred: "resolved_credential ?env pasted_integration ?db = Inr (Some ''ghp_t0ken'')" by code_simp
  have token: "unmarked ''ghp_t0ken''" by (simp add: unmarked_def)
  have "se_registry ?env (ig_provider pasted_integration) \<noteq> None"
    by (simp add: yielding_def pasted_integration_def github_integration_def)
  from sync_error_hides_credential[OF run err this cred token]
  have "\<not> has_infix ''ghp_t0ken'' ''GET /user with [redacted]: 401''" by blast
  then show ?thesis using err by simp
qed

text \<open>
  An asset that two integrations of an organisation yield belongs to whichever synced last: when that one no
  longer sees it, it is archived although the other still does.
\<close>

definition other_integration :: integration_row where
  "other_integration = github_integration ''i2''"

definition after_second :: inventory where
  "after_second = fst (syncIntegration (yielding 2000 [''github:acme/api''] None) other_integration (fst first_sync))"

lemma shared_asset_archived_by_the_other:
  "liveness after_second = [(''github:acme/api'', True)]"
  "liveness (fst (syncIntegration (yielding 3000 [] None) other_integration after_second)) = [(''github:acme/api'', False)]"
  by code_simp+

end
