(* ===== verification/Integrations.thy ===== *)
theory Integrations
imports Inventory
begin

text \<open>
  Pasted GitHub credentials (\<^verbatim>\<open>apps/asset-service/src/integrations/integrations.service.ts\<close>,
  \<^verbatim>\<open>integration-view.ts\<close>): validating a token, sealing it, connecting, listing and removing integrations.

  The statuses that GitHub answers, fresh identifiers and initialisation vectors are arguments; request
  bodies have passed the schema (an owner is a GitHub login, so that its URI encoding is itself).
\<close>


section \<open>Views (integration-view.ts)\<close>

record integration_view =
  vw_id :: ident
  vw_provider :: string
  vw_displayName :: string
  vw_owner :: string
  vw_ownerType :: string
  vw_enabled :: bool
  vw_hasCredential :: bool
  vw_lastSyncAt :: "instant option"
  vw_lastSyncError :: "string option"

definition config_owner :: "(string \<times> json) list \<Rightarrow> string" where
  "config_owner config = (case map_of config ''owner'' of Some (JStr s) \<Rightarrow> s | _ \<Rightarrow> [])"

definition config_ownerType :: "(string \<times> json) list \<Rightarrow> string" where
  "config_ownerType config =
     (case map_of config ''ownerType'' of Some (JStr s) \<Rightarrow> if s = ''org'' then ''org'' else ''user'' | _ \<Rightarrow> ''user'')"

definition toIntegrationView :: "secret_row list \<Rightarrow> integration_row \<Rightarrow> integration_view" where
  "toIntegrationView secrets ig =
     (let secretRef = (case ig_credentialRef ig of Some r \<Rightarrow> prefix ''secret:'' r | None \<Rightarrow> False)
      in \<lparr>vw_id = ig_id ig, vw_provider = ig_provider ig, vw_displayName = ig_displayName ig,
          vw_owner = config_owner (ig_config ig), vw_ownerType = config_ownerType (ig_config ig),
          vw_enabled = ig_enabled ig,
          vw_hasCredential = (if secretRef then list_ex (\<lambda>r. sr_integrationId r = ig_id ig \<and> sr_org r = ig_org ig) secrets
                              else truthy (ig_credentialRef ig)),
          vw_lastSyncAt = ig_lastSyncAt ig,
          vw_lastSyncError = (if truthy (ig_lastSyncError ig) then Some (scrubText (the (ig_lastSyncError ig)) None)
                              else None)\<rparr>)"


section \<open>Requests (integrations.service.ts)\<close>

text \<open>An error with its title and status.\<close>

type_synonym http_failure = "string \<times> nat"

definition INVALID_TOKEN :: http_failure where "INVALID_TOKEN = (''Invalid GitHub token'', 400)"
definition OWNER_NOT_FOUND :: http_failure where "OWNER_NOT_FOUND = (''GitHub owner not found'', 400)"
definition GITHUB_UNAVAILABLE :: http_failure where "GITHUB_UNAVAILABLE = (''GitHub unavailable'', 503)"
definition NOT_FOUND :: http_failure where "NOT_FOUND = (''Integration not found'', 404)"
definition NOT_STORED :: http_failure where "NOT_STORED = (''GitHub credential could not be stored'', 503)"
definition ALREADY_EXISTS :: http_failure where "ALREADY_EXISTS = (''GitHub integration already exists'', 409)"

definition pasted_github :: "integration_row \<Rightarrow> bool" where
  "pasted_github ig =
     (ig_provider ig = ''github'' \<and> (case ig_credentialRef ig of Some r \<Rightarrow> prefix ''secret:'' r | None \<Rightarrow> False))"

text \<open>Newest first: the table is in insertion order.\<close>

definition list_integrations :: "ident \<Rightarrow> inventory \<Rightarrow> integration_view list" where
  "list_integrations org db =
     map (toIntegrationView (iv_secrets db))
       (rev (filter (\<lambda>i. ig_org i = org \<and> pasted_github i) (iv_integrations db)))"

text \<open>One transaction: where no integration is deleted, the deleted secret is restored. The foreign keys remove
  the integration's secret and clear the reference of its assets.\<close>

definition remove_integration :: "ident \<Rightarrow> ident \<Rightarrow> inventory \<Rightarrow> inventory \<times> (http_failure + unit)" where
  "remove_integration org i db =
     (let hit = (\<lambda>g. ig_id g = i \<and> ig_org g = org \<and> pasted_github g)
      in if \<not> uuid_shaped i \<or> \<not> list_ex hit (iv_integrations db) then (db, Inl NOT_FOUND)
         else (db\<lparr>iv_secrets := filter (\<lambda>r. sr_integrationId r \<noteq> i) (iv_secrets db),
                  iv_integrations := filter (\<lambda>g. \<not> hit g) (iv_integrations db),
                  iv_assets := map (\<lambda>a. if as_integrationId a = Some i then a\<lparr>as_integrationId := None\<rparr> else a)
                                 (iv_assets db)\<rparr>, Inr ()))"

record connect_request =
  cq_owner :: string
  cq_ownerType :: string
  cq_token :: string
  cq_displayName :: "string option"

text \<open>A request to GitHub fails or is answered with a status.\<close>

record connect_env =
  cn_github :: "string \<Rightarrow> nat option"
  cn_uuid :: ident
  cn_iv :: string
  cn_sync :: sync_env

definition assertStatus :: "nat option \<Rightarrow> bool \<Rightarrow> http_failure option" where
  "assertStatus answer owner_phase =
     (case answer of
        None \<Rightarrow> Some GITHUB_UNAVAILABLE
      | Some status \<Rightarrow>
          if status = 401 \<or> status = 403 then Some INVALID_TOKEN
          else if owner_phase \<and> status = 404 then Some OWNER_NOT_FOUND
          else if status < 200 \<or> 300 \<le> status then Some GITHUB_UNAVAILABLE
          else None)"

definition new_integration :: "ident \<Rightarrow> ident \<Rightarrow> connect_request \<Rightarrow> integration_row" where
  "new_integration i org body =
     \<lparr>ig_id = i, ig_org = org, ig_provider = ''github'',
      ig_displayName = (case cq_displayName body of Some d \<Rightarrow> d | None \<Rightarrow> ''github:'' @ cq_owner body),
      ig_config = [(''owner'', JStr (cq_owner body)), (''ownerType'', JStr (cq_ownerType body))],
      ig_credentialRef = Some (''secret:'' @ i), ig_enabled = True, ig_lastSyncAt = None, ig_lastSyncError = None\<rparr>"

text \<open>The unique index on organisation, provider and display name.\<close>

definition integration_exists :: "integration_row \<Rightarrow> inventory \<Rightarrow> bool" where
  "integration_exists ig db =
     list_ex (\<lambda>g. ig_org g = ig_org ig \<and> ig_provider g = ig_provider ig \<and> ig_displayName g = ig_displayName ig)
       (iv_integrations db)"

definition integration_of :: "ident \<Rightarrow> ident \<Rightarrow> inventory \<Rightarrow> integration_row option" where
  "integration_of org i db = find (\<lambda>g. ig_id g = i \<and> ig_org g = org) (iv_integrations db)"

definition connectGitHub ::
    "connect_env \<Rightarrow> ident \<Rightarrow> connect_request \<Rightarrow> inventory \<Rightarrow> inventory \<times> (http_failure + integration_view)" where
  "connectGitHub env org body db =
     (if has_infix (cq_token body) (cq_owner body)
         \<or> (case cq_displayName body of Some d \<Rightarrow> has_infix (cq_token body) d | None \<Rightarrow> False)
      then (db, Inl INVALID_TOKEN)
      else (case assertStatus (cn_github env ''/user'') False of
              Some e \<Rightarrow> (db, Inl e)
            | None \<Rightarrow>
                (case (if cq_ownerType body = ''org''
                       then assertStatus (cn_github env (''/orgs/'' @ cq_owner body)) True else None) of
                   Some e \<Rightarrow> (db, Inl e)
                 | None \<Rightarrow>
                     (case encryptIntegrationSecret (se_cipher (cn_sync env)) (cn_iv env) (cq_token body) org (cn_uuid env) of
                        Inl _ \<Rightarrow> (db, Inl NOT_STORED)
                      | Inr sealed \<Rightarrow>
                          (let ig = new_integration (cn_uuid env) org body in
                           if integration_exists ig db then (db, Inl ALREADY_EXISTS)
                           else
                             (let db1 = db\<lparr>iv_integrations := iv_integrations db @ [ig],
                                          iv_secrets := iv_secrets db @ [\<lparr>sr_integrationId = cn_uuid env, sr_org = org,
                                                                          sr_sealed = sealed\<rparr>]\<rparr>;
                                  db2 = fst (syncIntegration (cn_sync env) ig db1)
                              in (case integration_of org (cn_uuid env) db2 of
                                    None \<Rightarrow> (db2, Inl NOT_FOUND)
                                  | Some g \<Rightarrow> (db2, Inr (toIntegrationView (iv_secrets db2) g)))))))))"


section \<open>A connected token stays sealed\<close>

lemma sync_secrets: "iv_secrets (fst (syncIntegration env ig db)) = iv_secrets db"
  by (auto simp: syncIntegration_def sync_failed_def set_integration_def Let_def
      split: option.splits sum.splits prod.splits dest!: upsert_all_other_tables)

text \<open>What a sync writes to an integration.\<close>

definition sync_written :: "integration_row \<Rightarrow> integration_row \<Rightarrow> bool" where
  "sync_written g g' \<longleftrightarrow> ig_displayName g' = ig_displayName g \<and> ig_config g' = ig_config g \<and> ig_id g' = ig_id g
     \<and> ig_org g' = ig_org g \<and> ig_credentialRef g' = ig_credentialRef g"

lemma sync_integrations:
  assumes run: "syncIntegration env ig db = (db', r)"
  shows "\<exists>f. iv_integrations db' = map f (iv_integrations db) \<and> (\<forall>g. sync_written g (f g)
    \<and> (ig_lastSyncError (f g) = ig_lastSyncError g \<or> ig_lastSyncError (f g) = None
       \<or> (se_registry env (ig_provider ig) \<noteq> None \<and> ig_lastSyncError (f g) = sy_error r \<and> sy_error r \<noteq> None)))"
proof (cases "se_registry env (ig_provider ig) = None")
  case True
  then have "db' = db" using run by (simp add: syncIntegration_def)
  then show ?thesis by (intro exI[of _ id]) (simp add: sync_written_def)
next
  case registered: False
  show ?thesis
  proof (cases "sy_error r")
    case None
    from run show ?thesis
    proof (cases rule: syncIntegration_cases)
      case (synced connector secret found db1)
      show ?thesis unfolding synced(8) upsert_all_other_tables[OF synced(4), THEN conjunct2]
        by (intro exI conjI, rule refl) (auto simp: sync_written_def)
    next
      case (no_credential e)
      then have "r = snd (sync_failed ig (Some e) None db)" by simp
      then show ?thesis using None by simp
    next
      case (failed connector secret found thrown db1 up err)
      then have "r = snd (sync_failed ig err secret db1)" by simp
      then show ?thesis using None by simp
    qed (use registered in simp)
  next
    case (Some message)
    show ?thesis unfolding failed_sync_record[OF run Some registered]
      by (intro exI conjI, rule refl) (use registered in \<open>auto simp: sync_written_def Some\<close>)
  qed
qed

lemma scrub_keeps_hidden:
  assumes "unmarked w" and "\<not> has_infix w raw"
  shows "\<not> has_infix w (scrubText raw None)"
proof
  assume "has_infix w (scrubText raw None)"
  then obtain p where p: "p \<in> set (split_tokens [] raw)" "has_infix w p"
    using unmarked_joined[OF assms(1)] by (auto simp: scrubText_def truthy_def)
  then show False
    using split_tokens_parts[OF p(1)] assms(2) by (auto simp: has_infix_iff intro: sublist_order.order_trans)
qed

lemma github_name_hides:
  assumes "CHR '':'' \<notin> set w" and "\<not> has_infix w ''github''" and "\<not> has_infix w owner"
  shows "\<not> has_infix w (''github:'' @ owner)"
proof
  assume "has_infix w (''github:'' @ owner)"
  then have "sublist w (''github'' @ CHR '':'' # owner)" by (simp add: has_infix_iff)
  then show False using sublist_free_append[OF _ assms(1)] assms(2,3) unfolding has_infix_iff by blast
qed

lemma secret_scheme: "js_lower ''secret:'' = ''secret:''"
  by code_simp

lemma find_appended: "(\<And>x. x \<in> set xs \<Longrightarrow> \<not> P x) \<Longrightarrow> P y \<Longrightarrow> find P (xs @ [y]) = Some y"
  by (induction xs) auto

lemma find_mapped: "(\<And>x. P (f x) = P x) \<Longrightarrow> find P (map f xs) = map_option f (find P xs)"
  by (induction xs) auto

text \<open>
  C14 (a connected token stays sealed). When a pasted token is accepted, the table of secrets holds it sealed
  for the new integration, which reads it back unchanged, and neither the names nor the error in the answer contain
  it, whatever the first sync's connector throws.
\<close>

theorem connected_token_is_sealed:
  assumes run: "connectGitHub env org body db = (db', Inr view)"
    and cipher: "authenticated (se_cipher (cn_sync env))" and org: "CHR '':'' \<notin> set org"
    and uuid: "uuid_shaped (cn_uuid env)" "cn_uuid env \<noteq> []"
    and fresh: "\<forall>s \<in> set (iv_secrets db). sr_integrationId s \<noteq> cn_uuid env"
      "\<forall>g \<in> set (iv_integrations db). ig_id g \<noteq> cn_uuid env"
    and token: "unmarked (cq_token body)" "cq_token body \<noteq> []" "CHR '':'' \<notin> set (cq_token body)"
      "\<not> has_infix (cq_token body) ''github''"
  shows "loadSecretCredential (se_cipher (cn_sync env)) (iv_secrets db') org (cn_uuid env)
           (Some (''secret:'' @ cn_uuid env)) = Inr (cq_token body)
    \<and> \<not> has_infix (cq_token body) (vw_displayName view) \<and> \<not> has_infix (cq_token body) (vw_owner view)
    \<and> (\<forall>m. vw_lastSyncError view = Some m \<longrightarrow> \<not> has_infix (cq_token body) m)"
proof -
  let ?t = "cq_token body" and ?i = "cn_uuid env" and ?se = "cn_sync env"
  let ?ig = "new_integration ?i org body"
  obtain sealed where sealed: "encryptIntegrationSecret (se_cipher ?se) (cn_iv env) ?t org ?i = Inr sealed"
    and hidden: "\<not> has_infix ?t (cq_owner body)" "\<forall>d. cq_displayName body = Some d \<longrightarrow> \<not> has_infix ?t d"
    using run by (auto simp: connectGitHub_def Let_def split: if_splits option.splits sum.splits)
  let ?db1 = "db\<lparr>iv_integrations := iv_integrations db @ [?ig],
      iv_secrets := iv_secrets db @ [\<lparr>sr_integrationId = ?i, sr_org = org, sr_sealed = sealed\<rparr>]\<rparr>"
  obtain db2 r where sync: "syncIntegration ?se ?ig ?db1 = (db2, r)" by fastforce
  obtain g where db': "db' = db2" and g: "integration_of org ?i db2 = Some g" and view: "view = toIntegrationView (iv_secrets db2) g"
    using run sealed sync by (auto simp: connectGitHub_def Let_def split: if_splits option.splits)
  have secrets: "iv_secrets db2 = iv_secrets ?db1" using sync_secrets[of ?se ?ig ?db1] sync by simp
  have opened: "decryptIntegrationSecret (se_cipher ?se) sealed org ?i = Inr ?t"
    using credential_is_bound[OF cipher sealed org org, of ?i] by simp
  have "find (\<lambda>s. sr_integrationId s = ?i \<and> sr_org s = org) (iv_secrets db2)
      = Some \<lparr>sr_integrationId = ?i, sr_org = org, sr_sealed = sealed\<rparr>"
    unfolding secrets by simp (rule find_appended, use fresh(1) in auto)
  then have load: "loadSecretCredential (se_cipher ?se) (iv_secrets db') org ?i (Some (''secret:'' @ ?i)) = Inr ?t"
    using uuid opened secret_scheme by (simp add: loadSecretCredential_def parseSecretCredentialRef_def db')
  obtain f where f: "iv_integrations db2 = map f (iv_integrations ?db1)" "\<And>x. sync_written x (f x)"
      "\<And>x. ig_lastSyncError (f x) = ig_lastSyncError x \<or> ig_lastSyncError (f x) = None
        \<or> (se_registry ?se (ig_provider ?ig) \<noteq> None \<and> ig_lastSyncError (f x) = sy_error r \<and> sy_error r \<noteq> None)"
    using sync_integrations[OF sync] by blast
  have "find (\<lambda>x. ig_id x = ?i \<and> ig_org x = org) (iv_integrations ?db1) = Some ?ig"
    by simp (rule find_appended, use fresh(2) in \<open>auto simp: new_integration_def\<close>)
  moreover have "find (\<lambda>x. ig_id x = ?i \<and> ig_org x = org) (map f (iv_integrations ?db1))
      = map_option f (find (\<lambda>x. ig_id x = ?i \<and> ig_org x = org) (iv_integrations ?db1))"
    by (rule find_mapped) (use f(2) in \<open>simp add: sync_written_def\<close>)
  ultimately have gf: "g = f ?ig" using g unfolding integration_of_def f(1) by simp
  have names: "ig_displayName g = ig_displayName ?ig" "ig_config g = ig_config ?ig"
    using f(2)[of ?ig] by (simp_all add: gf sync_written_def)
  have name: "\<not> has_infix ?t (vw_displayName view)"
    using hidden github_name_hides[OF token(3,4) hidden(1)]
    by (auto simp: view toIntegrationView_def Let_def names new_integration_def split: option.splits)
  have owner: "\<not> has_infix ?t (vw_owner view)"
    using hidden(1) by (simp add: view toIntegrationView_def Let_def names new_integration_def config_owner_def)
  have cred: "resolved_credential ?se ?ig ?db1 = Inr (Some ?t)"
    using load by (simp add: resolved_credential_def new_integration_def db' secrets)
  have stored: "\<not> has_infix ?t m" if "ig_lastSyncError g = Some m" for m
  proof -
    have "sy_error r = Some m" "se_registry ?se (ig_provider ?ig) \<noteq> None"
      using f(3)[of ?ig] that by (auto simp: gf new_integration_def)
    from sync_error_hides_credential[OF sync this cred token(1,2)] show ?thesis by blast
  qed
  have "\<not> has_infix ?t m" if "vw_lastSyncError view = Some m" for m
    using that stored scrub_keeps_hidden[OF token(1)]
    by (auto simp: view toIntegrationView_def Let_def truthy_def split: if_splits option.splits)
  then show ?thesis using load name owner by blast
qed

definition connecting :: "connect_env" where
  "connecting =
     \<lparr>cn_github = \<lambda>_. Some 200, cn_uuid = ''0a1b2c3d-0000-4000-8000-000000000001'', cn_iv = ''iv'',
      cn_sync = yielding 1000 [] (Some (Some ''GET /user with ghp_t0ken: 401''))\<rparr>"

definition paste :: connect_request where
  "paste = \<lparr>cq_owner = ''acme'', cq_ownerType = ''org'', cq_token = ''ghp_t0ken'', cq_displayName = None\<rparr>"

definition shown_error :: "http_failure + integration_view \<Rightarrow> string option" where
  "shown_error r = (case r of Inl _ \<Rightarrow> None | Inr v \<Rightarrow> vw_lastSyncError v)"

theorem connected_token_is_sealed_witness:
  "shown_error (snd (connectGitHub connecting ''acme'' paste (empty_inventory\<lparr>iv_integrations := []\<rparr>)))
     = Some ''GET /user with [redacted]: 401'' \<and>
   loadSecretCredential clear_cipher
     (iv_secrets (fst (connectGitHub connecting ''acme'' paste (empty_inventory\<lparr>iv_integrations := []\<rparr>)))) ''acme''
     (cn_uuid connecting) (Some (''secret:'' @ cn_uuid connecting)) = Inr ''ghp_t0ken''"
proof -
  let ?db = "empty_inventory\<lparr>iv_integrations := []\<rparr>"
  have shown: "shown_error (snd (connectGitHub connecting ''acme'' paste ?db)) = Some ''GET /user with [redacted]: 401''"
    by code_simp
  then obtain view where run: "connectGitHub connecting ''acme'' paste ?db
      = (fst (connectGitHub connecting ''acme'' paste ?db), Inr view)"
    by (cases "snd (connectGitHub connecting ''acme'' paste ?db)") (auto simp: shown_error_def prod_eq_iff)
  have cipher: "authenticated (se_cipher (cn_sync connecting))"
    using clear_authenticated by (simp add: connecting_def yielding_def)
  have uuid: "uuid_shaped (cn_uuid connecting)" by code_simp
  have ne: "cn_uuid connecting \<noteq> []" by (simp add: connecting_def)
  have token: "unmarked (cq_token paste)" "cq_token paste \<noteq> []" "CHR '':'' \<notin> set (cq_token paste)"
      "\<not> has_infix (cq_token paste) ''github''"
    by (simp_all add: paste_def unmarked_def)
  from connected_token_is_sealed[OF run cipher _ uuid ne _ _ token]
  show ?thesis using shown by (simp add: empty_inventory_def connecting_def yielding_def paste_def)
qed

end
