(* ===== verification/AssetGraph.thy ===== *)
theory AssetGraph
imports Inventory
begin

text \<open>
  The asset graph (\<^verbatim>\<open>apps/asset-service/src/assets/asset-graph.service.ts\<close>): the recursive query that walks the
  edges around an asset, the neighbourhood built from it, and the question whether an asset is reachable from the
  internet. The query is the evaluation of a recursive common table expression as SQL defines it: a loop that
  ends when a round adds no row, which a \<^theory_text>\<open>partial_function\<close> writes down without assuming that it does.
\<close>


section \<open>The recursive query\<close>

record graph_node =
  gn_id :: ident
  gn_name :: string
  gn_kind :: string
  gn_exposure :: string
  gn_criticality :: string

record graph_edge =
  ge_from :: ident
  ge_to :: ident
  ge_kind :: string
  ge_confidence :: rat

text \<open>A row of \<^verbatim>\<open>walk\<close>: an edge and its depth. Rows are compared as a whole by \<^verbatim>\<open>UNION\<close>.\<close>

type_synonym walk_row = "graph_edge \<times> nat"

definition seed_rows :: "graph_edge list \<Rightarrow> ident \<Rightarrow> walk_row list" where
  "seed_rows es a = map (\<lambda>e. (e, 1)) (uniq (filter (\<lambda>e. ge_from e = a \<or> ge_to e = a) es))"

definition joins :: "graph_edge \<Rightarrow> graph_edge \<Rightarrow> bool" where
  "joins e w = (ge_from e = ge_to w \<or> ge_to e = ge_from w)"

definition step_rows :: "graph_edge list \<Rightarrow> nat \<Rightarrow> walk_row list \<Rightarrow> walk_row list" where
  "step_rows es depth work =
     concat (map (\<lambda>(w, n). if n < depth then map (\<lambda>e. (e, n + 1)) (filter (\<lambda>e. joins e w) es) else []) work)"

partial_function (option) recursive_rows ::
    "graph_edge list \<Rightarrow> nat \<Rightarrow> walk_row list \<Rightarrow> walk_row list \<Rightarrow> walk_row list option" where
  "recursive_rows es depth result work =
     (if work = [] then Some result
      else (let new = uniq (filter (\<lambda>r. r \<notin> set result) (step_rows es depth work))
            in recursive_rows es depth (result @ new) new))"

declare recursive_rows.simps [code]

definition walk_rows :: "graph_edge list \<Rightarrow> ident \<Rightarrow> nat \<Rightarrow> graph_edge list option" where
  "walk_rows es a depth =
     (let seeds = seed_rows es a in map_option (\<lambda>rows. uniq (map fst rows)) (recursive_rows es depth seeds seeds))"


section \<open>Neighbourhoods\<close>

record edge_row =
  eg_org :: ident
  eg_edge :: graph_edge

definition node_of :: "asset_item \<Rightarrow> graph_node" where
  "node_of a = \<lparr>gn_id = as_id a, gn_name = as_name a, gn_kind = as_kind a, gn_exposure = as_exposure a,
                gn_criticality = as_criticality a\<rparr>"

text \<open>\<^term>\<open>None\<close> would be a query that does not return; an error is the not-found exception.\<close>

definition neighborhood ::
    "asset_item list \<Rightarrow> edge_row list \<Rightarrow> ident \<Rightarrow> ident \<Rightarrow> nat \<Rightarrow> (string + graph_node list \<times> graph_edge list) option" where
  "neighborhood assets edges org a depth =
     (let mine = filter (\<lambda>x. as_org x = org) assets in
      if \<not> list_ex (\<lambda>x. as_id x = a) mine then Some (Inl (''Asset '' @ a @ '' not found''))
      else map_option (\<lambda>rows.
             (let ids = a # concat (map (\<lambda>e. [ge_from e, ge_to e]) rows)
              in Inr (map node_of (filter (\<lambda>x. as_id x \<in> set ids) mine), rows)))
             (walk_rows (map eg_edge (filter (\<lambda>e. eg_org e = org) edges)) a depth))"

definition isInternetReachable :: "asset_item list \<Rightarrow> edge_row list \<Rightarrow> ident \<Rightarrow> ident \<Rightarrow> nat \<Rightarrow> (string + bool) option" where
  "isInternetReachable assets edges org a maxDepth =
     map_option (\<lambda>r. case r of Inl e \<Rightarrow> Inl e
                             | Inr (nodes, _) \<Rightarrow> Inr (list_ex (\<lambda>n. gn_exposure n = ''internet_facing'') nodes))
       (neighborhood assets edges org a maxDepth)"

definition link :: "ident \<Rightarrow> ident \<Rightarrow> ident \<Rightarrow> string \<Rightarrow> rat option \<Rightarrow> edge_row list \<Rightarrow> edge_row list" where
  "link org source dest kind confidence edges =
     (let c = (case confidence of Some q \<Rightarrow> q | None \<Rightarrow> 1);
          hit = (\<lambda>e. eg_org e = org \<and> ge_from (eg_edge e) = source \<and> ge_to (eg_edge e) = dest \<and> ge_kind (eg_edge e) = kind)
      in if list_ex hit edges
         then map (\<lambda>e. if hit e then e\<lparr>eg_edge := (eg_edge e)\<lparr>ge_confidence := c\<rparr>\<rparr> else e) edges
         else edges @ [\<lparr>eg_org = org, eg_edge = \<lparr>ge_from = source, ge_to = dest, ge_kind = kind, ge_confidence = c\<rparr>\<rparr>])"


section \<open>The walk ends\<close>

text \<open>What round \<open>n\<close> finds.\<close>

inductive walked :: "graph_edge list \<Rightarrow> ident \<Rightarrow> nat \<Rightarrow> graph_edge \<Rightarrow> bool" for es a where
  seed: "\<lbrakk>e \<in> set es; ge_from e = a \<or> ge_to e = a\<rbrakk> \<Longrightarrow> walked es a 1 e"
| further: "\<lbrakk>walked es a n w; e \<in> set es; joins e w\<rbrakk> \<Longrightarrow> walked es a (Suc n) e"

inductive_cases walked_SucE: "walked es a (Suc n) e"
inductive_simps walked_0: "walked es a 0 e"
inductive_simps walked_1: "walked es a (Suc 0) e"

lemma walked_pos: "walked es a n e \<Longrightarrow> 0 < n"
  by (induction rule: walked.induct) auto

lemma walked_Suc: "0 < n \<Longrightarrow> walked es a (Suc n) e \<longleftrightarrow> e \<in> set es \<and> (\<exists>w. walked es a n w \<and> joins e w)"
  by (auto elim: walked_SucE intro: walked.further)

lemma set_step_rows:
  assumes "set work = {(e, n) | e. walked es a n e}" and "n < depth" and "0 < n"
  shows "set (step_rows es depth work) = {(e, Suc n) | e. walked es a (Suc n) e}"
proof -
  have "(e, m) \<in> set (step_rows es depth work) \<longleftrightarrow> (\<exists>w. (w, n) \<in> set work \<and> m = Suc n \<and> e \<in> set es \<and> joins e w)" for e m
    using assms(1,2) by (fastforce simp: step_rows_def split: if_splits)
  then show ?thesis using assms(1,3) by (auto simp: walked_Suc)
qed

lemma step_rows_last: "(\<And>w m. (w, m) \<in> set work \<Longrightarrow> m = n) \<Longrightarrow> depth \<le> n \<Longrightarrow> step_rows es depth work = []"
  by (force simp: step_rows_def)

text \<open>Rows that the result already holds are from earlier rounds, so that no row of a new round is dropped.\<close>

lemma recursive_rows_ends:
  assumes "set work = {(e, n) | e. walked es a n e}" and "0 < n"
    and "\<And>e m. (e, m) \<in> set result \<longleftrightarrow> walked es a m e \<and> m \<le> n"
  shows "\<exists>rows. recursive_rows es depth result work = Some rows
    \<and> (\<forall>e m. (e, m) \<in> set rows \<longleftrightarrow> walked es a m e \<and> m \<le> max n depth)"
  using assms
proof (induction "depth - n" arbitrary: n result work)
  case 0
  have none: "step_rows es depth work = []" by (rule step_rows_last[of _ n]) (use 0 in auto)
  have "recursive_rows es depth result work = Some result"
  proof (cases "work = []")
    case False
    have "recursive_rows es depth result work = recursive_rows es depth result []"
      using False by (subst recursive_rows.simps) (simp add: none)
    then show ?thesis by (simp add: recursive_rows.simps[of _ _ _ "[]"])
  qed (simp add: recursive_rows.simps)
  moreover have "max n depth = n" using 0 by simp
  ultimately show ?case using 0 by simp
next
  case (Suc k)
  have deeper: "n < depth" using Suc.hyps(2) by simp
  show ?case
  proof (cases "work = []")
    case True
    have gone: "\<not> walked es a m e" if "n \<le> m" for m e
      using that
    proof (induction m arbitrary: e rule: dec_induct)
      case base
      then show ?case using Suc.prems(1) True by auto
    next
      case (step m)
      then show ?case using Suc.prems(2) by (simp add: walked_Suc)
    qed
    have "recursive_rows es depth result work = Some result" using True by (simp add: recursive_rows.simps)
    moreover have "walked es a m e \<and> m \<le> n \<longleftrightarrow> walked es a m e \<and> m \<le> max n depth" for m e
      using gone[of m e] by (cases "n \<le> m") auto
    ultimately show ?thesis using Suc.prems(3) by simp
  next
    case False
    let ?new = "uniq (filter (\<lambda>r. r \<notin> set result) (step_rows es depth work))"
    have new: "set ?new = {(e, Suc n) | e. walked es a (Suc n) e}"
      using set_step_rows[OF Suc.prems(1) deeper Suc.prems(2)] Suc.prems(3) by auto
    have acc: "(e, m) \<in> set (result @ ?new) \<longleftrightarrow> walked es a m e \<and> m \<le> Suc n" for e m
      using Suc.prems(3)[of e m] unfolding set_append Un_iff new by (auto simp: le_Suc_eq)
    have "\<exists>rows. recursive_rows es depth (result @ ?new) ?new = Some rows
        \<and> (\<forall>e m. (e, m) \<in> set rows \<longleftrightarrow> walked es a m e \<and> m \<le> max (Suc n) depth)"
      by (rule Suc.hyps(1)[OF _ new _ acc]) (use Suc.hyps(2) in simp_all)
    then show ?thesis
      using False deeper by (subst recursive_rows.simps) (simp add: Let_def max_def)
  qed
qed

lemma walk_rows_ends:
  "\<exists>rows. walk_rows es a depth = Some rows \<and> set rows = {e. \<exists>m \<le> max 1 depth. walked es a m e}"
proof -
  let ?s = "seed_rows es a"
  have seeds: "set ?s = {(e, 1) | e. walked es a 1 e}"
    by (auto simp: seed_rows_def walked_1 walked_0)
  have "(e, m) \<in> set ?s \<longleftrightarrow> walked es a m e \<and> m \<le> 1" for e m
    unfolding seeds using walked_pos[of es a m e] by (auto simp: le_Suc_eq walked_0)
  from recursive_rows_ends[OF seeds _ this, of depth]
  obtain rows where "recursive_rows es depth ?s ?s = Some rows"
      "\<forall>e m. (e, m) \<in> set rows \<longleftrightarrow> walked es a m e \<and> m \<le> max 1 depth" by auto
  then show ?thesis by (force simp: walk_rows_def Let_def image_iff)
qed


section \<open>What the walk covers\<close>

text \<open>\<open>leads es k x a\<close>: \<open>k\<close> edges in a row lead from \<open>x\<close> to \<open>a\<close>.\<close>

inductive leads :: "graph_edge list \<Rightarrow> nat \<Rightarrow> ident \<Rightarrow> ident \<Rightarrow> bool" for es where
  here: "leads es 0 x x"
| edge: "\<lbrakk>e \<in> set es; ge_from e = x; leads es k (ge_to e) a\<rbrakk> \<Longrightarrow> leads es (Suc k) x a"

inductive_cases leads_SucE: "leads es (Suc k) x a"
inductive_simps leads_0: "leads es 0 x a"

lemma leads_walked: "leads es (Suc k) x a \<Longrightarrow> \<exists>e. walked es a (Suc k) e \<and> ge_from e = x"
proof (induction k arbitrary: x)
  case 0
  then obtain e where "e \<in> set es" "ge_from e = x" "ge_to e = a" by (auto elim!: leads_SucE simp: leads_0)
  then show ?case using walked.seed[of e es a] by auto
next
  case (Suc k)
  then obtain e where e: "e \<in> set es" "ge_from e = x" "leads es (Suc k) (ge_to e) a" by (auto elim: leads_SucE)
  then obtain w where "walked es a (Suc k) w" "ge_from w = ge_to e" using Suc.IH by blast
  then have "walked es a (Suc (Suc k)) e" using e(1) by (auto intro: walked.further simp: joins_def)
  then show ?case using e(2) by blast
qed

text \<open>
  C20 (the question whether an asset is reachable from the internet is answered, and never too lightly). On any
  edges, cycles included, the recursive query ends after as many rounds as the depth asks for, so every
  question about an asset of the organisation is answered; and where an internet-facing asset of the organisation
  reaches the asset over at most that many edges, the answer is yes.
\<close>

theorem internet_reach_is_answered:
  fixes assets edges org
  defines "es \<equiv> map eg_edge (filter (\<lambda>e. eg_org e = org) edges)"
  assumes exists: "\<exists>x \<in> set assets. as_id x = a \<and> as_org x = org"
  shows "\<exists>answer. isInternetReachable assets edges org a maxDepth = Some (Inr answer)
    \<and> ((\<exists>x \<in> set assets. as_org x = org \<and> as_exposure x = ''internet_facing'' \<and> (\<exists>k \<le> max 1 maxDepth. leads es k (as_id x) a))
        \<longrightarrow> answer)"
proof -
  obtain rows where rows: "walk_rows es a maxDepth = Some rows" "set rows = {e. \<exists>m \<le> max 1 maxDepth. walked es a m e}"
    using walk_rows_ends by blast
  let ?ids = "a # concat (map (\<lambda>e. [ge_from e, ge_to e]) rows)"
  let ?answer = "list_ex (\<lambda>n. gn_exposure n = ''internet_facing'')
      (map node_of (filter (\<lambda>x. as_id x \<in> set ?ids) (filter (\<lambda>x. as_org x = org) assets)))"
  have "isInternetReachable assets edges org a maxDepth = Some (Inr ?answer)"
    using exists rows(1)
    by (auto simp: isInternetReachable_def neighborhood_def Let_def list_ex_iff es_def[symmetric] simp del: set_concat)
  moreover have "as_id x \<in> set ?ids" if k: "k \<le> max 1 maxDepth" and l: "leads es k (as_id x) a" for k x
  proof (cases k)
    case 0
    then show ?thesis using l by (simp add: leads_0)
  next
    case (Suc j)
    then obtain e where "walked es a k e" "ge_from e = as_id x" using leads_walked l by blast
    then have "e \<in> set rows" "ge_from e = as_id x" using rows(2) k by blast+
    then show ?thesis by force
  qed
  ultimately show ?thesis by (fastforce simp: list_ex_iff node_of_def)
qed

definition service :: "ident \<Rightarrow> string \<Rightarrow> asset_item" where
  "service i exposure = (asset_data 0 i ''acme'' (repo_request i) None None)\<lparr>as_exposure := exposure\<rparr>"

definition calls :: "ident \<Rightarrow> ident \<Rightarrow> edge_row" where
  "calls x y = \<lparr>eg_org = ''acme'', eg_edge = \<lparr>ge_from = x, ge_to = y, ge_kind = ''depends_on'', ge_confidence = 1\<rparr>\<rparr>"

definition shop :: "asset_item list" where
  "shop = [service ''web'' ''internet_facing'', service ''api'' ''internal'', service ''db'' ''internal'']"

text \<open>The shop's edges have a cycle.\<close>

definition shop_edges :: "edge_row list" where
  "shop_edges = [calls ''web'' ''api'', calls ''api'' ''db'', calls ''db'' ''api'']"

theorem internet_reach_is_answered_witness:
  "isInternetReachable shop shop_edges ''acme'' ''db'' 4 = Some (Inr True)"
proof -
  let ?es = "map eg_edge (filter (\<lambda>e. eg_org e = ''acme'') shop_edges)"
  have exists: "\<exists>x \<in> set shop. as_id x = ''db'' \<and> as_org x = ''acme''"
    by (simp add: shop_def service_def asset_data_def)
  have "leads ?es 2 ''web'' ''db''"
    unfolding numeral_2_eq_2
    by (rule leads.edge[of "eg_edge (calls ''web'' ''api'')"], simp_all add: shop_edges_def calls_def,
        rule leads.edge[of "eg_edge (calls ''api'' ''db'')"], simp_all add: calls_def leads.here)
  then have "\<exists>x \<in> set shop. as_org x = ''acme'' \<and> as_exposure x = ''internet_facing''
      \<and> (\<exists>k \<le> max 1 4. leads ?es k (as_id x) ''db'')"
    by (intro bexI[of _ "service ''web'' ''internet_facing''"] conjI exI[of _ 2])
      (simp_all add: shop_def service_def asset_data_def)
  then obtain answer where "isInternetReachable shop shop_edges ''acme'' ''db'' 4 = Some (Inr answer)" "answer"
    using internet_reach_is_answered[OF exists, of shop_edges 4] by blast
  then show ?thesis by simp
qed

text \<open>
  The converse fails: a job that only calls an internet-facing service is reported as reachable from the
  internet, although no edge leads to it.
\<close>

lemma caller_counts_as_reachable:
  "isInternetReachable [service ''job'' ''isolated'', service ''web'' ''internet_facing''] [calls ''job'' ''web''] ''acme'' ''job'' 4
     = Some (Inr True)
   \<and> \<not> leads [eg_edge (calls ''job'' ''web'')] (Suc k) ''web'' ''job''"
  by (rule conjI, code_simp) (auto elim!: leads_SucE simp: calls_def)

end
