(* ===== verification/Worker.thy ===== *)
theory Worker
imports ScanLifecycle
begin

text \<open>
  The event bus (\<^verbatim>\<open>libs/events/src/event-bus.ts\<close>) and the scanner worker
  (\<^verbatim>\<open>libs/scanner-sdk/src/scanner-worker.ts\<close>, \<^verbatim>\<open>base-scanner.ts\<close>) with what each scanner service claims to support.

  The stream server, the schemas, a scanner's analysis and the artifact store are arguments. A handler is a
  function on the state of its service; a thrown exception is its message.
\<close>


section \<open>Subjects and streams (events.ts, event-bus.ts)\<close>

definition STREAMS :: "(string \<times> string list) list" where
  "STREAMS =
     [(''CTEM_ASSETS'', [''ctem.asset.>'']), (''CTEM_SCANS'', [''ctem.scan.>'']), (''CTEM_FINDINGS'', [''ctem.finding.>'']),
      (''CTEM_RISK'', [''ctem.risk.>'', ''ctem.policy.>'']), (''CTEM_NOTIFY'', [''ctem.notification.>''])]"

definition SUBJECTS :: "string list" where
  "SUBJECTS =
     [''ctem.asset.discovered'', ''ctem.asset.updated'', ''ctem.asset.archived'', ''ctem.scan.requested'',
      ''ctem.scan.job.dispatched'', ''ctem.scan.job.completed'', ''ctem.scan.completed'', ''ctem.finding.reported'',
      ''ctem.finding.created'', ''ctem.finding.updated'', ''ctem.finding.resolved'', ''ctem.finding.state_changed'',
      ''ctem.risk.rescore_requested'', ''ctem.risk.vuln_packages_observed'', ''ctem.policy.violated'',
      ''ctem.policy.sla_breached'', ''ctem.notification.requested'']"

definition subjectMatches :: "string \<Rightarrow> string \<Rightarrow> bool" where
  "subjectMatches subject pattern =
     (if suffix ''>'' pattern then prefix (butlast pattern) subject else subject = pattern)"

definition stream_for :: "string \<Rightarrow> string + string" where
  "stream_for subject =
     (case find (\<lambda>(name, patterns). list_ex (subjectMatches subject) patterns) STREAMS of
        None \<Rightarrow> Inl (''No stream configured for subject '' @ subject)
      | Some (name, _) \<Rightarrow> Inr name)"

record 'p envelope =
  ev_id :: ident
  ev_subject :: string
  ev_org :: ident
  ev_payload :: 'p

text \<open>A schema parses a payload or throws; a subject without a schema is passed through. The server accepts an
  envelope or throws.\<close>

type_synonym 'p schemas = "string \<Rightarrow> ('p \<Rightarrow> string + 'p) option"

definition parsed :: "'p schemas \<Rightarrow> string \<Rightarrow> 'p \<Rightarrow> string + 'p" where
  "parsed schemas subject payload = (case schemas subject of None \<Rightarrow> Inr payload | Some parse \<Rightarrow> parse payload)"

definition publish ::
    "'p schemas \<Rightarrow> ('p envelope \<Rightarrow> string option) \<Rightarrow> ident \<Rightarrow> string \<Rightarrow> ident \<Rightarrow> 'p \<Rightarrow> string + 'p envelope" where
  "publish schemas server i subject org payload =
     (case parsed schemas subject payload of
        Inl e \<Rightarrow> Inl e
      | Inr p \<Rightarrow>
          (let envelope = \<lparr>ev_id = i, ev_subject = subject, ev_org = org, ev_payload = p\<rparr>
           in (case server envelope of Some e \<Rightarrow> Inl e | None \<Rightarrow> Inr envelope)))"

datatype verdict = Ack | Nak nat

definition nak_delay :: "nat \<Rightarrow> nat" where
  "nak_delay attempt = min (2 ^ attempt * 1000) 60000"

text \<open>The text of a message does not parse (\<^term>\<open>Inl\<close>), or is an envelope.\<close>

definition handleMessage ::
    "'p schemas \<Rightarrow> string \<Rightarrow> ('p envelope \<Rightarrow> 's \<Rightarrow> 's \<times> string option) \<Rightarrow> nat \<Rightarrow> string + 'p envelope \<Rightarrow> 's \<Rightarrow> 's \<times> verdict" where
  "handleMessage schemas subject handler attempt msg s =
     (case msg of
        Inl _ \<Rightarrow> (s, Nak (nak_delay attempt))
      | Inr envelope \<Rightarrow>
          (case parsed schemas subject (ev_payload envelope) of
             Inl _ \<Rightarrow> (s, Nak (nak_delay attempt))
           | Inr p \<Rightarrow>
               (case handler (envelope\<lparr>ev_payload := p\<rparr>) s of
                  (s1, None) \<Rightarrow> (s1, Ack)
                | (s1, Some _) \<Rightarrow> (s1, Nak (nak_delay attempt)))))"

text \<open>The server delivers a message until it is acknowledged or was delivered as often as the consumer allows.\<close>

fun deliveries :: "nat \<Rightarrow> nat \<Rightarrow> (nat \<Rightarrow> 's \<Rightarrow> 's \<times> verdict) \<Rightarrow> 's \<Rightarrow> 's \<times> bool" where
  "deliveries 0 attempt step s = (s, False)"
| "deliveries (Suc left) attempt step s =
     (case step attempt s of
        (s1, Ack) \<Rightarrow> (s1, True)
      | (s1, Nak _) \<Rightarrow> deliveries left (Suc attempt) step s1)"


section \<open>A job (scanner-worker.ts)\<close>

record 'f scan_outcome =
  so_findings :: "'f list"
  so_rawOutput :: "json option"
  so_packages :: "(string \<times> string) list option"

record 'f reported =
  rp_scanId :: ident
  rp_jobId :: ident
  rp_assetId :: ident
  rp_scannerType :: string
  rp_artifactKey :: "string option"
  rp_findings :: "'f list"

datatype 'f worker_msg =
    Packages_observed ident "(string \<times> string) list"
  | Findings_reported ident "'f reported"
  | Job_completed ident job_result

record 'f worker_env =
  we_mkdtemp :: "string option"
  we_execute :: "scan_job_payload \<Rightarrow> string + 'f scan_outcome"
  we_putJson :: "string \<Rightarrow> json \<Rightarrow> string option"
  we_send :: "'f worker_msg \<Rightarrow> string option"
  we_started :: instant
  we_finished :: instant

definition artifact_key :: "scan_job_payload \<Rightarrow> string" where
  "artifact_key job = join_with ''/'' [''org='' @ p_orgId job, ''scan'', p_scanId job, p_jobId job @ ''.json'']"

definition completed :: "'f worker_env \<Rightarrow> scan_job_payload \<Rightarrow> string option \<Rightarrow> string + nat \<Rightarrow> job_result" where
  "completed env job artifactKey res =
     \<lparr>r_jobId = p_jobId job, r_scanId = p_scanId job, r_org = p_orgId job,
      r_status = (case res of Inr _ \<Rightarrow> ''succeeded'' | Inl _ \<Rightarrow> ''failed''),
      r_startedAt = we_started env, r_finishedAt = we_finished env,
      r_artifactKey = (case res of Inr _ \<Rightarrow> artifactKey | Inl _ \<Rightarrow> None),
      r_findingCount = (case res of Inr n \<Rightarrow> n | Inl _ \<Rightarrow> 0),
      r_error = (case res of Inr _ \<Rightarrow> None | Inl e \<Rightarrow> Some e)\<rparr>"

text \<open>The observed packages: best effort, at most 500 of them.\<close>

definition observed_msgs :: "'f worker_env \<Rightarrow> scan_job_payload \<Rightarrow> 'f scan_outcome \<Rightarrow> 'f worker_msg list" where
  "observed_msgs env job res =
     (case so_packages res of
        Some (p # ps) \<Rightarrow>
          (let m = Packages_observed (p_orgId job) (take 500 (p # ps)) in if we_send env m = None then [m] else [])
      | _ \<Rightarrow> [])"

text \<open>The \<^verbatim>\<open>try\<close> block: the messages that were sent and the artifact's key, or the exception.\<close>

definition attempt_job :: "'f worker_env \<Rightarrow> scan_job_payload \<Rightarrow> 'f worker_msg list \<times> (string + string option \<times> nat)" where
  "attempt_job env job =
     (case we_execute env job of
        Inl e \<Rightarrow> ([], Inl e)
      | Inr res \<Rightarrow>
          (case (case so_rawOutput res of
                   None \<Rightarrow> Inr None
                 | Some raw \<Rightarrow> (case we_putJson env (artifact_key job) raw of
                                Some e \<Rightarrow> Inl e | None \<Rightarrow> Inr (Some (artifact_key job)))) of
             Inl e \<Rightarrow> ([], Inl e)
           | Inr artifactKey \<Rightarrow>
               (let observed = observed_msgs env job res;
                    report = Findings_reported (p_orgId job)
                      \<lparr>rp_scanId = p_scanId job, rp_jobId = p_jobId job, rp_assetId = p_assetId job,
                       rp_scannerType = p_scannerType job, rp_artifactKey = artifactKey, rp_findings = so_findings res\<rparr>
                in (case we_send env report of
                      Some e \<Rightarrow> (observed, Inl e)
                    | None \<Rightarrow> (observed @ [report], Inr (artifactKey, length (so_findings res)))))))"

definition runJob :: "'f worker_env \<Rightarrow> scan_job_payload \<Rightarrow> 'f worker_msg list \<times> string option" where
  "runJob env job =
     (case we_mkdtemp env of
        Some e \<Rightarrow> ([], Some e)
      | None \<Rightarrow>
          (case attempt_job env job of
             (sent, r) \<Rightarrow>
               (let result = (case r of Inl e \<Rightarrow> completed env job None (Inl e)
                                      | Inr (key, n) \<Rightarrow> completed env job key (Inr n));
                    m = Job_completed (p_orgId job) result
                in (case we_send env m of
                      Some e \<Rightarrow> (sent, Some e)
                    | None \<Rightarrow> (sent @ [m], None)))))"


section \<open>The scanner services\<close>

definition target_kind :: "scan_job_payload \<Rightarrow> json option" where
  "target_kind job = json_get ''kind'' (p_target job)"

definition kind_in :: "string list \<Rightarrow> scan_job_payload \<Rightarrow> bool" where
  "kind_in kinds job = list_ex (\<lambda>k. target_kind job = Some (JStr k)) kinds"

text \<open>\<^verbatim>\<open>String(kind)\<close> where it can be a name: a string, or an array of one such value.\<close>

fun name_text :: "json \<Rightarrow> string option" where
  "name_text (JStr s) = Some s"
| "name_text (JArr [j]) = name_text j"
| "name_text j = None"

definition asm_supports :: "scan_job_payload \<Rightarrow> bool" where
  "asm_supports job =
     (Option.bind (target_kind job) name_text
        \<in> Some ` set [''domain'', ''host'', ''web_application'', ''api_endpoint'', ''ip_range''])"

definition container_supports :: "scan_job_payload \<Rightarrow> bool" where
  "container_supports = kind_in [''container_image'']"

definition iac_supports :: "scan_job_payload \<Rightarrow> bool" where
  "iac_supports = kind_in [''repository'', ''iac_stack'']"

definition cspm_supports :: "scan_job_payload \<Rightarrow> bool" where
  "cspm_supports = kind_in [''cloud_resource'']"

definition sast_supports :: "scan_job_payload \<Rightarrow> bool" where
  "sast_supports = kind_in [''repository'']"

definition default_supports :: "scan_job_payload \<Rightarrow> bool" where
  "default_supports job = True"

text \<open>The scanners that the services provide, with what each supports.\<close>

definition scanners :: "(string \<times> (scan_job_payload \<Rightarrow> bool)) list" where
  "scanners =
     [(''sca'', default_supports), (''sast'', sast_supports), (''container'', container_supports), (''iac'', iac_supports),
      (''asm'', asm_supports), (''cloud_posture'', cspm_supports)]"

text \<open>The handler of a worker: one stream carries the jobs of all types.\<close>

definition on_job ::
    "'f worker_env \<Rightarrow> string \<times> (scan_job_payload \<Rightarrow> bool) \<Rightarrow> scan_job_payload \<Rightarrow> 'f worker_msg list \<times> string option" where
  "on_job env scanner job =
     (if p_scannerType job \<noteq> fst scanner \<or> \<not> snd scanner job then ([], None) else runJob env job)"

text \<open>Every service has its own durable consumer, so each gets the job.\<close>

definition on_job_everywhere :: "(string \<Rightarrow> 'f worker_env) \<Rightarrow> scan_job_payload \<Rightarrow> ('f worker_msg list \<times> string option) list" where
  "on_job_everywhere env job = map (\<lambda>sc. on_job (env (fst sc)) sc job) scanners"


section \<open>Every planned job is reported once\<close>

lemma json_get_put: "json_get k (JObj (json_put k' v es)) = (if k = k' then Some v else json_get k (JObj es))"
  by (simp add: json_get_def map_of_json_put)

lemma map_of_spread: "map_of (json_spread base es) k = (case map_of (rev es) k of Some v \<Rightarrow> Some v | None \<Rightarrow> map_of base k)"
  unfolding json_spread_def
  by (induction es rule: rev_induct) (auto simp: map_of_json_put split: option.splits)

text \<open>An asset whose attributes leave the kind alone.\<close>

definition plain_kind :: "asset_row \<Rightarrow> bool" where
  "plain_kind a = (case as_attributes a of JObj es \<Rightarrow> ''kind'' \<notin> fst ` set es | _ \<Rightarrow> True)"

lemma kind_of_target: "plain_kind a \<Longrightarrow> json_get ''kind'' (scanJobTarget a) = Some (JStr (as_kind a))"
proof (cases "as_attributes a")
  case (JObj es)
  assume "plain_kind a"
  then have "map_of (rev es) ''kind'' = None" by (simp add: JObj plain_kind_def map_of_eq_None_iff)
  then show ?thesis by (simp add: JObj scanJobTarget_def json_get_def map_of_spread)
qed (simp_all add: scanJobTarget_def json_get_def map_of_spread)

text \<open>The planner's kinds of a scanner type are those its service supports.\<close>

lemma planned_kind_supported:
  assumes "p_scannerType job = t" and "target_kind job = Some (JStr k)" and "k \<in> set (SCANNER_ASSET_KINDS t)"
    and "t \<noteq> ''secrets''" and "(t, supports) \<in> set scanners"
  shows "supports job"
  using assms
  by (auto simp: scanners_def SCANNER_ASSET_KINDS_def default_supports_def sast_supports_def container_supports_def
      iac_supports_def asm_supports_def cspm_supports_def kind_in_def split: if_splits)

lemma scanner_of_planned: "k \<in> set (SCANNER_ASSET_KINDS t) \<Longrightarrow> t \<noteq> ''secrets'' \<Longrightarrow> t \<in> fst ` set scanners"
  by (auto simp: scanners_def SCANNER_ASSET_KINDS_def split: if_splits)

lemma distinct_scanners: "distinct (map fst scanners)"
  by (simp add: scanners_def)

definition completions :: "'f worker_msg list \<Rightarrow> job_result list" where
  "completions ms = List.map_filter (\<lambda>m. case m of Job_completed _ r \<Rightarrow> Some r | _ \<Rightarrow> None) ms"

lemma completions_append [simp]: "completions (xs @ ys) = completions xs @ completions ys"
  by (simp add: completions_def List.map_filter_def)

lemma completions_result [simp]: "completions [Job_completed org r] = [r]" "completions [] = []"
  by (simp_all add: completions_def List.map_filter_simps)

lemma completions_attempt: "completions (fst (attempt_job env job)) = []"
  by (auto simp: attempt_job_def observed_msgs_def completions_def List.map_filter_simps Let_def
      split: sum.splits option.splits list.splits)

lemma runJob_sent:
  assumes "we_mkdtemp env = None" and "\<And>r. we_send env (Job_completed (p_orgId job) r) = None"
  shows "\<exists>r. snd (runJob env job) = None \<and> completions (fst (runJob env job)) = [r]
    \<and> r_jobId r = p_jobId job \<and> r_scanId r = p_scanId job \<and> r_org r = p_orgId job
    \<and> (r_status r = ''succeeded'' \<longleftrightarrow> (\<exists>x. snd (attempt_job env job) = Inr x))
    \<and> (r_status r = ''failed'' \<longleftrightarrow> (\<exists>e. snd (attempt_job env job) = Inl e))"
  using assms completions_attempt[of env job]
  by (cases "attempt_job env job") (auto simp: runJob_def Let_def completed_def split: sum.splits)

lemma concat_single:
  "\<lbrakk>distinct (map fst xs); (k, v) \<in> set xs; \<And>x. x \<in> set xs \<Longrightarrow> fst x \<noteq> k \<Longrightarrow> f x = []\<rbrakk> \<Longrightarrow>
     concat (map f xs) = f (k, v)"
proof (induction xs)
  case (Cons x xs)
  show ?case
  proof (cases "fst x = k")
    case True
    then have "x = (k, v)"
      using Cons.prems(1,2) eq_key_imp_eq_value[of "x # xs" k "snd x" v] by (cases x) auto
    moreover have "f y = []" if "y \<in> set xs" for y
    proof -
      have "k \<notin> fst ` set xs" using Cons.prems(1) True by auto
      then have "fst y \<noteq> k" using that by auto
      then show ?thesis using Cons.prems(3)[of y] that by simp
    qed
    ultimately show ?thesis by simp
  next
    case False
    then show ?thesis using Cons by auto
  qed
qed simp


definition calm_worker :: "string \<Rightarrow> nat worker_env" where
  "calm_worker s =
     \<lparr>we_mkdtemp = None, we_execute = \<lambda>_. Inr \<lparr>so_findings = [1, 2], so_rawOutput = None, so_packages = None\<rparr>,
      we_putJson = \<lambda>_ _. None, we_send = \<lambda>_. None, we_started = 0, we_finished = 5\<rparr>"

definition repo_asset :: "string \<Rightarrow> json \<Rightarrow> asset_row" where
  "repo_asset kind attributes =
     \<lparr>as_id = ''a1'', as_org = ''acme'', as_kind = kind, as_externalKey = ''github:acme/api'', as_attributes = attributes,
      as_tags = [], as_integrationId = None, as_archivedAt = None\<rparr>"

definition one_asset :: "asset_row \<Rightarrow> scan_db" where
  "one_asset a = empty_db\<lparr>assets := [a]\<rparr>"

definition queued_job :: "string \<Rightarrow> job_row" where
  "queued_job t =
     \<lparr>j_id = ''j1'', j_org = ''acme'', j_scanId = ''s1'', j_assetId = ''a1'', j_scannerType = t, j_status = ''queued'',
      j_attempt = 1, j_error = None, j_startedAt = None, j_finishedAt = None, j_artifactKey = None, j_findingCount = 0\<rparr>"

definition calm_dispatch :: dispatch_env where
  "calm_dispatch = quiet_env\<lparr>de_publish_error := \<lambda>_. None\<rparr>"

definition dispatched :: "string \<Rightarrow> asset_row \<Rightarrow> scan_job_payload" where
  "dispatched t a =
     (case publishQueuedJob calm_dispatch ''acme'' ''s1'' (queued_job t) (Some a) t (JObj []) [] of Inr p \<Rightarrow> p | Inl _ \<Rightarrow> undefined)"

lemma dispatched_sent:
  "publishQueuedJob calm_dispatch ''acme'' ''s1'' (queued_job t) (Some a) t (JObj []) [] = Inr (dispatched t a)"
  by (simp add: dispatched_def publishQueuedJob_def calm_dispatch_def Let_def)



section \<open>Jobs that nobody reports\<close>

text \<open>No service scans for secrets: such a job is acknowledged by every worker and reported by none, so that its
  scan, which the planner accepted and the meter counted, never closes.\<close>

theorem secrets_jobs_are_never_reported:
  "p_scannerType job = ''secrets'' \<Longrightarrow>
     concat (map (\<lambda>o1. completions (fst o1)) (on_job_everywhere env job)) = [] \<and>
     list_all (\<lambda>o1. o1 = ([], None)) (on_job_everywhere env job)"
  by (simp add: on_job_everywhere_def scanners_def on_job_def)

lemma secrets_are_planned: "SCANNER_ASSET_KINDS ''secrets'' = [''repository'']"
  by (simp add: SCANNER_ASSET_KINDS_def)

text \<open>
  An attribute called \<^verbatim>\<open>kind\<close> replaces the asset's kind in the target of its jobs: the planned job of a repository
  whose attributes carry one is claimed by no scanner and never reported.
\<close>

theorem kind_attribute_hides_the_job:
  "concat (map (\<lambda>o1. completions (fst o1)) (on_job_everywhere calm_worker
     (dispatched ''sast'' (repo_asset ''repository'' (JObj [(''kind'', JStr ''Repository'')]))))) = []"
  by code_simp

text \<open>A job whose result the bus refuses at each of the three deliveries is dropped: it ran three times and
  its scan stays open.\<close>

definition job_step :: "'f worker_env \<Rightarrow> string \<times> (scan_job_payload \<Rightarrow> bool) \<Rightarrow> scan_job_payload \<Rightarrow> nat
    \<Rightarrow> 'f worker_msg list \<Rightarrow> 'f worker_msg list \<times> verdict" where
  "job_step env scanner job attempt sent =
     handleMessage (\<lambda>_. None) ''ctem.scan.job.dispatched''
       (\<lambda>envelope sent. case on_job env scanner (ev_payload envelope) of (ms, e) \<Rightarrow> (sent @ ms, e)) attempt
       (Inr \<lparr>ev_id = ''e1'', ev_subject = ''ctem.scan.job.dispatched'', ev_org = p_orgId job, ev_payload = job\<rparr>) sent"

lemma deliveries_dropped:
  assumes "\<And>a s. step a s = (f s, Nak (nak_delay a))"
  shows "deliveries left attempt step s = ((f ^^ left) s, False)"
  using assms by (induction left arbitrary: attempt s) (simp_all add: funpow_swap1)

theorem unreported_after_last_delivery:
  assumes "p_scannerType job = fst scanner" and "snd scanner job" and "we_mkdtemp env = None"
    and "\<And>r. we_send env (Job_completed (p_orgId job) r) = Some ''no responders''"
  shows "deliveries 3 1 (job_step env scanner job) []
    = (fst (attempt_job env job) @ fst (attempt_job env job) @ fst (attempt_job env job), False)"
proof -
  have "job_step env scanner job a s = (s @ fst (attempt_job env job), Nak (nak_delay a))" for a s
    using assms
    by (auto simp: job_step_def handleMessage_def parsed_def on_job_def runJob_def Let_def split: prod.splits)
  then have "deliveries 3 1 (job_step env scanner job) [] = (((\<lambda>s. s @ fst (attempt_job env job)) ^^ 3) [], False)"
    by (intro deliveries_dropped)
  then show ?thesis by (simp add: numeral_3_eq_3)
qed

text \<open>Every subject belongs to a stream, and the delay of a redelivery grows to a minute and no further.\<close>

theorem every_subject_has_a_stream: "list_all (\<lambda>s. \<exists>n. stream_for s = Inr n) SUBJECTS"
  by (simp add: SUBJECTS_def stream_for_def STREAMS_def subjectMatches_def suffix_def)

theorem redelivery_is_delayed: "nak_delay n \<le> 60000 \<and> nak_delay n \<le> nak_delay (Suc n) \<and> (6 \<le> n \<longrightarrow> nak_delay n = 60000)"
proof -
  have "(64::nat) \<le> 2 ^ n" if "6 \<le> n" using power_increasing[OF that, of "2::nat"] by simp
  then show ?thesis by (auto simp: nak_delay_def min_def)
qed

end
