(* ===== verification/Address.thy ===== *)
theory Address
imports JsNumber "HOL-Library.Word"
begin

unbundle bit_operations_syntax

text \<open>
  Which addresses the platform dials (\<^verbatim>\<open>apps/asset-service/src/connectors/dns.egress.ts\<close>, and word for word in
  \<^verbatim>\<open>apps/scanner-asm/src/surface.probe.ts\<close>, but for the name in the messages, which is the argument \<open>who\<close>).

  An IPv4 address is a \<^typ>\<open>32 word\<close>: the code's shifts and masks are those of 32-bit integers. The \<^verbatim>\<open>bigint\<close> of an
  IPv6 address is an \<^typ>\<open>int\<close>. \<open>isIP\<close> is what the code uses of \<^verbatim>\<open>node:net\<close>.
\<close>


section \<open>The texts that are addresses (isIP of node:net)\<close>

definition dec_octet :: "string \<Rightarrow> bool" where
  "dec_octet s = (all_digits s \<and> length s \<le> 3 \<and> (s = ''0'' \<or> hd s \<noteq> CHR ''0'') \<and> digits_val s \<le> 255)"

definition is_ipv4 :: "string \<Rightarrow> bool" where
  "is_ipv4 s = (length (split_on CHR ''.'' s) = 4 \<and> list_all dec_octet (split_on CHR ''.'' s))"

definition hex_char :: "char \<Rightarrow> bool" where
  "hex_char c = (hex_val c \<noteq> None)"

definition hex_group :: "string \<Rightarrow> bool" where
  "hex_group s = (s \<noteq> [] \<and> length s \<le> 4 \<and> list_all hex_char s)"

text \<open>\<^verbatim>\<open>s.split('::')\<close>.\<close>

fun split_colons :: "string \<Rightarrow> string list" where
  "split_colons (c # d # s) =
     (if c = CHR '':'' \<and> d = CHR '':'' then [] # split_colons s
      else (case split_colons (d # s) of [] \<Rightarrow> [[c]] | w # ws \<Rightarrow> (c # w) # ws))"
| "split_colons s = [s]"

text \<open>Groups of a run without an omission: an IPv4 tail, where one is allowed, stands for two.\<close>

definition v6_run :: "bool \<Rightarrow> string \<Rightarrow> nat option" where
  "v6_run tail t =
     (let ps = split_on CHR '':'' t
      in if list_all hex_group ps then Some (length ps)
         else if tail \<and> list_all hex_group (butlast ps) \<and> is_ipv4 (List.last ps) then Some (length ps + 1)
         else None)"

definition v6_part :: "bool \<Rightarrow> string \<Rightarrow> nat option" where
  "v6_part tail t = (if t = [] then Some 0 else v6_run tail t)"

definition v6_body :: "string \<Rightarrow> bool" where
  "v6_body s =
     (case split_colons s of
        [t] \<Rightarrow> v6_run True t = Some 8
      | [l, r] \<Rightarrow>
          (case (v6_part False l, v6_part True r) of
             (Some m, Some n) \<Rightarrow> m + n \<le> 7
           | _ \<Rightarrow> False)
      | _ \<Rightarrow> False)"

definition zone_char :: "char \<Rightarrow> bool" where
  "zone_char c = (is_digit c \<or> is_lower c \<or> is_upper c \<or> c \<in> {CHR ''-'', CHR ''.'', CHR '':''})"

definition is_ipv6 :: "string \<Rightarrow> bool" where
  "is_ipv6 s =
     (let zone = dropWhile (\<lambda>c. c \<noteq> CHR ''%'') s
      in v6_body (takeWhile (\<lambda>c. c \<noteq> CHR ''%'') s) \<and> (zone = [] \<or> (tl zone \<noteq> [] \<and> list_all zone_char (tl zone))))"

definition isIP :: "string \<Rightarrow> nat" where
  "isIP s = (if is_ipv4 s then 4 else if is_ipv6 s then 6 else 0)"


section \<open>IPv4\<close>

definition octet_value :: "string \<Rightarrow> nat option" where
  "octet_value p =
     (case js_number p of
        None \<Rightarrow> None
      | Some n \<Rightarrow> if n = of_int \<lfloor>n\<rfloor> \<and> 0 \<le> n \<and> n \<le> 255 then Some (nat \<lfloor>n\<rfloor>) else None)"

definition parseIPv4 :: "string \<Rightarrow> 32 word option" where
  "parseIPv4 ip =
     (case map octet_value (split_on CHR ''.'' ip) of
        [Some a, Some b, Some c, Some d] \<Rightarrow>
          Some (push_bit 24 (of_nat a) OR push_bit 16 (of_nat b) OR push_bit 8 (of_nat c) OR of_nat d)
      | _ \<Rightarrow> None)"

definition inIPv4Prefix :: "32 word \<Rightarrow> 32 word \<Rightarrow> nat \<Rightarrow> bool" where
  "inIPv4Prefix ip net len = (let shift = 32 - len in drop_bit shift ip = drop_bit shift net)"

definition special_blocks :: "(32 word \<times> nat) list" where
  "special_blocks =
     [(0x0a000000, 8), (0xac100000, 12), (0xc0a80000, 16), (0x7f000000, 8), (0xa9fe0000, 16), (0x64400000, 10),
      (0x00000000, 8), (0xe0000000, 4), (0xf0000000, 4), (0xc0000200, 24), (0xc6336400, 24), (0xcb007100, 24)]"

definition isPublicIPv4 :: "string \<Rightarrow> string \<Rightarrow> string + bool" where
  "isPublicIPv4 who ip =
     (case parseIPv4 ip of
        None \<Rightarrow> Inl (who @ '' refused malformed IPv4: '' @ ip)
      | Some n \<Rightarrow>
          Inr (if list_ex (\<lambda>(net, len). inIPv4Prefix n net len) special_blocks then False
               else if ip = ''169.254.169.254'' then False
               else if inIPv4Prefix n 0xc0000000 24 then False
               else if inIPv4Prefix n 0xc0586300 24 then False
               else True))"


section \<open>IPv6\<close>

text \<open>\<^verbatim>\<open>parseInt(part, 16)\<close>; the result is not a number where no digit is found.\<close>

definition parse_int16 :: "string \<Rightarrow> int option" where
  "parse_int16 s =
     (let t = dropWhile js_ws s;
          neg = (t \<noteq> [] \<and> hd t = CHR ''-'');
          u = (if t \<noteq> [] \<and> (hd t = CHR ''-'' \<or> hd t = CHR ''+'') then tl t else t);
          v = (if js_lower (take 2 u) = ''0x'' then drop 2 u else u);
          ds = takeWhile hex_char v
      in if ds = [] then None
         else Some ((if neg then -1 else 1) * int (foldl (\<lambda>n c. 16 * n + the (hex_val c)) 0 ds)))"

text \<open>\<^verbatim>\<open>n.toString(16)\<close>.\<close>

fun hex_text :: "nat \<Rightarrow> string" where
  "hex_text n = (if n < 16 then [hex_digit n] else hex_text (n div 16) @ [hex_digit (n mod 16)])"

declare hex_text.simps [simp del]

definition parseIPv4ToTwo16 :: "string \<Rightarrow> 32 word \<times> 32 word" where
  "parseIPv4ToTwo16 ip =
     (case parseIPv4 ip of
        None \<Rightarrow> (0, 0)
      | Some n \<Rightarrow> (drop_bit 16 n AND 0xffff, n AND 0xffff))"

definition tail_groups :: "string option \<Rightarrow> string list" where
  "tail_groups ipv4Tail =
     (if truthy ipv4Tail then
        (case parseIPv4ToTwo16 (the ipv4Tail) of (hi, lo) \<Rightarrow> [hex_text (unat hi), hex_text (unat lo)])
      else [])"

definition split_off_tail :: "bool \<Rightarrow> string list \<Rightarrow> string list \<times> string option" where
  "split_off_tail hasIpv4Tail ps =
     (if hasIpv4Tail \<and> ps \<noteq> [] then (butlast ps, Some (List.last ps)) else (ps, None))"

definition v6_parts :: "string \<Rightarrow> string list option" where
  "v6_parts lower =
     (let hasIpv4Tail = CHR ''.'' \<in> set lower
      in if has_infix ''::'' lower then
           (case split_colons lower of
              [left, right] \<Rightarrow>
                (let leftParts = (if left = [] then [] else split_on CHR '':'' left);
                     (rightParts, ipv4Tail) = split_off_tail hasIpv4Tail (if right = [] then [] else split_on CHR '':'' right);
                     leftGroups = filter (\<lambda>p. p \<noteq> []) leftParts;
                     rightGroups = filter (\<lambda>p. p \<noteq> []) rightParts;
                     totalGroups = length leftGroups + length rightGroups + (if truthy ipv4Tail then 2 else 0)
                 in if 8 < totalGroups then None
                    else Some (leftGroups @ replicate (8 - totalGroups) ''0'' @ rightGroups @ tail_groups ipv4Tail))
            | _ \<Rightarrow> None)
         else
           (case split_off_tail hasIpv4Tail (split_on CHR '':'' lower) of
              (ps, ipv4Tail) \<Rightarrow>
                if length ps + (if truthy ipv4Tail then 2 else 0) \<noteq> 8 then None
                else Some (ps @ tail_groups ipv4Tail)))"

fun groups_value :: "int \<Rightarrow> string list \<Rightarrow> int option" where
  "groups_value out [] = Some out"
| "groups_value out (p # ps) =
     (case parse_int16 p of
        None \<Rightarrow> None
      | Some n \<Rightarrow> if n < 0 \<or> n > 0xffff then None else groups_value (push_bit 16 out OR n) ps)"

definition unbracketed :: "string \<Rightarrow> string" where
  "unbracketed s = (if s \<noteq> [] \<and> hd s = CHR ''['' \<and> List.last s = CHR '']'' then butlast (tl s) else s)"

definition parseIPv6ToBigInt :: "string \<Rightarrow> int option" where
  "parseIPv6ToBigInt ip =
     (let s = unbracketed (js_trim ip); lower = js_lower s
      in if CHR ''%'' \<in> set s then None
         else if CHR '':'' \<notin> set lower then None
         else (case v6_parts lower of
                 None \<Rightarrow> None
               | Some parts \<Rightarrow> if length parts \<noteq> 8 then None else groups_value 0 parts))"

definition isInBigIntPrefix :: "int \<Rightarrow> int \<Rightarrow> nat \<Rightarrow> bool" where
  "isInBigIntPrefix addr net len = (let shift = 128 - len in drop_bit shift addr = drop_bit shift net)"

text \<open>A constant prefix of the code, which is itself parsed.\<close>

definition in_named_prefix :: "int \<Rightarrow> string \<Rightarrow> nat \<Rightarrow> bool" where
  "in_named_prefix addr net len =
     (case parseIPv6ToBigInt net of None \<Rightarrow> False | Some p \<Rightarrow> isInBigIntPrefix addr p len)"

definition dotted :: "32 word \<Rightarrow> string" where
  "dotted n =
     join_with ''.'' (map (\<lambda>k. string_of_nat (unat (drop_bit k n AND 0xff))) [24, 16, 8, 0])"

definition isPublicIPv6 :: "string \<Rightarrow> string \<Rightarrow> string + bool" where
  "isPublicIPv6 who ip =
     (case parseIPv6ToBigInt ip of
        None \<Rightarrow> Inl (who @ '' refused malformed IPv6: '' @ ip)
      | Some addr \<Rightarrow>
          (let lower = js_lower ip
           in if lower = ''::'' \<or> lower = ''::1'' then Inr False
              else if in_named_prefix addr ''::ffff:0:0'' 96 then
                isPublicIPv4 who (dotted (of_int (addr AND (push_bit 32 1 - 1))))
              else if in_named_prefix addr ''fc00::'' 7 then Inr False
              else if in_named_prefix addr ''fe80::'' 10 then Inr False
              else if in_named_prefix addr ''ff00::'' 8 then Inr False
              else if in_named_prefix addr ''2001:db8::'' 32 then Inr False
              else if in_named_prefix addr ''2001::'' 32 then Inr False
              else Inr True))"

definition isPublicAddress :: "string \<Rightarrow> string \<Rightarrow> string + bool" where
  "isPublicAddress who ip =
     (if isIP ip = 4 then isPublicIPv4 who ip
      else if isIP ip = 6 then isPublicIPv6 who ip
      else Inl (who @ '' refused malformed IP address: '' @ ip))"


section \<open>The value of an IPv4 text\<close>

lemma digit_in: "is_digit c \<Longrightarrow> c \<in> set ''0123456789''"
proof -
  assume "is_digit c"
  then have "ccode c = 48 \<or> ccode c = 49 \<or> ccode c = 50 \<or> ccode c = 51 \<or> ccode c = 52 \<or> ccode c = 53 \<or> ccode c = 54
      \<or> ccode c = 55 \<or> ccode c = 56 \<or> ccode c = 57" unfolding is_digit_def by presburger
  then have "ccode c \<in> ccode ` set ''0123456789''" by (simp add: ccode_def)
  then obtain e where e: "ccode c = ccode e" "e \<in> set ''0123456789''" by blast
  then have "c = e" by (metis char_of_ccode)
  then show ?thesis using e(2) by simp
qed

lemma digit_chars:
  assumes "is_digit c"
  shows "\<not> js_ws c" "c \<noteq> CHR ''-''" "c \<noteq> CHR ''+''" "c \<noteq> CHR ''x''" "c \<noteq> CHR ''o''" "c \<noteq> CHR ''b''" "c \<noteq> CHR ''I''"
    "\<not> is_upper c" "hex_char c" "c \<noteq> CHR ''.''" "c \<noteq> CHR '':''" "c \<noteq> CHR ''%''"
  using digit_in[OF assms] by (auto simp: js_ws_def ccode_def is_upper_def hex_char_def hex_val_def)

lemma trimmed: "(\<And>c. c \<in> set s \<Longrightarrow> \<not> js_ws c) \<Longrightarrow> js_trim s = s"
proof -
  assume clean: "\<And>c. c \<in> set s \<Longrightarrow> \<not> js_ws c"
  have none: "dropWhile js_ws t = t" if "set t \<subseteq> set s" for t
    using that clean by (cases t) auto
  show ?thesis by (simp add: js_trim_def none)
qed

lemma lower_same: "(\<And>c. c \<in> set s \<Longrightarrow> \<not> is_upper c) \<Longrightarrow> js_lower s = s"
  by (induction s) (auto simp: js_lower_def)

lemma js_number_digits:
  assumes "all_digits p"
  shows "js_number p = Some (of_nat (digits_val p))"
proof -
  have dig: "\<And>c. c \<in> set p \<Longrightarrow> is_digit c" and ne: "p \<noteq> []" using assms by (auto simp: all_digits_def list_all_iff)
  have trim: "js_trim p = p" using dig digit_chars(1) by (blast intro: trimmed)
  have low: "js_lower (take 2 p) = take 2 p" using dig digit_chars(8) by (blast intro: lower_same dest: in_set_takeD)
  have radix: "take 2 p \<noteq> CHR ''0'' # [c]" if "\<not> is_digit c" for c
    using dig that by (metis in_set_takeD list.set_intros(1,2))
  have all: "takeWhile is_digit p = p" "dropWhile is_digit p = []" using dig by (auto simp: takeWhile_eq_all_conv)
  have hd: "is_digit (hd p)" using dig ne by simp
  have "hd p \<noteq> CHR ''-''" "hd p \<noteq> CHR ''+''" "p \<noteq> ''Infinity''"
    using digit_chars[OF hd] by auto
  moreover have "\<not> is_digit CHR ''x''" "\<not> is_digit CHR ''o''" "\<not> is_digit CHR ''b''"
    by (simp_all add: is_digit_def ccode_def)
  moreover have "decimal_value p = Some (of_nat (digits_val p))"
    using ne by (simp add: decimal_value_def digits_of_def all exp_part_def)
  ultimately show ?thesis
    using ne radix by (simp add: js_number_def trim low unsigned_value_def)
qed

lemma octet_value_dec: "dec_octet p \<Longrightarrow> octet_value p = Some (digits_val p)"
  by (simp add: octet_value_def dec_octet_def js_number_digits)

abbreviation quad :: "nat \<Rightarrow> nat \<Rightarrow> nat \<Rightarrow> nat \<Rightarrow> nat" where
  "quad a b c d \<equiv> 256 * (256 * (256 * a + b) + c) + d"

lemma or_low: "y < 2 ^ n \<Longrightarrow> push_bit n x OR y = 2 ^ n * x + y" for x y :: nat
proof -
  assume y: "y < 2 ^ n"
  have "\<not> bit (push_bit n x) k \<or> \<not> bit y k" for k
  proof (cases "k < n")
    case True then show ?thesis by (simp add: bit_push_bit_iff)
  next
    case False
    then have "y < 2 ^ k" using y by (meson leI less_le_trans one_le_numeral power_increasing)
    then show ?thesis by (simp add: bit_iff_odd)
  qed
  then have "push_bit n x OR y = push_bit n x + y" by (rule disjunctive_add[symmetric])
  then show ?thesis by (simp add: push_bit_eq_mult mult.commute)
qed

lemma word_of_quad:
  assumes "a \<le> 255" "b \<le> 255" "c \<le> 255" "d \<le> 255"
  shows "(push_bit 24 (of_nat a) OR push_bit 16 (of_nat b) OR push_bit 8 (of_nat c) OR of_nat d :: 32 word) = of_nat (quad a b c d)"
proof -
  have "push_bit 24 a OR push_bit 16 b OR push_bit 8 c OR d = push_bit 8 (push_bit 8 (push_bit 8 a OR b) OR c) OR d"
    by (simp add: push_bit_or or.assoc)
  also have "\<dots> = quad a b c d" using assms by (simp add: or_low)
  finally show ?thesis by (simp only: push_bit_of_nat of_nat_or_eq[symmetric])
qed

lemma quad_bound: "\<lbrakk>a \<le> 255; b \<le> 255; c \<le> 255; d \<le> 255\<rbrakk> \<Longrightarrow> quad a b c d < 2 ^ 32"
  by simp

lemma unat_quad: "\<lbrakk>a \<le> 255; b \<le> 255; c \<le> 255; d \<le> 255\<rbrakk> \<Longrightarrow> unat (of_nat (quad a b c d) :: 32 word) = quad a b c d"
  using quad_bound[of a b c d] by (simp only: unat_of_nat take_bit_eq_mod) (simp del: add_mult_distrib2)

lemma inIPv4Prefix_iff:
  "inIPv4Prefix n p len \<longleftrightarrow> unat n div 2 ^ (32 - len) = unat p div 2 ^ (32 - len)"
  unfolding inIPv4Prefix_def Let_def word_unat_eq_iff unat_drop_bit_eq by (simp add: drop_bit_eq_div)

text \<open>The blocks that are refused, octet by octet.\<close>

definition special_v4 :: "nat \<Rightarrow> nat \<Rightarrow> nat \<Rightarrow> nat \<Rightarrow> bool" where
  "special_v4 a b c d =
     (a \<in> {0, 10, 127} \<or> 224 \<le> a
      \<or> (a = 172 \<and> 16 \<le> b \<and> b \<le> 31) \<or> (a = 192 \<and> b = 168) \<or> (a = 169 \<and> b = 254) \<or> (a = 100 \<and> 64 \<le> b \<and> b \<le> 127)
      \<or> (a = 192 \<and> b = 0 \<and> c \<in> {0, 2}) \<or> (a = 192 \<and> b = 88 \<and> c = 99)
      \<or> (a = 198 \<and> b = 51 \<and> c = 100) \<or> (a = 203 \<and> b = 0 \<and> c = 113))"

lemma div_part: "r < k \<Longrightarrow> (k * q + r) div k = q" for k q r :: nat
  by simp

lemma quad_div:
  assumes "a \<le> 255" "b \<le> 255" "c \<le> 255" "d \<le> 255"
  shows "quad a b c d div 16777216 = a" "quad a b c d div 65536 = 256 * a + b" "quad a b c d div 256 = 65536 * a + 256 * b + c"
    "quad a b c d div 1048576 = 16 * a + b div 16" "quad a b c d div 4194304 = 4 * a + b div 64"
    "quad a b c d div 268435456 = a div 16"
proof -
  show "quad a b c d div 16777216 = a"
    using div_part[of "65536 * b + 256 * c + d" 16777216 a] assms by (simp add: algebra_simps)
  show "quad a b c d div 65536 = 256 * a + b"
    using div_part[of "256 * c + d" 65536 "256 * a + b"] assms by (simp add: algebra_simps)
  show "quad a b c d div 256 = 65536 * a + 256 * b + c"
    using div_part[of d 256 "65536 * a + 256 * b + c"] assms by (simp add: algebra_simps)
  have "quad a (16 * q + r) c d = 1048576 * (16 * a + q) + (65536 * r + 256 * c + d)" for q r
    by (simp add: algebra_simps)
  from this[of "b div 16" "b mod 16"]
  have "quad a b c d = 1048576 * (16 * a + b div 16) + (65536 * (b mod 16) + 256 * c + d)" by simp
  moreover have "65536 * (b mod 16) + 256 * c + d < 1048576" using assms mod_less_divisor[of 16 b] by linarith
  ultimately show "quad a b c d div 1048576 = 16 * a + b div 16" by (metis div_part)
  have "quad a (64 * q + r) c d = 4194304 * (4 * a + q) + (65536 * r + 256 * c + d)" for q r
    by (simp add: algebra_simps)
  from this[of "b div 64" "b mod 64"]
  have "quad a b c d = 4194304 * (4 * a + b div 64) + (65536 * (b mod 64) + 256 * c + d)" by simp
  moreover have "65536 * (b mod 64) + 256 * c + d < 4194304" using assms mod_less_divisor[of 64 b] by linarith
  ultimately show "quad a b c d div 4194304 = 4 * a + b div 64" by (metis div_part)
  have "quad (16 * q + r) b c d = 268435456 * q + (16777216 * r + 65536 * b + 256 * c + d)" for q r
    by (simp add: algebra_simps)
  from this[of "a div 16" "a mod 16"]
  have "quad a b c d = 268435456 * (a div 16) + (16777216 * (a mod 16) + 65536 * b + 256 * c + d)" by simp
  moreover have "16777216 * (a mod 16) + 65536 * b + 256 * c + d < 268435456" using assms mod_less_divisor[of 16 a] by linarith
  ultimately show "quad a b c d div 268435456 = a div 16" by (metis div_part)
qed

lemma base_parts: "y < m \<Longrightarrow> m * x + y = k \<longleftrightarrow> x = k div m \<and> y = k mod m" for x y k :: nat
  by auto

lemma base256: "y \<le> 255 \<Longrightarrow> 256 * x + y = k \<longleftrightarrow> x = k div 256 \<and> y = k mod 256" for x y k :: nat
  by auto

lemma base65536: "\<lbrakk>b \<le> 255; c \<le> 255\<rbrakk> \<Longrightarrow> 65536 * a + 256 * b + c = k \<longleftrightarrow> a = k div 65536 \<and> b = k div 256 mod 256 \<and> c = k mod 256"
  for a b c k :: nat
  using base256[of c "256 * a + b" k] base256[of b a "k div 256"] by (simp add: algebra_simps div_mult2_eq[symmetric])

lemma blocked_iff:
  assumes "a \<le> 255" "b \<le> 255" "c \<le> 255" "d \<le> 255"
  defines "n \<equiv> of_nat (quad a b c d) :: 32 word"
  shows "list_ex (\<lambda>(net, len). inIPv4Prefix n net len) special_blocks \<or> inIPv4Prefix n 0xc0000000 24 \<or> inIPv4Prefix n 0xc0586300 24
    \<longleftrightarrow> special_v4 a b c d"
proof -
  have n: "unat n = quad a b c d" unfolding n_def by (rule unat_quad[OF assms(1-4)])
  note at = inIPv4Prefix_iff n quad_div[OF assms(1-4)]
  have whole: "inIPv4Prefix n 0x0a000000 8 \<longleftrightarrow> a = 10" "inIPv4Prefix n 0x7f000000 8 \<longleftrightarrow> a = 127" "inIPv4Prefix n 0 8 \<longleftrightarrow> a = 0"
    by (simp_all add: at del: distrib_left_numeral)
  have blocks: "inIPv4Prefix n 0xac100000 12 \<longleftrightarrow> 16 * a + b div 16 = 2753" "inIPv4Prefix n 0x64400000 10 \<longleftrightarrow> 4 * a + b div 64 = 401"
    "inIPv4Prefix n 0xe0000000 4 \<longleftrightarrow> a div 16 = 14" "inIPv4Prefix n 0xf0000000 4 \<longleftrightarrow> a div 16 = 15"
    "inIPv4Prefix n 0xc0a80000 16 \<longleftrightarrow> 256 * a + b = 49320" "inIPv4Prefix n 0xa9fe0000 16 \<longleftrightarrow> 256 * a + b = 43518"
    "inIPv4Prefix n 0xc0000200 24 \<longleftrightarrow> 65536 * a + 256 * b + c = 12582914"
    "inIPv4Prefix n 0xc6336400 24 \<longleftrightarrow> 65536 * a + 256 * b + c = 12989284"
    "inIPv4Prefix n 0xcb007100 24 \<longleftrightarrow> 65536 * a + 256 * b + c = 13303921"
    "inIPv4Prefix n 0xc0000000 24 \<longleftrightarrow> 65536 * a + 256 * b + c = 12582912"
    "inIPv4Prefix n 0xc0586300 24 \<longleftrightarrow> 65536 * a + 256 * b + c = 12605539"
    by (simp_all add: at del: distrib_left_numeral)
  have half: "16 * a + b div 16 = 2753 \<longleftrightarrow> a = 172 \<and> 16 \<le> b \<and> b \<le> 31"
    using base_parts[of "b div 16" 16 a 2753] assms(2) by auto
  have tenth: "4 * a + b div 64 = 401 \<longleftrightarrow> a = 100 \<and> 64 \<le> b \<and> b \<le> 127"
    using base_parts[of "b div 64" 4 a 401] assms(2) by auto
  have high: "a div 16 = 14 \<or> a div 16 = 15 \<longleftrightarrow> 224 \<le> a" using assms(1) by auto
  have pairs: "256 * a + b = 49320 \<longleftrightarrow> a = 192 \<and> b = 168" "256 * a + b = 43518 \<longleftrightarrow> a = 169 \<and> b = 254"
    using base256[OF assms(2), of a] by simp_all
  have triples: "65536 * a + 256 * b + c = 12582914 \<longleftrightarrow> a = 192 \<and> b = 0 \<and> c = 2"
    "65536 * a + 256 * b + c = 12989284 \<longleftrightarrow> a = 198 \<and> b = 51 \<and> c = 100"
    "65536 * a + 256 * b + c = 13303921 \<longleftrightarrow> a = 203 \<and> b = 0 \<and> c = 113"
    "65536 * a + 256 * b + c = 12582912 \<longleftrightarrow> a = 192 \<and> b = 0 \<and> c = 0"
    "65536 * a + 256 * b + c = 12605539 \<longleftrightarrow> a = 192 \<and> b = 88 \<and> c = 99"
    using base65536[OF assms(2,3), of a] by simp_all
  show ?thesis
    unfolding special_blocks_def special_v4_def list_ex_Nil_iff list_ex_Cons_iff prod.case whole blocks half tenth pairs triples
      insert_iff empty_iff high[symmetric]
    by argo
qed

lemma parseIPv4_octets:
  assumes "map digits_val (split_on CHR ''.'' s) = [a, b, c, d]" "list_all dec_octet (split_on CHR ''.'' s)"
  shows "parseIPv4 s = Some (of_nat (quad a b c d))" "a \<le> 255" "b \<le> 255" "c \<le> 255" "d \<le> 255"
proof -
  obtain w x y z where parts: "split_on CHR ''.'' s = [w, x, y, z]" using assms(1) by auto
  have oct: "octet_value w = Some a" "octet_value x = Some b" "octet_value y = Some c" "octet_value z = Some d"
    using assms parts octet_value_dec by auto
  show le: "a \<le> 255" "b \<le> 255" "c \<le> 255" "d \<le> 255" using assms parts by (auto simp: dec_octet_def)
  show "parseIPv4 s = Some (of_nat (quad a b c d))"
    using word_of_quad[OF le] by (simp add: parseIPv4_def parts oct)
qed

lemma is_ipv4_octets:
  assumes "is_ipv4 s"
  obtains a b c d where "map digits_val (split_on CHR ''.'' s) = [a, b, c, d]" "list_all dec_octet (split_on CHR ''.'' s)"
  using assms unfolding is_ipv4_def by (auto simp: length_Suc_conv numeral_eq_Suc)

lemma isPublicIPv4_octets:
  assumes "map digits_val (split_on CHR ''.'' s) = [a, b, c, d]" "list_all dec_octet (split_on CHR ''.'' s)"
  shows "isPublicIPv4 who s = Inr (\<not> special_v4 a b c d)"
proof -
  note parsed = parseIPv4_octets[OF assms]
  have "special_v4 a b c d" if "s = ''169.254.169.254''"
  proof -
    have "split_on CHR ''.'' s = [''169'', ''254'', ''169'', ''254'']" using that by simp
    then have "a = 169 \<and> b = 254" using assms(1) by (auto simp: digits_val_def ccode_def)
    then show ?thesis by (simp add: special_v4_def)
  qed
  then show ?thesis
    using blocked_iff[OF parsed(2-)] by (auto simp: isPublicIPv4_def parsed(1))
qed


section \<open>Every accepted IPv6 text has a value\<close>

lemma hex_char_in: "hex_char c \<longleftrightarrow> c \<in> set ''0123456789abcdefABCDEF''"
proof -
  have "index_of x xs \<noteq> None \<longleftrightarrow> x \<in> set xs" for x :: char and xs
    by (induction xs) auto
  then show ?thesis unfolding hex_char_def hex_val_def by (auto split: option.splits)
qed

abbreviation lower_char :: "char \<Rightarrow> char" where
  "lower_char c \<equiv> if is_upper c then char_of (ccode c + 32) else c"

lemma ccode_char_of: "n < 256 \<Longrightarrow> ccode (char_of n) = n"
  by (simp add: ccode_def)

lemma lower_char_mark:
  assumes "\<not> is_lower d" "\<not> is_upper d"
  shows "lower_char c = d \<longleftrightarrow> c = d"
proof -
  have "is_lower (char_of (ccode c + 32))" if "is_upper c"
    using that by (simp add: is_lower_def is_upper_def ccode_char_of)
  then show ?thesis using assms by auto
qed

lemma marks_keep [simp]: "\<not> is_lower CHR '':''" "\<not> is_upper CHR '':''" "\<not> is_lower CHR ''.''" "\<not> is_upper CHR ''.''"
  "\<not> is_lower CHR ''%''" "\<not> is_upper CHR ''%''"
  by (simp_all add: is_lower_def is_upper_def ccode_def)

lemma split_on_map:
  assumes "\<And>c. f c = d \<longleftrightarrow> c = d"
  shows "split_on d (map f s) = map (map f) (split_on d s)"
  using assms by (induction s) (auto split: list.splits)

lemma split_colons_not_Nil [simp]: "split_colons s \<noteq> []"
  by (induction s rule: split_colons.induct) (auto split: list.splits)

lemma split_colons_map:
  assumes "\<And>c. f c = CHR '':'' \<longleftrightarrow> c = CHR '':''"
  shows "split_colons (map f s) = map (map f) (split_colons s)"
  by (induction s rule: split_colons.induct) (use assms in \<open>auto split: list.splits\<close>)

lemma hex_char_lower: "hex_char c \<Longrightarrow> hex_char (lower_char c)"
proof -
  assume "hex_char c"
  then have "c \<in> set ''0123456789abcdefABCDEF''" by (simp only: hex_char_in)
  then have "lower_char c \<in> set ''0123456789abcdefABCDEF''"
    by (simp add: is_upper_def ccode_def) (elim disjE; simp add: char_of_def bit_0)
  then show ?thesis by (simp only: hex_char_in)
qed

lemma hex_group_lower: "hex_group s \<Longrightarrow> hex_group (js_lower s)"
  unfolding hex_group_def js_lower_def list_all_iff set_map length_map map_is_Nil_conv using hex_char_lower by blast

lemma dec_octet_lower: "dec_octet s \<Longrightarrow> js_lower s = s"
  using digit_chars(8) by (intro lower_same) (auto simp: dec_octet_def all_digits_def list_all_iff)

lemma is_ipv4_lower:
  assumes "is_ipv4 s"
  shows "js_lower s = s"
proof -
  have "c = CHR ''.'' \<or> is_digit c" if "c \<in> set s" for c
  proof -
    have "\<exists>p \<in> set (split_on CHR ''.'' s). c = CHR ''.'' \<or> c \<in> set p" using that
      by (induction s) (auto split: list.splits)
    then show ?thesis using assms by (auto simp: is_ipv4_def list_all_iff dec_octet_def all_digits_def)
  qed
  then show ?thesis using digit_chars(8) by (intro lower_same) fastforce
qed

lemma list_all_snoc: "list_all P (butlast xs) \<Longrightarrow> P (List.last xs) \<Longrightarrow> list_all P xs"
  by (induction xs) (auto split: if_splits)

lemma v6_run_lower: "v6_run tail t = Some n \<Longrightarrow> v6_run tail (js_lower t) = Some n"
proof -
  assume run: "v6_run tail t = Some n"
  let ?ps = "split_on CHR '':'' t"
  have split: "split_on CHR '':'' (js_lower t) = map js_lower ?ps"
    unfolding js_lower_def by (rule split_on_map) (rule lower_char_mark, simp_all)
  show ?thesis
  proof (cases "list_all hex_group ?ps")
    case True
    then show ?thesis using run hex_group_lower by (auto simp: v6_run_def split Let_def list_all_iff)
  next
    case False
    then have t: "tail" "list_all hex_group (butlast ?ps)" "is_ipv4 (List.last ?ps)" "n = length ?ps + 1"
      using run by (auto simp: v6_run_def Let_def split: if_splits)
    have ne: "?ps \<noteq> []" by simp
    have "List.last (map js_lower ?ps) = List.last ?ps" using is_ipv4_lower[OF t(3)] by (simp add: last_map)
    moreover have "list_all hex_group (butlast (map js_lower ?ps))"
      using t(2) hex_group_lower by (auto simp: list_all_iff map_butlast[symmetric])
    moreover have "\<not> hex_group (List.last ?ps)" if "is_ipv4 (List.last ?ps)"
      using False t(2) list_all_snoc by blast
    moreover have "List.last (map js_lower ?ps) \<in> set (map js_lower ?ps)" by (rule last_in_set) simp
    ultimately have "\<not> list_all hex_group (map js_lower ?ps)" using t(3) by (metis list_all_iff)
    with \<open>List.last (map js_lower ?ps) = List.last ?ps\<close> \<open>list_all hex_group (butlast (map js_lower ?ps))\<close>
    show ?thesis using t unfolding v6_run_def split Let_def by simp
  qed
qed


lemma v6_part_lower: "v6_part tail t = Some n \<Longrightarrow> v6_part tail (js_lower t) = Some n"
  using v6_run_lower[of tail t n] by (auto simp: v6_part_def js_lower_def split: if_splits)

lemma v6_body_lower:
  assumes "v6_body s"
  shows "v6_body (js_lower s)"
proof -
  have split: "split_colons (js_lower s) = map js_lower (split_colons s)"
    unfolding js_lower_def by (rule split_colons_map) (rule lower_char_mark, simp_all)
  consider t where "split_colons s = [t]" "v6_run True t = Some 8"
    | l r m n where "split_colons s = [l, r]" "v6_part False l = Some m" "v6_part True r = Some n" "m + n \<le> 7"
    using assms by (auto simp: v6_body_def split: list.splits option.splits)
  then show ?thesis
  proof cases
    case 1
    then show ?thesis using v6_run_lower by (simp add: v6_body_def split)
  next
    case 2
    then show ?thesis using v6_part_lower[OF 2(2)] v6_part_lower[OF 2(3)] by (simp add: v6_body_def split)
  qed
qed


text \<open>The groups of a text: eight, each of them a number of 16 bits.\<close>

lemma hex_group_chars: "hex_group p \<Longrightarrow> c \<in> set p \<Longrightarrow> hex_char c"
  by (simp add: hex_group_def list_all_iff)

lemma hex_char_plain: "hex_char c \<Longrightarrow> c \<noteq> CHR ''.'' \<and> c \<noteq> CHR '':'' \<and> c \<noteq> CHR ''%'' \<and> c \<noteq> CHR ''['' \<and> \<not> js_ws c \<and> c \<noteq> CHR ''-'' \<and> c \<noteq> CHR ''+''"
  unfolding hex_char_in by (auto simp: js_ws_def ccode_def)

lemma set_split_on: "c \<in> set s \<Longrightarrow> c = d \<or> (\<exists>p \<in> set (split_on d s). c \<in> set p)"
  by (induction s) (auto split: list.splits)

lemma in_split_on: "p \<in> set (split_on d s) \<Longrightarrow> set p \<subseteq> set s"
  by (induction s arbitrary: p) (fastforce split: list.splits if_splits)+

lemma set_split_colons: "c \<in> set s \<Longrightarrow> c = CHR '':'' \<or> (\<exists>p \<in> set (split_colons s). c \<in> set p)"
  by (induction s rule: split_colons.induct) (auto split: list.splits)

lemma in_split_colons: "p \<in> set (split_colons s) \<Longrightarrow> set p \<subseteq> set s"
  by (induction s arbitrary: p rule: split_colons.induct) (fastforce split: list.splits if_splits)+

lemma has_infix_colons: "has_infix ''::'' s \<longleftrightarrow> 2 \<le> length (split_colons s)"
proof (induction s rule: split_colons.induct)
  case (1 c d s)
  then show ?case by (auto simp: Suc_le_eq split: list.splits)
qed auto

lemma is_ipv4_dot: "is_ipv4 s \<Longrightarrow> CHR ''.'' \<in> set s"
proof -
  assume "is_ipv4 s"
  then have "length (split_on CHR ''.'' s) = 4" by (simp add: is_ipv4_def)
  then show ?thesis using split_on_no_sep[of "CHR ''.''" s] by force
qed

lemma is_ipv4_chars: "is_ipv4 s \<Longrightarrow> c \<in> set s \<Longrightarrow> c = CHR ''.'' \<or> is_digit c"
  using set_split_on[of c s "CHR ''.''"] by (auto simp: is_ipv4_def list_all_iff dec_octet_def all_digits_def)

lemma hex_digit_char: "k < 16 \<Longrightarrow> hex_char (hex_digit k)"
  by (simp add: hex_char_def)

lemma hex_text_group: "n < 65536 \<Longrightarrow> hex_group (hex_text n)"
proof -
  assume n: "n < 65536"
  have "list_all hex_char (hex_text k) \<and> hex_text k \<noteq> []" for k
    by (induction k rule: hex_text.induct) (subst hex_text.simps, auto simp: hex_digit_char)+
  moreover have "length (hex_text n) \<le> 4"
    using n by (simp add: hex_text.simps[of n] hex_text.simps[of "n div 16"] hex_text.simps[of "n div 256"]
        hex_text.simps[of "n div 4096"] div_mult2_eq[symmetric])
  ultimately show ?thesis by (simp add: hex_group_def)
qed

lemma tail_groups_group: "list_all hex_group (tail_groups t)" "length (tail_groups t) = (if truthy t then 2 else 0)"
proof -
  have low: "unat (w AND 0xffff) < 65536" for w :: "32 word"
  proof -
    have "unat (w AND 0xffff) \<le> unat (0xffff :: 32 word)" by (rule word_and_le1[THEN word_le_nat_alt[THEN iffD1]])
    then show ?thesis by simp
  qed
  show "list_all hex_group (tail_groups t)"
    using low hex_text_group by (auto simp: tail_groups_def parseIPv4ToTwo16_def split: option.splits)
  show "length (tail_groups t) = (if truthy t then 2 else 0)"
    by (auto simp: tail_groups_def split: prod.splits)
qed

lemma filter_groups: "list_all hex_group ps \<Longrightarrow> filter (\<lambda>p. p \<noteq> []) ps = ps"
  by (auto simp: hex_group_def list_all_iff intro: filter_True)

lemma no_dot:
  assumes "list_all hex_group (split_on CHR '':'' t)"
  shows "CHR ''.'' \<notin> set t"
  using set_split_on[of "CHR ''.''" t "CHR '':''"] hex_char_plain hex_group_chars assms by (fastforce simp: list_all_iff)

lemma v6_run_cases:
  assumes "v6_run tail t = Some n"
  obtains "list_all hex_group (split_on CHR '':'' t)" "n = length (split_on CHR '':'' t)" "CHR ''.'' \<notin> set t"
  | "tail" "list_all hex_group (butlast (split_on CHR '':'' t))" "is_ipv4 (List.last (split_on CHR '':'' t))"
    "n = length (split_on CHR '':'' t) + 1" "CHR ''.'' \<in> set t"
proof (cases "list_all hex_group (split_on CHR '':'' t)")
  case True
  then show ?thesis using assms that(1) no_dot by (simp add: v6_run_def Let_def)
next
  case False
  then have t: "tail" "list_all hex_group (butlast (split_on CHR '':'' t))" "is_ipv4 (List.last (split_on CHR '':'' t))"
    "n = length (split_on CHR '':'' t) + 1" using assms by (auto simp: v6_run_def Let_def split: if_splits)
  have "set (List.last (split_on CHR '':'' t)) \<subseteq> set t" by (rule in_split_on, rule last_in_set) simp
  then have "CHR ''.'' \<in> set t" using is_ipv4_dot[OF t(3)] by blast
  then show ?thesis using t that(2) by blast
qed

lemma split_colons_single: "split_colons s = [t] \<Longrightarrow> t = s"
  by (induction s arbitrary: t rule: split_colons.induct) (auto split: if_splits list.splits)

lemma truthy_ipv4: "is_ipv4 s \<Longrightarrow> truthy (Some s)"
  using is_ipv4_dot[of s] by (cases s) (auto simp: truthy_def)

lemma v6_parts_single:
  assumes "split_colons s = [t]" "v6_run True t = Some 8"
  shows "\<exists>gs. v6_parts s = Some gs \<and> length gs = 8 \<and> list_all hex_group gs"
proof -
  have t: "t = s" using split_colons_single assms(1) by blast
  have run: "v6_run True s = Some 8" using assms(2) t by simp
  have no: "\<not> has_infix ''::'' s" using has_infix_colons assms(1) by simp
  from run show ?thesis
  proof (cases rule: v6_run_cases)
    case 1
    then show ?thesis using no by (simp add: v6_parts_def Let_def split_off_tail_def tail_groups_def truthy_def)
  next
    case 2
    let ?t = "Some (List.last (split_on CHR '':'' s))"
    have "v6_parts s = Some (butlast (split_on CHR '':'' s) @ tail_groups ?t)"
      using 2 no truthy_ipv4[OF 2(3)] by (simp add: v6_parts_def Let_def split_off_tail_def)
    then show ?thesis using 2 tail_groups_group[of ?t] truthy_ipv4[OF 2(3)] by simp
  qed
qed

lemma v6_part_cases:
  assumes "v6_part tail t = Some n"
  obtains "t = []" "n = 0" | "t \<noteq> []" "v6_run tail t = Some n"
  using assms by (auto simp: v6_part_def split: if_splits)

lemma split_colons_chars:
  assumes "split_colons s = [l, r]"
  shows "set s \<subseteq> {CHR '':''} \<union> set l \<union> set r" "set l \<subseteq> set s" "set r \<subseteq> set s"
  using set_split_colons[of _ s] in_split_colons[of _ s] assms by auto

lemma v6_left:
  assumes "v6_part False l = Some m"
  shows "list_all hex_group (if l = [] then [] else split_on CHR '':'' l)"
    "length (if l = [] then [] else split_on CHR '':'' l) = m" "CHR ''.'' \<notin> set l"
  using assms by (auto elim!: v6_part_cases v6_run_cases)

lemma v6_parts_pair:
  assumes s: "split_colons s = [l, r]" and l: "v6_part False l = Some m" and r: "v6_part True r = Some n" and mn: "m + n \<le> 7"
  shows "\<exists>gs. v6_parts s = Some gs \<and> length gs = 8 \<and> list_all hex_group gs"
proof -
  note left = v6_left[OF l]
  have two: "has_infix ''::'' s" using has_infix_colons s by simp
  have dot: "CHR ''.'' \<in> set s \<longleftrightarrow> CHR ''.'' \<in> set r" using split_colons_chars[OF s] left(3) by auto
  let ?l = "if l = [] then [] else split_on CHR '':'' l" and ?r = "if r = [] then [] else split_on CHR '':'' r"
  have "hex_group ''0''" by (simp add: hex_group_def hex_char_in)
  then have zero: "list_all hex_group (replicate k ''0'')" for k by (simp add: list_all_iff)
  consider "list_all hex_group ?r" "length ?r = n" "CHR ''.'' \<notin> set r"
    | "?r \<noteq> []" "list_all hex_group (butlast ?r)" "is_ipv4 (List.last ?r)" "n = length ?r + 1" "CHR ''.'' \<in> set r"
    using r by (auto elim!: v6_part_cases v6_run_cases)
  then obtain rg t where off: "split_off_tail (CHR ''.'' \<in> set s) ?r = (rg, t)" "list_all hex_group rg"
    "length rg + (if truthy t then 2 else 0) = n"
  proof cases
    case 1
    then show ?thesis using that[of ?r None] by (simp add: split_off_tail_def dot truthy_def del: if_split)
  next
    case 2
    then show ?thesis
      using that[of "butlast ?r" "Some (List.last ?r)"] truthy_ipv4[OF 2(3)]
      by (simp add: split_off_tail_def dot del: if_split split_on_not_Nil)
  qed
  have "v6_parts s = Some (?l @ replicate (8 - (m + n)) ''0'' @ rg @ tail_groups t)"
    using two s off mn left filter_groups[OF left(1)] filter_groups[OF off(2)]
    by (simp add: v6_parts_def Let_def del: if_split)
  moreover have "length (?l @ replicate (8 - (m + n)) ''0'' @ rg @ tail_groups t) = 8"
    using left(2) off(3) mn tail_groups_group(2)[of t] by (simp del: if_split)
  moreover have "list_all hex_group (?l @ replicate (8 - (m + n)) ''0'' @ rg @ tail_groups t)"
    using left(1) off(2) tail_groups_group(1)[of t] zero by (simp del: if_split)
  ultimately show ?thesis by blast
qed


lemma hex_foldl: "\<forall>c \<in> set ds. hex_char c \<Longrightarrow> foldl (\<lambda>n c. 16 * n + the (hex_val c)) k ds < (k + 1) * 16 ^ length ds"
proof (induction ds arbitrary: k)
  case (Cons c ds)
  have "the (hex_val c) < 16"
    using Cons.prems unfolding list.set ball_simps hex_char_in by (auto simp: hex_val_def)
  then have le: "(16 * k + the (hex_val c) + 1) * 16 ^ length ds \<le> (16 * (k + 1)) * 16 ^ length ds"
    by (intro mult_right_mono) simp_all
  have "foldl (\<lambda>n c. 16 * n + the (hex_val c)) (16 * k + the (hex_val c)) ds < (16 * k + the (hex_val c) + 1) * 16 ^ length ds"
    using Cons by simp
  from order_less_le_trans[OF this le] show ?case by (simp add: distrib_right mult.assoc)
qed simp

lemma parse_hex_group:
  assumes "hex_group p"
  obtains n where "parse_int16 p = Some (int n)" "n < 65536"
proof -
  have chars: "\<And>c. c \<in> set p \<Longrightarrow> hex_char c" and p: "p \<noteq> []" "length p \<le> 4" using assms by (auto simp: hex_group_def list_all_iff)
  obtain c q where cq: "p = c # q" using p(1) by (cases p) auto
  have plain: "\<not> js_ws c" "c \<noteq> CHR ''-''" "c \<noteq> CHR ''+''" using hex_char_plain[OF chars, of c] cq by auto
  have x: "js_lower (take 2 p) \<noteq> ''0x''"
  proof
    assume "js_lower (take 2 p) = ''0x''"
    then obtain a b where ab: "take 2 p = [a, b]" "lower_char b = CHR ''x''" by (auto simp: js_lower_def map_eq_Cons_conv)
    then have "hex_char b" using chars by (metis in_set_takeD list.set_intros(1,2))
    then have "hex_char (lower_char b)" by (rule hex_char_lower)
    then show False using ab(2) by (simp add: hex_char_in)
  qed
  have all: "takeWhile hex_char p = p" using chars by (auto simp: takeWhile_eq_all_conv)
  let ?n = "foldl (\<lambda>n c. 16 * n + the (hex_val c)) 0 p"
  have "?n < 16 ^ length p" using hex_foldl[of p 0] chars by simp
  also have "\<dots> \<le> 16 ^ 4" using p(2) by (intro power_increasing) simp_all
  finally have bound: "?n < 65536" by simp
  have "parse_int16 p = Some (int ?n)"
    using plain x all p(1) by (simp add: parse_int16_def Let_def cq)
  then show ?thesis using bound that by blast
qed

lemma or_group: "0 \<le> out \<Longrightarrow> n < 65536 \<Longrightarrow> push_bit 16 out OR int n = 65536 * out + int n"
proof -
  assume "0 \<le> out" and n: "n < 65536"
  then obtain k where k: "out = int k" using nonneg_int_cases by blast
  have "push_bit 16 k OR n = 65536 * k + n" using or_low[of n 16 k] n by simp
  then have "int (push_bit 16 k OR n) = int (65536 * k + n)" by (rule arg_cong)
  then show ?thesis by (simp add: k push_bit_of_nat of_nat_or_eq)
qed

lemma groups_value_total:
  assumes "list_all hex_group gs" "0 \<le> out"
  shows "\<exists>v. groups_value out gs = Some v \<and> out * 65536 ^ length gs \<le> v \<and> v < (out + 1) * 65536 ^ length gs"
  using assms
proof (induction gs arbitrary: out)
  case (Cons p gs)
  obtain n where n: "parse_int16 p = Some (int n)" "n < 65536" using Cons.prems parse_hex_group[of p] by auto
  have out: "push_bit 16 out OR int n = 65536 * out + int n" using or_group Cons.prems(2) n(2) by blast
  obtain v where v: "groups_value (65536 * out + int n) gs = Some v" "(65536 * out + int n) * 65536 ^ length gs \<le> v"
    "v < (65536 * out + int n + 1) * 65536 ^ length gs"
    using Cons.IH[of "65536 * out + int n"] Cons.prems by auto
  have lo: "out * 65536 ^ length (p # gs) \<le> (65536 * out + int n) * 65536 ^ length gs"
    by (simp add: algebra_simps)
  have hi: "(65536 * out + int n + 1) * 65536 ^ length gs \<le> (65536 * out + 65536) * 65536 ^ length gs"
    using n(2) by (intro mult_right_mono) simp_all
  have eq: "(65536 * out + 65536) * 65536 ^ length gs = (out + 1) * 65536 ^ length (p # gs)"
    by (simp add: algebra_simps)
  have "groups_value out (p # gs) = Some v" using n out v(1) by simp
  with order_trans[OF lo v(2)] order_less_le_trans[OF v(3) hi[unfolded eq]] show ?case by blast
qed simp

lemma in_butlast: "x \<in> set u \<Longrightarrow> x = List.last u \<or> x \<in> set (butlast u)"
  by (induction u) auto

lemma v6_text_plain:
  assumes "v6_body s" "c \<in> set s"
  shows "c = CHR '':'' \<or> c = CHR ''.'' \<or> hex_char c"
proof -
  have run: "c = CHR '':'' \<or> c = CHR ''.'' \<or> hex_char c" if "v6_run tail t = Some n" "c \<in> set t" for tail t n
    using that(1)
  proof (cases rule: v6_run_cases)
    case 1
    then show ?thesis using set_split_on[OF that(2), of "CHR '':''"] hex_group_chars by (auto simp: list_all_iff)
  next
    case 2
    show ?thesis using in_butlast[of _ "split_on CHR '':'' t"] set_split_on[OF that(2), of "CHR '':''"] 2 hex_group_chars is_ipv4_chars digit_chars(9)
      by (fastforce simp: list_all_iff)
  qed
  have part: "c = CHR '':'' \<or> c = CHR ''.'' \<or> hex_char c" if "v6_part tail t = Some n" "c \<in> set t" for tail t n
    using that run by (auto elim!: v6_part_cases)
  consider t where "split_colons s = [t]" "v6_run True t = Some 8"
    | l r m n where "split_colons s = [l, r]" "v6_part False l = Some m" "v6_part True r = Some n"
    using assms(1) by (auto simp: v6_body_def split: list.splits option.splits)
  then show ?thesis
  proof cases
    case 1
    then show ?thesis using run assms(2) split_colons_single by blast
  next
    case 2
    then show ?thesis using part assms(2) split_colons_chars(1)[OF 2(1)] by blast
  qed
qed


lemma single_without_colon: "CHR '':'' \<notin> set t \<Longrightarrow> split_colons t = [t]"
  by (induction t rule: split_colons.induct) auto

lemma parseIPv6_total:
  assumes "v6_body s"
  shows "\<exists>v. parseIPv6ToBigInt s = Some v \<and> 0 \<le> v \<and> v < 2 ^ 128"
proof -
  have chars: "c = CHR '':'' \<or> c = CHR ''.'' \<or> hex_char c" if "c \<in> set s" for c
    using v6_text_plain[OF assms that] .
  have ws: "\<not> js_ws c" if "c \<in> set s" for c
    using chars[OF that] hex_char_plain by (auto simp: js_ws_def ccode_def)
  have trim: "js_trim s = s" using ws by (rule trimmed)
  have br: "unbracketed s = s" using chars[OF list.set_sel(1)[of s]] hex_char_plain[of "CHR ''[''"] by (auto simp: unbracketed_def)
  have pc: "CHR ''%'' \<notin> set s" using chars[of "CHR ''%''"] hex_char_plain by auto
  have low: "v6_body (js_lower s)" by (rule v6_body_lower[OF assms])
  have colon: "CHR '':'' \<in> set (js_lower s)"
  proof (rule ccontr)
    assume no: "CHR '':'' \<notin> set (js_lower s)"
    then have "v6_run True (js_lower s) = Some 8"
      using low single_without_colon[OF no] by (simp add: v6_body_def)
    then show False using split_on_no_sep[OF no] by (auto elim!: v6_run_cases)
  qed
  obtain gs where gs: "v6_parts (js_lower s) = Some gs" "length gs = 8" "list_all hex_group gs"
  proof -
    consider t where "split_colons (js_lower s) = [t]" "v6_run True t = Some 8"
      | l r m n where "split_colons (js_lower s) = [l, r]" "v6_part False l = Some m" "v6_part True r = Some n" "m + n \<le> 7"
      using low by (auto simp: v6_body_def split: list.splits option.splits)
    then show ?thesis using that v6_parts_single v6_parts_pair by cases blast+
  qed
  obtain v where v: "groups_value 0 gs = Some v" "0 * 65536 ^ length gs \<le> v" "v < (0 + 1) * 65536 ^ length gs"
    using groups_value_total[OF gs(3), of 0] by auto
  have "parseIPv6ToBigInt s = Some v"
    using gs v pc colon by (simp add: parseIPv6ToBigInt_def Let_def trim br)
  then show ?thesis using v(2,3) gs(2) by simp
qed


section \<open>The classification\<close>

text \<open>The blocks that are refused, by the first groups of an address; what is mapped from IPv4 is judged as that.\<close>

definition special_v6 :: "int \<Rightarrow> bool" where
  "special_v6 v =
     (let g0 = v div 2 ^ 112; g1 = v div 2 ^ 96 mod 65536; w = nat (v mod 2 ^ 32)
      in if v div 2 ^ 32 = 0xffff then special_v4 (w div 16777216) (w div 65536 mod 256) (w div 256 mod 256) (w mod 256)
         else (0xfc00 \<le> g0 \<and> g0 \<le> 0xfdff) \<or> (0xfe80 \<le> g0 \<and> g0 \<le> 0xfebf) \<or> 0xff00 \<le> g0
              \<or> (g0 = 0x2001 \<and> (g1 = 0 \<or> g1 = 0xdb8)))"

lemma named_parts:
  "v6_parts ''::ffff:0:0'' = Some [''0'', ''0'', ''0'', ''0'', ''0'', ''ffff'', ''0'', ''0'']"
  "v6_parts ''fc00::'' = Some [''fc00'', ''0'', ''0'', ''0'', ''0'', ''0'', ''0'', ''0'']"
  "v6_parts ''fe80::'' = Some [''fe80'', ''0'', ''0'', ''0'', ''0'', ''0'', ''0'', ''0'']"
  "v6_parts ''ff00::'' = Some [''ff00'', ''0'', ''0'', ''0'', ''0'', ''0'', ''0'', ''0'']"
  "v6_parts ''2001:db8::'' = Some [''2001'', ''db8'', ''0'', ''0'', ''0'', ''0'', ''0'', ''0'']"
  "v6_parts ''2001::'' = Some [''2001'', ''0'', ''0'', ''0'', ''0'', ''0'', ''0'', ''0'']"
  by (simp_all add: v6_parts_def split_off_tail_def tail_groups_def truthy_def numeral_eq_Suc)

lemmas text_simps = js_ws_def ccode_def js_lower_def is_upper_def hex_char_def hex_val_def

lemma named_groups:
  "parse_int16 ''0'' = Some 0" "parse_int16 ''ffff'' = Some 0xffff" "parse_int16 ''fc00'' = Some 0xfc00"
  "parse_int16 ''fe80'' = Some 0xfe80" "parse_int16 ''ff00'' = Some 0xff00" "parse_int16 ''2001'' = Some 0x2001"
  "parse_int16 ''db8'' = Some 0xdb8"
  by (simp_all add: parse_int16_def text_simps)

lemma named_prefixes:
  "parseIPv6ToBigInt ''::ffff:0:0'' = Some (0xffff * 2 ^ 32)" "parseIPv6ToBigInt ''fc00::'' = Some (0x7e * 2 ^ 121)"
  "parseIPv6ToBigInt ''fe80::'' = Some (0x3fa * 2 ^ 118)" "parseIPv6ToBigInt ''ff00::'' = Some (0xff * 2 ^ 120)"
  "parseIPv6ToBigInt ''2001:db8::'' = Some (0x20010db8 * 2 ^ 96)" "parseIPv6ToBigInt ''2001::'' = Some (0x20010000 * 2 ^ 96)"
  by (simp_all add: parseIPv6ToBigInt_def unbracketed_def js_trim_def js_ws_def ccode_def js_lower_def is_upper_def
      named_parts named_groups)

lemma prefix_at: "isInBigIntPrefix v (k * 2 ^ n) (128 - n) \<longleftrightarrow> v div 2 ^ n = k" if "n \<le> 128"
  using that by (simp add: isInBigIntPrefix_def drop_bit_eq_div Let_def)

lemma named_prefix_iff:
  fixes v :: int
  defines "g0 \<equiv> v div 2 ^ 112" and "g1 \<equiv> v div 2 ^ 96 mod 65536"
  shows "in_named_prefix v ''::ffff:0:0'' 96 \<longleftrightarrow> v div 2 ^ 32 = 0xffff"
    "in_named_prefix v ''fc00::'' 7 \<longleftrightarrow> 0xfc00 \<le> g0 \<and> g0 \<le> 0xfdff"
    "in_named_prefix v ''fe80::'' 10 \<longleftrightarrow> 0xfe80 \<le> g0 \<and> g0 \<le> 0xfebf"
    "in_named_prefix v ''ff00::'' 8 \<longleftrightarrow> 0xff00 \<le> g0 \<and> g0 \<le> 0xffff"
    "in_named_prefix v ''2001:db8::'' 32 \<longleftrightarrow> g0 = 0x2001 \<and> g1 = 0xdb8"
    "in_named_prefix v ''2001::'' 32 \<longleftrightarrow> g0 = 0x2001 \<and> g1 = 0"
proof -
  have up: "v div 2 ^ 121 = g0 div 512" "v div 2 ^ 118 = g0 div 64" "v div 2 ^ 120 = g0 div 256"
    by (simp_all add: g0_def zdiv_zmult2_eq[symmetric])
  have "g0 = v div 2 ^ 96 div 65536" by (simp add: g0_def zdiv_zmult2_eq[symmetric])
  then have whole: "v div 2 ^ 96 = 65536 * g0 + g1" by (simp add: g1_def)
  have g1: "0 \<le> g1" "g1 < 65536" by (simp_all add: g1_def)
  note at = prefix_at[where v = v]
  have member: "in_named_prefix v ''::ffff:0:0'' 96 \<longleftrightarrow> v div 2 ^ 32 = 0xffff" "in_named_prefix v ''fc00::'' 7 \<longleftrightarrow> g0 div 512 = 0x7e"
    "in_named_prefix v ''fe80::'' 10 \<longleftrightarrow> g0 div 64 = 0x3fa" "in_named_prefix v ''ff00::'' 8 \<longleftrightarrow> g0 div 256 = 0xff"
    "in_named_prefix v ''2001:db8::'' 32 \<longleftrightarrow> 65536 * g0 + g1 = 0x20010db8"
    "in_named_prefix v ''2001::'' 32 \<longleftrightarrow> 65536 * g0 + g1 = 0x20010000"
    unfolding in_named_prefix_def named_prefixes option.case
    using at[where n = 32 and k = "0xffff"] at[where n = 121 and k = "0x7e"] at[where n = 118 and k = "0x3fa"]
      at[where n = 120 and k = "0xff"] at[where n = 96 and k = "0x20010db8"] at[where n = 96 and k = "0x20010000"]
    unfolding up whole by simp_all
  show "in_named_prefix v ''::ffff:0:0'' 96 \<longleftrightarrow> v div 2 ^ 32 = 0xffff" by (rule member)
  show "in_named_prefix v ''fc00::'' 7 \<longleftrightarrow> 0xfc00 \<le> g0 \<and> g0 \<le> 0xfdff" unfolding member by presburger
  show "in_named_prefix v ''fe80::'' 10 \<longleftrightarrow> 0xfe80 \<le> g0 \<and> g0 \<le> 0xfebf" unfolding member by presburger
  show "in_named_prefix v ''ff00::'' 8 \<longleftrightarrow> 0xff00 \<le> g0 \<and> g0 \<le> 0xffff" unfolding member by presburger
  have unique: "x = y \<and> r = q" if "65536 * x + r = 65536 * y + q" "0 \<le> r" "r < 65536" "0 \<le> q" "q < 65536" for x y r q :: int
  proof -
    have "\<not> x < y" "\<not> y < x" using that by linarith+
    then have "x = y" by simp
    then show ?thesis using that(1) by simp
  qed
  have parts: "65536 * g0 + g1 = 65536 * a + b \<longleftrightarrow> g0 = a \<and> g1 = b" if "0 \<le> b" "b < 65536" for a b
    using unique[of g0 g1 a b] g1 that by blast
  show "in_named_prefix v ''2001:db8::'' 32 \<longleftrightarrow> g0 = 0x2001 \<and> g1 = 0xdb8" using member(5) parts[of "0xdb8" "0x2001"] by simp
  show "in_named_prefix v ''2001::'' 32 \<longleftrightarrow> g0 = 0x2001 \<and> g1 = 0" using member(6) parts[of 0 "0x2001"] by simp
qed


lemma digit_text: "d < 10 \<Longrightarrow> is_digit (char_of (48 + d)) \<and> ccode (char_of (48 + d)) = 48 + d"
  by (simp add: is_digit_def ccode_char_of)

lemma all_digits_nat: "all_digits (string_of_nat n) \<and> digits_val (string_of_nat n) = n"
proof (induction n rule: string_of_nat.induct)
  case (1 n)
  have snoc: "digits_val (xs @ [c]) = 10 * digits_val xs + (ccode c - 48)" for xs c by (simp add: digits_val_def)
  show ?case
  proof (cases "n < 10")
    case True
    then show ?thesis using digit_text[of n] snoc[of "[]"] by (simp add: string_of_nat.simps[of n] all_digits_def digits_val_def)
  next
    case False
    then show ?thesis using 1 digit_text[of "n mod 10"] by (simp add: string_of_nat.simps[of n] all_digits_def snoc)
  qed
qed

lemma hd_string_of_nat: "0 < n \<Longrightarrow> hd (string_of_nat n) \<noteq> CHR ''0''"
proof (induction n rule: string_of_nat.induct)
  case (1 n)
  show ?case
  proof (cases "n < 10")
    case True
    have "ccode CHR ''0'' = 48" by (simp add: ccode_def)
    then show ?thesis using True 1(2) digit_text[of n] by (auto simp: string_of_nat.simps[of n])
  next
    case False
    have "string_of_nat (n div 10) \<noteq> []" using all_digits_nat[of "n div 10"] by (simp add: all_digits_def)
    then show ?thesis using 1(1) False by (simp add: string_of_nat.simps[of n])
  qed
qed

lemma dec_octet_nat: "n \<le> 255 \<Longrightarrow> dec_octet (string_of_nat n) \<and> digits_val (string_of_nat n) = n"
proof -
  assume n: "n \<le> 255"
  have "length (string_of_nat n) \<le> 3"
    using n by (simp add: string_of_nat.simps[of n] string_of_nat.simps[of "n div 10"] string_of_nat.simps[of "n div 100"]
        div_mult2_eq[symmetric])
  moreover have "n = 0 \<Longrightarrow> string_of_nat n = ''0''" by (simp add: string_of_nat.simps char_of_def bit_0)
  ultimately show ?thesis using n all_digits_nat[of n] hd_string_of_nat[of n] by (auto simp: dec_octet_def)
qed

lemma word_octets:
  fixes n :: "32 word"
  shows "unat (drop_bit 24 n AND 0xff) = unat n div 16777216" "unat (drop_bit 16 n AND 0xff) = unat n div 65536 mod 256"
    "unat (drop_bit 8 n AND 0xff) = unat n div 256 mod 256" "unat (drop_bit 0 n AND 0xff) = unat n mod 256"
proof -
  have low: "unat (w AND 0xff) = unat w mod 256" for w :: "32 word"
  proof -
    have "w AND 0xff = take_bit 8 w" by (simp add: take_bit_eq_mask mask_eq_exp_minus_1)
    then show ?thesis unfolding \<open>w AND 0xff = take_bit 8 w\<close> unsigned_take_bit_eq by (simp add: take_bit_eq_mod)
  qed
  have "unat n < 2 ^ 32" using unsigned_less[of n] by simp
  then have top: "unat n div 16777216 mod 256 = unat n div 16777216" by (simp add: less_mult_imp_div_less)
  show "unat (drop_bit 24 n AND 0xff) = unat n div 16777216" "unat (drop_bit 16 n AND 0xff) = unat n div 65536 mod 256"
    "unat (drop_bit 8 n AND 0xff) = unat n div 256 mod 256" "unat (drop_bit 0 n AND 0xff) = unat n mod 256"
    unfolding low unat_drop_bit_eq using top by (simp_all add: drop_bit_eq_div)
qed

lemma isPublicIPv4_dotted:
  fixes n :: "32 word"
  defines "w \<equiv> unat n"
  shows "isPublicIPv4 who (dotted n) = Inr (\<not> special_v4 (w div 16777216) (w div 65536 mod 256) (w div 256 mod 256) (w mod 256))"
proof -
  let ?os = "[w div 16777216, w div 65536 mod 256, w div 256 mod 256, w mod 256]"
  have dotted: "dotted n = join_with [CHR ''.''] (map string_of_nat ?os)"
    unfolding dotted_def list.map word_octets w_def by simp
  have "w < 2 ^ 32" using unsigned_less[of n] by (simp add: w_def)
  then have le: "\<forall>k \<in> set ?os. k \<le> 255" by (auto simp: less_mult_imp_div_less)
  have "\<forall>x \<in> set (map string_of_nat ?os). CHR ''.'' \<notin> set x"
    using all_digits_nat digit_chars(10) by (fastforce simp: all_digits_def list_all_iff)
  then have split: "split_on CHR ''.'' (dotted n) = map string_of_nat ?os"
    unfolding dotted by (intro split_on_join) simp_all
  have "map digits_val (split_on CHR ''.'' (dotted n)) = ?os" "list_all dec_octet (split_on CHR ''.'' (dotted n))"
    unfolding split using le dec_octet_nat by (simp_all add: list_all_iff)
  then show ?thesis by (rule isPublicIPv4_octets)
qed

lemma isPublicIPv6_value:
  assumes v: "parseIPv6ToBigInt s = Some v" "0 \<le> v" "v < 2 ^ 128"
  shows "isPublicIPv6 who s = Inr (js_lower s \<noteq> ''::'' \<and> js_lower s \<noteq> ''::1'' \<and> \<not> special_v6 v)"
proof -
  have "v AND (push_bit 32 1 - 1) = take_bit 32 v"
    by (simp add: take_bit_eq_mask mask_eq_exp_minus_1 push_bit_eq_mult)
  then have low: "v AND (push_bit 32 1 - 1) = v mod 2 ^ 32" by (simp add: take_bit_eq_mod)
  have w: "unat (of_int (v mod 2 ^ 32) :: 32 word) = nat (v mod 2 ^ 32)"
    by (simp add: unsigned_of_int take_bit_eq_mod)
  have "v div 2 ^ 112 \<le> (2 ^ 128 - 1) div 2 ^ 112" by (rule zdiv_mono1) (use v(3) in simp_all)
  then have top: "v div 2 ^ 112 \<le> 0xffff" by simp
  show ?thesis
    unfolding isPublicIPv6_def v(1) option.case Let_def named_prefix_iff low isPublicIPv4_dotted w special_v6_def
    using top by auto
qed

lemma kept_by_trim: "c \<in> set s \<Longrightarrow> \<not> js_ws c \<Longrightarrow> c \<in> set (js_trim s)"
proof -
  assume c: "c \<in> set s" "\<not> js_ws c"
  have drop: "c \<in> set (dropWhile js_ws t)" if "c \<in> set t" for t
    using that c(2) by (induction t) auto
  show ?thesis using drop drop[OF c(1)] by (simp add: js_trim_def)
qed

lemma zone_refused: "CHR ''%'' \<in> set s \<Longrightarrow> parseIPv6ToBigInt s = None"
proof -
  assume "CHR ''%'' \<in> set s"
  then have t: "CHR ''%'' \<in> set (js_trim s)" by (rule kept_by_trim) (simp add: js_ws_def ccode_def)
  have "CHR ''%'' \<in> set (unbracketed t)" if "CHR ''%'' \<in> set t" for t
  proof (cases "t \<noteq> [] \<and> hd t = CHR ''['' \<and> List.last t = CHR '']''")
    case True
    then obtain u where u: "t = CHR ''['' # u" by (cases t) auto
    then have "u \<noteq> []" "CHR ''%'' \<in> set u" using that by auto
    moreover have "List.last u = CHR '']''" using True u \<open>u \<noteq> []\<close> by simp
    ultimately have "CHR ''%'' \<in> set (butlast u)" using in_butlast[of "CHR ''%''" u] by auto
    then show ?thesis using True u by (simp add: unbracketed_def)
  qed (use that in \<open>auto simp: unbracketed_def\<close>)
  from this[OF t] show ?thesis by (simp add: parseIPv6ToBigInt_def Let_def)
qed

lemma isPublicAddress_v6:
  assumes "is_ipv6 s" "CHR ''%'' \<notin> set s" "\<not> is_ipv4 s"
  obtains v where "parseIPv6ToBigInt s = Some v" "0 \<le> v" "v < 2 ^ 128"
    "isPublicAddress who s = Inr (js_lower s \<noteq> ''::'' \<and> js_lower s \<noteq> ''::1'' \<and> \<not> special_v6 v)"
proof -
  have all: "takeWhile (\<lambda>c. c \<noteq> CHR ''%'') s = s" using assms(2) by (auto simp: takeWhile_eq_all_conv)
  have "v6_body s" using assms(1) unfolding is_ipv6_def Let_def all by blast
  then obtain v where v: "parseIPv6ToBigInt s = Some v" "0 \<le> v" "v < 2 ^ 128" using parseIPv6_total by blast
  then show ?thesis using isPublicIPv6_value[OF v] assms that by (simp add: isPublicAddress_def isIP_def)
qed

lemma isPublicAddress_v4:
  assumes "is_ipv4 s"
  obtains a b c d where "map digits_val (split_on CHR ''.'' s) = [a, b, c, d]" "isPublicAddress who s = Inr (\<not> special_v4 a b c d)"
  using is_ipv4_octets[OF assms] isPublicIPv4_octets assms by (metis isIP_def isPublicAddress_def)

text \<open>
  C0 (every address is judged by its value). A text that is an IPv4 address is public exactly when its octets are in
  none of the private, loopback, link-local, shared, reserved, documentation and multicast blocks. A text that is an
  IPv6 address without a zone always has a value below 2^128, whatever its spelling; it is public exactly when the text is
  neither of the two short forms of the unspecified and the loopback address and the value is in none of the
  refused blocks, where a value mapped from IPv4 is judged as that address. Anything else is refused.
\<close>

theorem address_judged_by_value:
  "(is_ipv4 s \<longrightarrow> (\<exists>a b c d. map digits_val (split_on CHR ''.'' s) = [a, b, c, d]
       \<and> isPublicAddress who s = Inr (\<not> special_v4 a b c d)))
   \<and> (is_ipv6 s \<and> CHR ''%'' \<notin> set s \<and> \<not> is_ipv4 s \<longrightarrow> (\<exists>v. parseIPv6ToBigInt s = Some v \<and> 0 \<le> v \<and> v < 2 ^ 128
       \<and> isPublicAddress who s = Inr (js_lower s \<noteq> ''::'' \<and> js_lower s \<noteq> ''::1'' \<and> \<not> special_v6 v)))
   \<and> (\<not> is_ipv4 s \<and> (is_ipv6 s \<longrightarrow> CHR ''%'' \<in> set s) \<longrightarrow> (\<exists>e. isPublicAddress who s = Inl e))"
proof (intro conjI impI)
  show "\<exists>a b c d. map digits_val (split_on CHR ''.'' s) = [a, b, c, d] \<and> isPublicAddress who s = Inr (\<not> special_v4 a b c d)"
    if "is_ipv4 s"
    using isPublicAddress_v4[OF that] by metis
  show "\<exists>v. parseIPv6ToBigInt s = Some v \<and> 0 \<le> v \<and> v < 2 ^ 128
       \<and> isPublicAddress who s = Inr (js_lower s \<noteq> ''::'' \<and> js_lower s \<noteq> ''::1'' \<and> \<not> special_v6 v)"
    if "is_ipv6 s \<and> CHR ''%'' \<notin> set s \<and> \<not> is_ipv4 s"
    using isPublicAddress_v6[of s who] that by metis
  show "\<exists>e. isPublicAddress who s = Inl e" if "\<not> is_ipv4 s \<and> (is_ipv6 s \<longrightarrow> CHR ''%'' \<in> set s)"
    using that zone_refused[of s] by (auto simp: isPublicAddress_def isIP_def isPublicIPv6_def)
qed

text \<open>A private address mapped into IPv6 and written in capitals.\<close>

theorem address_judged_by_value_witness: "isPublicAddress ''DNS'' ''::FFFF:A00:1'' = Inr False"
proof -
  have "is_ipv6 ''::FFFF:A00:1'' \<and> CHR ''%'' \<notin> set ''::FFFF:A00:1'' \<and> \<not> is_ipv4 ''::FFFF:A00:1''" by code_simp
  then obtain v where v: "parseIPv6ToBigInt ''::FFFF:A00:1'' = Some v"
    "isPublicAddress ''DNS'' ''::FFFF:A00:1'' = Inr (js_lower ''::FFFF:A00:1'' \<noteq> ''::'' \<and> js_lower ''::FFFF:A00:1'' \<noteq> ''::1'' \<and> \<not> special_v6 v)"
    using address_judged_by_value[of "''::FFFF:A00:1''" "''DNS''"] by blast
  have "v6_parts ''::ffff:a00:1'' = Some [''0'', ''0'', ''0'', ''0'', ''0'', ''ffff'', ''a00'', ''1'']"
    by (simp add: v6_parts_def split_off_tail_def tail_groups_def truthy_def numeral_eq_Suc)
  moreover have "js_lower ''::FFFF:A00:1'' = ''::ffff:a00:1''" by code_simp
  moreover have "parse_int16 ''a00'' = Some 0xa00" "parse_int16 ''1'' = Some 1" by (simp_all add: parse_int16_def text_simps)
  ultimately have "parseIPv6ToBigInt ''::FFFF:A00:1'' = Some 0xffff0a000001"
    by (simp add: parseIPv6ToBigInt_def unbracketed_def js_trim_def js_ws_def ccode_def named_groups)
  then have "special_v6 v" using v(1) by (simp add: special_v6_def special_v4_def Let_def)
  then show ?thesis using v(2) by simp
qed

text \<open>
  The loopback address has other spellings, and other values stand for it: written in full, with a shorter
  omission, as an IPv4-compatible address, or behind the prefix that translates to IPv4, it counts as public.
\<close>

lemma loopback_texts:
  "v6_parts ''::1'' = Some [''0'', ''0'', ''0'', ''0'', ''0'', ''0'', ''0'', ''1'']"
  "v6_parts ''0:0:0:0:0:0:0:1'' = Some [''0'', ''0'', ''0'', ''0'', ''0'', ''0'', ''0'', ''1'']"
  "v6_parts ''0::1'' = Some [''0'', ''0'', ''0'', ''0'', ''0'', ''0'', ''0'', ''1'']"
  "v6_parts ''::0:1'' = Some [''0'', ''0'', ''0'', ''0'', ''0'', ''0'', ''0'', ''1'']"
  "v6_parts ''::7f00:1'' = Some [''0'', ''0'', ''0'', ''0'', ''0'', ''0'', ''7f00'', ''1'']"
  "v6_parts ''64:ff9b::7f00:1'' = Some [''64'', ''ff9b'', ''0'', ''0'', ''0'', ''0'', ''7f00'', ''1'']"
  by (simp_all add: v6_parts_def split_off_tail_def tail_groups_def truthy_def numeral_eq_Suc)

lemma loopback_groups: "parse_int16 ''1'' = Some 1" "parse_int16 ''7f00'' = Some 0x7f00" "parse_int16 ''64'' = Some 0x64"
  "parse_int16 ''ff9b'' = Some 0xff9b"
  by (simp_all add: parse_int16_def text_simps)

lemma loopback_values:
  "parseIPv6ToBigInt ''::1'' = Some 1" "parseIPv6ToBigInt ''0:0:0:0:0:0:0:1'' = Some 1" "parseIPv6ToBigInt ''0::1'' = Some 1"
  "parseIPv6ToBigInt ''::0:1'' = Some 1" "parseIPv6ToBigInt ''::7f00:1'' = Some 0x7f000001"
  "parseIPv6ToBigInt ''64:ff9b::7f00:1'' = Some (0x64ff9b * 2 ^ 96 + 0x7f000001)"
  by (simp_all add: parseIPv6ToBigInt_def loopback_texts unbracketed_def js_trim_def js_ws_def ccode_def js_lower_def is_upper_def
      named_groups loopback_groups)

theorem loopback_counts_as_public:
  "list_all (\<lambda>s. isPublicAddress who s = Inr True) [''0:0:0:0:0:0:0:1'', ''0::1'', ''::0:1'', ''::7f00:1'', ''64:ff9b::7f00:1'']
   \<and> list_all (\<lambda>s. parseIPv6ToBigInt s = Some 1) [''::1'', ''0:0:0:0:0:0:0:1'', ''0::1'', ''::0:1'']"
proof -
  have texts: "list_all (\<lambda>s. \<not> is_ipv4 s \<and> is_ipv6 s \<and> js_lower s \<noteq> ''::'' \<and> js_lower s \<noteq> ''::1'')
      [''0:0:0:0:0:0:0:1'', ''0::1'', ''::0:1'', ''::7f00:1'', ''64:ff9b::7f00:1'']" by code_simp
  have "\<not> special_v6 1" "\<not> special_v6 0x7f000001" "\<not> special_v6 (0x64ff9b * 2 ^ 96 + 0x7f000001)"
    by (simp_all add: special_v6_def Let_def)
  then show ?thesis
    using texts isPublicIPv6_value[OF loopback_values(2)] isPublicIPv6_value[OF loopback_values(3)]
      isPublicIPv6_value[OF loopback_values(4)] isPublicIPv6_value[OF loopback_values(5)] isPublicIPv6_value[OF loopback_values(6)]
    by (simp add: loopback_values isPublicAddress_def isIP_def)
qed

end
