(* ===== verification/Credentials.thy ===== *)
theory Credentials
imports Secrets
begin

text \<open>
  The credentials of discovery connectors (\<^verbatim>\<open>apps/asset-service/src/connectors/credentials.ts\<close>): a reference is a
  pointer to an environment variable of the platform, whose name must belong to an allow-listed family, and each
  connector accepts its own family only.

  The environment is an argument, \<open>usable_key\<close> is \<^verbatim>\<open>createPrivateKey\<close> of \<^verbatim>\<open>node:crypto\<close> not throwing. Error messages
  are constructors with the values that the message quotes.
\<close>

datatype credential_error =
    Not_allowlisted string
  | Unsupported_scheme string
  | Anonymous_refused string
  | Wrong_family string string
  | Unusable_pointer string string
  | Incomplete_set string
  | Unusable_variable string

type_synonym env_vars = "string \<Rightarrow> string option"


section \<open>Pointers\<close>

definition env_char :: "char \<Rightarrow> bool" where
  "env_char c = (is_upper c \<or> is_digit c \<or> c = CHR ''_'')"

text \<open>\<^verbatim>\<open>/^GITHUB_[A-Z0-9_]+$/\<close> and its siblings.\<close>

definition env_name :: "string \<Rightarrow> string \<Rightarrow> bool" where
  "env_name family key =
     (let n = length family + 1
      in prefix (family @ ''_'') key \<and> drop n key \<noteq> [] \<and> list_all env_char (drop n key))"

definition ENV_FAMILIES :: "string list" where
  "ENV_FAMILIES = [''GITHUB'', ''GITLAB'', ''BITBUCKET'', ''AWS'', ''GCP'', ''AZURE'', ''QUAY'', ''DOCKERHUB'']"

definition ENV_ALLOWLIST :: "string \<Rightarrow> bool" where
  "ENV_ALLOWLIST key = list_ex (\<lambda>f. env_name f key) ENV_FAMILIES"

definition ref_scheme :: "string \<Rightarrow> string" where
  "ref_scheme ref = takeWhile (\<lambda>c. c \<noteq> CHR '':'') ref"

definition ref_key :: "string \<Rightarrow> string" where
  "ref_key ref = tl (dropWhile (\<lambda>c. c \<noteq> CHR '':'') ref)"

text \<open>\<^verbatim>\<open>process.env[key] || undefined\<close>.\<close>

definition env_value :: "env_vars \<Rightarrow> string \<Rightarrow> string option" where
  "env_value vars key = (if truthy (vars key) then vars key else None)"

definition resolveCredential :: "env_vars \<Rightarrow> string option \<Rightarrow> credential_error + string option" where
  "resolveCredential vars ref =
     (if \<not> truthy ref then Inr None
      else (let scheme = ref_scheme (the ref); key = ref_key (the ref)
            in if scheme = ''env'' then
                 (if key = [] \<or> \<not> ENV_ALLOWLIST key then Inl (Not_allowlisted key) else Inr (env_value vars key))
               else Inl (Unsupported_scheme scheme)))"


section \<open>The connectors' own families\<close>

text \<open>What the seven functions begin with: the pointer must be of the family, and what it points to must be set.\<close>

definition pointed_value :: "string \<Rightarrow> env_vars \<Rightarrow> string option \<Rightarrow> credential_error + string option" where
  "pointed_value family vars ref =
     (if \<not> truthy ref then Inl (Anonymous_refused family)
      else if ref_scheme (the ref) \<noteq> ''env'' \<or> ref_key (the ref) = [] \<or> \<not> env_name family (ref_key (the ref)) then
        (case resolveCredential vars ref of
           Inl e \<Rightarrow> Inl e
         | Inr _ \<Rightarrow> Inl (Wrong_family family (the ref)))
      else resolveCredential vars ref)"

definition required_token :: "string \<Rightarrow> env_vars \<Rightarrow> string option \<Rightarrow> credential_error + string" where
  "required_token family vars ref =
     (case pointed_value family vars ref of
        Inl e \<Rightarrow> Inl e
      | Inr v \<Rightarrow>
          if \<not> truthy v \<or> js_trim (the v) = [] then Inl (Unusable_pointer family (the ref)) else Inr (js_trim (the v)))"

definition requireGithubToken :: "env_vars \<Rightarrow> string option \<Rightarrow> credential_error + string" where
  "requireGithubToken = required_token ''GITHUB''"

definition requireBitbucketToken :: "env_vars \<Rightarrow> string option \<Rightarrow> credential_error + string" where
  "requireBitbucketToken = required_token ''BITBUCKET''"

definition requireQuayToken :: "env_vars \<Rightarrow> string option \<Rightarrow> credential_error + string" where
  "requireQuayToken = required_token ''QUAY''"

text \<open>The others point to one variable and then read a fixed set; the continuation reads it.\<close>

definition required_set ::
    "string \<Rightarrow> env_vars \<Rightarrow> string option \<Rightarrow> (credential_error + 'a) \<Rightarrow> credential_error + 'a" where
  "required_set family vars ref result =
     (case pointed_value family vars ref of
        Inl e \<Rightarrow> Inl e
      | Inr v \<Rightarrow> if \<not> truthy v then Inl (Unusable_pointer family (the ref)) else result)"

record aws_credentials =
  ac_accessKeyId :: string
  ac_secretAccessKey :: string
  ac_sessionToken :: "string option"

definition requireAwsCredentials :: "env_vars \<Rightarrow> string option \<Rightarrow> credential_error + aws_credentials" where
  "requireAwsCredentials vars ref =
     required_set ''AWS'' vars ref
       (let accessKeyId = env_value vars ''AWS_ACCESS_KEY_ID''; secretAccessKey = env_value vars ''AWS_SECRET_ACCESS_KEY''
        in if \<not> truthy accessKeyId \<or> \<not> truthy secretAccessKey then Inl (Incomplete_set ''AWS'')
           else Inr \<lparr>ac_accessKeyId = the accessKeyId, ac_secretAccessKey = the secretAccessKey,
                     ac_sessionToken = env_value vars ''AWS_SESSION_TOKEN''\<rparr>)"

record gcp_credentials =
  gc_clientEmail :: string
  gc_privateKey :: string

text \<open>\<^verbatim>\<open>pem.replace(/\\n/g, '\n')\<close>: a backslash before an n is a line feed.\<close>

fun unescape_lines :: "string \<Rightarrow> string" where
  "unescape_lines (a # b # s) =
     (if a = CHR 0x5C \<and> b = CHR ''n'' then CHR 0x0A # unescape_lines s else a # unescape_lines (b # s))"
| "unescape_lines s = s"

definition normalizeGcpPrivateKey :: "string \<Rightarrow> string" where
  "normalizeGcpPrivateKey pem =
     (if has_infix ''-----BEGIN'' pem then js_trim (unescape_lines pem) else js_trim pem)"

definition requireGcpCredentials ::
    "(string \<Rightarrow> bool) \<Rightarrow> env_vars \<Rightarrow> string option \<Rightarrow> credential_error + gcp_credentials" where
  "requireGcpCredentials usable_key vars ref =
     required_set ''GCP'' vars ref
       (let clientEmail = env_value vars ''GCP_CLIENT_EMAIL''; privateKey = env_value vars ''GCP_PRIVATE_KEY''
        in if \<not> truthy clientEmail \<or> \<not> truthy privateKey then Inl (Incomplete_set ''GCP'')
           else if CHR ''@'' \<notin> set (the clientEmail) \<or> list_ex js_ws (the clientEmail) then Inl (Unusable_variable ''GCP_CLIENT_EMAIL'')
           else if \<not> usable_key (normalizeGcpPrivateKey (the privateKey)) then Inl (Unusable_variable ''GCP_PRIVATE_KEY'')
           else Inr \<lparr>gc_clientEmail = the clientEmail, gc_privateKey = the privateKey\<rparr>)"

record azure_credentials =
  az_tenantId :: string
  az_clientId :: string
  az_clientSecret :: string

text \<open>The shape is that of a UUID, so the second test, for the scheme of a URL, never decides.\<close>

definition http_url :: "string \<Rightarrow> bool" where
  "http_url s = (prefix ''http://'' (js_lower s) \<or> prefix ''https://'' (js_lower s))"

definition assertUsableAzureGuid :: "string \<Rightarrow> string \<Rightarrow> credential_error + string" where
  "assertUsableAzureGuid value envName =
     (let trimmed = js_trim value
      in if \<not> uuid_shaped trimmed \<or> http_url trimmed then Inl (Unusable_variable envName)
         else Inr (js_lower trimmed))"

definition requireAzureCredentials :: "env_vars \<Rightarrow> string option \<Rightarrow> credential_error + azure_credentials" where
  "requireAzureCredentials vars ref =
     required_set ''AZURE'' vars ref
       (let tenantId = env_value vars ''AZURE_TENANT_ID''; clientId = env_value vars ''AZURE_CLIENT_ID'';
            secret = map_option js_trim (env_value vars ''AZURE_CLIENT_SECRET'')
        in if \<not> truthy tenantId \<or> \<not> truthy clientId \<or> \<not> truthy secret then Inl (Incomplete_set ''AZURE'')
           else (case assertUsableAzureGuid (the tenantId) ''AZURE_TENANT_ID'' of
                   Inl e \<Rightarrow> Inl e
                 | Inr t \<Rightarrow>
                     (case assertUsableAzureGuid (the clientId) ''AZURE_CLIENT_ID'' of
                        Inl e \<Rightarrow> Inl e
                      | Inr c \<Rightarrow> Inr \<lparr>az_tenantId = t, az_clientId = c, az_clientSecret = the secret\<rparr>)))"

record dockerhub_credentials =
  dh_username :: string
  dh_token :: string

definition username_char :: "char \<Rightarrow> bool" where
  "username_char c = (token_char c \<or> c = CHR ''.'' \<or> c = CHR ''-'')"

definition assertUsableDockerhubUsername :: "string \<Rightarrow> credential_error + string" where
  "assertUsableDockerhubUsername value =
     (let trimmed = js_trim value
      in if trimmed = [] \<or> http_url trimmed \<or> \<not> list_all username_char trimmed
            \<or> suffix ''docker.io'' (js_lower trimmed) \<or> suffix ''docker.com'' (js_lower trimmed)
         then Inl (Unusable_variable ''DOCKERHUB_USERNAME'')
         else Inr trimmed)"

definition requireDockerhubCredentials :: "env_vars \<Rightarrow> string option \<Rightarrow> credential_error + dockerhub_credentials" where
  "requireDockerhubCredentials vars ref =
     required_set ''DOCKERHUB'' vars ref
       (let username = env_value vars ''DOCKERHUB_USERNAME'';
            secret = map_option js_trim (env_value vars ''DOCKERHUB_TOKEN'')
        in if \<not> truthy username \<or> \<not> truthy secret then Inl (Incomplete_set ''DOCKERHUB'')
           else (case assertUsableDockerhubUsername (the username) of
                   Inl e \<Rightarrow> Inl e
                 | Inr u \<Rightarrow> Inr \<lparr>dh_username = u, dh_token = the secret\<rparr>))"


section \<open>What a reference can read\<close>

text \<open>Two environments that agree on a family.\<close>

definition agree :: "string \<Rightarrow> env_vars \<Rightarrow> env_vars \<Rightarrow> bool" where
  "agree family vars vars' \<longleftrightarrow> (\<forall>n. env_name family n \<longrightarrow> vars n = vars' n)"

lemma env_value_agree: "agree family vars vars' \<Longrightarrow> env_name family n \<Longrightarrow> env_value vars n = env_value vars' n"
  by (simp add: agree_def env_value_def)

lemma resolve_own_family:
  assumes "agree family vars vars'" "env_name family (ref_key (the ref))"
  shows "resolveCredential vars ref = resolveCredential vars' ref"
  using env_value_agree[OF assms] by (simp add: resolveCredential_def Let_def)

lemma pointed_value_agree:
  assumes "agree family vars vars'"
  shows "pointed_value family vars ref = pointed_value family vars' ref"
proof (cases "env_name family (ref_key (the ref))")
  case True
  then show ?thesis using resolve_own_family[OF assms] by (simp add: pointed_value_def)
next
  case False
  have "(case resolveCredential vars ref of Inl e \<Rightarrow> Inl e | Inr _ \<Rightarrow> Inl x)
      = (case resolveCredential vars' ref of Inl e \<Rightarrow> Inl e | Inr _ \<Rightarrow> (Inl x :: credential_error + string option))" for x
    by (simp add: resolveCredential_def Let_def)
  then show ?thesis using False by (simp add: pointed_value_def)
qed

lemma pointed_value_accepted:
  assumes "pointed_value family vars ref = Inr v" "list_ex ((=) family) ENV_FAMILIES"
  obtains key where "ref = Some (''env:'' @ key)" "env_name family key" "v = env_value vars key"
proof -
  obtain r where r: "ref = Some r" "r \<noteq> []" using assms(1)
    by (cases ref) (auto simp: pointed_value_def truthy_def split: if_splits)
  have p: "ref_scheme r = ''env''" "ref_key r \<noteq> []" "env_name family (ref_key r)" "resolveCredential vars ref = Inr v"
    using assms(1) r by (auto simp: pointed_value_def truthy_def split: if_splits sum.splits)
  have "r = ref_scheme r @ dropWhile (\<lambda>c. c \<noteq> CHR '':'') r" by (simp add: ref_scheme_def)
  moreover have "dropWhile (\<lambda>c. c \<noteq> CHR '':'') r = CHR '':'' # ref_key r"
    using p(2) hd_dropWhile[of "\<lambda>c. c \<noteq> CHR '':''" r] by (cases "dropWhile (\<lambda>c. c \<noteq> CHR '':'') r") (auto simp: ref_key_def)
  ultimately have "r = ''env:'' @ ref_key r" using p(1) by simp
  moreover have "ENV_ALLOWLIST (ref_key r)" using p(3) assms(2) by (auto simp: ENV_ALLOWLIST_def list_ex_iff)
  then have "v = env_value vars (ref_key r)" using p r by (simp add: resolveCredential_def Let_def truthy_def)
  ultimately show ?thesis using that r(1) p(3) by blast
qed

lemma required_token_agree: "agree family vars vars' \<Longrightarrow> required_token family vars ref = required_token family vars' ref"
  using pointed_value_agree[of family vars vars' ref] by (simp add: required_token_def)

lemma required_set_agree:
  "agree family vars vars' \<Longrightarrow> result = result' \<Longrightarrow> required_set family vars ref result = required_set family vars' ref result'"
  using pointed_value_agree[of family vars vars' ref] by (simp add: required_set_def)

lemma family_names:
  "env_name ''AWS'' ''AWS_ACCESS_KEY_ID''" "env_name ''AWS'' ''AWS_SECRET_ACCESS_KEY''" "env_name ''AWS'' ''AWS_SESSION_TOKEN''"
  "env_name ''GCP'' ''GCP_CLIENT_EMAIL''" "env_name ''GCP'' ''GCP_PRIVATE_KEY''"
  "env_name ''AZURE'' ''AZURE_TENANT_ID''" "env_name ''AZURE'' ''AZURE_CLIENT_ID''" "env_name ''AZURE'' ''AZURE_CLIENT_SECRET''"
  "env_name ''DOCKERHUB'' ''DOCKERHUB_USERNAME''" "env_name ''DOCKERHUB'' ''DOCKERHUB_TOKEN''"
  by code_simp+

text \<open>Everything that a connector reads is in its family.\<close>

lemma set_families_agree:
  "agree ''AWS'' vars vars' \<Longrightarrow> requireAwsCredentials vars ref = requireAwsCredentials vars' ref"
  "agree ''GCP'' vars vars' \<Longrightarrow> requireGcpCredentials usable vars ref = requireGcpCredentials usable vars' ref"
  "agree ''AZURE'' vars vars' \<Longrightarrow> requireAzureCredentials vars ref = requireAzureCredentials vars' ref"
  "agree ''DOCKERHUB'' vars vars' \<Longrightarrow> requireDockerhubCredentials vars ref = requireDockerhubCredentials vars' ref"
proof -
  show "requireAwsCredentials vars ref = requireAwsCredentials vars' ref" if a: "agree ''AWS'' vars vars'"
    unfolding requireAwsCredentials_def family_names(1-3)[THEN env_value_agree[OF a]] by (rule required_set_agree[OF a refl])
  show "requireGcpCredentials usable vars ref = requireGcpCredentials usable vars' ref" if a: "agree ''GCP'' vars vars'"
    unfolding requireGcpCredentials_def family_names(4,5)[THEN env_value_agree[OF a]] by (rule required_set_agree[OF a refl])
  show "requireAzureCredentials vars ref = requireAzureCredentials vars' ref" if a: "agree ''AZURE'' vars vars'"
    unfolding requireAzureCredentials_def family_names(6-8)[THEN env_value_agree[OF a]] by (rule required_set_agree[OF a refl])
  show "requireDockerhubCredentials vars ref = requireDockerhubCredentials vars' ref" if a: "agree ''DOCKERHUB'' vars vars'"
    unfolding requireDockerhubCredentials_def family_names(9,10)[THEN env_value_agree[OF a]] by (rule required_set_agree[OF a refl])
qed

text \<open>A pointer that a connector accepts.\<close>

definition points_into :: "string \<Rightarrow> string option \<Rightarrow> bool" where
  "points_into family ref \<longleftrightarrow> (\<exists>key. ref = Some (''env:'' @ key) \<and> env_name family key)"

lemma required_accepts:
  assumes "list_ex ((=) family) ENV_FAMILIES"
  shows "required_token family vars ref = Inr t \<Longrightarrow> points_into family ref"
    "required_set family vars ref result = Inr c \<Longrightarrow> points_into family ref"
proof -
  have "points_into family ref" if "pointed_value family vars ref = Inr v" for v
    using pointed_value_accepted[OF that assms] unfolding points_into_def by metis
  then show "required_token family vars ref = Inr t \<Longrightarrow> points_into family ref"
    "required_set family vars ref result = Inr c \<Longrightarrow> points_into family ref"
    by (auto simp: required_token_def required_set_def split: sum.splits if_splits)
qed

text \<open>
  C0 (a connector reads the variables of its own family only). The credential that a connector gets depends on the
  variables of its family and on nothing else in the environment, so that no reference a tenant writes reads the
  database's address or another provider's key; and a connector gets one only for a reference that points into
  its family: no listing goes out without a credential.
\<close>

theorem credentials_stay_in_their_family:
  "(agree ''GITHUB'' vars vars' \<longrightarrow> requireGithubToken vars ref = requireGithubToken vars' ref)
   \<and> (agree ''BITBUCKET'' vars vars' \<longrightarrow> requireBitbucketToken vars ref = requireBitbucketToken vars' ref)
   \<and> (agree ''QUAY'' vars vars' \<longrightarrow> requireQuayToken vars ref = requireQuayToken vars' ref)
   \<and> (agree ''AWS'' vars vars' \<longrightarrow> requireAwsCredentials vars ref = requireAwsCredentials vars' ref)
   \<and> (agree ''GCP'' vars vars' \<longrightarrow> requireGcpCredentials usable vars ref = requireGcpCredentials usable vars' ref)
   \<and> (agree ''AZURE'' vars vars' \<longrightarrow> requireAzureCredentials vars ref = requireAzureCredentials vars' ref)
   \<and> (agree ''DOCKERHUB'' vars vars' \<longrightarrow> requireDockerhubCredentials vars ref = requireDockerhubCredentials vars' ref)
   \<and> (\<forall>t. requireGithubToken vars ref = Inr t \<longrightarrow> points_into ''GITHUB'' ref)
   \<and> (\<forall>t. requireBitbucketToken vars ref = Inr t \<longrightarrow> points_into ''BITBUCKET'' ref)
   \<and> (\<forall>t. requireQuayToken vars ref = Inr t \<longrightarrow> points_into ''QUAY'' ref)
   \<and> (\<forall>c. requireAwsCredentials vars ref = Inr c \<longrightarrow> points_into ''AWS'' ref)
   \<and> (\<forall>c. requireGcpCredentials usable vars ref = Inr c \<longrightarrow> points_into ''GCP'' ref)
   \<and> (\<forall>c. requireAzureCredentials vars ref = Inr c \<longrightarrow> points_into ''AZURE'' ref)
   \<and> (\<forall>c. requireDockerhubCredentials vars ref = Inr c \<longrightarrow> points_into ''DOCKERHUB'' ref)"
proof (intro conjI allI impI)
  show "requireGithubToken vars ref = requireGithubToken vars' ref" if "agree ''GITHUB'' vars vars'"
    unfolding requireGithubToken_def by (rule required_token_agree[OF that])
  show "requireBitbucketToken vars ref = requireBitbucketToken vars' ref" if "agree ''BITBUCKET'' vars vars'"
    unfolding requireBitbucketToken_def by (rule required_token_agree[OF that])
  show "requireQuayToken vars ref = requireQuayToken vars' ref" if "agree ''QUAY'' vars vars'"
    unfolding requireQuayToken_def by (rule required_token_agree[OF that])
  show "points_into ''GITHUB'' ref" if "requireGithubToken vars ref = Inr t" for t
    using that unfolding requireGithubToken_def by (rule required_accepts(1)[rotated]) (simp add: ENV_FAMILIES_def)
  show "points_into ''BITBUCKET'' ref" if "requireBitbucketToken vars ref = Inr t" for t
    using that unfolding requireBitbucketToken_def by (rule required_accepts(1)[rotated]) (simp add: ENV_FAMILIES_def)
  show "points_into ''QUAY'' ref" if "requireQuayToken vars ref = Inr t" for t
    using that unfolding requireQuayToken_def by (rule required_accepts(1)[rotated]) (simp add: ENV_FAMILIES_def)
  show "points_into ''AWS'' ref" if "requireAwsCredentials vars ref = Inr c" for c
    using that unfolding requireAwsCredentials_def by (rule required_accepts(2)[rotated]) (simp add: ENV_FAMILIES_def)
  show "points_into ''GCP'' ref" if "requireGcpCredentials usable vars ref = Inr c" for c
    using that unfolding requireGcpCredentials_def by (rule required_accepts(2)[rotated]) (simp add: ENV_FAMILIES_def)
  show "points_into ''AZURE'' ref" if "requireAzureCredentials vars ref = Inr c" for c
    using that unfolding requireAzureCredentials_def by (rule required_accepts(2)[rotated]) (simp add: ENV_FAMILIES_def)
  show "points_into ''DOCKERHUB'' ref" if "requireDockerhubCredentials vars ref = Inr c" for c
    using that unfolding requireDockerhubCredentials_def by (rule required_accepts(2)[rotated]) (simp add: ENV_FAMILIES_def)
qed (rule set_families_agree, assumption)+

definition platform_vars :: env_vars where
  "platform_vars = [''DATABASE_URL'' \<mapsto> ''postgres://db'', ''GITHUB_TOKEN'' \<mapsto> '' gh-token '', ''AWS_ACCESS_KEY_ID'' \<mapsto> ''AKIA'']"

theorem credentials_stay_in_their_family_witness:
  "requireGithubToken (platform_vars(''DATABASE_URL'' := None)) (Some ''env:GITHUB_TOKEN'') = Inr ''gh-token''
   \<and> requireGithubToken platform_vars (Some ''env:DATABASE_URL'') = Inl (Not_allowlisted ''DATABASE_URL'')
   \<and> requireGithubToken platform_vars (Some ''env:AWS_ACCESS_KEY_ID'') = Inl (Wrong_family ''GITHUB'' ''env:AWS_ACCESS_KEY_ID'')"
proof -
  have "agree ''GITHUB'' platform_vars (platform_vars(''DATABASE_URL'' := None))"
    by (auto simp: agree_def env_name_def)
  then have "requireGithubToken platform_vars (Some ''env:GITHUB_TOKEN'')
      = requireGithubToken (platform_vars(''DATABASE_URL'' := None)) (Some ''env:GITHUB_TOKEN'')"
    using credentials_stay_in_their_family by blast
  moreover have "requireGithubToken platform_vars (Some ''env:GITHUB_TOKEN'') = Inr ''gh-token''" by code_simp
  moreover have "requireGithubToken platform_vars (Some ''env:DATABASE_URL'') = Inl (Not_allowlisted ''DATABASE_URL'')"
    "requireGithubToken platform_vars (Some ''env:AWS_ACCESS_KEY_ID'') = Inl (Wrong_family ''GITHUB'' ''env:AWS_ACCESS_KEY_ID'')"
    by code_simp+
  ultimately show ?thesis by simp
qed

end
