(* ===== verification/DnsEnum.thy ===== *)
theory DnsEnum
imports Address Credentials Inventory
begin

text \<open>
  Domain discovery (\<^verbatim>\<open>apps/asset-service/src/connectors/dns.egress.ts\<close>, \<^verbatim>\<open>dns.connector.ts\<close>): the names under an
  organisation's apexes, from the certificate log at crt.sh and the resolver, as requests of the discovery sweep.

  The parser of URLs, the resolver, the policy-governed requests (their captured answers and how the policy
  ended), the clock's deadlines and the collation of names are arguments. An error is a constructor with the
  values that its message quotes; \<open>de_message\<close> is its text.
\<close>

datatype dns_error =
    Unparseable_url | Not_https | Foreign_host string | Other_port | Userinfo
  | Tenant_endpoint string | Config_refused
  | Empty_apex | Apex_is_url string | Ip_apex string | Wildcard_apex string | Bad_apex string
  | Bad_credential credential_error | Unusable_credential string
  | Budget_exhausted | Too_many_names | Page_too_large | Http_status int | Page_cap | Ct_failed
  | Not_json | Not_array | Bad_address string | No_ct_address | Nonpublic_ct string
  | Thrown "string option"


section \<open>The certificate log's address (dns.egress.ts)\<close>

definition CRT_SH_HOST :: string where "CRT_SH_HOST = ''crt.sh''"
definition CRT_SH_ORIGIN :: string where "CRT_SH_ORIGIN = ''https://crt.sh''"
definition DNS_ENUM_MAX_NAMES :: nat where "DNS_ENUM_MAX_NAMES = 200"
definition DNS_CT_MAX_PAGES :: nat where "DNS_CT_MAX_PAGES = 3"

text \<open>What the code reads of a \<^verbatim>\<open>URL\<close>; the port is empty where it is the scheme's own.\<close>

record url =
  url_protocol :: string
  url_hostname :: string
  url_port :: string
  url_username :: string
  url_password :: string
  url_pathname :: string
  url_search :: string

definition without_dot :: "string \<Rightarrow> string" where
  "without_dot s = (if s \<noteq> [] \<and> List.last s = CHR ''.'' then butlast s else s)"

definition isCrtShHost :: "string \<Rightarrow> bool" where
  "isCrtShHost hostname = (without_dot (js_lower hostname) = CRT_SH_HOST)"

definition allowlistedCrtShUrl :: "(string \<Rightarrow> url option) \<Rightarrow> string \<Rightarrow> dns_error + string" where
  "allowlistedCrtShUrl parse raw =
     (case parse raw of
        None \<Rightarrow> Inl Unparseable_url
      | Some u \<Rightarrow>
          if url_protocol u \<noteq> ''https:'' then Inl Not_https
          else if \<not> isCrtShHost (url_hostname u) then Inl (Foreign_host (url_hostname u))
          else if url_port u \<noteq> [] \<and> url_port u \<noteq> ''443'' then Inl Other_port
          else if url_username u \<noteq> [] \<or> url_password u \<noteq> [] then Inl Userinfo
          else Inr (''https://'' @ CRT_SH_HOST @ (if url_pathname u = [] then ''/'' else url_pathname u) @ url_search u))"

text \<open>\<^verbatim>\<open>encodeURIComponent\<close>: the bytes of UTF-8, but for the unreserved characters.\<close>

definition uri_unreserved :: "char \<Rightarrow> bool" where
  "uri_unreserved c = (is_lower c \<or> is_upper c \<or> is_digit c \<or> c \<in> set ''-_.!~*()'' \<or> ccode c = 39)"

definition uri_byte :: "nat \<Rightarrow> string" where
  "uri_byte n = CHR ''%'' # js_upper [hex_digit (n div 16), hex_digit (n mod 16)]"

definition encodeURIComponent :: "string \<Rightarrow> string" where
  "encodeURIComponent s =
     concat (map (\<lambda>c. if uri_unreserved c then [c]
                     else if ccode c < 128 then uri_byte (ccode c)
                     else uri_byte (192 + ccode c div 64) @ uri_byte (128 + ccode c mod 64)) s)"

definition crtShQueryUrl :: "(string \<Rightarrow> url option) \<Rightarrow> string \<Rightarrow> dns_error + string" where
  "crtShQueryUrl parse apex =
     allowlistedCrtShUrl parse (CRT_SH_ORIGIN @ ''/?q='' @ encodeURIComponent (''%.'' @ apex) @ ''&output=json'')"

text \<open>The expression \<^verbatim>\<open>/<([^>]+)>\s*;\s*rel\s*=\s*"?next"?/i\<close> from a given start, and at the leftmost start that
  matches.\<close>

definition rel_next :: "string \<Rightarrow> bool" where
  "rel_next s =
     (let sp = dropWhile js_ws; a = sp s in
      prefix '';'' a \<and>
      (let b = sp (tl a) in
       prefix ''rel'' (js_lower b) \<and>
       (let c = sp (drop 3 b) in
        prefix ''='' c \<and>
        (let d = sp (tl c); e = (if d \<noteq> [] \<and> hd d = CHR 0x22 then tl d else d)
         in prefix ''next'' (js_lower e)))))"

fun link_match :: "string \<Rightarrow> string option" where
  "link_match [] = None"
| "link_match (c # s) =
     (let inside = takeWhile (\<lambda>x. x \<noteq> CHR ''>'') s; after = dropWhile (\<lambda>x. x \<noteq> CHR ''>'') s
      in if c = CHR ''<'' \<and> inside \<noteq> [] \<and> after \<noteq> [] \<and> rel_next (tl after) then Some inside else link_match s)"

fun next_of_parts :: "string list \<Rightarrow> string option" where
  "next_of_parts [] = None"
| "next_of_parts (p # ps) =
     (case map_option js_trim (link_match p) of
        Some href \<Rightarrow> if href \<noteq> [] then Some href else next_of_parts ps
      | None \<Rightarrow> next_of_parts ps)"

definition nextRelFromLinkHeader :: "string option \<Rightarrow> string option" where
  "nextRelFromLinkHeader link = (if \<not> truthy link then None else next_of_parts (split_on CHR '','' (the link)))"


section \<open>Names\<close>

definition value_is_set :: "json option \<Rightarrow> bool" where
  "value_is_set v = (v \<noteq> None \<and> v \<noteq> Some JNull \<and> v \<noteq> Some (JStr []))"

text \<open>\<^verbatim>\<open>/^EXTRA_.+_HOST(_KEYS)?$/i\<close>; a dot does not match a line's end.\<close>

definition extra_host_key :: "string \<Rightarrow> bool" where
  "extra_host_key key =
     (let k = js_lower key; middle = (\<lambda>n. drop 6 (take (length k - n) k));
          ok = (\<lambda>m. m \<noteq> [] \<and> CHR 0x0A \<notin> set m \<and> CHR 0x0D \<notin> set m)
      in prefix ''extra_'' k \<and>
         ((suffix ''_host'' k \<and> ok (middle 5)) \<or> (suffix ''_host_keys'' k \<and> ok (middle 10))))"

definition TENANT_DNS_DIAL_KEYS :: "string list" where
  "TENANT_DNS_DIAL_KEYS =
     [''nameserver'', ''nameservers'', ''nameServer'', ''nameServers'', ''dnsServer'', ''dnsServers'', ''dns_server'',
      ''dns_servers'', ''resolver'', ''resolvers'', ''doh'', ''dohUrl'', ''dohEndpoint'', ''doh_url'', ''baseUrl'', ''endpoint'',
      ''host'', ''apiUrl'', ''apiEndpoint'', ''url'', ''endpointUrl'', ''customEndpoint'', ''apiHost'', ''axfr'', ''axfrUrl'',
      ''axfrEndpoint'', ''wordlist'', ''wordlists'', ''wordList'', ''wordLists'', ''prefixes'', ''prefixList'', ''prefixPack'',
      ''ctUrl'', ''ctEndpoint'', ''ctQueryUrl'', ''crtshUrl'', ''crtShUrl'', ''crtsh'', ''whoisUrl'', ''whoisEndpoint'']"

definition refuseTenantDnsDial :: "(string \<times> json) list \<Rightarrow> dns_error option" where
  "refuseTenantDnsDial config =
     (case find (\<lambda>k. extra_host_key k \<and> value_is_set (map_of config k)) (map fst config) of
        Some k \<Rightarrow> Some (Tenant_endpoint k)
      | None \<Rightarrow> map_option Tenant_endpoint (find (\<lambda>k. value_is_set (map_of config k)) TENANT_DNS_DIAL_KEYS))"

definition isIpLiteral :: "string \<Rightarrow> bool" where
  "isIpLiteral host = (isIP host \<noteq> 0)"

definition alnum :: "char \<Rightarrow> bool" where
  "alnum c = (is_lower c \<or> is_upper c \<or> is_digit c)"

definition host_label :: "string \<Rightarrow> bool" where
  "host_label l =
     (l \<noteq> [] \<and> length l \<le> 63 \<and> alnum (hd l) \<and> alnum (List.last l) \<and> list_all (\<lambda>c. alnum c \<or> c = CHR ''-'') l)"

definition isValidHostname :: "string \<Rightarrow> bool" where
  "isValidHostname host = (length host \<le> 253 \<and> host \<noteq> [] \<and> list_all host_label (split_on CHR ''.'' host))"

definition normalizeApexFqdn :: "string \<Rightarrow> dns_error + string" where
  "normalizeApexFqdn raw =
     (let trimmed = js_lower (js_trim raw)
      in if trimmed = [] then Inl Empty_apex
         else if http_url trimmed \<or> CHR ''/'' \<in> set trimmed \<or> CHR ''@'' \<in> set trimmed then Inl (Apex_is_url raw)
         else (let host = without_dot trimmed
               in if host = [] then Inl Empty_apex
                  else if isIpLiteral host then Inl (Ip_apex host)
                  else if CHR ''*'' \<in> set host then Inl (Wildcard_apex host)
                  else if \<not> isValidHostname host \<or> length (split_on CHR ''.'' host) < 2 then Inl (Bad_apex host)
                  else Inr host))"

fun strip_wildcards :: "string \<Rightarrow> string" where
  "strip_wildcards (a # b # s) = (if a = CHR ''*'' \<and> b = CHR ''.'' then strip_wildcards s else a # b # s)"
| "strip_wildcards s = s"

definition normalizeDiscoveredName :: "string \<Rightarrow> string \<Rightarrow> string option" where
  "normalizeDiscoveredName raw apex =
     (let name = without_dot (strip_wildcards (js_lower (js_trim raw)))
      in if name = [] then None
         else if CHR ''@'' \<in> set name \<or> CHR ''%'' \<in> set name then None
         else if isIpLiteral name then None
         else if \<not> isValidHostname name then None
         else if name \<noteq> apex \<and> \<not> suffix (CHR ''.'' # apex) name then None
         else Some name)"

text \<open>\<^verbatim>\<open>v.split(/[\s,;]+/)\<close>.\<close>

definition name_sep :: "char \<Rightarrow> bool" where
  "name_sep c = (js_ws c \<or> c = CHR '','' \<or> c = CHR '';'')"

function split_names :: "string \<Rightarrow> string list" where
  "split_names s =
     (let w = takeWhile (\<lambda>c. \<not> name_sep c) s; r = dropWhile (\<lambda>c. \<not> name_sep c) s
      in if r = [] then [w] else w # split_names (dropWhile name_sep r))"
  by auto
termination
proof (relation "measure length")
  fix s w r :: string
  assume r: "r = dropWhile (\<lambda>c. \<not> name_sep c) s" "r \<noteq> []"
  have "name_sep (hd r)" using hd_dropWhile[of "\<lambda>c. \<not> name_sep c" s] r by blast
  then have "length (dropWhile name_sep r) < length r"
    using r(2) by (cases r) (auto simp: le_imp_less_Suc length_dropWhile_le)
  also have "\<dots> \<le> length s" unfolding r(1) by (rule length_dropWhile_le)
  finally show "(dropWhile name_sep r, s) \<in> measure length" by simp
qed simp_all

declare split_names.simps [simp del]

definition row_names :: "json \<Rightarrow> string list" where
  "row_names row =
     concat (map (\<lambda>key. case json_get key row of Some (JStr v) \<Rightarrow> split_names v | _ \<Rightarrow> []) [''name_value'', ''common_name''])"

definition namesFromCrtShBody :: "string \<Rightarrow> dns_error + string list" where
  "namesFromCrtShBody body =
     (case json_parse body of
        None \<Rightarrow> Inl Not_json
      | Some (JArr rows) \<Rightarrow> Inr (concat (map row_names rows))
      | Some _ \<Rightarrow> Inl Not_array)"

definition normalizeRecordName :: "string \<Rightarrow> string option" where
  "normalizeRecordName raw =
     (let name = js_lower (without_dot raw)
      in if name = [] \<or> CHR ''/'' \<in> set name \<or> prefix ''http:'' name \<or> prefix ''https:'' name then None
         else if isIpLiteral name \<or> \<not> isValidHostname name then None
         else Some name)"


section \<open>The connector (dns.connector.ts)\<close>

text \<open>A header that is given once or several times.\<close>

datatype header_value = Single string | Several "string list"

definition headerValue :: "(string \<Rightarrow> header_value option) \<Rightarrow> string \<Rightarrow> string option" where
  "headerValue headers name =
     (case (case headers name of None \<Rightarrow> headers (js_lower name) | Some h \<Rightarrow> Some h) of
        Some (Single s) \<Rightarrow> Some s
      | Some (Several ss) \<Rightarrow> Some (join_with '', '' ss)
      | None \<Rightarrow> None)"

record ct_result =
  ct_status :: int
  ct_headers :: "string \<Rightarrow> header_value option"
  ct_body :: string
  ct_truncated :: bool

text \<open>The resolver rejects (\<^term>\<open>None\<close>) or answers; a request is governed by the policy of \<^verbatim>\<open>libs/resilience\<close>: the
  answers that its attempts captured, in order, and the exception with which it ended, if any. \<open>de_late apex k\<close> is the
  \<open>k\<close>-th test of the apex's time budget.\<close>

record dns_env =
  de_url :: "string \<Rightarrow> url option"
  de_resolve4 :: "string \<Rightarrow> string list option"
  de_resolve6 :: "string \<Rightarrow> string list option"
  de_resolveCname :: "string \<Rightarrow> string list option"
  de_resolveNs :: "string \<Rightarrow> string list option"
  de_execute :: "string \<Rightarrow> string \<Rightarrow> ct_result list \<times> string option option"
  de_late :: "string \<Rightarrow> nat \<Rightarrow> bool"
  de_rank :: "string \<Rightarrow> nat"
  de_vars :: env_vars
  de_message :: "dns_error \<Rightarrow> string option"

definition dnsExternalKey :: "string \<Rightarrow> string" where
  "dnsExternalKey fqdn = ''dns:'' @ fqdn"

definition domainToAsset :: "string \<Rightarrow> string \<Rightarrow> string list \<Rightarrow> string list \<Rightarrow> string list \<Rightarrow> upsert_request" where
  "domainToAsset fqdn apex nameservers cnames addresses =
     \<lparr>ur_kind = ''domain'', ur_externalKey = dnsExternalKey fqdn, ur_name = fqdn, ur_source = ''dns_enum'',
      ur_exposure = Some (if addresses \<noteq> [] then ''internet_facing'' else ''unknown''),
      ur_criticality = None, ur_dataClasses = None, ur_ownerTeam = None, ur_ownerEmail = None, ur_tags = None,
      ur_attributes = Some [(''apex'', JStr apex), (''fqdn'', JStr fqdn), (''nameservers'', JArr (map JStr nameservers)),
                            (''cnames'', JArr (map JStr cnames)), (''addresses'', JArr (map JStr addresses))]\<rparr>"

text \<open>The configuration: \<^verbatim>\<open>apex\<close> and \<^verbatim>\<open>apexes\<close> and nothing else.\<close>

definition config_string :: "json \<Rightarrow> string option" where
  "config_string j = (case j of JStr s \<Rightarrow> if s = [] then None else Some s | _ \<Rightarrow> None)"

definition config_apex :: "(string \<times> json) list \<Rightarrow> string option option" where
  "config_apex config = (case map_of config ''apex'' of None \<Rightarrow> Some None | Some j \<Rightarrow> map_option Some (config_string j))"

definition config_apexes :: "(string \<times> json) list \<Rightarrow> string list option" where
  "config_apexes config =
     (case map_of config ''apexes'' of
        None \<Rightarrow> Some []
      | Some (JArr js) \<Rightarrow> those (map config_string js)
      | Some _ \<Rightarrow> None)"

definition collectRawApexes :: "string option \<Rightarrow> string list \<Rightarrow> string list" where
  "collectRawApexes apex apexes = (if truthy apex then [the apex] else []) @ apexes"

definition parse_config :: "(string \<times> json) list \<Rightarrow> dns_error + string list" where
  "parse_config config =
     (case (config_apex config, config_apexes config) of
        (Some a, Some as) \<Rightarrow>
          (let raw = collectRawApexes a as
           in if \<not> list_all (\<lambda>(k, _). k = ''apex'' \<or> k = ''apexes'') config \<or> raw = []
                 \<or> list_ex (\<lambda>r. isl (normalizeApexFqdn r)) raw
              then Inl Config_refused else Inr raw)
      | _ \<Rightarrow> Inl Config_refused)"

definition configuredApexes :: "string list \<Rightarrow> string list" where
  "configuredApexes raw = uniq (List.map_filter (\<lambda>r. case normalizeApexFqdn r of Inr h \<Rightarrow> Some h | Inl _ \<Rightarrow> None) raw)"

definition assertUsableCredential :: "dns_env \<Rightarrow> string option \<Rightarrow> dns_error option" where
  "assertUsableCredential env ref =
     (if \<not> truthy ref then None
      else (case resolveCredential (de_vars env) ref of
              Inl e \<Rightarrow> Some (Bad_credential e)
            | Inr secret \<Rightarrow>
                if \<not> truthy secret \<or> js_trim (the secret) = [] then Some (Unusable_credential (the ref)) else None))"

definition or_nothing :: "string list option \<Rightarrow> string list" where
  "or_nothing r = (case r of None \<Rightarrow> [] | Some xs \<Rightarrow> xs)"

text \<open>The addresses of crt.sh: all must be public.\<close>

fun check_public :: "string list \<Rightarrow> dns_error option" where
  "check_public [] = None"
| "check_public (ip # ips) =
     (case isPublicAddress ''DNS'' ip of
        Inl e \<Rightarrow> Some (Bad_address e)
      | Inr ok \<Rightarrow> if ok then check_public ips else Some (Nonpublic_ct ip))"

definition resolveCrtSh :: "dns_env \<Rightarrow> dns_error + string list" where
  "resolveCrtSh env =
     (let addresses = or_nothing (de_resolve4 env CRT_SH_HOST) @ or_nothing (de_resolve6 env CRT_SH_HOST)
      in if addresses = [] then Inl No_ct_address
         else (case check_public addresses of Some e \<Rightarrow> Inl e | None \<Rightarrow> Inr addresses))"

definition ctRequest :: "dns_env \<Rightarrow> string \<Rightarrow> string \<Rightarrow> dns_error + ct_result" where
  "ctRequest env connectIp path =
     (case de_execute env connectIp path of
        (captured, Some e) \<Rightarrow> Inl (Thrown e)
      | (captured, None) \<Rightarrow> if captured = [] then Inl Ct_failed else Inr (List.last captured))"

text \<open>A page: what it names and the address of the next one.\<close>

definition ct_page :: "dns_env \<Rightarrow> string \<Rightarrow> string \<Rightarrow> dns_error + string list \<times> string option" where
  "ct_page env connectIp u =
     (case allowlistedCrtShUrl (de_url env) u of
        Inl e \<Rightarrow> Inl e
      | Inr allowlisted \<Rightarrow>
          (case de_url env allowlisted of
             None \<Rightarrow> Inl (Thrown (Some ''Invalid URL''))
           | Some parsed \<Rightarrow>
               (case ctRequest env connectIp (url_pathname parsed @ url_search parsed) of
                  Inl e \<Rightarrow> Inl e
                | Inr res \<Rightarrow>
                    if ct_truncated res then Inl Page_too_large
                    else if ct_status res \<noteq> 200 then Inl (Http_status (ct_status res))
                    else (case namesFromCrtShBody (ct_body res) of
                            Inl e \<Rightarrow> Inl e
                          | Inr names \<Rightarrow> Inr (names, nextRelFromLinkHeader (headerValue (ct_headers res) ''link''))))))"

text \<open>The loop over the pages: \<open>left\<close> pages are still allowed, \<open>k\<close> tests of the budget have been made.\<close>

fun ct_pages :: "dns_env \<Rightarrow> string \<Rightarrow> string \<Rightarrow> nat \<Rightarrow> nat \<Rightarrow> string \<Rightarrow> dns_error + string list \<times> nat" where
  "ct_pages env apex connectIp 0 k u = Inr ([], k)"
| "ct_pages env apex connectIp (Suc left) k u =
     (if de_late env apex k then Inl Budget_exhausted
      else (case ct_page env connectIp u of
              Inl e \<Rightarrow> Inl e
            | Inr (names, next_page) \<Rightarrow>
                (if \<not> truthy next_page then Inr (names, Suc k)
                 else if left = 0 then Inl Page_cap
                 else (case ct_pages env apex connectIp left (Suc k) (the next_page) of
                         Inl e \<Rightarrow> Inl e
                       | Inr (rest, k2) \<Rightarrow> Inr (names @ rest, k2)))))"

definition collectCrtShNames :: "dns_env \<Rightarrow> string \<Rightarrow> nat \<Rightarrow> dns_error + string list \<times> nat" where
  "collectCrtShNames env apex k =
     (case resolveCrtSh env of
        Inl e \<Rightarrow> Inl e
      | Inr addresses \<Rightarrow>
          (case crtShQueryUrl (de_url env) apex of
             Inl e \<Rightarrow> Inl e
           | Inr u \<Rightarrow> ct_pages env apex (hd addresses) DNS_CT_MAX_PAGES k u))"

fun public_only :: "string list \<Rightarrow> dns_error + string list" where
  "public_only [] = Inr []"
| "public_only (ip # ips) =
     (case isPublicAddress ''DNS'' ip of
        Inl e \<Rightarrow> Inl (Bad_address e)
      | Inr ok \<Rightarrow> map_sum id (\<lambda>rest. if ok then ip # rest else rest) (public_only ips))"

definition enrichDomain :: "dns_env \<Rightarrow> string \<Rightarrow> string \<Rightarrow> dns_error + upsert_request" where
  "enrichDomain env fqdn apex =
     (let nameservers = (if fqdn = apex then or_nothing (de_resolveNs env fqdn) else [])
      in case public_only (or_nothing (de_resolve4 env fqdn) @ or_nothing (de_resolve6 env fqdn)) of
           Inl e \<Rightarrow> Inl e
         | Inr addresses \<Rightarrow>
             Inr (domainToAsset fqdn apex (List.map_filter normalizeRecordName nameservers)
                    (List.map_filter normalizeRecordName (or_nothing (de_resolveCname env fqdn))) addresses))"

fun enrich_all :: "dns_env \<Rightarrow> string \<Rightarrow> nat \<Rightarrow> string list \<Rightarrow> dns_error + upsert_request list" where
  "enrich_all env apex k [] = Inr []"
| "enrich_all env apex k (fqdn # names) =
     (if de_late env apex k then Inl Budget_exhausted
      else (case enrichDomain env fqdn apex of
              Inl e \<Rightarrow> Inl e
            | Inr a \<Rightarrow> map_sum id (Cons a) (enrich_all env apex (Suc k) names)))"

definition inventoryApex :: "dns_env \<Rightarrow> string \<Rightarrow> dns_error + upsert_request list" where
  "inventoryApex env apex =
     (if de_late env apex 0 then Inl Budget_exhausted
      else (case collectCrtShNames env apex 1 of
              Inl e \<Rightarrow> Inl e
            | Inr (fromCt, k) \<Rightarrow>
                (if de_late env apex k then Inl Budget_exhausted
                 else (let fromNs = or_nothing (de_resolveNs env apex);
                           names = uniq (apex # List.map_filter (\<lambda>raw. normalizeDiscoveredName raw apex) (fromCt @ fromNs))
                       in if length names > DNS_ENUM_MAX_NAMES then Inl Too_many_names
                          else enrich_all env apex (Suc k) (sort_key (de_rank env) names)))))"

text \<open>What the generator yields until it ends or throws; a key that was yielded is not yielded again.\<close>

definition unyielded :: "upsert_request list \<Rightarrow> upsert_request list \<Rightarrow> upsert_request list" where
  "unyielded found assets =
     foldl (\<lambda>out a. if ur_externalKey a \<in> ur_externalKey ` set out then out else out @ [a]) found assets"

fun inventory_apexes :: "dns_env \<Rightarrow> upsert_request list \<Rightarrow> string list \<Rightarrow> upsert_request list \<times> dns_error option" where
  "inventory_apexes env found [] = (found, None)"
| "inventory_apexes env found (apex # apexes) =
     (case inventoryApex env apex of
        Inl e \<Rightarrow> (found, Some e)
      | Inr assets \<Rightarrow> inventory_apexes env (unyielded found assets) apexes)"

definition discover_domains :: "dns_env \<Rightarrow> discovery_context \<Rightarrow> upsert_request list \<times> dns_error option" where
  "discover_domains env ctx =
     (case refuseTenantDnsDial (dc_config ctx) of
        Some e \<Rightarrow> ([], Some e)
      | None \<Rightarrow>
          (case parse_config (dc_config ctx) of
             Inl e \<Rightarrow> ([], Some e)
           | Inr raw \<Rightarrow>
               (case assertUsableCredential env (dc_credentialRef ctx) of
                  Some e \<Rightarrow> ([], Some e)
                | None \<Rightarrow> inventory_apexes env [] (configuredApexes raw))))"

text \<open>As a connector of the discovery sweep: the exception is its message.\<close>

definition dns_connector :: "dns_env \<Rightarrow> connector" where
  "dns_connector env ctx = map_prod id (map_option (de_message env)) (discover_domains env ctx)"


section \<open>What the connector yields\<close>

lemma discovered_name:
  assumes "normalizeDiscoveredName raw apex = Some n"
  shows "n = apex \<or> suffix (CHR ''.'' # apex) n" "isValidHostname n" "\<not> isIpLiteral n"
  using assms by (auto simp: normalizeDiscoveredName_def Let_def split: if_splits)

definition asset_addresses :: "upsert_request \<Rightarrow> json option" where
  "asset_addresses q = Option.bind (ur_attributes q) (\<lambda>es. map_of es ''addresses'')"

text \<open>A request for a name under an apex: it faces the internet when it has an address, and its addresses are public.\<close>

definition domain_asset :: "string \<Rightarrow> upsert_request \<Rightarrow> bool" where
  "domain_asset apex q \<longleftrightarrow>
     ur_kind q = ''domain'' \<and> ur_source q = ''dns_enum'' \<and> ur_externalKey q = dnsExternalKey (ur_name q)
     \<and> (ur_name q = apex \<or> suffix (CHR ''.'' # apex) (ur_name q)) \<and> isValidHostname (ur_name q) \<and> \<not> isIpLiteral (ur_name q)
     \<and> (\<exists>ips. asset_addresses q = Some (JArr (map JStr ips)) \<and> list_all (\<lambda>ip. isPublicAddress ''DNS'' ip = Inr True) ips
          \<and> ur_exposure q = Some (if ips \<noteq> [] then ''internet_facing'' else ''unknown''))"

lemma public_only_public: "public_only ips = Inr ok \<Longrightarrow> list_all (\<lambda>ip. isPublicAddress ''DNS'' ip = Inr True) ok"
  by (induction ips arbitrary: ok) (auto split: sum.splits if_splits simp: map_sum_def)

lemma enrichDomain_asset:
  assumes "enrichDomain env n apex = Inr q" "n = apex \<or> suffix (CHR ''.'' # apex) n" "isValidHostname n" "\<not> isIpLiteral n"
  shows "domain_asset apex q" "ur_name q = n"
proof -
  obtain ns cs ips where q: "q = domainToAsset n apex ns cs ips" "list_all (\<lambda>ip. isPublicAddress ''DNS'' ip = Inr True) ips"
    using assms(1) public_only_public by (auto simp: enrichDomain_def Let_def split: sum.splits)
  then show "ur_name q = n" by (simp add: domainToAsset_def)
  show "domain_asset apex q"
    unfolding domain_asset_def using assms(2-4) q by (auto simp: domainToAsset_def asset_addresses_def)
qed

lemma enrich_all_assets:
  assumes "enrich_all env apex k ns = Inr qs" "\<And>n. n \<in> set ns \<Longrightarrow> n = apex \<or> suffix (CHR ''.'' # apex) n"
    "\<And>n. n \<in> set ns \<Longrightarrow> isValidHostname n" "\<And>n. n \<in> set ns \<Longrightarrow> \<not> isIpLiteral n"
  shows "map ur_name qs = ns \<and> list_all (domain_asset apex) qs"
  using assms
proof (induction ns arbitrary: k qs)
  case (Cons n ns)
  obtain q rest where q: "enrichDomain env n apex = Inr q" "enrich_all env apex (Suc k) ns = Inr rest" "qs = q # rest"
    using Cons.prems(1) by (auto split: if_splits sum.splits simp: map_sum_def)
  have "map ur_name rest = ns \<and> list_all (domain_asset apex) rest" using Cons q(2) by auto
  moreover have "domain_asset apex q" "ur_name q = n"
    using enrichDomain_asset[OF q(1)] Cons.prems(2-4) by auto
  ultimately show ?case using q(3) by simp
qed simp

text \<open>An apex that a configuration names.\<close>

definition is_apex :: "string \<Rightarrow> bool" where
  "is_apex apex \<longleftrightarrow> isValidHostname apex \<and> \<not> isIpLiteral apex"

lemma configured_is_apex: "apex \<in> set (configuredApexes raw) \<Longrightarrow> is_apex apex"
  by (auto simp: configuredApexes_def in_map_filter is_apex_def normalizeApexFqdn_def Let_def split: sum.splits if_splits)

text \<open>The pages of a listing: each names the next one, and the last names none.\<close>

fun ct_chain :: "dns_env \<Rightarrow> string \<Rightarrow> string \<Rightarrow> (string list \<times> string option) list \<Rightarrow> bool" where
  "ct_chain env ip u [] = False"
| "ct_chain env ip u (p # ps) =
     (ct_page env ip u = Inr p \<and> (if truthy (snd p) then ct_chain env ip (the (snd p)) ps else ps = []))"

lemma ct_pages_chain:
  "ct_pages env apex ip left k u = Inr (names, k2) \<Longrightarrow> 0 < left \<Longrightarrow>
     \<exists>ps. ct_chain env ip u ps \<and> length ps \<le> left \<and> names = concat (map fst ps)"
proof (induction left arbitrary: k u names k2)
  case (Suc left)
  obtain ns nx where page: "ct_page env ip u = Inr (ns, nx)"
    using Suc.prems(1) by (auto split: if_splits sum.splits)
  show ?case
  proof (cases "truthy nx")
    case False
    then have "ct_chain env ip u [(ns, nx)] \<and> names = concat (map fst [(ns, nx)])"
      using Suc.prems(1) page by (auto split: if_splits)
    then show ?thesis by (intro exI[of _ "[(ns, nx)]"]) (simp add: False)
  next
    case True
    then obtain rest k3 where r: "ct_pages env apex ip left (Suc k) (the nx) = Inr (rest, k3)" "names = ns @ rest" "0 < left"
      using Suc.prems(1) page by (auto split: if_splits sum.splits)
    then obtain ps where "ct_chain env ip (the nx) ps" "length ps \<le> left" "rest = concat (map fst ps)"
      using Suc.IH by blast
    then show ?thesis using page True r(2) by (intro exI[of _ "(ns, nx) # ps"]) simp
  qed
qed simp

lemma check_public_hd: "check_public ips = None \<Longrightarrow> ips \<noteq> [] \<Longrightarrow> isPublicAddress ''DNS'' (hd ips) = Inr True"
  by (cases ips) (auto split: sum.splits if_splits)

text \<open>What \<open>inventoryApex\<close> lists: the apex, every name of a complete listing, and the name servers below the apex.\<close>

lemma inventoryApex_complete:
  assumes "inventoryApex env apex = Inr qs" "is_apex apex"
  shows "list_all (domain_asset apex) qs \<and> distinct (map ur_name qs) \<and> length qs \<le> DNS_ENUM_MAX_NAMES
    \<and> (\<exists>ip u ps. isPublicAddress ''DNS'' ip = Inr True \<and> crtShQueryUrl (de_url env) apex = Inr u \<and> ct_chain env ip u ps
         \<and> length ps \<le> DNS_CT_MAX_PAGES
         \<and> set (map ur_name qs) = {apex} \<union> {n. \<exists>raw \<in> set (concat (map fst ps) @ or_nothing (de_resolveNs env apex)).
                                              normalizeDiscoveredName raw apex = Some n})"
proof -
  obtain ct k where ct: "collectCrtShNames env apex 1 = Inr (ct, k)"
    using assms(1) by (auto simp: inventoryApex_def split: if_splits sum.splits)
  let ?raw = "ct @ or_nothing (de_resolveNs env apex)"
  let ?names = "uniq (apex # List.map_filter (\<lambda>raw. normalizeDiscoveredName raw apex) ?raw)"
  have all: "enrich_all env apex (Suc k) (sort_key (de_rank env) ?names) = Inr qs" and len: "length ?names \<le> DNS_ENUM_MAX_NAMES"
    using assms(1) ct by (auto simp: inventoryApex_def Let_def split: if_splits)
  have name: "(n = apex \<or> suffix (CHR ''.'' # apex) n) \<and> isValidHostname n \<and> \<not> isIpLiteral n" if "n \<in> set ?names" for n
    using that discovered_name[of _ apex n] assms(2) by (auto simp: in_map_filter is_apex_def)
  have qs: "map ur_name qs = sort_key (de_rank env) ?names \<and> list_all (domain_asset apex) qs"
    by (rule enrich_all_assets[OF all]) (use name in auto)
  obtain ips u where c: "resolveCrtSh env = Inr ips" "crtShQueryUrl (de_url env) apex = Inr u"
    "ct_pages env apex (hd ips) DNS_CT_MAX_PAGES 1 u = Inr (ct, k)"
    using ct by (auto simp: collectCrtShNames_def split: sum.splits)
  obtain ps where ps: "ct_chain env (hd ips) u ps" "length ps \<le> DNS_CT_MAX_PAGES" "ct = concat (map fst ps)"
    using ct_pages_chain[OF c(3)] by (auto simp: DNS_CT_MAX_PAGES_def)
  have "isPublicAddress ''DNS'' (hd ips) = Inr True"
    using c(1) check_public_hd[of ips] by (auto simp: resolveCrtSh_def Let_def split: if_splits option.splits)
  moreover have "set (map ur_name qs) = {apex} \<union> {n. \<exists>raw \<in> set (concat (map fst ps) @ or_nothing (de_resolveNs env apex)).
                                              normalizeDiscoveredName raw apex = Some n}"
    unfolding qs[THEN conjunct1] ps(3)[symmetric] by (auto simp: in_map_filter)
  moreover have "distinct (map ur_name qs)" "length (map ur_name qs) \<le> DNS_ENUM_MAX_NAMES"
    unfolding qs[THEN conjunct1] using len by simp_all
  ultimately show ?thesis
    by (intro conjI qs[THEN conjunct2] exI[of _ "hd ips"] exI[of _ u] exI[of _ ps] c(2) ps(1,2)) simp_all
qed

lemma unyielded_props:
  "distinct (map ur_externalKey found) \<Longrightarrow>
     distinct (map ur_externalKey (unyielded found qs)) \<and> set found \<subseteq> set (unyielded found qs)
     \<and> set (unyielded found qs) \<subseteq> set found \<union> set qs
     \<and> keys_of qs \<subseteq> keys_of (unyielded found qs)"
proof (induction qs arbitrary: found)
  case Nil
  then show ?case by (simp add: unyielded_def keys_of_def)
next
  case (Cons q qs)
  let ?f = "if ur_externalKey q \<in> ur_externalKey ` set found then found else found @ [q]"
  have step: "unyielded found (q # qs) = unyielded ?f qs" by (simp add: unyielded_def)
  have "distinct (map ur_externalKey ?f)" using Cons.prems by auto
  from Cons.IH[OF this] have ih: "distinct (map ur_externalKey (unyielded ?f qs))" "set ?f \<subseteq> set (unyielded ?f qs)"
    "set (unyielded ?f qs) \<subseteq> set ?f \<union> set qs" "keys_of qs \<subseteq> keys_of (unyielded ?f qs)" by blast+
  have "ur_externalKey q \<in> keys_of ?f" by (simp add: keys_of_def)
  then have "ur_externalKey q \<in> keys_of (unyielded ?f qs)" using ih(2) unfolding keys_of_def by blast
  then have "keys_of (q # qs) \<subseteq> keys_of (unyielded ?f qs)" using ih(4) by (simp add: keys_of_def)
  moreover have f: "set found \<subseteq> set ?f" "set ?f \<subseteq> set found \<union> {q}" by auto
  then have "set found \<subseteq> set (unyielded ?f qs)" "set (unyielded ?f qs) \<subseteq> set found \<union> set (q # qs)"
    using ih(2,3) by (blast, force)
  ultimately show ?case unfolding step using ih(1) by blast
qed

definition apex_listed :: "dns_env \<Rightarrow> upsert_request list \<Rightarrow> string \<Rightarrow> bool" where
  "apex_listed env found apex \<longleftrightarrow> (\<exists>qs. inventoryApex env apex = Inr qs \<and> keys_of qs \<subseteq> keys_of found)"

lemma inventory_apexes_props:
  assumes "inventory_apexes env found apexes = (out, thrown)" "distinct (map ur_externalKey found)" "list_all is_apex apexes"
  shows "distinct (map ur_externalKey out) \<and> set found \<subseteq> set out
    \<and> (\<forall>q \<in> set out - set found. \<exists>apex \<in> set apexes. domain_asset apex q)
    \<and> (thrown = None \<longrightarrow> (\<forall>apex \<in> set apexes. apex_listed env out apex))"
  using assms
proof (induction apexes arbitrary: found)
  case (Cons apex apexes)
  show ?case
  proof (cases "inventoryApex env apex")
    case (Inl e)
    then show ?thesis using Cons.prems by auto
  next
    case (Inr qs)
    let ?f = "unyielded found qs"
    note u = unyielded_props[OF Cons.prems(2), of qs]
    have run: "inventory_apexes env ?f apexes = (out, thrown)" using Cons.prems(1) Inr by simp
    have ih0: "distinct (map ur_externalKey out) \<and> set ?f \<subseteq> set out
      \<and> (\<forall>q \<in> set out - set ?f. \<exists>apex \<in> set apexes. domain_asset apex q)
      \<and> (thrown = None \<longrightarrow> (\<forall>apex \<in> set apexes. apex_listed env out apex))"
      by (rule Cons.IH[OF run]) (use u Cons.prems(3) in simp_all)
    note ih = ih0[THEN conjunct1] ih0[THEN conjunct2, THEN conjunct1] ih0[THEN conjunct2, THEN conjunct2, THEN conjunct1]
      ih0[THEN conjunct2, THEN conjunct2, THEN conjunct2]
    have qs: "list_all (domain_asset apex) qs" using inventoryApex_complete[OF Inr] Cons.prems(3) by simp
    have "keys_of ?f \<subseteq> keys_of out" using ih(2) unfolding keys_of_def by blast
    then have listed: "apex_listed env out apex" using Inr u unfolding apex_listed_def by blast
    have "\<exists>a \<in> set (apex # apexes). domain_asset a q" if "q \<in> set out - set found" for q
    proof (cases "q \<in> set ?f")
      case True
      then have "q \<in> set qs" using that u by blast
      then show ?thesis using qs by (simp add: list_all_iff)
    next
      case False
      then have "\<exists>a \<in> set apexes. domain_asset a q" using that ih(3) by blast
      then show ?thesis by simp
    qed
    moreover have "set found \<subseteq> set out" using u ih(2) by blast
    moreover have "thrown = None \<longrightarrow> (\<forall>a \<in> set (apex # apexes). apex_listed env out a)" using ih(4) listed by simp
    ultimately show ?thesis using ih(1) by blast
  qed
qed auto

lemma discover_domains_cases:
  assumes "discover_domains env ctx = (found, thrown)"
  obtains e where "found = []" "thrown = Some e"
  | raw where "refuseTenantDnsDial (dc_config ctx) = None" "parse_config (dc_config ctx) = Inr raw"
    "inventory_apexes env [] (configuredApexes raw) = (found, thrown)"
proof (cases "refuseTenantDnsDial (dc_config ctx)")
  case None
  note free = None
  show ?thesis
  proof (cases "parse_config (dc_config ctx)")
    case (Inl e)
    then show ?thesis using assms free that(1)[of e] unfolding discover_domains_def by simp
  next
    case (Inr raw)
    show ?thesis
    proof (cases "assertUsableCredential env (dc_credentialRef ctx)")
      case None
      then show ?thesis using assms free Inr that(2) by (simp add: discover_domains_def)
    next
      case (Some e)
      then show ?thesis using assms free Inr that(1)[of e] unfolding discover_domains_def by simp
    qed
  qed
next
  case (Some e)
  then show ?thesis using assms that(1)[of e] unfolding discover_domains_def by simp
qed

text \<open>
  C0 (only public names below a configured apex are minted). Every asset that the connector yields is a domain below an
  apex that the configuration names, with a valid host name that is no address; it counts as facing the
  internet exactly when it has an address, and each of its addresses is judged public; no two have the same key.
\<close>

theorem minted_domains_are_public:
  "discover_domains env ctx = (found, thrown) \<Longrightarrow>
     distinct (map ur_externalKey found)
     \<and> (found \<noteq> [] \<longrightarrow> (\<exists>raw. parse_config (dc_config ctx) = Inr raw
           \<and> (\<forall>q \<in> set found. \<exists>apex \<in> set (configuredApexes raw). domain_asset apex q)))"
proof (erule discover_domains_cases)
  fix raw assume r: "parse_config (dc_config ctx) = Inr raw" "inventory_apexes env [] (configuredApexes raw) = (found, thrown)"
  have "list_all is_apex (configuredApexes raw)" using configured_is_apex by (simp add: list_all_iff)
  from inventory_apexes_props[OF r(2) _ this] r(1) show ?thesis by auto
qed simp

lemma completed_sync_sees:
  assumes "syncIntegration senv ig db = (db', r)" "sy_error r = None" "\<And>j. se_clock senv 0 \<le> se_clock senv j"
    "se_registry senv (ig_provider ig) = Some connector"
  obtains secret found where "connector (context_of ig secret) = (found, None)"
    "\<And>key. key \<in> keys_of found \<Longrightarrow> seen_by (ig_id ig) {se_clock senv 0..} (at_key (ig_org ig) key (iv_assets db'))"
  using completed_sync[OF assms(1-3)] assms(4) by auto

text \<open>
  C0 (a sync of domains is complete or fails). When a sync of this connector ends without an error, then for every
  configured apex the certificate log's whole listing was read, from a public address and at most three pages
  from the first to one that names no next one, and every name of it below the apex, as well as the apex, is now a
  live asset of the integration. So no name is archived for being cut off.
\<close>

theorem domain_sync_is_complete:
  assumes run: "syncIntegration senv ig db = (db', r)" and ok: "sy_error r = None"
    and clock: "\<And>j. se_clock senv 0 \<le> se_clock senv j"
    and connector: "se_registry senv (ig_provider ig) = Some (dns_connector env)"
  shows "\<exists>raw. parse_config (ig_config ig) = Inr raw \<and>
    (\<forall>apex \<in> set (configuredApexes raw). \<exists>ip u ps.
        isPublicAddress ''DNS'' ip = Inr True \<and> crtShQueryUrl (de_url env) apex = Inr u
        \<and> ct_chain env ip u ps \<and> length ps \<le> DNS_CT_MAX_PAGES
        \<and> (\<forall>n. n = apex \<or> (\<exists>name \<in> set (concat (map fst ps)). normalizeDiscoveredName name apex = Some n) \<longrightarrow>
              seen_by (ig_id ig) {se_clock senv 0..} (at_key (ig_org ig) (dnsExternalKey n) (iv_assets db'))))"
proof -
  obtain secret found where found: "dns_connector env (context_of ig secret) = (found, None)"
    and seen: "\<And>key. key \<in> keys_of found \<Longrightarrow> seen_by (ig_id ig) {se_clock senv 0..} (at_key (ig_org ig) key (iv_assets db'))"
    using completed_sync_sees[OF run ok clock connector] by metis
  have "discover_domains env (context_of ig secret) = (found, None)"
    using found by (cases "discover_domains env (context_of ig secret)") (auto simp: dns_connector_def)
  then obtain raw where raw: "parse_config (ig_config ig) = Inr raw" "inventory_apexes env [] (configuredApexes raw) = (found, None)"
    by (auto elim!: discover_domains_cases simp: context_of_def)
  have "list_all is_apex (configuredApexes raw)" using configured_is_apex by (simp add: list_all_iff)
  note props = inventory_apexes_props[OF raw(2) _ this]
  have "\<exists>ip u ps. isPublicAddress ''DNS'' ip = Inr True \<and> crtShQueryUrl (de_url env) apex = Inr u
        \<and> ct_chain env ip u ps \<and> length ps \<le> DNS_CT_MAX_PAGES
        \<and> (\<forall>n. n = apex \<or> (\<exists>name \<in> set (concat (map fst ps)). normalizeDiscoveredName name apex = Some n) \<longrightarrow>
              seen_by (ig_id ig) {se_clock senv 0..} (at_key (ig_org ig) (dnsExternalKey n) (iv_assets db')))"
    if apex: "apex \<in> set (configuredApexes raw)" for apex
  proof -
    obtain qs where qs: "inventoryApex env apex = Inr qs" "keys_of qs \<subseteq> keys_of found"
      using props apex by (auto simp: apex_listed_def)
    obtain ip u ps where c: "isPublicAddress ''DNS'' ip = Inr True" "crtShQueryUrl (de_url env) apex = Inr u" "ct_chain env ip u ps"
      "length ps \<le> DNS_CT_MAX_PAGES"
      "set (map ur_name qs) = {apex} \<union> {n. \<exists>raw \<in> set (concat (map fst ps) @ or_nothing (de_resolveNs env apex)).
          normalizeDiscoveredName raw apex = Some n}" and all: "list_all (domain_asset apex) qs"
      using inventoryApex_complete[OF qs(1) configured_is_apex[OF apex]] by blast
    have "dnsExternalKey n \<in> keys_of qs" if "n \<in> set (map ur_name qs)" for n
      using that all by (auto simp: keys_of_def list_all_iff domain_asset_def image_iff)
    then have "seen_by (ig_id ig) {se_clock senv 0..} (at_key (ig_org ig) (dnsExternalKey n) (iv_assets db'))"
      if "n \<in> set (map ur_name qs)" for n
      using seen qs(2) that by blast
    then show ?thesis using c(1-4) unfolding c(5) by (intro exI[of _ ip] exI[of _ u] exI[of _ ps]) auto
  qed
  then show ?thesis using raw(1) by blast
qed


section \<open>Host names\<close>

lemma host_chars: "isValidHostname h \<Longrightarrow> c \<in> set h \<Longrightarrow> alnum c \<or> c = CHR ''-'' \<or> c = CHR ''.''"
  using set_split_on[of c h "CHR ''.''"]
  by (fastforce simp: isValidHostname_def host_label_def list_all_iff alnum_def)

lemma host_char_not_ws: "alnum c \<or> c = CHR ''-'' \<or> c = CHR ''.'' \<Longrightarrow> \<not> js_ws c"
  by (auto simp: alnum_def is_lower_def is_upper_def is_digit_def js_ws_def ccode_def)

lemma trim_plain:
  assumes "\<And>c. c \<in> set s \<Longrightarrow> \<not> js_ws c"
  shows "js_trim s = s"
proof -
  have "dropWhile js_ws t = t" if "set t \<subseteq> set s" for t using that assms by (cases t) auto
  then show ?thesis by (simp add: js_trim_def)
qed

lemma split_on_snoc_sep: "split_on d (s @ [d]) = split_on d s @ [[]]"
proof (induction s)
  case (Cons c s)
  then show ?case by (cases "split_on d s") auto
qed simp

lemma last_split_dot: "List.last (split_on d (s @ [d])) = []"
  by (simp add: split_on_snoc_sep)

lemma host_trim: "isValidHostname h \<Longrightarrow> js_trim h = h"
  using host_chars[of h] host_char_not_ws by (intro trim_plain) blast

lemma host_no_dot:
  assumes "isValidHostname h"
  shows "without_dot h = h"
proof -
  have "List.last (split_on CHR ''.'' h) \<noteq> []"
    using assms last_in_set[OF split_on_not_Nil[of "CHR ''.''" h]]
    by (auto simp: isValidHostname_def host_label_def list_all_iff)
  then have "h = [] \<or> List.last h \<noteq> CHR ''.''" using last_split_dot append_butlast_last_id by metis
  then show ?thesis by (auto simp: without_dot_def)
qed

lemma host_safe_char:
  assumes "isValidHostname h" "c \<in> set ''@:/?#[]%''"
  shows "c \<notin> set h"
  using host_chars[OF assms(1), of c] assms(2)
  by (auto simp: alnum_def is_lower_def is_upper_def is_digit_def ccode_def)


section \<open>Witnesses\<close>

text \<open>One organisation's apex, one page of the log.\<close>

definition acme_query :: string where
  "acme_query = ''https://crt.sh/?q=%25.acme.io&output=json''"

definition crt_url :: "string \<Rightarrow> url" where
  "crt_url s = \<lparr>url_protocol = ''https:'', url_hostname = ''crt.sh'', url_port = [], url_username = [], url_password = [],
               url_pathname = ''/'', url_search = drop 15 s\<rparr>"

definition log_page :: ct_result where
  "log_page = \<lparr>ct_status = 200, ct_headers = (\<lambda>_. None),
     ct_body = json_text (JArr [JObj [(''name_value'', JStr ''*.API.acme.io'')], JObj [(''name_value'', JStr ''evil.example'')]]),
     ct_truncated = False\<rparr>"

definition acme_dns :: dns_env where
  "acme_dns = \<lparr>de_url = (\<lambda>s. if s = acme_query then Some (crt_url s) else None),
     de_resolve4 = (\<lambda>h. if h = ''crt.sh'' then Some [''91.199.212.73''] else if h = ''api.acme.io'' then Some [''10.0.0.7'', ''8.8.8.8''] else None),
     de_resolve6 = (\<lambda>_. None), de_resolveCname = (\<lambda>_. None), de_resolveNs = (\<lambda>_. Some [''ns.dns.example'']),
     de_execute = (\<lambda>ip path. ([log_page], None)), de_late = (\<lambda>_ _. False), de_rank = (\<lambda>_. 0), de_vars = (\<lambda>_. None),
     de_message = (\<lambda>_. None)\<rparr>"

definition acme_ctx :: discovery_context where
  "acme_ctx = \<lparr>dc_org = ''acme'', dc_integrationId = ''i1'', dc_config = [(''apex'', JStr ''Acme.io.'')], dc_credentialRef = None,
     dc_resolvedCredential = None, dc_since = None\<rparr>"

definition acme_found :: "upsert_request list" where
  "acme_found = [domainToAsset ''acme.io'' ''acme.io'' [''ns.dns.example''] [] [], domainToAsset ''api.acme.io'' ''acme.io'' [] [] [''8.8.8.8'']]"

lemma acme_stages:
  "refuseTenantDnsDial (dc_config acme_ctx) = None" "parse_config (dc_config acme_ctx) = Inr [''Acme.io.'']"
  "configuredApexes [''Acme.io.''] = [''acme.io'']" "assertUsableCredential acme_dns (dc_credentialRef acme_ctx) = None"
  by code_simp+

lemma acme_collected: "collectCrtShNames acme_dns ''acme.io'' 1 = Inr ([''*.API.acme.io'', ''evil.example''], 2)"
proof -
  have s: "resolveCrtSh acme_dns = Inr [''91.199.212.73'']" "crtShQueryUrl (de_url acme_dns) ''acme.io'' = Inr acme_query"
    "ct_page acme_dns ''91.199.212.73'' acme_query = Inr ([''*.API.acme.io'', ''evil.example''], None)"
    by code_simp+
  have "\<not> de_late acme_dns apex k" for apex k by (simp add: acme_dns_def)
  with s show ?thesis by (simp add: collectCrtShNames_def truthy_def numeral_eq_Suc DNS_CT_MAX_PAGES_def)
qed

lemma acme_inventoried: "inventoryApex acme_dns ''acme.io'' = Inr acme_found"
proof -
  have n: "normalizeDiscoveredName ''*.API.acme.io'' ''acme.io'' = Some ''api.acme.io''"
    "normalizeDiscoveredName ''evil.example'' ''acme.io'' = None" "normalizeDiscoveredName ''ns.dns.example'' ''acme.io'' = None"
    "or_nothing (de_resolveNs acme_dns ''acme.io'') = [''ns.dns.example'']"
    "uniq [''acme.io'', ''api.acme.io''] = [''acme.io'', ''api.acme.io'']"
    by code_simp+
  have e: "enrichDomain acme_dns ''acme.io'' ''acme.io'' = Inr (domainToAsset ''acme.io'' ''acme.io'' [''ns.dns.example''] [] [])"
    "enrichDomain acme_dns ''api.acme.io'' ''acme.io'' = Inr (domainToAsset ''api.acme.io'' ''acme.io'' [] [] [''8.8.8.8''])"
    by code_simp+
  have late: "\<not> de_late acme_dns apex k" for apex k by (simp add: acme_dns_def)
  have sorted: "sort_key (de_rank acme_dns) xs = xs" for xs
    by (simp add: acme_dns_def sort_key_const)
  show ?thesis
    unfolding inventoryApex_def acme_collected sorted acme_found_def
    using late n e by (simp add: Let_def map_filter_simps DNS_ENUM_MAX_NAMES_def)
qed

lemma acme_discovered: "discover_domains acme_dns acme_ctx = (acme_found, None)"
  unfolding discover_domains_def acme_stages(1,2,4)
  by (simp add: acme_stages(3) acme_inventoried unyielded_def acme_found_def domainToAsset_def dnsExternalKey_def)

theorem minted_domains_are_public_witness:
  "map ur_name (fst (discover_domains acme_dns acme_ctx)) = [''acme.io'', ''api.acme.io''] \<and>
   (\<exists>ips. asset_addresses (fst (discover_domains acme_dns acme_ctx) ! 1) = Some (JArr (map JStr ips))
        \<and> list_all (\<lambda>ip. isPublicAddress ''DNS'' ip = Inr True) ips)"
proof -
  have names: "map ur_name acme_found = [''acme.io'', ''api.acme.io'']" by (simp add: acme_found_def domainToAsset_def)
  have "acme_found \<noteq> []" "acme_found ! 1 \<in> set acme_found" by (simp_all add: acme_found_def)
  then obtain apex where "domain_asset apex (acme_found ! 1)" using minted_domains_are_public[OF acme_discovered] by blast
  then show ?thesis using acme_discovered names by (auto simp: domain_asset_def)
qed

definition acme_integration :: integration_row where
  "acme_integration = \<lparr>ig_id = ''i1'', ig_org = ''acme'', ig_provider = ''dns_enum'', ig_displayName = ''dns'',
     ig_config = [(''apex'', JStr ''Acme.io.'')], ig_credentialRef = None, ig_enabled = True, ig_lastSyncAt = None, ig_lastSyncError = None\<rparr>"

definition acme_sync_env :: sync_env where
  "acme_sync_env = \<lparr>se_registry = (\<lambda>p. if p = ''dns_enum'' then Some (dns_connector acme_dns) else None),
     se_cipher = clear_cipher, se_clock = \<lambda>_. 1000, se_newId = \<lambda>k. string_of_nat k, se_publish = \<lambda>_. None\<rparr>"

definition acme_db :: inventory where
  "acme_db = \<lparr>iv_assets = [], iv_events = [], iv_integrations = [], iv_secrets = []\<rparr>"

definition acme_sync :: "inventory \<times> sync_result" where
  "acme_sync = syncIntegration acme_sync_env acme_integration acme_db"

lemma acme_sync_ok: "sy_error (snd acme_sync) = None"
proof -
  have "resolved_credential acme_sync_env acme_integration acme_db = Inr None" by code_simp
  moreover have "context_of acme_integration None = acme_ctx" by code_simp
  moreover obtain db1 where "upsert_all acme_sync_env ''acme'' ''i1'' 0 acme_found acme_db = (db1, None)"
  proof -
    have "snd (upsert_all acme_sync_env ''acme'' ''i1'' 0 acme_found acme_db) = None" by code_simp
    then show ?thesis using that by (metis prod.collapse)
  qed
  moreover have "ig_org acme_integration = ''acme''" "ig_id acme_integration = ''i1''" "ig_provider acme_integration = ''dns_enum''"
    "se_registry acme_sync_env ''dns_enum'' = Some (dns_connector acme_dns)" "dns_connector acme_dns acme_ctx = (acme_found, None)"
    by (simp_all add: acme_integration_def acme_sync_env_def dns_connector_def acme_discovered)
  ultimately show ?thesis
    unfolding acme_sync_def syncIntegration_def by (simp add: Let_def split: prod.splits)
qed

theorem domain_sync_is_complete_witness:
  "seen_by ''i1'' {1000..} (at_key ''acme'' (dnsExternalKey ''acme.io'') (iv_assets (fst acme_sync)))"
proof -
  have run: "syncIntegration acme_sync_env acme_integration acme_db = (fst acme_sync, snd acme_sync)" by (simp add: acme_sync_def)
  have clock: "se_clock acme_sync_env 0 \<le> se_clock acme_sync_env j" for j by (simp add: acme_sync_env_def)
  have conn: "se_registry acme_sync_env (ig_provider acme_integration) = Some (dns_connector acme_dns)"
    by (simp add: acme_sync_env_def acme_integration_def)
  have cfg: "parse_config (ig_config acme_integration) = Inr [''Acme.io.'']" "''acme.io'' \<in> set (configuredApexes [''Acme.io.''])"
    by code_simp+
  from domain_sync_is_complete[OF run acme_sync_ok clock conn] cfg
  have "seen_by (ig_id acme_integration) {se_clock acme_sync_env 0..}
      (at_key (ig_org acme_integration) (dnsExternalKey ''acme.io'') (iv_assets (fst acme_sync)))"
    by (metis Inr_inject)
  then show ?thesis by (simp add: acme_integration_def acme_sync_env_def)
qed

end
