(* ===== verification/Checkout.thy ===== *)
theory Checkout
imports DnsEnum ScanLifecycle
begin

text \<open>
  The shallow clone of a scan job's repository (\<^verbatim>\<open>libs/scanner-sdk/src/repo.checkout.ts\<close>, \<^verbatim>\<open>scm.credential.ts\<close>): which
  address and reference a job's target names, with which credential, and the git commands that are run.

  The parser of URLs, the environment's variables and the git processes are arguments; the \<open>k\<close>-th command answers with
  the message of its exception, if any. Errors are constructors with the values that the message quotes.
\<close>

datatype checkout_error =
    Ssh_url string | Unparseable_clone string | Insecure_clone string | Foreign_clone string "string option"
  | Clone_port string | Clone_userinfo | Clone_path string string
  | Malformed_key string | Identity_mismatch string | No_clone_source
  | Ssh_host string | Host_userinfo | Unparseable_host string | Insecure_host | Host_port | Refused_host string
  | Ref_not_allowlisted string | Ref_scheme string | Unusable_ref string | Private_needs_ref
  | Unsafe_ref string | Unsupported_clone | Not_a_clone_url | Invalid_url | Git_failed string

type_synonym url_parser = "string \<Rightarrow> url option"
type_synonym target = "(string \<times> json) list"

definition target_str :: "target \<Rightarrow> string \<Rightarrow> string option" where
  "target_str t k = (case map_of t k of Some (JStr s) \<Rightarrow> Some s | _ \<Rightarrow> None)"


section \<open>Where a target is cloned from\<close>

definition scm_char :: "char \<Rightarrow> bool" where
  "scm_char c = (alnum c \<or> c \<in> set ''_.-'')"

text \<open>\<^verbatim>\<open>/^[\w.-]+$/\<close>.\<close>

definition SCM_SEGMENT :: "string \<Rightarrow> bool" where
  "SCM_SEGMENT s = (s \<noteq> [] \<and> list_all scm_char s)"

definition SAFE_REF :: "string \<Rightarrow> bool" where
  "SAFE_REF s = (s \<noteq> [] \<and> list_all (\<lambda>c. alnum c \<or> c \<in> set ''._/-'') s)"

definition ALLOWED_CLONE_HOSTS :: "string list" where
  "ALLOWED_CLONE_HOSTS =
     [''github.com'', ''www.github.com'', ''gitlab.com'', ''www.gitlab.com'', ''bitbucket.org'', ''www.bitbucket.org'']"

definition canonicalCloneHost :: "string \<Rightarrow> string option \<Rightarrow> string option" where
  "canonicalCloneHost hostname allowed =
     (let host = without_dot (js_lower hostname)
      in if host = ''github.com'' \<or> host = ''www.github.com'' then Some ''github.com''
         else if host = ''gitlab.com'' \<or> host = ''www.gitlab.com'' then Some ''gitlab.com''
         else if host = ''bitbucket.org'' \<or> host = ''www.bitbucket.org'' then Some ''bitbucket.org''
         else if truthy allowed \<and> Some host = allowed then allowed
         else None)"

definition strip_git :: "string \<Rightarrow> string" where
  "strip_git path = (if suffix ''.git'' path then take (length path - 4) path else path)"

definition https_git :: "string \<Rightarrow> string list \<Rightarrow> string" where
  "https_git host parts = ''https://'' @ host @ ''/'' @ join_with ''/'' parts @ ''.git''"

definition allowlistedCloneHttps :: "url_parser \<Rightarrow> string \<Rightarrow> string option \<Rightarrow> checkout_error + string" where
  "allowlistedCloneHttps parse raw allowed =
     (if prefix ''git@'' raw \<or> prefix ''ssh:'' raw then Inl (Ssh_url raw)
      else (case parse raw of
        None \<Rightarrow> Inl (Unparseable_clone raw)
      | Some u \<Rightarrow>
          if url_protocol u \<noteq> ''https:'' then Inl (Insecure_clone raw)
          else (case canonicalCloneHost (url_hostname u) allowed of
            None \<Rightarrow> Inl (Foreign_clone (url_hostname u) allowed)
          | Some canonical \<Rightarrow>
              if url_port u \<noteq> [] \<and> url_port u \<noteq> ''443'' then Inl (Clone_port raw)
              else if url_username u \<noteq> [] \<or> url_password u \<noteq> [] then Inl Clone_userinfo
              else (let parts = filter (\<lambda>p. p \<noteq> []) (split_on CHR ''/'' (strip_git (url_pathname u)))
                    in if canonical = ''github.com'' then
                         (if length parts \<noteq> 2 \<or> \<not> list_all SCM_SEGMENT parts then Inl (Clone_path ''GitHub'' raw)
                          else Inr (https_git ''github.com'' parts))
                       else if canonical = ''bitbucket.org'' then
                         (if length parts \<noteq> 2 \<or> \<not> list_all SCM_SEGMENT parts then Inl (Clone_path ''Bitbucket Cloud'' raw)
                          else Inr (https_git ''bitbucket.org'' parts))
                       else if length parts < 2 \<or> 10 < length parts \<or> \<not> list_all SCM_SEGMENT parts
                         then Inl (Clone_path ''GitLab'' raw)
                       else Inr (https_git canonical parts)))))"

text \<open>The keys \<^verbatim>\<open>github:owner/repo\<close>, \<^verbatim>\<open>bitbucket:workspace/slug\<close> and \<^verbatim>\<open>gitlab:group/.../repo\<close>.\<close>

definition key_parts :: "string \<Rightarrow> string \<Rightarrow> string list" where
  "key_parts scheme key = split_on CHR ''/'' (drop (length scheme) key)"

definition githubKeyToHttps :: "string \<Rightarrow> checkout_error + string" where
  "githubKeyToHttps key =
     (let parts = key_parts ''github:'' key
      in if prefix ''github:'' key \<and> length parts = 2 \<and> list_all SCM_SEGMENT parts
         then Inr (https_git ''github.com'' parts) else Inl (Malformed_key key))"

definition bitbucketKeyToHttps :: "string \<Rightarrow> checkout_error + string" where
  "bitbucketKeyToHttps key =
     (let parts = key_parts ''bitbucket:'' key
      in if prefix ''bitbucket:'' key \<and> length parts = 2 \<and> list_all SCM_SEGMENT parts
         then Inr (https_git ''bitbucket.org'' parts) else Inl (Malformed_key key))"

definition gitlabKeyToHttps :: "string \<Rightarrow> string \<Rightarrow> checkout_error + string" where
  "gitlabKeyToHttps key host =
     (let parts = key_parts ''gitlab:'' key
      in if prefix ''gitlab:'' key \<and> 2 \<le> length parts \<and> list_all SCM_SEGMENT parts \<and> length parts \<le> 10
         then Inr (https_git host parts) else Inl (Malformed_key key))"

definition httpsFromScmIdentityKey :: "string \<Rightarrow> string option \<Rightarrow> checkout_error + string option" where
  "httpsFromScmIdentityKey key gitlabHost =
     (if prefix ''github:'' key then map_sum id Some (githubKeyToHttps key)
      else if prefix ''gitlab:'' key then
        map_sum id Some (gitlabKeyToHttps key (case gitlabHost of Some h \<Rightarrow> h | None \<Rightarrow> ''gitlab.com''))
      else if prefix ''bitbucket:'' key then map_sum id Some (bitbucketKeyToHttps key)
      else Inr None)"

definition drop_slashes :: "string \<Rightarrow> string" where
  "drop_slashes s = rev (dropWhile (\<lambda>c. c = CHR ''/'') (rev s))"

definition canonicalHostPath :: "url_parser \<Rightarrow> string \<Rightarrow> string option \<Rightarrow> checkout_error + string" where
  "canonicalHostPath parse u allowed =
     (case parse u of
        None \<Rightarrow> Inl Invalid_url
      | Some p \<Rightarrow>
          (case canonicalCloneHost (url_hostname p) allowed of
             None \<Rightarrow> Inl (Foreign_clone (url_hostname p) allowed)
           | Some host \<Rightarrow> Inr (js_lower (host @ drop_slashes (strip_git (url_pathname p))))))"

definition http_scheme :: "string \<Rightarrow> bool" where
  "http_scheme s = (prefix ''http://'' (js_lower s) \<or> prefix ''https://'' (js_lower s))"

definition parseTargetGitlabHost :: "url_parser \<Rightarrow> target \<Rightarrow> checkout_error + string option" where
  "parseTargetGitlabHost parse target =
     (case target_str target ''gitlabHost'' of
        None \<Rightarrow> Inr None
      | Some raw \<Rightarrow>
          (let trimmed = js_trim raw
           in if trimmed = [] then Inr None
              else if prefix ''git@'' trimmed \<or> prefix ''ssh:'' trimmed \<or> prefix ''ssh@'' trimmed then Inl (Ssh_host trimmed)
              else if CHR ''@'' \<in> set trimmed \<and> \<not> has_infix ''://'' trimmed then Inl Host_userinfo
              else (case parse (if http_scheme trimmed then trimmed else ''https://'' @ trimmed) of
                      None \<Rightarrow> Inl (Unparseable_host trimmed)
                    | Some u \<Rightarrow>
                        if url_protocol u \<noteq> ''https:'' then Inl Insecure_host
                        else if url_username u \<noteq> [] \<or> url_password u \<noteq> [] then Inl Host_userinfo
                        else if url_port u \<noteq> [] \<and> url_port u \<noteq> ''443'' then Inl Host_port
                        else (let host = without_dot (js_lower (url_hostname u))
                              in if host = [] \<or> host \<in> {''github.com'', ''www.github.com'', ''bitbucket.org'', ''www.bitbucket.org''}
                                 then Inl (Refused_host (url_hostname u))
                                 else if host = ''www.gitlab.com'' then Inr (Some ''gitlab.com'')
                                 else Inr (Some host)))))"

definition same_repository ::
    "url_parser \<Rightarrow> string option \<Rightarrow> string \<Rightarrow> string \<Rightarrow> string \<Rightarrow> checkout_error + string" where
  "same_repository parse gitlabHost key fromKey fromClone =
     (case (canonicalHostPath parse fromClone gitlabHost, canonicalHostPath parse fromKey gitlabHost) of
        (Inl e, _) \<Rightarrow> Inl e
      | (_, Inl e) \<Rightarrow> Inl e
      | (Inr a, Inr b) \<Rightarrow> if a \<noteq> b then Inl (Identity_mismatch key) else Inr fromClone)"

definition resolveCloneUrl :: "url_parser \<Rightarrow> target \<Rightarrow> checkout_error + string" where
  "resolveCloneUrl parse target =
     (case parseTargetGitlabHost parse target of
        Inl e \<Rightarrow> Inl e
      | Inr gitlabHost \<Rightarrow>
          (let cloneUrl = target_str target ''cloneUrl''; key = target_str target ''externalKey''
           in case (if truthy key then httpsFromScmIdentityKey (the key) gitlabHost else Inr None) of
                Inl e \<Rightarrow> Inl e
              | Inr fromKey \<Rightarrow>
                  if truthy cloneUrl then
                    (case allowlistedCloneHttps parse (the cloneUrl) gitlabHost of
                       Inl e \<Rightarrow> Inl e
                     | Inr fromClone \<Rightarrow>
                         (case fromKey of
                            Some k \<Rightarrow> same_repository parse gitlabHost (the key) k fromClone
                          | None \<Rightarrow> Inr fromClone))
                  else (case fromKey of Some k \<Rightarrow> Inr k | None \<Rightarrow> Inl No_clone_source)))"


section \<open>With which credential\<close>

definition checkout_families :: "string list" where
  "checkout_families = [''GITHUB'', ''GITLAB'', ''BITBUCKET'']"

definition resolveGithubCredential :: "env_vars \<Rightarrow> string option \<Rightarrow> checkout_error + string option" where
  "resolveGithubCredential vars ref =
     (if \<not> truthy ref then Inr None
      else if ref_scheme (the ref) = ''env'' then
        (let key = ref_key (the ref)
         in if key = [] \<or> \<not> list_ex (\<lambda>f. env_name f key) checkout_families then Inl (Ref_not_allowlisted key)
            else Inr (env_value vars key))
      else Inl (Ref_scheme (ref_scheme (the ref))))"

definition isPrivateTarget :: "target \<Rightarrow> bool" where
  "isPrivateTarget target =
     (map_of target ''private'' = Some (JBool True) \<or> map_of target ''visibility'' = Some (JStr ''private''))"

definition requireUsableCredential :: "env_vars \<Rightarrow> target \<Rightarrow> string option \<Rightarrow> checkout_error + string option" where
  "requireUsableCredential vars target ref =
     (if \<not> truthy ref \<and> \<not> isPrivateTarget target then Inr None
      else (case resolveGithubCredential vars ref of
              Inl e \<Rightarrow> Inl e
            | Inr token \<Rightarrow>
                if truthy token then Inr token
                else if truthy ref then Inl (Unusable_ref (the ref)) else Inl Private_needs_ref))"

definition resolveCheckout ::
    "url_parser \<Rightarrow> env_vars \<Rightarrow> target \<Rightarrow> string option \<Rightarrow> checkout_error + string \<times> string option" where
  "resolveCheckout parse vars target ref =
     (case requireUsableCredential vars target ref of
        Inl e \<Rightarrow> Inl e
      | Inr token \<Rightarrow> map_sum id (\<lambda>u. (u, token)) (resolveCloneUrl parse target))"

text \<open>Base 64 of the bytes of UTF-8, and the header.\<close>

definition utf8 :: "string \<Rightarrow> string" where
  "utf8 s = concat (map (\<lambda>c. if ccode c < 128 then [c]
                            else [char_of (192 + ccode c div 64), char_of (128 + ccode c mod 64)]) s)"

definition base64 :: "string \<Rightarrow> string" where
  "base64 s =
     map (\<lambda>c. if c = CHR ''-'' then CHR ''+'' else if c = CHR ''_'' then CHR ''/'' else c) (b64url_encode s)
     @ replicate ((3 - length s mod 3) mod 3) CHR ''=''"

definition basicAuthExtraHeader :: "string \<Rightarrow> string \<Rightarrow> string" where
  "basicAuthExtraHeader user token = ''AUTHORIZATION: basic '' @ base64 (utf8 (user @ '':'' @ token))"

definition cloneHttpExtraHeader :: "string \<Rightarrow> string \<Rightarrow> string" where
  "cloneHttpExtraHeader hostname token =
     (let host = without_dot (js_lower hostname)
      in if host = ''github.com'' \<or> host = ''www.github.com'' then basicAuthExtraHeader ''x-access-token'' token
         else if host = ''bitbucket.org'' \<or> host = ''www.bitbucket.org'' then basicAuthExtraHeader ''x-token-auth'' token
         else basicAuthExtraHeader ''oauth2'' token)"


section \<open>The git commands\<close>

definition resolveRef :: "target \<Rightarrow> target \<Rightarrow> string" where
  "resolveRef options target =
     (case find truthy [target_str options ''ref'', target_str options ''commitSha'', target_str target ''ref'',
                        target_str target ''defaultBranch'', Some ''HEAD''] of
        Some (Some s) \<Rightarrow> s
      | _ \<Rightarrow> ''HEAD'')"

definition gitCheckoutCommands :: "string \<Rightarrow> string \<Rightarrow> string \<Rightarrow> string list list" where
  "gitCheckoutCommands u ref dest =
     [[''init'', dest],
      [''-C'', dest, ''remote'', ''add'', ''origin'', u],
      [''-C'', dest, ''fetch'', ''--depth'', ''1'', ''--'', ''origin'', ref],
      [''-C'', dest, ''-c'', ''advice.detachedHead=false'', ''checkout'', ''FETCH_HEAD'']]"

text \<open>A call's arguments and the variables set beside those of the process.\<close>

record git_call =
  gc_args :: "string list"
  gc_env :: "(string \<times> string) list"

definition git_env :: "string \<Rightarrow> string option \<Rightarrow> (string \<times> string) list" where
  "git_env hostname token =
     [(''GIT_TERMINAL_PROMPT'', ''0''), (''GIT_ASKPASS'', ''echo'')] @
     (if truthy token then
        [(''GIT_CONFIG_COUNT'', ''1''), (''GIT_CONFIG_KEY_0'', ''http.extraHeader''),
         (''GIT_CONFIG_VALUE_0'', cloneHttpExtraHeader hostname (the token))]
      else [])"

fun run_git :: "(nat \<Rightarrow> string option) \<Rightarrow> nat \<Rightarrow> git_call list \<Rightarrow> git_call list \<times> checkout_error option" where
  "run_git exec k [] = ([], None)"
| "run_git exec k (c # cs) =
     (case exec k of
        Some e \<Rightarrow> ([c], Some (Git_failed e))
      | None \<Rightarrow> map_prod (Cons c) id (run_git exec (Suc k) cs))"

definition shallowClone ::
    "url_parser \<Rightarrow> (nat \<Rightarrow> string option) \<Rightarrow> string \<Rightarrow> string \<Rightarrow> string \<Rightarrow> string option \<Rightarrow> string option
      \<Rightarrow> git_call list \<times> checkout_error option" where
  "shallowClone parse exec u ref dest token allowedHost =
     (if \<not> SAFE_REF ref then ([], Some (Unsafe_ref ref))
      else (case parse u of
        None \<Rightarrow> ([], Some Not_a_clone_url)
      | Some p \<Rightarrow>
          if url_protocol p \<noteq> ''https:''
             \<or> \<not> (url_hostname p \<in> set ALLOWED_CLONE_HOSTS
                   \<or> (allowedHost \<noteq> None \<and> js_lower (url_hostname p) = js_lower (the allowedHost)))
          then ([], Some Unsupported_clone)
          else if url_username p \<noteq> [] \<or> url_password p \<noteq> [] then ([], Some Clone_userinfo)
          else run_git exec 0
                 (map (\<lambda>args. \<lparr>gc_args = args, gc_env = git_env (url_hostname p) token\<rparr>) (gitCheckoutCommands u ref dest))))"

record checkout_env =
  ck_url :: url_parser
  ck_vars :: env_vars
  ck_exec :: "nat \<Rightarrow> string option"

definition entries_of :: "json \<Rightarrow> target" where
  "entries_of j = (case j of JObj es \<Rightarrow> es | _ \<Rightarrow> [])"

definition checkout :: "checkout_env \<Rightarrow> scan_job_payload \<Rightarrow> string \<Rightarrow> git_call list \<times> checkout_error option" where
  "checkout env job workDir =
     (let target = entries_of (p_target job)
      in case resolveCheckout (ck_url env) (ck_vars env) target (p_credentialRef job) of
           Inl e \<Rightarrow> ([], Some e)
         | Inr (u, token) \<Rightarrow>
             (case ck_url env u of
                None \<Rightarrow> ([], Some Invalid_url)
              | Some p \<Rightarrow>
                  shallowClone (ck_url env) (ck_exec env) u (resolveRef (entries_of (p_options job)) target) workDir token
                    (Some (url_hostname p))))"


section \<open>What is cloned, and with what\<close>

definition clone_url :: "string option \<Rightarrow> string \<Rightarrow> bool" where
  "clone_url gitlabHost u \<longleftrightarrow>
     (\<exists>host parts. u = https_git host parts \<and> (host \<in> {''github.com'', ''gitlab.com'', ''bitbucket.org''} \<or> gitlabHost = Some host)
        \<and> list_all SCM_SEGMENT parts \<and> 2 \<le> length parts \<and> length parts \<le> 10
        \<and> (host \<in> {''github.com'', ''bitbucket.org''} \<longrightarrow> length parts = 2))"

definition scm_key :: "string \<Rightarrow> bool" where
  "scm_key key = (prefix ''github:'' key \<or> prefix ''gitlab:'' key \<or> prefix ''bitbucket:'' key)"

text \<open>The address that a key names, or one with the same host and path but for case.\<close>

definition names_repository :: "url_parser \<Rightarrow> string option \<Rightarrow> string \<Rightarrow> string \<Rightarrow> bool" where
  "names_repository parse gitlabHost key u \<longleftrightarrow>
     (\<exists>k. httpsFromScmIdentityKey key gitlabHost = Inr (Some k)
        \<and> (u = k \<or> (\<exists>c. canonicalHostPath parse u gitlabHost = Inr c \<and> canonicalHostPath parse k gitlabHost = Inr c)))"

lemma canonicalCloneHost_allowed:
  "canonicalCloneHost h allowed = Some c \<Longrightarrow> c \<in> {''github.com'', ''gitlab.com'', ''bitbucket.org''} \<or> allowed = Some c"
  by (auto simp: canonicalCloneHost_def Let_def split: if_splits)

lemma parsed_gitlab_host:
  "parseTargetGitlabHost parse t = Inr (Some h) \<Longrightarrow> h \<noteq> ''github.com'' \<and> h \<noteq> ''bitbucket.org''"
  by (auto simp: parseTargetGitlabHost_def Let_def split: option.splits if_splits)

lemma clone_urlI:
  assumes "host \<in> {''github.com'', ''gitlab.com'', ''bitbucket.org''} \<or> gitlabHost = Some host"
    "list_all SCM_SEGMENT parts" "2 \<le> length parts" "length parts \<le> 10"
    "host \<in> {''github.com'', ''bitbucket.org''} \<Longrightarrow> length parts = 2"
  shows "clone_url gitlabHost (https_git host parts)"
  unfolding clone_url_def using assms by (intro exI[of _ host] exI[of _ parts]) blast

lemma allowlistedCloneHttps_url:
  assumes "allowlistedCloneHttps parse raw allowed = Inr u"
  shows "clone_url allowed u"
proof -
  obtain p canonical where p: "parse raw = Some p" "canonicalCloneHost (url_hostname p) allowed = Some canonical"
    using assms by (auto simp: allowlistedCloneHttps_def split: if_splits option.splits)
  define parts where "parts = filter (\<lambda>q. q \<noteq> []) (split_on CHR ''/'' (strip_git (url_pathname p)))"
  have "u = https_git canonical parts" "list_all SCM_SEGMENT parts" "2 \<le> length parts" "length parts \<le> 10"
    "canonical \<in> {''github.com'', ''bitbucket.org''} \<Longrightarrow> length parts = 2"
    using assms p by (auto simp: allowlistedCloneHttps_def Let_def parts_def[symmetric] split: if_splits)
  then show ?thesis using clone_urlI canonicalCloneHost_allowed[OF p(2)] by metis
qed

lemma key_to_https:
  "githubKeyToHttps key = Inr u \<Longrightarrow> clone_url gh u"
  "bitbucketKeyToHttps key = Inr u \<Longrightarrow> clone_url gh u"
  "gitlabKeyToHttps key host = Inr u \<Longrightarrow> host = ''gitlab.com'' \<or> gh = Some host \<Longrightarrow> host \<notin> {''github.com'', ''bitbucket.org''}
     \<Longrightarrow> clone_url gh u"
  unfolding githubKeyToHttps_def bitbucketKeyToHttps_def gitlabKeyToHttps_def Let_def
  by (auto split: if_splits intro!: clone_urlI)

lemma httpsFromScmIdentityKey_url:
  assumes "httpsFromScmIdentityKey key gh = Inr r" "\<And>h. gh = Some h \<Longrightarrow> h \<noteq> ''github.com'' \<and> h \<noteq> ''bitbucket.org''"
  shows "case r of Some u \<Rightarrow> scm_key key \<and> clone_url gh u | None \<Rightarrow> \<not> scm_key key"
  using assms
  by (auto simp: httpsFromScmIdentityKey_def scm_key_def split: if_splits option.splits sum.splits
      simp: map_sum_def intro: key_to_https)

lemma resolveCloneUrl_cases:
  assumes "resolveCloneUrl parse target = Inr u"
  obtains gh where "parseTargetGitlabHost parse target = Inr gh" "clone_url gh u"
    "\<And>key. target_str target ''externalKey'' = Some key \<Longrightarrow> scm_key key \<Longrightarrow> names_repository parse gh key u"
proof -
  define key where "key = target_str target ''externalKey''"
  obtain gh where gh: "parseTargetGitlabHost parse target = Inr gh"
    using assms by (auto simp: resolveCloneUrl_def split: sum.splits)
  obtain fromKey where fk: "(if truthy key then httpsFromScmIdentityKey (the key) gh else Inr None) = Inr fromKey"
    using assms gh by (cases "if truthy key then httpsFromScmIdentityKey (the key) gh else Inr None")
      (auto simp: resolveCloneUrl_def Let_def key_def[symmetric])
  have url: "case fromKey of Some k \<Rightarrow> truthy key \<and> scm_key (the key) \<and> clone_url gh k | None \<Rightarrow> truthy key \<longrightarrow> \<not> scm_key (the key)"
    using fk httpsFromScmIdentityKey_url[of "the key" gh fromKey] parsed_gitlab_host[of parse target] gh
    by (cases "truthy key") (auto split: option.splits)
  have "clone_url gh u \<and> (\<forall>k. fromKey = Some k \<longrightarrow> names_repository parse gh (the key) u)"
  proof (cases "truthy (target_str target ''cloneUrl'')")
    case True
    then obtain fc where fc: "allowlistedCloneHttps parse (the (target_str target ''cloneUrl'')) gh = Inr fc"
      "(case fromKey of Some k \<Rightarrow> same_repository parse gh (the key) k fc | None \<Rightarrow> Inr fc) = Inr u"
      using assms gh fk by (auto simp: resolveCloneUrl_def Let_def key_def[symmetric] split: sum.splits)
    then show ?thesis
      using allowlistedCloneHttps_url[OF fc(1)] fk url
      by (auto simp: same_repository_def names_repository_def split: option.splits sum.splits if_splits)
  next
    case False
    then have "fromKey = Some u"
      using assms gh fk by (auto simp: resolveCloneUrl_def Let_def key_def[symmetric] split: option.splits)
    then show ?thesis using url fk by (auto simp: names_repository_def split: if_splits)
  qed
  moreover have "fromKey \<noteq> None" if "key = Some k" "scm_key k" for k
    using url that by (cases fromKey) (auto simp: truthy_def scm_key_def)
  ultimately show ?thesis using that[OF gh] unfolding key_def by (metis option.sel option.exhaust)
qed

definition usable_pointer :: "env_vars \<Rightarrow> string option \<Rightarrow> string \<Rightarrow> bool" where
  "usable_pointer vars ref token \<longleftrightarrow>
     (\<exists>name f. ref = Some (''env:'' @ name) \<and> f \<in> set checkout_families \<and> env_name f name \<and> vars name = Some token \<and> token \<noteq> [])"

lemma ref_of_parts:
  assumes "ref_scheme r = ''env''" "ref_key r \<noteq> []"
  shows "r = ''env:'' @ ref_key r"
proof -
  have d: "dropWhile (\<lambda>c. c \<noteq> CHR '':'') r \<noteq> []" using assms(2) unfolding ref_key_def by (metis list.sel(2))
  then have "hd (dropWhile (\<lambda>c. c \<noteq> CHR '':'') r) = CHR '':''" using hd_dropWhile[OF d] by simp
  then have "dropWhile (\<lambda>c. c \<noteq> CHR '':'') r = CHR '':'' # ref_key r"
    using d by (cases "dropWhile (\<lambda>c. c \<noteq> CHR '':'') r") (auto simp: ref_key_def)
  then have "takeWhile (\<lambda>c. c \<noteq> CHR '':'') r @ CHR '':'' # ref_key r = r" using takeWhile_dropWhile_id by metis
  then show ?thesis using assms(1) by (simp add: ref_scheme_def)
qed

lemma resolveGithubCredential_pointer:
  assumes "resolveGithubCredential vars ref = Inr (Some t)"
  shows "usable_pointer vars ref t"
proof -
  obtain r where r: "ref = Some r" "r \<noteq> []" using assms by (cases ref) (auto simp: resolveGithubCredential_def truthy_def split: if_splits)
  have k: "ref_scheme r = ''env''" "ref_key r \<noteq> []" "list_ex (\<lambda>f. env_name f (ref_key r)) checkout_families"
    "env_value vars (ref_key r) = Some t"
    using assms r by (auto simp: resolveGithubCredential_def Let_def split: if_splits)
  then have "vars (ref_key r) = Some t" "t \<noteq> []" by (auto simp: env_value_def truthy_def split: if_splits)
  then show ?thesis
    unfolding usable_pointer_def using ref_of_parts[OF k(1,2)] k(3) r(1) by (auto simp: list_ex_iff)
qed

lemma requireUsableCredential_cases:
  assumes "requireUsableCredential vars target ref = Inr token"
  shows "if truthy ref \<or> isPrivateTarget target then \<exists>t. token = Some t \<and> usable_pointer vars ref t else token = None"
proof (cases "truthy ref \<or> isPrivateTarget target")
  case True
  then have "resolveGithubCredential vars ref = Inr token" "truthy token"
    using assms by (auto simp: requireUsableCredential_def split: sum.splits if_splits)
  then show ?thesis using True resolveGithubCredential_pointer by (cases token) (auto simp: truthy_def)
next
  case False
  then show ?thesis using assms by (simp add: requireUsableCredential_def)
qed

lemma run_git_calls:
  "prefix (fst (run_git exec k cs)) cs" "snd (run_git exec k cs) = None \<Longrightarrow> fst (run_git exec k cs) = cs"
  by (induction cs arbitrary: k) (auto split: option.splits)

lemma shallowClone_cases:
  assumes "shallowClone parse exec u ref dir token allowed = (calls, err)" "calls \<noteq> []"
  obtains p where "parse u = Some p" "SAFE_REF ref" "prefix (map gc_args calls) (gitCheckoutCommands u ref dir)"
    "err = None \<Longrightarrow> map gc_args calls = gitCheckoutCommands u ref dir" "\<And>c. c \<in> set calls \<Longrightarrow> gc_env c = git_env (url_hostname p) token"
proof -
  obtain p where p: "parse u = Some p" "SAFE_REF ref"
    and run: "run_git exec 0 (map (\<lambda>args. \<lparr>gc_args = args, gc_env = git_env (url_hostname p) token\<rparr>) (gitCheckoutCommands u ref dir))
        = (calls, err)" (is "run_git exec 0 ?cs = _")
    using assms by (auto simp: shallowClone_def split: if_splits option.splits)
  have pre: "prefix calls ?cs" "err = None \<Longrightarrow> calls = ?cs" using run_git_calls[where cs = ?cs and k = 0 and exec = exec] run by auto
  have args: "map gc_args ?cs = gitCheckoutCommands u ref dir" by (simp add: comp_def)
  have "gc_env c = git_env (url_hostname p) token" if "c \<in> set calls" for c
    using set_mono_prefix[OF pre(1)] that by auto
  moreover have "prefix (map gc_args calls) (gitCheckoutCommands u ref dir)" using map_mono_prefix[OF pre(1), of gc_args] args by simp
  moreover have "err = None \<Longrightarrow> map gc_args calls = gitCheckoutCommands u ref dir" using pre(2) args by simp
  ultimately show ?thesis using that p by blast
qed

text \<open>
  C0 (a checkout stays on the asset). Whenever git is run for a job, the address is https on one of the three hosts or
  on the target's own GitLab host, with a path of plain segments; when the target has the key of a repository, it is
  that repository; the reference is safe; the calls are the first of the four commands, all four when nothing failed,
  and none has a credential in its arguments. A private target or one with a credential reference is cloned with the
  non-empty value of an allow-listed variable that the reference names, and any other target without one.
\<close>

theorem checkout_stays_on_the_asset:
  assumes run: "checkout env job dir = (calls, err)" and calls: "calls \<noteq> []"
  shows "\<exists>gh u p token.
     parseTargetGitlabHost (ck_url env) (entries_of (p_target job)) = Inr gh \<and> clone_url gh u \<and> ck_url env u = Some p
     \<and> (\<forall>key. target_str (entries_of (p_target job)) ''externalKey'' = Some key \<and> scm_key key \<longrightarrow>
              names_repository (ck_url env) gh key u)
     \<and> SAFE_REF (resolveRef (entries_of (p_options job)) (entries_of (p_target job)))
     \<and> prefix (map gc_args calls)
         (gitCheckoutCommands u (resolveRef (entries_of (p_options job)) (entries_of (p_target job))) dir)
     \<and> (err = None \<longrightarrow> length calls = 4)
     \<and> (\<forall>c \<in> set calls. gc_env c = git_env (url_hostname p) token)
     \<and> (if truthy (p_credentialRef job) \<or> isPrivateTarget (entries_of (p_target job))
        then \<exists>t. token = Some t \<and> usable_pointer (ck_vars env) (p_credentialRef job) t
        else token = None)"
proof -
  define target where "target = entries_of (p_target job)"
  obtain u token where r: "resolveCheckout (ck_url env) (ck_vars env) target (p_credentialRef job) = Inr (u, token)"
    using run calls by (auto simp: checkout_def Let_def target_def[symmetric] split: sum.splits)
  then have cred: "requireUsableCredential (ck_vars env) target (p_credentialRef job) = Inr token"
    and u: "resolveCloneUrl (ck_url env) target = Inr u"
    by (auto simp: resolveCheckout_def map_sum_def split: sum.splits)
  obtain q :: url where clone: "shallowClone (ck_url env) (ck_exec env) u (resolveRef (entries_of (p_options job)) target) dir token
      (Some (url_hostname q)) = (calls, err)"
    using run calls r by (auto simp: checkout_def Let_def target_def[symmetric] split: option.splits)
  obtain gh where gh: "parseTargetGitlabHost (ck_url env) target = Inr gh" "clone_url gh u"
    "\<And>key. target_str target ''externalKey'' = Some key \<Longrightarrow> scm_key key \<Longrightarrow> names_repository (ck_url env) gh key u"
    using resolveCloneUrl_cases[OF u] by blast
  obtain p where p: "ck_url env u = Some p" "SAFE_REF (resolveRef (entries_of (p_options job)) target)"
    "prefix (map gc_args calls) (gitCheckoutCommands u (resolveRef (entries_of (p_options job)) target) dir)"
    "err = None \<Longrightarrow> map gc_args calls = gitCheckoutCommands u (resolveRef (entries_of (p_options job)) target) dir"
    "\<And>c. c \<in> set calls \<Longrightarrow> gc_env c = git_env (url_hostname p) token"
    using shallowClone_cases[OF clone calls] by blast
  have "length calls = 4" if "err = None" using arg_cong[OF p(4)[OF that], of length] by (simp add: gitCheckoutCommands_def)
  then show ?thesis
    using gh p(1-3,5) requireUsableCredential_cases[OF cred] unfolding target_def by blast
qed


section \<open>An attribute that chooses the host\<close>

text \<open>The dispatcher's view of an inventory row, and the payload's two fields that a checkout reads.\<close>

definition dispatched_row :: "asset_item \<Rightarrow> asset_row" where
  "dispatched_row a =
     \<lparr>as_id = asset_item.as_id a, as_org = asset_item.as_org a, as_kind = asset_item.as_kind a,
      as_externalKey = asset_item.as_externalKey a, as_attributes = JObj (asset_item.as_attributes a),
      as_tags = List.map_filter (\<lambda>(k, v). case v of JStr s \<Rightarrow> Some (k, s) | _ \<Rightarrow> None) (asset_item.as_tags a),
      as_integrationId = asset_item.as_integrationId a, as_archivedAt = asset_item.as_archivedAt a\<rparr>"

definition job_of :: "asset_item \<Rightarrow> cred_refs \<Rightarrow> json \<Rightarrow> scan_job_payload" where
  "job_of a refs options =
     \<lparr>p_jobId = ''j1'', p_scanId = ''s1'', p_orgId = asset_item.as_org a, p_scannerType = ''sca'',
      p_assetId = asset_item.as_id a, p_target = scanJobTarget (dispatched_row a),
      p_credentialRef = scanJobCredentialRef (dispatched_row a) refs, p_options = options, p_attempt = 1,
      p_deadlineAt = 0, p_traceId = []\<rparr>"

definition steering_request :: upsert_request where
  "steering_request =
     \<lparr>ur_kind = ''repository'', ur_externalKey = ''gitlab:acme/api'', ur_name = ''api'', ur_source = ''gitlab'',
      ur_exposure = None, ur_criticality = None, ur_dataClasses = None, ur_ownerTeam = None, ur_ownerEmail = None,
      ur_tags = None, ur_attributes = Some [(''gitlabHost'', JStr ''evil.example'')]\<rparr>"

definition https_url :: "string \<Rightarrow> string \<Rightarrow> url" where
  "https_url host path = \<lparr>url_protocol = ''https:'', url_hostname = host, url_port = [], url_username = [], url_password = [],
     url_pathname = path, url_search = []\<rparr>"

text \<open>The parser on the two addresses that occur.\<close>

definition two_urls :: url_parser where
  "two_urls s =
     (if s = ''https://evil.example'' then Some (https_url ''evil.example'' ''/'')
      else if s = ''https://evil.example/acme/api.git'' then Some (https_url ''evil.example'' ''/acme/api.git'')
      else None)"

text \<open>An asset keeps its integration, and so its credential, when a member writes it through the API: an
  attribute that only the connector is meant to stamp sends the integration's token to a host of the member's choice.\<close>

theorem attribute_sends_the_token_away:
  assumes old: "at_key org ''gitlab:acme/api'' (iv_assets db) = Some old" "asset_item.as_integrationId old = Some i" "i \<noteq> []"
    and ref: "map_of refs i = Some (Some ''env:GITLAB_TOKEN'')"
    and token: "vars ''GITLAB_TOKEN'' = Some token" "token \<noteq> []"
    and written: "upsert now newId None org steering_request None db = (db', Inr row)"
    and job: "job = job_of row refs (JObj [])"
    and env: "env = \<lparr>ck_url = two_urls, ck_vars = vars, ck_exec = \<lambda>_. None\<rparr>"
  shows "checkout env job dir =
     (map (\<lambda>args. \<lparr>gc_args = args, gc_env = git_env ''evil.example'' (Some token)\<rparr>)
        (gitCheckoutCommands ''https://evil.example/acme/api.git'' ''HEAD'' dir), None)"
proof -
  have row: "row = asset_data now newId org steering_request None (Some old)"
    using written old(1) by (auto simp: upsert_def upsert_asset_def Let_def steering_request_def)
  have target: "entries_of (p_target job) =
      [(''externalKey'', JStr ''gitlab:acme/api''), (''kind'', JStr ''repository''), (''gitlabHost'', JStr ''evil.example'')]"
    by (simp add: job job_of_def entries_of_def scanJobTarget_def dispatched_row_def row asset_data_def steering_request_def
        first_of_def json_spread_def Let_def)
  have cred: "p_credentialRef job = Some ''env:GITLAB_TOKEN''"
    using old ref by (simp add: job job_of_def scanJobCredentialRef_def dispatched_row_def row asset_data_def
        else_old_def truthy_def)
  have host: "resolveCloneUrl two_urls [(''externalKey'', JStr ''gitlab:acme/api''), (''kind'', JStr ''repository''),
      (''gitlabHost'', JStr ''evil.example'')] = Inr ''https://evil.example/acme/api.git''"
    by code_simp
  have key: "ref_scheme ''env:GITLAB_TOKEN'' = ''env''" "ref_key ''env:GITLAB_TOKEN'' = ''GITLAB_TOKEN''"
    "list_ex (\<lambda>f. env_name f ''GITLAB_TOKEN'') checkout_families"
    by code_simp+
  have tok: "requireUsableCredential vars t (Some ''env:GITLAB_TOKEN'') = Inr (Some token)" for t
    using token key by (simp add: requireUsableCredential_def resolveGithubCredential_def env_value_def truthy_def)
  have ok: "SAFE_REF (resolveRef (entries_of (JObj [])) [(''externalKey'', JStr ''gitlab:acme/api''), (''kind'', JStr ''repository''),
      (''gitlabHost'', JStr ''evil.example'')])" "resolveRef (entries_of (JObj [])) [(''externalKey'', JStr ''gitlab:acme/api''),
      (''kind'', JStr ''repository''), (''gitlabHost'', JStr ''evil.example'')] = ''HEAD''"
    by code_simp+
  have u: "two_urls ''https://evil.example/acme/api.git'' = Some (https_url ''evil.example'' ''/acme/api.git'')" by code_simp
  have opts: "p_options job = JObj []" by (simp add: job job_of_def)
  have run: "run_git (\<lambda>_. None) k cs = (cs, None)" for k cs by (induction cs arbitrary: k) auto
  show ?thesis
    unfolding checkout_def Let_def target cred opts resolveCheckout_def env
    using ok by (simp add: tok host u shallowClone_def run https_url_def)
qed

text \<open>A credential that was pasted, so that its reference is \<^verbatim>\<open>secret:\<close>, serves the discovery of repositories but
  refuses the checkout of every one of them, public ones included.\<close>

theorem pasted_credential_never_checks_out:
  "fst (checkout env (job\<lparr>p_credentialRef := Some (''secret:'' @ i)\<rparr>) dir) = []"
proof -
  have "ref_scheme (''secret:'' @ i) = ''secret''" by (simp add: ref_scheme_def)
  then show ?thesis
    by (simp add: checkout_def Let_def resolveCheckout_def requireUsableCredential_def resolveGithubCredential_def truthy_def)
qed


definition private_job :: scan_job_payload where
  "private_job =
     \<lparr>p_jobId = ''j1'', p_scanId = ''s1'', p_orgId = ''o1'', p_scannerType = ''sca'', p_assetId = ''a1'',
      p_target = JObj [(''externalKey'', JStr ''github:acme/api''), (''private'', JBool True), (''defaultBranch'', JStr ''main'')],
      p_credentialRef = Some ''env:GITHUB_TOKEN'', p_options = JObj [], p_attempt = 1, p_deadlineAt = 0, p_traceId = []\<rparr>"

definition private_env :: checkout_env where
  "private_env =
     \<lparr>ck_url = (\<lambda>s. if s = ''https://github.com/acme/api.git'' then Some (https_url ''github.com'' ''/acme/api.git'') else None),
      ck_vars = (\<lambda>v. if v = ''GITHUB_TOKEN'' then Some ''ghp_x'' else None), ck_exec = (\<lambda>_. None)\<rparr>"

theorem checkout_stays_on_the_asset_witness:
  "length (fst (checkout private_env private_job ''/w'')) = 4
   \<and> (\<exists>t. usable_pointer (ck_vars private_env) (Some ''env:GITHUB_TOKEN'') t)"
proof -
  have res: "resolveCheckout (ck_url private_env) (ck_vars private_env) (entries_of (p_target private_job)) (p_credentialRef private_job)
      = Inr (''https://github.com/acme/api.git'', Some ''ghp_x'')" by code_simp
  have p: "ck_url private_env ''https://github.com/acme/api.git'' = Some (https_url ''github.com'' ''/acme/api.git'')" by code_simp
  have ref: "resolveRef (entries_of (p_options private_job)) (entries_of (p_target private_job)) = ''main''" "SAFE_REF ''main''"
    by code_simp+
  have exec: "ck_exec private_env k = None" for k by (simp add: private_env_def)
  have run: "run_git (ck_exec private_env) k cs = (cs, None)" for k cs
    by (induction cs arbitrary: k) (auto simp: exec)
  have calls: "snd (checkout private_env private_job ''/w'') = None" "fst (checkout private_env private_job ''/w'') \<noteq> []"
    unfolding checkout_def Let_def res using p ref
    by (simp_all add: shallowClone_def exec run https_url_def ALLOWED_CLONE_HOSTS_def gitCheckoutCommands_def)
  have facts: "p_credentialRef private_job = Some ''env:GITHUB_TOKEN''" "truthy (p_credentialRef private_job)"
    by (simp_all add: private_job_def truthy_def)
  show ?thesis
    using checkout_stays_on_the_asset[OF prod.collapse[symmetric] calls(2)] calls(1) facts by auto
qed

end
