(* ===== verification/SourceHosts.thy ===== *)
theory SourceHosts
imports Checkout
begin

text \<open>
  Discovery of repositories (\<^verbatim>\<open>apps/asset-service/src/connectors\<close>): the GitHub, GitLab and Bitbucket connectors with
  their egress rules. A connector lists the pages of one owner's repositories and yields an upsert request for each.

  The parser of URLs, the decoder of percent escapes and the policy-governed \<^verbatim>\<open>fetch\<close> (an exception with its message,
  or a status and a body, \<^term>\<open>None\<close> where it is no JSON) are arguments. The bodies of GitHub and GitLab have the declared
  types, which the code does not check; those of Bitbucket are JSON values, which it does.
\<close>

datatype source_error =
    Source_host string string | Source_config | Source_credential credential_error | Source_unusable string | Undecrypted
  | Source_url string | Source_thrown "string option" | Source_status int | Source_json | Source_truncated
  | Bad_path string | Bad_identifier string | Bad_slug | No_visibility string | Bad_listing

section \<open>Listing in pages\<close>

text \<open>What a listing does, in order: a request with its credential, or a row.\<close>

datatype 'r event = Get url "string option" | Row 'r

record 'b source_env =
  sh_url :: url_parser
  sh_vars :: env_vars
  sh_decode :: "string \<Rightarrow> string option"
  sh_fetch :: "url \<Rightarrow> string option \<Rightarrow> string option + int \<times> 'b option"

definition fetched :: "'b source_env \<Rightarrow> string option \<Rightarrow> url \<Rightarrow> source_error + 'b" where
  "fetched env token u =
     (case sh_fetch env u token of
        Inl m \<Rightarrow> Inl (Source_thrown m)
      | Inr (status, body) \<Rightarrow>
          if status < 200 \<or> 299 < status then Inl (Source_status status)
          else (case body of None \<Rightarrow> Inl Source_json | Some b \<Rightarrow> Inr b))"

text \<open>Numbered pages: \<open>left\<close> are still allowed, a page with fewer rows than it may hold is the last one.\<close>

fun numbered_pages ::
    "'r list source_env \<Rightarrow> string option \<Rightarrow> (nat \<Rightarrow> source_error + url) \<Rightarrow> ('r \<Rightarrow> bool) \<Rightarrow> nat \<Rightarrow> nat \<Rightarrow> nat
      \<Rightarrow> 'r event list \<times> source_error option" where
  "numbered_pages env token address keep per 0 page = ([], None)"
| "numbered_pages env token address keep per (Suc left) page =
     (case address page of
        Inl e \<Rightarrow> ([], Some e)
      | Inr u \<Rightarrow>
          (case fetched env token u of
             Inl e \<Rightarrow> ([Get u token], Some e)
           | Inr rows \<Rightarrow>
               map_prod (\<lambda>es. Get u token # map Row (filter keep rows) @ es) id
                 (if length rows < per then ([], None)
                  else if left = 0 then ([], Some Source_truncated)
                  else numbered_pages env token address keep per left (Suc page))))"

text \<open>The consumer of a listing: the requests made, the assets yielded, and the exception. A row whose mapping throws
  ends the listing.\<close>

type_synonym request = "url \<times> string option"

fun run_rows ::
    "('r \<Rightarrow> source_error + upsert_request option) \<Rightarrow> 'r event list \<Rightarrow> source_error option
      \<Rightarrow> request list \<times> upsert_request list \<times> source_error option" where
  "run_rows f [] err = ([], [], err)"
| "run_rows f (Get u t # es) err = map_prod (Cons (u, t)) id (run_rows f es err)"
| "run_rows f (Row r # es) err =
     (case f r of
        Inl e \<Rightarrow> ([], [], Some e)
      | Inr None \<Rightarrow> run_rows f es err
      | Inr (Some a) \<Rightarrow> map_prod id (map_prod (Cons a) id) (run_rows f es err))"

definition json_opt :: "string option \<Rightarrow> json" where
  "json_opt s = (case s of None \<Rightarrow> JNull | Some t \<Rightarrow> JStr t)"

definition repository :: "string \<Rightarrow> string \<Rightarrow> string \<Rightarrow> bool \<Rightarrow> (string \<times> json) list \<Rightarrow> upsert_request" where
  "repository key name source public attributes =
     \<lparr>ur_kind = ''repository'', ur_externalKey = key, ur_name = name, ur_source = source,
      ur_exposure = Some (if public then ''internet_facing'' else ''internal''),
      ur_criticality = None, ur_dataClasses = None, ur_ownerTeam = None, ur_ownerEmail = None, ur_tags = None,
      ur_attributes = Some attributes\<rparr>"

text \<open>Optional fields of a configuration; \<^term>\<open>None\<close> is a refusal.\<close>

definition config_flag :: "(string \<times> json) list \<Rightarrow> string \<Rightarrow> bool option" where
  "config_flag config k = (case map_of config k of None \<Rightarrow> Some False | Some (JBool b) \<Rightarrow> Some b | Some _ \<Rightarrow> None)"

definition config_names :: "(string \<Rightarrow> bool) \<Rightarrow> (string \<times> json) list \<Rightarrow> string \<Rightarrow> string list option" where
  "config_names ok config k =
     (case map_of config k of
        None \<Rightarrow> Some []
      | Some (JArr js) \<Rightarrow> those (map (\<lambda>j. case j of JStr s \<Rightarrow> if ok s then Some s else None | _ \<Rightarrow> None) js)
      | Some _ \<Rightarrow> None)"

text \<open>Who is listed, what is allowed (\<^term>\<open>[]\<close> for everything) and whether archives and forks are kept.\<close>

record listing_config =
  lc_owner :: string
  lc_type :: string
  lc_repos :: "string list"
  lc_archived :: bool
  lc_forks :: bool

definition listing_config_of ::
    "(string \<Rightarrow> bool) \<Rightarrow> string list \<Rightarrow> string \<Rightarrow> (string \<times> json) list \<Rightarrow> listing_config option" where
  "listing_config_of ok types owner config =
     (case (map_of config owner, map_of config ''ownerType'', config_names ok config ''repos'',
            config_flag config ''includeArchived'', config_flag config ''includeForks'') of
        (Some (JStr o'), t, Some repos, Some archived, Some forks) \<Rightarrow>
          (let type = (case t of Some (JStr s) \<Rightarrow> s | _ \<Rightarrow> [])
           in if ok o' \<and> (types = [] \<or> type \<in> set types)
              then Some \<lparr>lc_owner = o', lc_type = (if types = [] then [] else type), lc_repos = repos, lc_archived = archived,
                         lc_forks = forks\<rparr>
              else None)
      | _ \<Rightarrow> None)"

definition wanted :: "listing_config \<Rightarrow> string list \<Rightarrow> bool \<Rightarrow> bool \<Rightarrow> bool" where
  "wanted c names archived fork =
     ((lc_repos c = [] \<or> (\<exists>n \<in> set names. n \<in> set (lc_repos c))) \<and> (archived \<longrightarrow> lc_archived c) \<and> (fork \<longrightarrow> lc_forks c))"

definition paged :: "string \<Rightarrow> nat \<Rightarrow> nat \<Rightarrow> string" where
  "paged path per page =
     path @ (if CHR ''?'' \<in> set path then ''&'' else ''?'') @ ''per_page='' @ string_of_nat per @ ''&page='' @ string_of_nat page"


section \<open>GitHub (github.connector.ts, github-api.ts)\<close>

definition GITHUB_PER_PAGE :: nat where "GITHUB_PER_PAGE = 100"
definition GITHUB_MAX_PAGES :: nat where "GITHUB_MAX_PAGES = 20"

record github_repo =
  gr_name :: string
  gr_full_name :: string
  gr_private :: bool
  gr_archived :: bool
  gr_fork :: bool
  gr_html_url :: string
  gr_default_branch :: "string option"
  gr_language :: "string option"
  gr_pushed_at :: "string option"
  gr_description :: "string option"
  gr_login :: "string option"

definition github_asset :: "github_repo \<Rightarrow> upsert_request" where
  "github_asset r =
     repository (''github:'' @ gr_full_name r) (gr_name r) ''github'' (\<not> gr_private r)
       [(''htmlUrl'', JStr (gr_html_url r)), (''defaultBranch'', json_opt (gr_default_branch r)),
        (''language'', json_opt (gr_language r)), (''description'', json_opt (gr_description r)), (''fork'', JBool (gr_fork r)),
        (''archived'', JBool (gr_archived r)), (''private'', JBool (gr_private r)), (''pushedAt'', json_opt (gr_pushed_at r))]"

text \<open>The platform's API address and the resolution of a path against it.\<close>

record github_api =
  ga_base :: "url option"
  ga_join :: "string \<Rightarrow> url option"

definition same_origin :: "url \<Rightarrow> url \<Rightarrow> bool" where
  "same_origin a b = (url_protocol a = url_protocol b \<and> url_hostname a = url_hostname b \<and> url_port a = url_port b)"

definition githubApiUrl :: "github_api \<Rightarrow> string \<Rightarrow> source_error + url" where
  "githubApiUrl api pathAndQuery =
     (case (ga_base api, ga_join api pathAndQuery) of
        (Some base, Some dest) \<Rightarrow>
          if \<not> same_origin dest base then Inl (Source_url ''origin'')
          else if url_username dest \<noteq> [] \<or> url_password dest \<noteq> [] then Inl (Source_url ''userinfo'')
          else Inr dest
      | _ \<Rightarrow> Inl (Source_url ''unparseable''))"

definition tokenFor :: "env_vars \<Rightarrow> discovery_context \<Rightarrow> source_error + string option" where
  "tokenFor vars ctx =
     (case dc_credentialRef ctx of
        Some ref \<Rightarrow>
          if prefix ''secret:'' ref then
            (case dc_resolvedCredential ctx of
               Some t \<Rightarrow> if js_trim t = [] then Inl Undecrypted else Inr (Some (js_trim t))
             | None \<Rightarrow> Inl Undecrypted)
          else map_sum Source_credential id (resolveCredential vars (Some ref))
      | None \<Rightarrow> map_sum Source_credential id (resolveCredential vars None))"

definition github_path :: "listing_config \<Rightarrow> string option \<Rightarrow> string" where
  "github_path c token =
     (if lc_type c = ''org'' then ''/orgs/'' @ encodeURIComponent (lc_owner c) @ ''/repos?type=all''
      else if truthy token then ''/user/repos?affiliation=owner''
      else ''/users/'' @ encodeURIComponent (lc_owner c) @ ''/repos'')"

definition github_owned :: "string \<Rightarrow> github_repo \<Rightarrow> bool" where
  "github_owned owner r = (\<not> truthy (gr_login r) \<or> js_lower (the (gr_login r)) = js_lower owner)"

definition listRepos ::
    "github_repo list source_env \<Rightarrow> github_api \<Rightarrow> listing_config \<Rightarrow> string option \<Rightarrow> github_repo event list \<times> source_error option" where
  "listRepos env api c token =
     numbered_pages env token (\<lambda>page. githubApiUrl api (paged (github_path c token) GITHUB_PER_PAGE page))
       (github_owned (lc_owner c)) GITHUB_PER_PAGE GITHUB_MAX_PAGES 1"

definition github_config :: "(string \<times> json) list \<Rightarrow> listing_config option" where
  "github_config config = listing_config_of (\<lambda>s. s \<noteq> []) [''user'', ''org''] ''owner'' config"

definition github_row :: "listing_config \<Rightarrow> github_repo \<Rightarrow> source_error + upsert_request option" where
  "github_row c r =
     Inr (if wanted c [gr_name r] (gr_archived r) (gr_fork r) then Some (github_asset r) else None)"

definition discover_github ::
    "github_repo list source_env \<Rightarrow> github_api \<Rightarrow> discovery_context \<Rightarrow> request list \<times> upsert_request list \<times> source_error option" where
  "discover_github env api ctx =
     (case github_config (dc_config ctx) of
        None \<Rightarrow> ([], [], Some Source_config)
      | Some c \<Rightarrow>
          (case tokenFor (sh_vars env) ctx of
             Inl e \<Rightarrow> ([], [], Some e)
           | Inr token \<Rightarrow> (case listRepos env api c token of (events, err) \<Rightarrow> run_rows (github_row c) events err)))"


section \<open>GitLab (gitlab.connector.ts, gitlab.egress.ts)\<close>

definition GITLAB_PER_PAGE :: nat where "GITLAB_PER_PAGE = 100"
definition GITLAB_MAX_PAGES :: nat where "GITLAB_MAX_PAGES = 20"
definition GITLAB_COM_HOST :: string where "GITLAB_COM_HOST = ''gitlab.com''"

record gitlab_origin =
  go_host :: string
  go_origin :: string
  go_apiUrl :: string

definition GITLAB_COM :: gitlab_origin where
  "GITLAB_COM = \<lparr>go_host = GITLAB_COM_HOST, go_origin = ''https://gitlab.com'', go_apiUrl = ''https://gitlab.com/api/v4''\<rparr>"

definition EXTRA_GITLAB_HOST_KEYS :: "string list" where
  "EXTRA_GITLAB_HOST_KEYS =
     [''host'', ''apiUrl'', ''apiEndpoint'', ''url'', ''endpoint'', ''cloneHost'', ''cloneUrl'', ''hosts'', ''gitHost'',
      ''gitlabHost'', ''hostname'', ''customEndpoint'', ''gitUrl'', ''sshUrl'', ''httpUrl'']"

definition refuseExtraGitLabHosts :: "(string \<times> json) list \<Rightarrow> source_error option" where
  "refuseExtraGitLabHosts config =
     map_option (Source_host ''GitLab'') (find (\<lambda>k. value_is_set (map_of config k)) EXTRA_GITLAB_HOST_KEYS)"

definition canonicalGitLabHostname :: "string \<Rightarrow> string" where
  "canonicalGitLabHostname hostname =
     (let host = without_dot (js_lower hostname) in if host = ''www.gitlab.com'' then GITLAB_COM_HOST else host)"

definition parseGitLabBaseUrl :: "url_parser \<Rightarrow> string option \<Rightarrow> source_error + gitlab_origin" where
  "parseGitLabBaseUrl parse raw =
     (case raw of
        None \<Rightarrow> Inr GITLAB_COM
      | Some s \<Rightarrow>
          (let trimmed = js_trim s
           in if trimmed = [] then Inr GITLAB_COM
              else if prefix ''git@'' trimmed \<or> prefix ''ssh:'' trimmed \<or> prefix ''ssh@'' trimmed then Inl (Source_url ''ssh'')
              else (case parse trimmed of
                      None \<Rightarrow> Inl (Source_url ''unparseable'')
                    | Some u \<Rightarrow>
                        if url_protocol u \<noteq> ''https:'' then Inl (Source_url ''protocol'')
                        else if url_username u \<noteq> [] \<or> url_password u \<noteq> [] then Inl (Source_url ''userinfo'')
                        else if url_port u \<noteq> [] \<and> url_port u \<noteq> ''443'' then Inl (Source_url ''port'')
                        else (let host = canonicalGitLabHostname (url_hostname u)
                              in if host = [] then Inl (Source_url ''host'')
                                 else if host = GITLAB_COM_HOST then Inr GITLAB_COM
                                 else Inr \<lparr>go_host = host, go_origin = ''https://'' @ host,
                                           go_apiUrl = ''https://'' @ host @ ''/api/v4''\<rparr>))))"

definition allowlistedGitLabApiUrl :: "url_parser \<Rightarrow> string \<Rightarrow> gitlab_origin \<Rightarrow> source_error + url" where
  "allowlistedGitLabApiUrl parse raw origin =
     (case parse raw of
        None \<Rightarrow> Inl (Source_url ''unparseable'')
      | Some u \<Rightarrow>
          if url_protocol u \<noteq> ''https:'' then Inl (Source_url ''protocol'')
          else if canonicalGitLabHostname (url_hostname u) \<noteq> go_host origin then Inl (Source_url ''host'')
          else if url_port u \<noteq> [] \<and> url_port u \<noteq> ''443'' then Inl (Source_url ''port'')
          else if url_username u \<noteq> [] \<or> url_password u \<noteq> [] then Inl (Source_url ''userinfo'')
          else if \<not> prefix ''/api/v4'' (url_pathname u) then Inl (Source_url ''path'')
          else Inr u)"

record gitlab_project =
  gp_name :: string
  gp_path :: string
  gp_path_with_namespace :: string
  gp_visibility :: string
  gp_archived :: bool
  gp_fork :: bool
  gp_web_url :: "string option"
  gp_default_branch :: "string option"
  gp_description :: "string option"
  gp_last_activity_at :: "string option"

definition safeGitLabPath :: "string \<Rightarrow> source_error + string" where
  "safeGitLabPath path =
     (let parts = filter (\<lambda>p. p \<noteq> []) (split_on CHR ''/'' path)
      in if length parts < 2 \<or> 10 < length parts \<or> \<not> list_all SCM_SEGMENT parts then Inl (Bad_path path)
         else Inr (join_with ''/'' parts))"

definition projectToAsset :: "gitlab_project \<Rightarrow> gitlab_origin \<Rightarrow> source_error + upsert_request" where
  "projectToAsset p origin =
     map_sum id
       (\<lambda>path.
          repository (''gitlab:'' @ path) (if gp_path p \<noteq> [] then gp_path p else gp_name p) ''gitlab''
            (gp_visibility p = ''public'')
            [(''htmlUrl'', json_opt (gp_web_url p)), (''cloneUrl'', JStr (go_origin origin @ ''/'' @ path @ ''.git'')),
             (''gitlabHost'', JStr (go_host origin)), (''defaultBranch'', json_opt (gp_default_branch p)),
             (''description'', json_opt (gp_description p)), (''fork'', JBool (gp_fork p)), (''archived'', JBool (gp_archived p)),
             (''pushedAt'', json_opt (gp_last_activity_at p)), (''visibility'', JStr (gp_visibility p)),
             (''private'', JBool (gp_visibility p \<noteq> ''public''))])
       (safeGitLabPath (gp_path_with_namespace p))"

definition ownedBy :: "string \<Rightarrow> gitlab_project \<Rightarrow> bool" where
  "ownedBy owner p =
     (let ns = js_lower (gp_path_with_namespace p); want = js_lower owner in ns = want \<or> prefix (want @ ''/'') ns)"

definition gitlab_path :: "listing_config \<Rightarrow> string option \<Rightarrow> string" where
  "gitlab_path c token =
     (if lc_type c = ''group'' then ''/groups/'' @ encodeURIComponent (lc_owner c) @ ''/projects?include_subgroups=true''
      else if truthy token then ''/projects?owned=true''
      else ''/users/'' @ encodeURIComponent (lc_owner c) @ ''/projects'')"

definition listProjects ::
    "gitlab_project list source_env \<Rightarrow> gitlab_origin \<Rightarrow> listing_config \<Rightarrow> string option
      \<Rightarrow> gitlab_project event list \<times> source_error option" where
  "listProjects env origin c token =
     numbered_pages env token
       (\<lambda>page. allowlistedGitLabApiUrl (sh_url env) (go_apiUrl origin @ paged (gitlab_path c token) GITLAB_PER_PAGE page) origin)
       (ownedBy (lc_owner c)) GITLAB_PER_PAGE GITLAB_MAX_PAGES 1"

definition config_base :: "(string \<times> json) list \<Rightarrow> string option option" where
  "config_base config = (case map_of config ''baseUrl'' of None \<Rightarrow> Some None | Some j \<Rightarrow> map_option Some (config_string j))"

definition gitlab_row :: "gitlab_origin \<Rightarrow> listing_config \<Rightarrow> gitlab_project \<Rightarrow> source_error + upsert_request option" where
  "gitlab_row origin c p =
     (if wanted c [gp_path p, gp_name p] (gp_archived p) (gp_fork p) then map_sum id Some (projectToAsset p origin) else Inr None)"

definition gitlab_config :: "(string \<times> json) list \<Rightarrow> (listing_config \<times> string option) option" where
  "gitlab_config config =
     (case (listing_config_of (\<lambda>s. s \<noteq> []) [''user'', ''group''] ''owner'' config, config_base config) of
        (Some c, Some base) \<Rightarrow> Some (c, base)
      | _ \<Rightarrow> None)"

definition discover_gitlab ::
    "gitlab_project list source_env \<Rightarrow> discovery_context \<Rightarrow> request list \<times> upsert_request list \<times> source_error option" where
  "discover_gitlab env ctx =
     (case refuseExtraGitLabHosts (dc_config ctx) of
        Some e \<Rightarrow> ([], [], Some e)
      | None \<Rightarrow>
          (case gitlab_config (dc_config ctx) of
             None \<Rightarrow> ([], [], Some Source_config)
           | Some (c, base) \<Rightarrow>
               (case parseGitLabBaseUrl (sh_url env) base of
                  Inl e \<Rightarrow> ([], [], Some e)
                | Inr origin \<Rightarrow>
                    (case resolveCredential (sh_vars env) (dc_credentialRef ctx) of
                       Inl e \<Rightarrow> ([], [], Some (Source_credential e))
                     | Inr token \<Rightarrow>
                         if truthy (dc_credentialRef ctx) \<and> \<not> truthy token
                         then ([], [], Some (Source_unusable (the (dc_credentialRef ctx))))
                         else (case listProjects env origin c token of
                                 (events, err) \<Rightarrow> run_rows (gitlab_row origin c) events err)))))"


section \<open>Bitbucket (bitbucket.connector.ts, bitbucket.egress.ts)\<close>

definition BITBUCKET_API_HOST :: string where "BITBUCKET_API_HOST = ''api.bitbucket.org''"
definition BITBUCKET_PER_PAGE :: nat where "BITBUCKET_PER_PAGE = 100"
definition BITBUCKET_MAX_PAGES :: nat where "BITBUCKET_MAX_PAGES = 20"

text \<open>\<^verbatim>\<open>/^(?!.*\.\.)(?!\.)(?!.*\.$)[\w.-]+$/\<close>.\<close>

definition BITBUCKET_ID_RE :: "string \<Rightarrow> bool" where
  "BITBUCKET_ID_RE s = (SCM_SEGMENT s \<and> \<not> has_infix ''..'' s \<and> \<not> prefix ''.'' s \<and> \<not> suffix ''.'' s)"

definition assertBitbucketId :: "string \<Rightarrow> source_error + string" where
  "assertBitbucketId value =
     (if \<not> BITBUCKET_ID_RE value \<or> http_scheme value then Inl (Bad_identifier value)
      else (let lower = js_lower value
            in if lower \<in> {''bitbucket.org'', ''api.bitbucket.org'', ''www.bitbucket.org''} \<or> suffix ''.bitbucket.org'' lower
               then Inl (Bad_identifier value) else Inr value))"

definition assertRepositoryListPath :: "(string \<Rightarrow> string option) \<Rightarrow> string \<Rightarrow> string \<Rightarrow> source_error option" where
  "assertRepositoryListPath decode pathname workspace =
     (let parts = filter (\<lambda>p. p \<noteq> []) (split_on CHR ''/'' pathname)
      in if length parts \<noteq> 3 \<or> parts ! 0 \<noteq> ''2.0'' \<or> parts ! 1 \<noteq> ''repositories'' then Some (Source_url ''path'')
         else if list_ex (\<lambda>e. has_infix e (parts ! 2)) [''%2f'', ''%2F'', ''%5c'', ''%5C''] then Some (Source_url ''path'')
         else (case decode (parts ! 2) of
                 None \<Rightarrow> Some (Source_url ''undecodable'')
               | Some decoded \<Rightarrow>
                   if js_lower decoded \<noteq> js_lower workspace \<or> CHR ''/'' \<in> set decoded \<or> CHR 0x5C \<in> set decoded
                   then Some (Source_url ''path'') else None))"

definition allowlistedBitbucketApiUrl ::
    "url_parser \<Rightarrow> (string \<Rightarrow> string option) \<Rightarrow> string \<Rightarrow> string \<Rightarrow> source_error + string" where
  "allowlistedBitbucketApiUrl parse decode raw workspace =
     (case assertBitbucketId workspace of
        Inl e \<Rightarrow> Inl e
      | Inr i \<Rightarrow>
          (case parse raw of
             None \<Rightarrow> Inl (Source_url ''unparseable'')
           | Some u \<Rightarrow>
               if url_protocol u \<noteq> ''https:'' then Inl (Source_url ''protocol'')
               else if without_dot (js_lower (url_hostname u)) \<noteq> BITBUCKET_API_HOST then Inl (Source_url ''host'')
               else if url_port u \<noteq> [] \<and> url_port u \<noteq> ''443'' then Inl (Source_url ''port'')
               else if url_username u \<noteq> [] \<or> url_password u \<noteq> [] then Inl (Source_url ''userinfo'')
               else (case assertRepositoryListPath decode (if url_pathname u = [] then ''/'' else url_pathname u) i of
                       Some e \<Rightarrow> Inl e
                     | None \<Rightarrow> Inr (''https://'' @ BITBUCKET_API_HOST @ url_pathname u @ url_search u))))"

definition bitbucketRepositoriesUrl ::
    "url_parser \<Rightarrow> (string \<Rightarrow> string option) \<Rightarrow> string \<Rightarrow> nat \<Rightarrow> nat \<Rightarrow> source_error + string" where
  "bitbucketRepositoriesUrl parse decode workspace page pagelen =
     (case assertBitbucketId workspace of
        Inl e \<Rightarrow> Inl e
      | Inr i \<Rightarrow>
          if page < 1 then Inl (Source_url ''page'')
          else if pagelen < 1 \<or> 100 < pagelen then Inl (Source_url ''pagelen'')
          else allowlistedBitbucketApiUrl parse decode
                 (''https://api.bitbucket.org/2.0/repositories/'' @ encodeURIComponent i @ ''?pagelen='' @ string_of_nat pagelen
                  @ ''&page='' @ string_of_nat page) i)"

definition bitbucketHtmlUrl :: "string \<Rightarrow> string \<Rightarrow> source_error + string" where
  "bitbucketHtmlUrl workspace slug =
     (case (assertBitbucketId workspace, assertBitbucketId slug) of
        (Inl e, _) \<Rightarrow> Inl e
      | (_, Inl e) \<Rightarrow> Inl e
      | (Inr ws, Inr repo) \<Rightarrow> Inr (''https://bitbucket.org/'' @ ws @ ''/'' @ repo))"

definition bitbucketCloneUrl :: "string \<Rightarrow> string \<Rightarrow> source_error + string" where
  "bitbucketCloneUrl workspace slug = map_sum id (\<lambda>u. u @ ''.git'') (bitbucketHtmlUrl workspace slug)"

definition TENANT_ENDPOINT_KEYS :: "string list" where
  "TENANT_ENDPOINT_KEYS =
     [''endpoint'', ''apiUrl'', ''apiEndpoint'', ''host'', ''baseUrl'', ''url'', ''endpointUrl'', ''customEndpoint'', ''apiHost'',
      ''hostname'', ''authority'', ''bitbucketUrl'', ''bitbucketHost'', ''bitbucketApiUrl'', ''bitbucketEndpoint'',
      ''bitbucketServer'', ''bitbucketServerUrl'', ''server'', ''serverUrl'', ''dataCenter'', ''dataCenterUrl'',
      ''dataCenterHost'', ''cloneHost'', ''cloneUrl'', ''htmlUrl'', ''gitHost'', ''gitUrl'', ''sshUrl'', ''httpUrl'', ''scmUrl'',
      ''origin'']"

definition is_url_value :: "json option \<Rightarrow> bool" where
  "is_url_value v = (case v of Some (JStr s) \<Rightarrow> http_scheme (js_trim s) | _ \<Rightarrow> False)"

definition refuseTenantWritableEndpoint :: "(string \<times> json) list \<Rightarrow> source_error option" where
  "refuseTenantWritableEndpoint config =
     (case find (\<lambda>k. extra_host_key k \<and> value_is_set (map_of config k)) (map fst config) of
        Some k \<Rightarrow> Some (Source_host ''Bitbucket'' k)
      | None \<Rightarrow>
          (case find (\<lambda>k. value_is_set (map_of config k)) TENANT_ENDPOINT_KEYS of
             Some k \<Rightarrow> Some (Source_host ''Bitbucket'' k)
           | None \<Rightarrow>
               if is_url_value (map_of config ''workspace'') then Some (Source_host ''Bitbucket'' ''workspace'')
               else (case map_of config ''repos'' of
                       Some (JArr js) \<Rightarrow>
                         if list_ex (\<lambda>j. is_url_value (Some j)) js then Some (Source_host ''Bitbucket'' ''repos'') else None
                     | _ \<Rightarrow> None)))"

definition or_null :: "json option \<Rightarrow> json" where
  "or_null j = (case j of None \<Rightarrow> JNull | Some v \<Rightarrow> v)"

definition requiredSlug :: "target \<Rightarrow> source_error + string" where
  "requiredSlug repo = (case map_of repo ''slug'' of Some (JStr s) \<Rightarrow> if s = [] then Inl Bad_slug else Inr s | _ \<Rightarrow> Inl Bad_slug)"

definition isArchived :: "target \<Rightarrow> bool" where
  "isArchived repo = (map_of repo ''archived'' = Some (JBool True) \<or> map_of repo ''is_archived'' = Some (JBool True))"

definition isFork :: "target \<Rightarrow> bool" where
  "isFork repo = (case map_of repo ''parent'' of Some (JObj _) \<Rightarrow> True | Some (JArr _) \<Rightarrow> True | _ \<Rightarrow> False)"

definition bitbucket_asset :: "target \<Rightarrow> string \<Rightarrow> source_error + upsert_request" where
  "bitbucket_asset repo workspace =
     (case assertBitbucketId workspace of
        Inl e \<Rightarrow> Inl e
      | Inr ws \<Rightarrow>
          (case requiredSlug repo of
             Inl e \<Rightarrow> Inl e
           | Inr raw \<Rightarrow>
               (case assertBitbucketId raw of
                  Inl e \<Rightarrow> Inl e
                | Inr slug \<Rightarrow>
                    (case (map_of repo ''is_private'', bitbucketHtmlUrl ws slug, bitbucketCloneUrl ws slug) of
                       (Some (JBool priv), Inr html, Inr clone) \<Rightarrow>
                         Inr (repository (''bitbucket:'' @ ws @ ''/'' @ slug)
                           (case map_of repo ''name'' of Some (JStr n) \<Rightarrow> if n = [] then slug else n | _ \<Rightarrow> slug) ''bitbucket'' (\<not> priv)
                           [(''htmlUrl'', JStr html), (''cloneUrl'', JStr clone), (''bitbucketHost'', JStr ''bitbucket.org''),
                            (''defaultBranch'', or_null (case map_of repo ''mainbranch'' of Some (JObj b) \<Rightarrow> map_of b ''name'' | _ \<Rightarrow> None)),
                            (''language'', or_null (map_of repo ''language'')), (''description'', or_null (map_of repo ''description'')),
                            (''fork'', JBool (isFork repo)), (''archived'', JBool (isArchived repo)), (''private'', JBool priv),
                            (''pushedAt'', or_null (map_of repo ''updated_on'')),
                            (''visibility'', JStr (if priv then ''private'' else ''public''))])
                     | (Some (JBool _), Inl e, _) \<Rightarrow> Inl e
                     | (Some (JBool _), _, Inl e) \<Rightarrow> Inl e
                     | _ \<Rightarrow> Inl (No_visibility (ws @ ''/'' @ slug))))))"

definition inWorkspace :: "target \<Rightarrow> string \<Rightarrow> bool" where
  "inWorkspace repo workspace =
     (let want = js_lower workspace;
          slug = (case map_of repo ''workspace'' of Some (JObj w) \<Rightarrow> target_str w ''slug'' | _ \<Rightarrow> None);
          full = target_str repo ''full_name''
      in (truthy slug \<longrightarrow> js_lower (the slug) = want)
         \<and> (truthy full \<longrightarrow> js_lower (hd (split_on CHR ''/'' (the full))) = want))"

text \<open>\<^verbatim>\<open>parsePage\<close>: the rows, and the next address, if there is one.\<close>

definition parsePage :: "json \<Rightarrow> source_error + target list \<times> string option" where
  "parsePage j =
     (case j of
        JObj obj \<Rightarrow>
          (case map_of obj ''values'' of
             Some (JArr values) \<Rightarrow>
               if list_ex (\<lambda>v. case v of JObj _ \<Rightarrow> False | _ \<Rightarrow> True) values then Inl Bad_listing
               else (let repos = map entries_of values
                     in case map_of obj ''next'' of
                          None \<Rightarrow> Inr (repos, None)
                        | Some JNull \<Rightarrow> Inr (repos, None)
                        | Some (JStr s) \<Rightarrow>
                            if s = [] then Inr (repos, None)
                            else if js_trim s = [] then Inl Bad_listing else Inr (repos, Some (js_trim s))
                        | Some _ \<Rightarrow> Inl Bad_listing)
           | _ \<Rightarrow> Inl Bad_listing)
      | _ \<Rightarrow> Inl Bad_listing)"

definition getPage ::
    "json source_env \<Rightarrow> string \<Rightarrow> string \<Rightarrow> string \<Rightarrow> target event list \<times> (source_error + target list \<times> string option)" where
  "getPage env address workspace token =
     (case allowlistedBitbucketApiUrl (sh_url env) (sh_decode env) address workspace of
        Inl e \<Rightarrow> ([], Inl e)
      | Inr dest \<Rightarrow>
          (case sh_url env dest of
             None \<Rightarrow> ([], Inl (Source_thrown (Some ''Failed to parse URL'')))
           | Some u \<Rightarrow>
               ([Get u (Some token)],
                case fetched env (Some token) u of Inl e \<Rightarrow> Inl e | Inr body \<Rightarrow> parsePage body)))"

fun bitbucket_pages ::
    "json source_env \<Rightarrow> string \<Rightarrow> string \<Rightarrow> nat \<Rightarrow> string \<Rightarrow> target event list \<times> source_error option" where
  "bitbucket_pages env workspace token 0 address = ([], None)"
| "bitbucket_pages env workspace token (Suc left) address =
     (case getPage env address workspace token of
        (requests, Inl e) \<Rightarrow> (requests, Some e)
      | (requests, Inr (repos, next_page)) \<Rightarrow>
          map_prod (\<lambda>es. requests @ map Row repos @ es) id
            (case next_page of
               None \<Rightarrow> ([], None)
             | Some raw \<Rightarrow>
                 (case allowlistedBitbucketApiUrl (sh_url env) (sh_decode env) raw workspace of
                    Inl e \<Rightarrow> ([], Some e)
                  | Inr next_url \<Rightarrow>
                      if left = 0 then ([], Some Source_truncated) else bitbucket_pages env workspace token left next_url)))"

definition bitbucket_row :: "listing_config \<Rightarrow> target \<Rightarrow> source_error + upsert_request option" where
  "bitbucket_row c repo =
     (if \<not> inWorkspace repo (lc_owner c) then Inr None
      else (case requiredSlug repo of
              Inl e \<Rightarrow> Inl e
            | Inr slug \<Rightarrow>
                (case assertBitbucketId slug of
                   Inl e \<Rightarrow> Inl e
                 | Inr _ \<Rightarrow>
                     if wanted c [slug] (isArchived repo) (isFork repo) then map_sum id Some (bitbucket_asset repo (lc_owner c))
                     else Inr None)))"

definition bitbucket_config :: "(string \<times> json) list \<Rightarrow> listing_config option" where
  "bitbucket_config config = listing_config_of BITBUCKET_ID_RE [] ''workspace'' config"

definition discover_bitbucket ::
    "json source_env \<Rightarrow> discovery_context \<Rightarrow> request list \<times> upsert_request list \<times> source_error option" where
  "discover_bitbucket env ctx =
     (case refuseTenantWritableEndpoint (dc_config ctx) of
        Some e \<Rightarrow> ([], [], Some e)
      | None \<Rightarrow>
          (case bitbucket_config (dc_config ctx) of
             None \<Rightarrow> ([], [], Some Source_config)
           | Some c \<Rightarrow>
               (case assertBitbucketId (lc_owner c) of
                  Inl e \<Rightarrow> ([], [], Some e)
                | Inr workspace \<Rightarrow>
                    (case requireBitbucketToken (sh_vars env) (dc_credentialRef ctx) of
                       Inl e \<Rightarrow> ([], [], Some (Source_credential e))
                     | Inr token \<Rightarrow>
                         (case bitbucketRepositoriesUrl (sh_url env) (sh_decode env) workspace 1 BITBUCKET_PER_PAGE of
                            Inl e \<Rightarrow> ([], [], Some e)
                          | Inr address \<Rightarrow>
                              (case bitbucket_pages env workspace token BITBUCKET_MAX_PAGES address of
                                 (events, err) \<Rightarrow> run_rows (bitbucket_row c) events err))))))"

section \<open>What a listing yields\<close>

definition rows_of :: "'r event list \<Rightarrow> 'r list" where
  "rows_of es = List.map_filter (\<lambda>e. case e of Row r \<Rightarrow> Some r | Get _ _ \<Rightarrow> None) es"

definition requests_of :: "'r event list \<Rightarrow> request list" where
  "requests_of es = List.map_filter (\<lambda>e. case e of Get u t \<Rightarrow> Some (u, t) | Row _ \<Rightarrow> None) es"

lemma event_parts_simps [simp]:
  "rows_of [] = []" "rows_of (Get u t # es) = rows_of es" "rows_of (Row r # es) = r # rows_of es"
  "rows_of (es @ fs) = rows_of es @ rows_of fs" "rows_of (map Row rs) = rs"
  "requests_of [] = []" "requests_of (Get u t # es) = (u, t) # requests_of es" "requests_of (Row r # es) = requests_of es"
  "requests_of (es @ fs) = requests_of es @ requests_of fs" "requests_of (map Row rs) = []"
proof -
  show "rows_of (map Row rs) = rs" "requests_of (map Row rs) = []"
    by (induction rs) (auto simp: rows_of_def requests_of_def map_filter_simps)
qed (auto simp: rows_of_def requests_of_def map_filter_simps map_filter_def)

lemma run_rows_requests: "run_rows f es err = (reqs, found, err') \<Longrightarrow> set reqs \<subseteq> set (requests_of es)"
  by (induction f es err arbitrary: reqs found err' rule: run_rows.induct)
    (fastforce split: sum.splits option.splits prod.splits simp: map_prod_def)+

definition mapped :: "('r \<Rightarrow> source_error + upsert_request option) \<Rightarrow> 'r list \<Rightarrow> upsert_request list" where
  "mapped f rs = List.map_filter (\<lambda>r. case f r of Inr a \<Rightarrow> a | Inl _ \<Rightarrow> None) rs"

lemma run_rows_complete:
  "run_rows f es err = (reqs, found, None) \<Longrightarrow>
     err = None \<and> found = mapped f (rows_of es) \<and> list_all (\<lambda>r. \<not> isl (f r)) (rows_of es)"
  by (induction f es err arbitrary: reqs found rule: run_rows.induct)
    (auto simp: mapped_def map_filter_simps map_prod_def split: sum.splits option.splits prod.splits)

text \<open>The pages that a complete listing read: only the last holds fewer rows than it may.\<close>

fun whole_listing ::
    "'r list source_env \<Rightarrow> string option \<Rightarrow> (nat \<Rightarrow> source_error + url) \<Rightarrow> nat \<Rightarrow> nat \<Rightarrow> 'r list list \<Rightarrow> bool" where
  "whole_listing env token address per page [] = False"
| "whole_listing env token address per page (rows # ps) =
     ((\<exists>u. address page = Inr u \<and> fetched env token u = Inr rows)
      \<and> (if ps = [] then length rows < per else per \<le> length rows \<and> whole_listing env token address per (Suc page) ps))"

lemma numbered_pages_requests:
  "numbered_pages env token address keep per left page = (es, err) \<Longrightarrow>
     (u, t) \<in> set (requests_of es) \<Longrightarrow> t = token \<and> (\<exists>k. address k = Inr u)"
proof (induction env token address keep per left page arbitrary: es err rule: numbered_pages.induct)
  case (2 env token address keep per left page)
  show ?case
  proof (cases "address page")
    case (Inr v)
    show ?thesis
    proof (cases "fetched env token v")
      case (Inr rows)
      obtain fs e where rest: "(if length rows < per then ([], None) else if left = 0 then ([], Some Source_truncated)
          else numbered_pages env token address keep per left (Suc page)) = (fs, e)" by fastforce
      have "es = Get v token # map Row (filter keep rows) @ fs" using "2.prems"(1) \<open>address page = Inr v\<close> Inr rest by simp
      then consider "(u, t) = (v, token)" | "(u, t) \<in> set (requests_of fs)" using "2.prems"(2) by auto
      then show ?thesis
      proof cases
        case 2
        then have "numbered_pages env token address keep per left (Suc page) = (fs, e)" "\<not> length rows < per" "left \<noteq> 0"
          using rest by (auto split: if_splits)
        then show ?thesis using "2.IH"[OF \<open>address page = Inr v\<close> Inr _ _ _ 2] by blast
      qed (use \<open>address page = Inr v\<close> in auto)
    qed (use "2.prems" Inr in auto)
  qed (use "2.prems" in auto)
qed simp

lemma numbered_pages_complete:
  "numbered_pages env token address keep per left page = (es, None) \<Longrightarrow> 0 < left \<Longrightarrow>
     \<exists>ps. whole_listing env token address per page ps \<and> length ps \<le> left \<and> rows_of es = filter keep (concat ps)"
proof (induction env token address keep per left page arbitrary: es rule: numbered_pages.induct)
  case (2 env token address keep per left page)
  obtain u rows where u: "address page = Inr u" "fetched env token u = Inr rows"
    using "2.prems"(1) by (auto split: sum.splits)
  show ?case
  proof (cases "length rows < per")
    case True
    then show ?thesis using "2.prems"(1) u by (intro exI[of _ "[rows]"]) auto
  next
    case False
    then obtain fs where fs: "numbered_pages env token address keep per left (Suc page) = (fs, None)" "left \<noteq> 0"
      "es = Get u token # map Row (filter keep rows) @ fs"
      using "2.prems"(1) u by (auto simp: map_prod_def split: if_splits prod.splits)
    obtain ps where ps: "whole_listing env token address per (Suc page) ps" "length ps \<le> left" "rows_of fs = filter keep (concat ps)"
      using "2.IH"[OF u False fs(2,1)] fs(2) by auto
    then have "ps \<noteq> []" by auto
    then show ?thesis using ps fs u False by (intro exI[of _ "rows # ps"]) auto
  qed
qed simp

fun whole_chain :: "json source_env \<Rightarrow> string \<Rightarrow> string \<Rightarrow> string \<Rightarrow> target list list \<Rightarrow> bool" where
  "whole_chain env workspace token address [] = False"
| "whole_chain env workspace token address (repos # ps) =
     (\<exists>next_page. snd (getPage env address workspace token) = Inr (repos, next_page)
        \<and> (case next_page of
             None \<Rightarrow> ps = []
           | Some raw \<Rightarrow>
               \<exists>next_url. allowlistedBitbucketApiUrl (sh_url env) (sh_decode env) raw workspace = Inr next_url
                 \<and> whole_chain env workspace token next_url ps))"

lemma getPage_cases:
  assumes "getPage env address workspace token = (reqs, r)"
  shows "rows_of reqs = [] \<and> (\<forall>(u, t) \<in> set (requests_of reqs). t = Some token
    \<and> (\<exists>dest. allowlistedBitbucketApiUrl (sh_url env) (sh_decode env) address workspace = Inr dest \<and> sh_url env dest = Some u))"
  using assms by (auto simp: getPage_def split: sum.splits option.splits)

lemma bitbucket_pages_requests:
  "bitbucket_pages env workspace token left address = (es, err) \<Longrightarrow> (u, t) \<in> set (requests_of es) \<Longrightarrow>
     t = Some token \<and> (\<exists>raw dest. allowlistedBitbucketApiUrl (sh_url env) (sh_decode env) raw workspace = Inr dest \<and> sh_url env dest = Some u)"
proof (induction env workspace token left address arbitrary: es err rule: bitbucket_pages.induct)
  case (2 env workspace token left address)
  obtain reqs r where g: "getPage env address workspace token = (reqs, r)" by fastforce
  show ?case
  proof (cases "(u, t) \<in> set (requests_of reqs)")
    case True
    then show ?thesis using getPage_cases[OF g] by fastforce
  next
    case False
    then obtain repos raw next_url fs where step: "r = Inr (repos, Some raw)"
      "allowlistedBitbucketApiUrl (sh_url env) (sh_decode env) raw workspace = Inr next_url" "left \<noteq> 0"
      "bitbucket_pages env workspace token left next_url = (fs, err)" "(u, t) \<in> set (requests_of fs)"
      using "2.prems" g by (auto split: sum.splits option.splits if_splits prod.splits simp: map_prod_def)
    show ?thesis using "2.IH"[OF g[symmetric] step(1) _ _ step(2,3,4,5)] by auto
  qed
qed simp

lemma bitbucket_pages_complete:
  "bitbucket_pages env workspace token left address = (es, None) \<Longrightarrow> 0 < left \<Longrightarrow>
     \<exists>ps. whole_chain env workspace token address ps \<and> length ps \<le> left \<and> rows_of es = concat ps"
proof (induction env workspace token left address arbitrary: es rule: bitbucket_pages.induct)
  case (2 env workspace token left address)
  obtain reqs repos next_page where g: "getPage env address workspace token = (reqs, Inr (repos, next_page))"
    using "2.prems"(1) by (auto split: sum.splits prod.splits)
  note none = getPage_cases[OF g]
  show ?case
  proof (cases next_page)
    case None
    then show ?thesis using "2.prems"(1) g none by (intro exI[of _ "[repos]"]) auto
  next
    case (Some raw)
    then obtain next_url fs where n: "allowlistedBitbucketApiUrl (sh_url env) (sh_decode env) raw workspace = Inr next_url" "left \<noteq> 0"
      "bitbucket_pages env workspace token left next_url = (fs, None)" "es = reqs @ map Row repos @ fs"
      using "2.prems"(1) g by (auto simp: map_prod_def split: sum.splits if_splits prod.splits)
    obtain ps where "whole_chain env workspace token next_url ps" "length ps \<le> left" "rows_of fs = concat ps"
      using "2.IH"[OF g[symmetric] refl refl Some n(1,2,3)] n(2) by auto
    then show ?thesis using n none g Some by (intro exI[of _ "repos # ps"]) auto
  qed
qed simp


lemma discover_github_cases:
  assumes "discover_github env api ctx = (reqs, found, err)"
  obtains e where "reqs = []" "found = []" "err = Some e"
  | c token es e where "github_config (dc_config ctx) = Some c" "tokenFor (sh_vars env) ctx = Inr token"
    "listRepos env api c token = (es, e)" "run_rows (github_row c) es e = (reqs, found, err)"
  using assms by (auto simp: discover_github_def split: option.splits sum.splits prod.splits)

lemma discover_gitlab_cases:
  assumes "discover_gitlab env ctx = (reqs, found, err)"
  obtains e where "reqs = []" "found = []" "err = Some e"
  | c base origin token es e where "gitlab_config (dc_config ctx) = Some (c, base)"
    "parseGitLabBaseUrl (sh_url env) base = Inr origin" "resolveCredential (sh_vars env) (dc_credentialRef ctx) = Inr token"
    "listProjects env origin c token = (es, e)" "run_rows (gitlab_row origin c) es e = (reqs, found, err)"
proof (cases "refuseExtraGitLabHosts (dc_config ctx)")
  case None
  then show ?thesis using assms that by (auto simp: discover_gitlab_def split: option.splits sum.splits prod.splits if_splits)
next
  case (Some e)
  then show ?thesis using assms that(1)[of e] unfolding discover_gitlab_def by simp
qed

lemma discover_bitbucket_cases:
  assumes "discover_bitbucket env ctx = (reqs, found, err)"
  obtains e where "reqs = []" "found = []" "err = Some e"
  | c ws token address es e where "bitbucket_config (dc_config ctx) = Some c" "assertBitbucketId (lc_owner c) = Inr ws"
    "requireBitbucketToken (sh_vars env) (dc_credentialRef ctx) = Inr token"
    "bitbucketRepositoriesUrl (sh_url env) (sh_decode env) ws 1 BITBUCKET_PER_PAGE = Inr address"
    "bitbucket_pages env ws token BITBUCKET_MAX_PAGES address = (es, e)" "run_rows (bitbucket_row c) es e = (reqs, found, err)"
proof (cases "refuseTenantWritableEndpoint (dc_config ctx)")
  case None
  then show ?thesis using assms that by (auto simp: discover_bitbucket_def split: option.splits sum.splits prod.splits)
next
  case (Some e)
  then show ?thesis using assms that(1)[of e] unfolding discover_bitbucket_def by simp
qed

lemma githubApiUrl_origin:
  "githubApiUrl api p = Inr u \<Longrightarrow> \<exists>base. ga_base api = Some base \<and> same_origin u base \<and> url_username u = [] \<and> url_password u = []"
  by (auto simp: githubApiUrl_def split: option.splits if_splits)

lemma allowlistedGitLabApiUrl_host:
  "allowlistedGitLabApiUrl parse raw origin = Inr u \<Longrightarrow>
     url_protocol u = ''https:'' \<and> canonicalGitLabHostname (url_hostname u) = go_host origin \<and> url_username u = [] \<and> url_password u = []"
  by (auto simp: allowlistedGitLabApiUrl_def split: option.splits if_splits)

lemma allowlistedBitbucketApiUrl_host:
  "allowlistedBitbucketApiUrl parse decode raw ws = Inr dest \<Longrightarrow>
     \<exists>u. parse raw = Some u \<and> url_protocol u = ''https:'' \<and> dest = ''https://'' @ BITBUCKET_API_HOST @ url_pathname u @ url_search u"
  by (auto simp: allowlistedBitbucketApiUrl_def split: option.splits if_splits sum.splits)

text \<open>
  C0 (discovery sends its credential to the configured host only). Every request of the GitHub connector goes to the origin of the
  platform's API address, every request of the GitLab connector to the host of the configured base address over https, and
  every request of the Bitbucket connector over https to its one API host, with a token of an allow-listed variable;
  no address carries credentials of its own. For Bitbucket the parser is asked again, on an address put together from
  the parts of a parsed https address, and must read its host there.
\<close>

theorem source_tokens_stay_on_their_hosts:
  assumes reread: "\<And>raw u v. sh_url bb raw = Some u \<Longrightarrow> url_protocol u = ''https:'' \<Longrightarrow>
      sh_url bb (''https://'' @ BITBUCKET_API_HOST @ url_pathname u @ url_search u) = Some v \<Longrightarrow>
      url_protocol v = ''https:'' \<and> url_hostname v = BITBUCKET_API_HOST"
  shows "(\<forall>(u, t) \<in> set (fst (discover_github gh api ctx)).
            \<exists>base. ga_base api = Some base \<and> same_origin u base \<and> url_username u = [] \<and> url_password u = [])
    \<and> (\<forall>(u, t) \<in> set (fst (discover_gitlab gl ctx)).
            \<exists>c base origin. gitlab_config (dc_config ctx) = Some (c, base) \<and> parseGitLabBaseUrl (sh_url gl) base = Inr origin
              \<and> url_protocol u = ''https:'' \<and> canonicalGitLabHostname (url_hostname u) = go_host origin
              \<and> url_username u = [] \<and> url_password u = [])
    \<and> (\<forall>(u, t) \<in> set (fst (discover_bitbucket bb ctx)).
            url_protocol u = ''https:'' \<and> url_hostname u = BITBUCKET_API_HOST
              \<and> (\<exists>token. t = Some token \<and> requireBitbucketToken (sh_vars bb) (dc_credentialRef ctx) = Inr token))"
proof (intro conjI ballI, goal_cases)
  case (1 x)
  obtain u t where x: "x = (u, t)" by fastforce
  obtain reqs found err where d: "discover_github gh api ctx = (reqs, found, err)" by (metis prod_cases3)
  show ?case
  proof (rule discover_github_cases[OF d])
    fix c token es e assume "listRepos gh api c token = (es, e)" "run_rows (github_row c) es e = (reqs, found, err)"
    then have "\<exists>k. githubApiUrl api (paged (github_path c token) GITHUB_PER_PAGE k) = Inr u"
      using 1 d x run_rows_requests numbered_pages_requests unfolding listRepos_def by fastforce
    then show ?thesis using githubApiUrl_origin x by fastforce
  qed (use 1 d in auto)
next
  case (2 x)
  obtain u t where x: "x = (u, t)" by fastforce
  obtain reqs found err where d: "discover_gitlab gl ctx = (reqs, found, err)" by (metis prod_cases3)
  show ?case
  proof (rule discover_gitlab_cases[OF d])
    fix c base origin token es e assume a: "gitlab_config (dc_config ctx) = Some (c, base)"
      "parseGitLabBaseUrl (sh_url gl) base = Inr origin"
      "listProjects gl origin c token = (es, e)" "run_rows (gitlab_row origin c) es e = (reqs, found, err)"
    then have "\<exists>k. allowlistedGitLabApiUrl (sh_url gl) (go_apiUrl origin @ paged (gitlab_path c token) GITLAB_PER_PAGE k) origin = Inr u"
      using 2 d x run_rows_requests numbered_pages_requests unfolding listProjects_def by fastforce
    then show ?thesis using allowlistedGitLabApiUrl_host x a(1,2) by fastforce
  qed (use 2 d in auto)
next
  case (3 x)
  obtain u t where x: "x = (u, t)" by fastforce
  obtain reqs found err where d: "discover_bitbucket bb ctx = (reqs, found, err)" by (metis prod_cases3)
  show ?case
  proof (rule discover_bitbucket_cases[OF d])
    fix c ws token address es e
    assume a: "requireBitbucketToken (sh_vars bb) (dc_credentialRef ctx) = Inr token"
      "bitbucket_pages bb ws token BITBUCKET_MAX_PAGES address = (es, e)" "run_rows (bitbucket_row c) es e = (reqs, found, err)"
    have "(u, t) \<in> set (requests_of es)" using 3 d x run_rows_requests[OF a(3)] by auto
    from bitbucket_pages_requests[OF a(2) this] obtain raw dest where t: "t = Some token"
      and "allowlistedBitbucketApiUrl (sh_url bb) (sh_decode bb) raw ws = Inr dest" "sh_url bb dest = Some u" by blast
    then obtain p where "sh_url bb raw = Some p" "url_protocol p = ''https:''"
      "sh_url bb (''https://'' @ BITBUCKET_API_HOST @ url_pathname p @ url_search p) = Some u"
      using allowlistedBitbucketApiUrl_host by blast
    from reread[OF this] show ?thesis using a(1) t x by simp
  qed (use 3 d in auto)
qed

text \<open>
  C0 (a listing without an error is whole). When a connector ends without an exception, it read every page of the owner's
  listing, at most twenty and up to one that says it is the last, and it yielded the asset of every owned and wanted
  repository of them, none of which was unusable. A listing that is cut at the cap ends with an exception.
\<close>

theorem source_listings_are_whole:
  "(\<forall>reqs found. discover_github gh api ctx = (reqs, found, None) \<longrightarrow>
      (\<exists>c token ps. github_config (dc_config ctx) = Some c
         \<and> whole_listing gh token (\<lambda>k. githubApiUrl api (paged (github_path c token) GITHUB_PER_PAGE k)) GITHUB_PER_PAGE 1 ps
         \<and> length ps \<le> GITHUB_MAX_PAGES \<and> found = mapped (github_row c) (filter (github_owned (lc_owner c)) (concat ps))))
   \<and> (\<forall>reqs found. discover_gitlab gl ctx = (reqs, found, None) \<longrightarrow>
      (\<exists>c base origin token ps. gitlab_config (dc_config ctx) = Some (c, base)
         \<and> whole_listing gl token (\<lambda>k. allowlistedGitLabApiUrl (sh_url gl)
               (go_apiUrl origin @ paged (gitlab_path c token) GITLAB_PER_PAGE k) origin) GITLAB_PER_PAGE 1 ps
         \<and> length ps \<le> GITLAB_MAX_PAGES \<and> found = mapped (gitlab_row origin c) (filter (ownedBy (lc_owner c)) (concat ps))
         \<and> list_all (\<lambda>p. \<not> isl (gitlab_row origin c p)) (filter (ownedBy (lc_owner c)) (concat ps))))
   \<and> (\<forall>reqs found. discover_bitbucket bb ctx = (reqs, found, None) \<longrightarrow>
      (\<exists>c ws token address ps. bitbucket_config (dc_config ctx) = Some c
         \<and> bitbucketRepositoriesUrl (sh_url bb) (sh_decode bb) ws 1 BITBUCKET_PER_PAGE = Inr address
         \<and> whole_chain bb ws token address ps \<and> length ps \<le> BITBUCKET_MAX_PAGES
         \<and> found = mapped (bitbucket_row c) (concat ps) \<and> list_all (\<lambda>p. \<not> isl (bitbucket_row c p)) (concat ps)))"
proof (intro conjI allI impI, goal_cases)
  case (1 reqs found)
  then show ?case
  proof (rule discover_github_cases)
    fix c token es e assume a: "github_config (dc_config ctx) = Some c" "listRepos gh api c token = (es, e)"
      "run_rows (github_row c) es e = (reqs, found, None)"
    note r = run_rows_complete[OF a(3)]
    then obtain ps where "whole_listing gh token (\<lambda>k. githubApiUrl api (paged (github_path c token) GITHUB_PER_PAGE k)) GITHUB_PER_PAGE 1 ps"
      "length ps \<le> GITHUB_MAX_PAGES" "rows_of es = filter (github_owned (lc_owner c)) (concat ps)"
      using numbered_pages_complete[OF a(2)[unfolded listRepos_def, simplified r[THEN conjunct1]]] by (auto simp: GITHUB_MAX_PAGES_def)
    then show ?thesis using r a(1) by auto
  qed simp
next
  case (2 reqs found)
  then show ?case
  proof (rule discover_gitlab_cases)
    fix c base origin token es e assume a: "gitlab_config (dc_config ctx) = Some (c, base)" "listProjects gl origin c token = (es, e)"
      "run_rows (gitlab_row origin c) es e = (reqs, found, None)"
    note r = run_rows_complete[OF a(3)]
    then obtain ps where "whole_listing gl token (\<lambda>k. allowlistedGitLabApiUrl (sh_url gl)
        (go_apiUrl origin @ paged (gitlab_path c token) GITLAB_PER_PAGE k) origin) GITLAB_PER_PAGE 1 ps"
      "length ps \<le> GITLAB_MAX_PAGES" "rows_of es = filter (ownedBy (lc_owner c)) (concat ps)"
      using numbered_pages_complete[OF a(2)[unfolded listProjects_def, simplified r[THEN conjunct1]]] by (auto simp: GITLAB_MAX_PAGES_def)
    then show ?thesis using r a(1)
      by (intro exI[of _ c] exI[of _ base] exI[of _ origin] exI[of _ token] exI[of _ ps]) simp
  qed simp
next
  case (3 reqs found)
  then show ?case
  proof (rule discover_bitbucket_cases)
    fix c ws token address es e assume a: "bitbucket_config (dc_config ctx) = Some c"
      "bitbucketRepositoriesUrl (sh_url bb) (sh_decode bb) ws 1 BITBUCKET_PER_PAGE = Inr address"
      "bitbucket_pages bb ws token BITBUCKET_MAX_PAGES address = (es, e)" "run_rows (bitbucket_row c) es e = (reqs, found, None)"
    note r = run_rows_complete[OF a(4)]
    then obtain ps where "whole_chain bb ws token address ps" "length ps \<le> BITBUCKET_MAX_PAGES" "rows_of es = concat ps"
      using bitbucket_pages_complete[of bb ws token BITBUCKET_MAX_PAGES address es] a(3) unfolding BITBUCKET_MAX_PAGES_def by auto
    then show ?thesis using r a(1,2)
      by (intro exI[of _ c] exI[of _ ws] exI[of _ token] exI[of _ address] exI[of _ ps]) simp
  qed simp
qed


section \<open>From a discovered repository to its clone\<close>

text \<open>A host in the form in which a parser of URLs returns it, and a segment that it keeps.\<close>

definition plain_host :: "string \<Rightarrow> bool" where
  "plain_host h \<longleftrightarrow> isValidHostname h \<and> js_lower h = h \<and> is_lower (hd (List.last (split_on CHR ''.'' h)))
     \<and> list_all (\<lambda>l. \<not> prefix ''xn--'' l) (split_on CHR ''.'' h)"

definition plain_segment :: "string \<Rightarrow> bool" where
  "plain_segment s \<longleftrightarrow> SCM_SEGMENT s \<and> s \<noteq> ''.'' \<and> s \<noteq> ''..''"

text \<open>How a parser reads the addresses of such hosts and segments.\<close>

definition reads_https :: "url_parser \<Rightarrow> bool" where
  "reads_https parse \<longleftrightarrow>
     (\<forall>host. plain_host host \<longrightarrow> parse (''https://'' @ host) = Some (https_url host ''/'')
        \<and> (\<forall>parts. parts \<noteq> [] \<and> list_all plain_segment parts \<longrightarrow>
              parse (https_git host parts) = Some (https_url host (''/'' @ join_with ''/'' parts @ ''.git''))))"

lemma plain_host_chars: "plain_host h \<Longrightarrow> c \<in> set h \<Longrightarrow> alnum c \<or> c = CHR ''-'' \<or> c = CHR ''.''"
  using host_chars[of h c] by (simp add: plain_host_def)

lemma plain_host_not_Nil: "plain_host h \<Longrightarrow> h \<noteq> []"
  by (auto simp: plain_host_def isValidHostname_def)

lemma plain_host_no_dot: "plain_host h \<Longrightarrow> without_dot h = h"
  by (simp add: plain_host_def host_no_dot)

lemma segment_no_slash: "SCM_SEGMENT s \<Longrightarrow> CHR ''/'' \<notin> set s"
  by (auto simp: SCM_SEGMENT_def list_all_iff scm_char_def alnum_def is_lower_def is_upper_def is_digit_def ccode_def)

lemma parts_of_path:
  assumes "parts \<noteq> []" "list_all SCM_SEGMENT parts"
  shows "filter (\<lambda>p. p \<noteq> []) (split_on CHR ''/'' (strip_git (''/'' @ join_with ''/'' parts @ ''.git''))) = parts"
proof -
  have "strip_git (''/'' @ join_with ''/'' parts @ ''.git'') = CHR ''/'' # join_with ''/'' parts"
    by (simp add: strip_git_def suffix_def)
  moreover have "split_on CHR ''/'' (join_with [CHR ''/''] parts) = parts"
    using assms segment_no_slash by (intro split_on_join) (auto simp: list_all_iff)
  moreover have "filter (\<lambda>p. p \<noteq> []) parts = parts" using assms(2) by (auto simp: list_all_iff SCM_SEGMENT_def filter_id_conv)
  ultimately show ?thesis by simp
qed


lemma plain_host_trim: "plain_host h \<Longrightarrow> js_trim h = h"
  by (simp add: plain_host_def host_trim)

lemma plain_host_safe:
  assumes "plain_host h"
  shows "CHR ''@'' \<notin> set h" "CHR '':'' \<notin> set h"
  using plain_host_chars[OF assms, of "CHR ''@''"] plain_host_chars[OF assms, of "CHR '':''"]
  by (auto simp: alnum_def is_lower_def is_upper_def is_digit_def ccode_def)

lemma plain_host_prefixes:
  assumes "plain_host h"
  shows "\<not> prefix ''git@'' h" "\<not> prefix ''ssh:'' h" "\<not> prefix ''ssh@'' h" "\<not> http_scheme h"
proof -
  have low: "js_lower h = h" using assms by (simp add: plain_host_def)
  have no: "\<not> prefix p h" if "c \<in> set p" "c \<notin> set h" for p c using that set_mono_prefix by blast
  show "\<not> prefix ''git@'' h" "\<not> prefix ''ssh:'' h" "\<not> prefix ''ssh@'' h" "\<not> http_scheme h"
    unfolding http_scheme_def low using plain_host_safe[OF assms] no by (auto dest: set_mono_prefix)
qed

lemma gitlab_host_stamped:
  assumes "reads_https parse" "plain_host host" "target_str t ''gitlabHost'' = Some host"
    "host \<notin> {''github.com'', ''www.github.com'', ''bitbucket.org'', ''www.bitbucket.org'', ''www.gitlab.com''}"
  shows "parseTargetGitlabHost parse t = Inr (Some host)"
proof -
  have "parse (''https://'' @ host) = Some (https_url host ''/'')" using assms(1,2) by (simp add: reads_https_def)
  moreover have "js_lower host = host" using assms(2) by (simp add: plain_host_def)
  ultimately show ?thesis
    using assms(3,4) plain_host_trim[OF assms(2)] plain_host_not_Nil[OF assms(2)] plain_host_prefixes[OF assms(2)]
      plain_host_safe[OF assms(2)] plain_host_no_dot[OF assms(2)]
    by (simp add: parseTargetGitlabHost_def Let_def https_url_def)
qed

lemma clone_of_own_address:
  assumes parse: "reads_https parse" "plain_host host" "parts \<noteq> []" "list_all plain_segment parts"
    and host: "canonicalCloneHost host gh = Some host"
    and n: "2 \<le> length parts" "length parts \<le> 10" "host \<in> {''github.com'', ''bitbucket.org''} \<Longrightarrow> length parts = 2"
  shows "allowlistedCloneHttps parse (https_git host parts) gh = Inr (https_git host parts)"
    "\<exists>c. canonicalHostPath parse (https_git host parts) gh = Inr c"
proof -
  have p: "parse (https_git host parts) = Some (https_url host (''/'' @ join_with ''/'' parts @ ''.git''))"
    using parse by (auto simp: reads_https_def)
  have seg: "list_all SCM_SEGMENT parts" using parse(4) by (auto simp: list_all_iff plain_segment_def)
  have scheme: "\<not> prefix ''git@'' (https_git host parts)" "\<not> prefix ''ssh:'' (https_git host parts)" by (simp_all add: https_git_def)
  show "allowlistedCloneHttps parse (https_git host parts) gh = Inr (https_git host parts)"
    using p host n seg scheme parts_of_path[OF parse(3) seg] unfolding allowlistedCloneHttps_def https_url_def by (auto simp: Let_def)
  show "\<exists>c. canonicalHostPath parse (https_git host parts) gh = Inr c"
    using p host by (simp add: canonicalHostPath_def https_url_def)
qed

lemma resolve_own_address:
  assumes "parseTargetGitlabHost parse t = Inr gh" "target_str t ''externalKey'' = Some key" "key \<noteq> []"
    "httpsFromScmIdentityKey key gh = Inr (Some u)" "target_str t ''cloneUrl'' = None \<or> target_str t ''cloneUrl'' = Some u"
    "allowlistedCloneHttps parse u gh = Inr u" "\<exists>c. canonicalHostPath parse u gh = Inr c"
  shows "resolveCloneUrl parse t = Inr u"
  using assms by (auto simp: resolveCloneUrl_def Let_def truthy_def same_repository_def)


text \<open>The target of a job for the row that an upsert writes.\<close>

definition stored_target :: "instant \<Rightarrow> ident \<Rightarrow> ident \<Rightarrow> upsert_request \<Rightarrow> ident option \<Rightarrow> asset_item option \<Rightarrow> target" where
  "stored_target now newId org q integration old =
     entries_of (scanJobTarget (dispatched_row (asset_data now newId org q integration old)))"

lemmas stored_target_defs = stored_target_def entries_of_def scanJobTarget_def dispatched_row_def asset_data_def
  first_of_def json_spread_def target_str_def repository_def

lemma github_target:
  "target_str (stored_target now i org (github_asset r) ig old) ''externalKey'' = Some (''github:'' @ gr_full_name r)"
  "target_str (stored_target now i org (github_asset r) ig old) ''cloneUrl'' = None"
  "target_str (stored_target now i org (github_asset r) ig old) ''gitlabHost'' = None"
  by (simp_all add: github_asset_def stored_target_defs Let_def)

lemma gitlab_target:
  assumes "projectToAsset p origin = Inr q" "safeGitLabPath (gp_path_with_namespace p) = Inr path"
  shows "target_str (stored_target now i org q ig old) ''externalKey'' = Some (''gitlab:'' @ path)"
    "target_str (stored_target now i org q ig old) ''cloneUrl'' = Some (go_origin origin @ ''/'' @ path @ ''.git'')"
    "target_str (stored_target now i org q ig old) ''gitlabHost'' = Some (go_host origin)"
  using assms by (auto simp: projectToAsset_def stored_target_defs Let_def)

lemma bitbucket_target:
  assumes "bitbucket_asset repo ws = Inr q"
  obtains slug where "requiredSlug repo = Inr slug" "BITBUCKET_ID_RE ws" "BITBUCKET_ID_RE slug"
    "target_str (stored_target now i org q ig old) ''externalKey'' = Some (''bitbucket:'' @ ws @ ''/'' @ slug)"
    "target_str (stored_target now i org q ig old) ''cloneUrl'' = Some (''https://bitbucket.org/'' @ ws @ ''/'' @ slug @ ''.git'')"
    "target_str (stored_target now i org q ig old) ''gitlabHost'' = None"
proof -
  obtain slug where ids: "assertBitbucketId ws = Inr ws" "requiredSlug repo = Inr slug" "assertBitbucketId slug = Inr slug"
    using assms by (auto simp: bitbucket_asset_def assertBitbucketId_def Let_def split: sum.splits if_splits)
  have urls: "bitbucketHtmlUrl ws slug = Inr (''https://bitbucket.org/'' @ ws @ ''/'' @ slug)"
    "bitbucketCloneUrl ws slug = Inr (''https://bitbucket.org/'' @ ws @ ''/'' @ slug @ ''.git'')"
    using ids by (simp_all add: bitbucketHtmlUrl_def bitbucketCloneUrl_def)
  obtain priv where priv: "map_of repo ''is_private'' = Some (JBool priv)"
    using assms ids urls unfolding bitbucket_asset_def by (auto split: option.splits json.splits)
  show ?thesis
  proof (rule that)
    show "BITBUCKET_ID_RE ws" "BITBUCKET_ID_RE slug"
      using ids(1,3) by (auto simp: assertBitbucketId_def Let_def split: if_splits)
    show "target_str (stored_target now i org q ig old) ''externalKey'' = Some (''bitbucket:'' @ ws @ ''/'' @ slug)"
      "target_str (stored_target now i org q ig old) ''cloneUrl'' = Some (''https://bitbucket.org/'' @ ws @ ''/'' @ slug @ ''.git'')"
      "target_str (stored_target now i org q ig old) ''gitlabHost'' = None"
      using assms ids urls priv by (auto simp: bitbucket_asset_def stored_target_defs Let_def)
  qed (use ids in simp)
qed

lemma safeGitLabPath_parts:
  assumes "safeGitLabPath raw = Inr path"
  defines "parts \<equiv> filter (\<lambda>p. p \<noteq> []) (split_on CHR ''/'' raw)"
  shows "path = join_with ''/'' parts" "2 \<le> length parts" "length parts \<le> 10" "list_all SCM_SEGMENT parts"
  using assms by (auto simp: safeGitLabPath_def Let_def split: if_splits)

lemma split_segments: "parts \<noteq> [] \<Longrightarrow> list_all SCM_SEGMENT parts \<Longrightarrow> split_on CHR ''/'' (join_with ''/'' parts) = parts"
  using split_on_join[of parts "CHR ''/''"] segment_no_slash by (auto simp: list_all_iff)

lemma parsed_origin:
  "parseGitLabBaseUrl parse base = Inr origin \<Longrightarrow> go_origin origin = ''https://'' @ go_host origin \<and> go_host origin \<noteq> ''www.gitlab.com''"
  by (auto simp: parseGitLabBaseUrl_def canonicalGitLabHostname_def GITLAB_COM_def GITLAB_COM_HOST_def Let_def
      split: option.splits if_splits)

lemma own_url: "target_str t k = Some u \<Longrightarrow> u = v \<Longrightarrow> target_str t k = None \<or> target_str t k = Some v"
  by simp

lemma gitlab_clone:
  assumes parse: "reads_https parse" and p: "projectToAsset p origin = Inr q" and base: "parseGitLabBaseUrl parse base = Inr origin"
    and host: "plain_host (go_host origin)" "go_host origin \<notin> {''github.com'', ''www.github.com'', ''bitbucket.org'', ''www.bitbucket.org''}"
    and plain: "list_all plain_segment (filter (\<lambda>s. s \<noteq> []) (split_on CHR ''/'' (gp_path_with_namespace p)))" (is "list_all _ ?parts")
  shows "resolveCloneUrl parse (stored_target now i org q ig old) = Inr (https_git (go_host origin) ?parts)"
proof -
  obtain path where path: "safeGitLabPath (gp_path_with_namespace p) = Inr path" using p by (auto simp: projectToAsset_def map_sum_def split: sum.splits)
  note parts = safeGitLabPath_parts[OF path] and target = gitlab_target[OF p path]
  note o = parsed_origin[OF base]
  have ne: "?parts \<noteq> []" using parts(2) by auto
  have gh: "parseTargetGitlabHost parse (stored_target now i org q ig old) = Inr (Some (go_host origin))"
    using gitlab_host_stamped[OF parse host(1) target(3)] host(2) o by auto
  have canon: "canonicalCloneHost (go_host origin) (Some (go_host origin)) = Some (go_host origin)"
    using host plain_host_no_dot[OF host(1)] plain_host_not_Nil[OF host(1)] o
    by (auto simp: canonicalCloneHost_def truthy_def plain_host_def Let_def)
  have key: "httpsFromScmIdentityKey (''gitlab:'' @ path) (Some (go_host origin)) = Inr (Some (https_git (go_host origin) ?parts))"
    using parts split_segments[OF ne parts(4)]
    by (simp add: httpsFromScmIdentityKey_def gitlabKeyToHttps_def key_parts_def Let_def)
  have clone: "go_origin origin @ ''/'' @ path @ ''.git'' = https_git (go_host origin) ?parts" using o parts(1) by (simp add: https_git_def)
  have two: "go_host origin \<in> {''github.com'', ''bitbucket.org''} \<Longrightarrow> length ?parts = 2" using host(2) by blast
  note own = clone_of_own_address[OF parse host(1) ne plain canon parts(2,3) two]
  show ?thesis by (rule resolve_own_address[OF gh target(1) _ key own_url[OF target(2) clone] own]) simp
qed

lemma bitbucket_plain: "BITBUCKET_ID_RE s \<Longrightarrow> plain_segment s"
  by (auto simp: BITBUCKET_ID_RE_def plain_segment_def)

lemma bitbucket_clone:
  assumes parse: "reads_https parse" and q: "bitbucket_asset repo ws = Inr q"
  shows "\<exists>slug. requiredSlug repo = Inr slug
    \<and> resolveCloneUrl parse (stored_target now i org q ig old) = Inr (https_git ''bitbucket.org'' [ws, slug])"
proof -
  obtain slug where slug: "requiredSlug repo = Inr slug" "BITBUCKET_ID_RE ws" "BITBUCKET_ID_RE slug"
    and target: "target_str (stored_target now i org q ig old) ''externalKey'' = Some (''bitbucket:'' @ ws @ ''/'' @ slug)"
      "target_str (stored_target now i org q ig old) ''cloneUrl'' = Some (''https://bitbucket.org/'' @ ws @ ''/'' @ slug @ ''.git'')"
      "target_str (stored_target now i org q ig old) ''gitlabHost'' = None"
    using bitbucket_target[OF q] by metis
  let ?parts = "[ws, slug]"
  have plain: "list_all plain_segment ?parts" using slug bitbucket_plain by simp
  then have seg: "list_all SCM_SEGMENT ?parts" by (simp add: plain_segment_def)
  have gh: "parseTargetGitlabHost parse (stored_target now i org q ig old) = Inr None"
    by (simp add: parseTargetGitlabHost_def target(3))
  have key: "httpsFromScmIdentityKey (''bitbucket:'' @ ws @ ''/'' @ slug) None = Inr (Some (https_git ''bitbucket.org'' ?parts))"
    using seg split_segments[of ?parts] by (simp add: httpsFromScmIdentityKey_def bitbucketKeyToHttps_def key_parts_def Let_def)
  have clone: "''https://bitbucket.org/'' @ ws @ ''/'' @ slug @ ''.git'' = https_git ''bitbucket.org'' ?parts" by (simp add: https_git_def)
  have host: "plain_host ''bitbucket.org''" "canonicalCloneHost ''bitbucket.org'' None = Some ''bitbucket.org''" by code_simp+
  have n: "?parts \<noteq> []" "2 \<le> length ?parts" "length ?parts \<le> 10" "length ?parts = 2" by auto
  note own = clone_of_own_address[OF parse host(1) n(1) plain host(2) n(2,3,4)]
  have "resolveCloneUrl parse (stored_target now i org q ig old) = Inr (https_git ''bitbucket.org'' ?parts)"
    by (rule resolve_own_address[OF gh target(1) _ key own_url[OF target(2) clone] own]) simp
  then show ?thesis using slug(1) by blast
qed

text \<open>
  C0 (a discovered repository is the one that is cloned). Whatever row was there before, a scan of a repository that was
  discovered on GitHub, on Bitbucket or on a GitLab host clones exactly that repository from that host. The
  parser reads an address of a lower-case host and plain segments as what it says, GitHub's full name
  has two plain segments, and a GitLab path has no dot segment, and the GitLab host is none of the other two.
\<close>

theorem discovered_repositories_are_cloned:
  assumes "reads_https parse"
  shows "(\<forall>r parts. split_on CHR ''/'' (gr_full_name r) = parts \<and> length parts = 2 \<and> list_all SCM_SEGMENT parts \<longrightarrow>
            resolveCloneUrl parse (stored_target now i org (github_asset r) ig old) = Inr (https_git ''github.com'' parts))
    \<and> (\<forall>p origin base q parts.
            projectToAsset p origin = Inr q \<and> parseGitLabBaseUrl parse base = Inr origin \<and> plain_host (go_host origin)
            \<and> go_host origin \<notin> {''github.com'', ''www.github.com'', ''bitbucket.org'', ''www.bitbucket.org''}
            \<and> parts = filter (\<lambda>s. s \<noteq> []) (split_on CHR ''/'' (gp_path_with_namespace p)) \<and> list_all plain_segment parts \<longrightarrow>
            resolveCloneUrl parse (stored_target now i org q ig old) = Inr (https_git (go_host origin) parts))
    \<and> (\<forall>repo ws q. bitbucket_asset repo ws = Inr q \<longrightarrow>
            (\<exists>slug. requiredSlug repo = Inr slug
               \<and> resolveCloneUrl parse (stored_target now i org q ig old) = Inr (https_git ''bitbucket.org'' [ws, slug])))"
proof (intro conjI allI impI)
  fix r :: github_repo and parts assume "split_on CHR ''/'' (gr_full_name r) = parts \<and> length parts = 2 \<and> list_all SCM_SEGMENT parts"
  then show "resolveCloneUrl parse (stored_target now i org (github_asset r) ig old) = Inr (https_git ''github.com'' parts)"
    by (simp add: resolveCloneUrl_def parseTargetGitlabHost_def github_target truthy_def httpsFromScmIdentityKey_def
        githubKeyToHttps_def key_parts_def Let_def)
qed (use gitlab_clone[OF assms] bitbucket_clone[OF assms] in blast)+


section \<open>Witnesses\<close>

text \<open>A parser of https addresses without ports and credentials.\<close>

definition simple_url :: url_parser where
  "simple_url s =
     (if prefix ''https://'' s then
        (let rest = drop 8 s; host = takeWhile (\<lambda>c. c \<noteq> CHR ''/'') rest; path = dropWhile (\<lambda>c. c \<noteq> CHR ''/'') rest
         in Some ((https_url host (if path = [] then ''/'' else takeWhile (\<lambda>c. c \<noteq> CHR ''?'') path))
                  \<lparr>url_search := dropWhile (\<lambda>c. c \<noteq> CHR ''?'') path\<rparr>))
      else None)"

lemma simple_url_slash:
  assumes "CHR ''/'' \<notin> set host"
  shows "simple_url (''https://'' @ host) = Some (https_url host ''/'')"
    "simple_url (''https://'' @ host @ CHR ''/'' # path) =
       Some ((https_url host (CHR ''/'' # takeWhile (\<lambda>c. c \<noteq> CHR ''?'') path))\<lparr>url_search := dropWhile (\<lambda>c. c \<noteq> CHR ''?'') path\<rparr>)"
proof -
  have "takeWhile (\<lambda>c. c \<noteq> CHR ''/'') host = host" and "dropWhile (\<lambda>c. c \<noteq> CHR ''/'') host = []"
    using assms by (auto simp: takeWhile_eq_all_conv)
  note host = this
  show "simple_url (''https://'' @ host) = Some (https_url host ''/'')" using assms by (simp add: simple_url_def https_url_def host)
  have "takeWhile (\<lambda>c. c \<noteq> CHR ''/'') (host @ CHR ''/'' # path) = host"
    "dropWhile (\<lambda>c. c \<noteq> CHR ''/'') (host @ CHR ''/'' # path) = CHR ''/'' # path"
    using assms by (auto simp: takeWhile_append dropWhile_append)
  then show "simple_url (''https://'' @ host @ CHR ''/'' # path) =
       Some ((https_url host (CHR ''/'' # takeWhile (\<lambda>c. c \<noteq> CHR ''?'') path))\<lparr>url_search := dropWhile (\<lambda>c. c \<noteq> CHR ''?'') path\<rparr>)"
    by (simp add: simple_url_def)
qed

lemma join_segments_chars: "list_all SCM_SEGMENT parts \<Longrightarrow> c \<in> set (join_with ''/'' parts) \<Longrightarrow> c = CHR ''/'' \<or> scm_char c"
  by (induction "''/''" parts rule: join_with.induct) (auto simp: SCM_SEGMENT_def list_all_iff)

lemma simple_url_reads: "reads_https simple_url"
proof -
  have slash: "CHR ''/'' \<notin> set host" if "plain_host host" for host
    using plain_host_chars[OF that, of "CHR ''/''"] by (auto simp: alnum_def is_lower_def is_upper_def is_digit_def ccode_def)
  have "simple_url (https_git host parts) = Some (https_url host (''/'' @ join_with ''/'' parts @ ''.git''))"
    if "plain_host host" "list_all plain_segment parts" for host parts
  proof -
    have "list_all SCM_SEGMENT parts" using that(2) by (auto simp: list_all_iff plain_segment_def)
    moreover have "\<not> scm_char CHR ''?''" by code_simp
    ultimately have "c \<noteq> CHR ''?''" if "c \<in> set (join_with ''/'' parts @ ''.git'')" for c
      using join_segments_chars that by auto
    then have "takeWhile (\<lambda>c. c \<noteq> CHR ''?'') (join_with ''/'' parts @ ''.git'') = join_with ''/'' parts @ ''.git''"
      "dropWhile (\<lambda>c. c \<noteq> CHR ''?'') (join_with ''/'' parts @ ''.git'') = []"
      by (auto simp: takeWhile_eq_all_conv)
    then show ?thesis
      using simple_url_slash(2)[OF slash[OF that(1)], of "join_with ''/'' parts @ ''.git''"]
      by (simp add: https_git_def https_url_def)
  qed
  then show ?thesis using simple_url_slash(1) slash by (auto simp: reads_https_def)
qed

definition api_project :: gitlab_project where
  "api_project = \<lparr>gp_name = ''API'', gp_path = ''api'', gp_path_with_namespace = ''acme/platform/api'', gp_visibility = ''private'',
     gp_archived = False, gp_fork = False, gp_web_url = None, gp_default_branch = Some ''main'', gp_description = None,
     gp_last_activity_at = None\<rparr>"

theorem discovered_repositories_are_cloned_witness:
  "\<exists>q. projectToAsset api_project GITLAB_COM = Inr q
     \<and> resolveCloneUrl simple_url (stored_target 1000 ''a1'' ''acme'' q (Some ''i1'') None)
         = Inr ''https://gitlab.com/acme/platform/api.git''"
proof -
  have q: "\<exists>q. projectToAsset api_project GITLAB_COM = Inr q" by (simp add: projectToAsset_def safeGitLabPath_def api_project_def Let_def
    SCM_SEGMENT_def scm_char_def alnum_def is_lower_def ccode_def)
  then obtain q where q: "projectToAsset api_project GITLAB_COM = Inr q" ..
  have facts: "parseGitLabBaseUrl simple_url None = Inr GITLAB_COM" "plain_host (go_host GITLAB_COM)"
    "go_host GITLAB_COM \<notin> {''github.com'', ''www.github.com'', ''bitbucket.org'', ''www.bitbucket.org''}"
    "[''acme'', ''platform'', ''api''] = filter (\<lambda>s. s \<noteq> []) (split_on CHR ''/'' (gp_path_with_namespace api_project))"
    "list_all plain_segment [''acme'', ''platform'', ''api'']"
    "https_git (go_host GITLAB_COM) [''acme'', ''platform'', ''api''] = ''https://gitlab.com/acme/platform/api.git''"
    by code_simp+
  show ?thesis
    using discovered_repositories_are_cloned[OF simple_url_reads, of 1000 "''a1''" "''acme''" "Some ''i1''" None] q facts by metis
qed

definition acme_repos :: "github_repo list" where
  "acme_repos = [\<lparr>gr_name = ''api'', gr_full_name = ''acme/api'', gr_private = True, gr_archived = False, gr_fork = False,
     gr_html_url = ''https://github.com/acme/api'', gr_default_branch = Some ''main'', gr_language = None, gr_pushed_at = None,
     gr_description = None, gr_login = Some ''Acme''\<rparr>]"

definition github_env :: "github_repo list source_env" where
  "github_env = \<lparr>sh_url = simple_url, sh_vars = \<lambda>v. if v = ''GITHUB_TOKEN'' then Some ''ghp_x'' else None, sh_decode = Some,
     sh_fetch = \<lambda>u t. Inr (200, Some acme_repos)\<rparr>"

definition public_api :: github_api where
  "public_api = \<lparr>ga_base = Some (https_url ''api.github.com'' ''/''), ga_join = \<lambda>p. Some (https_url ''api.github.com'' p)\<rparr>"

definition source_ctx :: "(string \<times> json) list \<Rightarrow> string \<Rightarrow> discovery_context" where
  "source_ctx config ref = \<lparr>dc_org = ''o1'', dc_integrationId = ''i1'', dc_config = config, dc_credentialRef = Some ref,
     dc_resolvedCredential = None, dc_since = None\<rparr>"

definition github_ctx :: discovery_context where
  "github_ctx = source_ctx [(''owner'', JStr ''acme''), (''ownerType'', JStr ''org'')] ''env:GITHUB_TOKEN''"

theorem source_listings_are_whole_witness:
  "\<exists>c ps. github_config (dc_config github_ctx) = Some c \<and> length ps \<le> GITHUB_MAX_PAGES
     \<and> [github_asset (hd acme_repos)] = mapped (github_row c) (filter (github_owned (lc_owner c)) (concat ps))"
proof -
  obtain reqs where d: "discover_github github_env public_api github_ctx = (reqs, [github_asset (hd acme_repos)], None)"
  proof -
    have "snd (discover_github github_env public_api github_ctx) = ([github_asset (hd acme_repos)], None)" by code_simp
    then show ?thesis using that by (metis prod.collapse)
  qed
  show ?thesis using source_listings_are_whole[THEN conjunct1, rule_format, OF d] by blast
qed

definition bitbucket_env :: "json source_env" where
  "bitbucket_env = \<lparr>sh_url = simple_url, sh_vars = \<lambda>v. if v = ''BITBUCKET_TOKEN'' then Some ''bb_x'' else None, sh_decode = Some,
     sh_fetch = \<lambda>u t. Inr (200, Some (JObj [(''values'', JArr [])]))\<rparr>"

definition bitbucket_ctx :: discovery_context where
  "bitbucket_ctx = source_ctx [(''workspace'', JStr ''acme'')] ''env:BITBUCKET_TOKEN''"

lemma simple_url_rereads:
  assumes "simple_url raw = Some u" "simple_url (''https://'' @ BITBUCKET_API_HOST @ url_pathname u @ url_search u) = Some v"
  shows "url_protocol v = ''https:'' \<and> url_hostname v = BITBUCKET_API_HOST"
proof -
  define p where "p = dropWhile (\<lambda>c. c \<noteq> CHR ''/'') (drop 8 raw)"
  have u: "url_pathname u = (if p = [] then ''/'' else takeWhile (\<lambda>c. c \<noteq> CHR ''?'') p)"
    using assms(1) unfolding simple_url_def p_def[symmetric] Let_def https_url_def by (auto split: if_splits)
  have "hd p = CHR ''/''" if "p \<noteq> []" using hd_dropWhile[OF that[unfolded p_def]] by (simp add: p_def)
  then obtain path where p: "url_pathname u = CHR ''/'' # path" using u by (cases p) auto
  have "CHR ''/'' \<notin> set BITBUCKET_API_HOST" by code_simp
  from simple_url_slash(2)[OF this, of "path @ url_search u"] show ?thesis
    using assms(2) p by (auto simp: https_url_def)
qed

theorem source_tokens_stay_on_their_hosts_witness:
  "map (\<lambda>(u, t). (url_hostname u, t)) (fst (discover_bitbucket bitbucket_env bitbucket_ctx))
     = [(''api.bitbucket.org'', Some ''bb_x'')]
   \<and> (\<exists>token. requireBitbucketToken (sh_vars bitbucket_env) (Some ''env:BITBUCKET_TOKEN'') = Inr token)"
proof -
  have one: "map (\<lambda>(u, t). (url_hostname u, t)) (fst (discover_bitbucket bitbucket_env bitbucket_ctx))
     = [(''api.bitbucket.org'', Some ''bb_x'')]" by code_simp
  then obtain u t where x: "(u, t) \<in> set (fst (discover_bitbucket bitbucket_env bitbucket_ctx))" by (auto simp: map_eq_Cons_conv)
  have law: "sh_url bitbucket_env raw = Some u \<Longrightarrow> url_protocol u = ''https:'' \<Longrightarrow>
      sh_url bitbucket_env (''https://'' @ BITBUCKET_API_HOST @ url_pathname u @ url_search u) = Some v \<Longrightarrow>
      url_protocol v = ''https:'' \<and> url_hostname v = BITBUCKET_API_HOST" for raw u v
    using simple_url_rereads by (simp add: bitbucket_env_def)
  have "\<forall>(u, t) \<in> set (fst (discover_bitbucket bitbucket_env bitbucket_ctx)).
      url_protocol u = ''https:'' \<and> url_hostname u = BITBUCKET_API_HOST
      \<and> (\<exists>token. t = Some token \<and> requireBitbucketToken (sh_vars bitbucket_env) (dc_credentialRef bitbucket_ctx) = Inr token)"
    by (rule source_tokens_stay_on_their_hosts[THEN conjunct2, THEN conjunct2]) (rule law)
  then have "\<exists>token. requireBitbucketToken (sh_vars bitbucket_env) (dc_credentialRef bitbucket_ctx) = Inr token"
    using x by blast
  then show ?thesis using one by (simp add: bitbucket_ctx_def source_ctx_def)
qed


end
