(* ===== verification/Spec2Isabelle.thy ===== *)
theory Spec2Isabelle
imports Resilience Coordination Contracts ScanSchedule ScanGates Notify KickMeter Gateway Enrichment GhsaRange Integrations AssetGraph Worker SourceHosts
begin

text \<open>
  Verification of the CTEM platform.

  \<^bold>\<open>The program.\<close> The platform inventories assets, scans them, turns what the scanners report into
  findings, scores and gates them, and notifies people. Its services share one database and one message
  bus. A request enters at \<^verbatim>\<open>apps/api-gateway\<close>, which limits the rate per tenant, authenticates the
  caller, signs a principal and proxies to a service under a retry policy and a circuit breaker
  (\<^verbatim>\<open>libs/resilience\<close>). \<^verbatim>\<open>apps/identity-service\<close> owns tenants, members and machine tokens.
  \<^verbatim>\<open>apps/orchestrator-service\<close> accepts scans (each accept is metered as a kick), publishes their jobs,
  closes a scan when its jobs report, and sweeps schedules under a leader lease (\<^verbatim>\<open>libs/coordination\<close>).
  Scanners publish batches of findings; \<^verbatim>\<open>apps/findings-service\<close> collapses and stores them;
  \<^verbatim>\<open>apps/risk-service\<close> scores them, applies the tenant's policies and watches deadlines;
  \<^verbatim>\<open>apps/notification-service\<close> delivers violations. The orchestrator evaluates the same policies over a
  finished scan for its CI and deploy gates (\<^verbatim>\<open>libs/contracts\<close>).

  \<^bold>\<open>Theories.\<close> Each models the files its opening text names, one definition per function, with the
  source's names.
  \<^item> \<open>Prelude\<close>: instants (integers, in milliseconds), lists, options, JavaScript's trim and case folding.
  \<^item> \<open>Resilience\<close>: breaker configuration, the breaker as a state machine on a record, overlapping calls as
    an \<open>inductive\<close> step relation, the retry loop.
  \<^item> \<open>Coordination\<close>: both lease stores behind the locale \<open>lease_store\<close>, the leader lease, the rate limiter.
  \<^item> \<open>Contracts\<close>: policy conditions, CI and deploy gates, the webhook filter and alias promotion.
  \<^item> \<open>ScanKick\<close>, \<open>ScanLifecycle\<close>, \<open>ScanSchedule\<close>: planning, the accept transaction under concurrent
    transactions (each reads an earlier commit and writes on the newest), dispatch, failure, retry and
    close-out of jobs, the cadence sweep.
  \<^item> \<open>KickMeter\<close>: the meter's read side: query parsing, the opaque cursor, keyset pages.
  \<^item> \<open>Wire\<close>, \<open>Iso_Date\<close>: what these use of the language's standard library: JSON text, base64url, ISO dates.
  \<^item> \<open>Findings\<close>: fingerprints, collapsing of a batch, ingest with auto-resolution, triage.
  \<^item> \<open>Risk\<close>: the score and its explanation, the policy engine, the deadline monitor.
  \<^item> \<open>ScanGates\<close>: the loader of gate inputs and the statuses published to source hosts.
  \<^item> \<open>Notify\<close>: claims and delivery of violations.
  \<^item> \<open>Identity\<close>, \<open>Membership\<close>: roles, members, invites, sign-up; invariants over sequences of requests.
  \<^item> \<open>Gateway\<close>: machine tokens, the signed principal, the guards of gateway and services, the proxy.
  \<^item> \<open>VersionRange\<close>: comparison of versions and evaluation of OSV ranges (\<^verbatim>\<open>libs/vuln-intel\<close>), behind the
    locale \<open>comparator\<close>.
  \<^item> \<open>VulnFeed\<close>: the OSV, GitHub and NVD mappers of \<^verbatim>\<open>apps/risk-service/src/feed\<close> and the mirror that they
    write; \<open>GhsaRange\<close>: what the translation of GitHub's ranges keeps.
  \<^item> \<open>VulnMatch\<close>: matching a component against the mirror or the live service, and the paged EPSS client.
  \<^item> \<open>VulnMirror\<close>: relations of stores that every write and so every run respects (the locales
    \<open>mirror_writes\<close> and \<open>mirror_runs\<close>), and the agreement of the mirror with the matcher.
  \<^item> \<open>Enrichment\<close>: KEV and EPSS updates of the mirrored rows and what they push down to open findings.
  \<^item> \<open>Secrets\<close>, \<open>Inventory\<close>, \<open>Integrations\<close>, \<open>AssetGraph\<close> (\<^verbatim>\<open>apps/asset-service\<close>): sealed credentials and the scrubbing
    of what is stored, the upsert and archival of assets, the discovery sweep, pasted credentials, and the
    recursive query over the graph, which is a \<open>partial_function\<close> that is proved to end.
  \<^item> \<open>Worker\<close>: the bus (\<^verbatim>\<open>libs/events\<close>) and the job loop of the scanner services (\<^verbatim>\<open>libs/scanner-sdk\<close>).
  This theory adds what spans the gateway and the orchestrator.

  \<^bold>\<open>Conventions.\<close> A record is an interface or a table row, a database is a record of lists in insertion
  order, a transaction is a function from database to database and result, and an error is the left of a
  sum, so a rolled-back transaction returns the database it was given. Identifiers are strings. The clock,
  random values, generated identifiers, digests, the JWT library and whether a publish or a write of an
  outside service succeeds are arguments. Enumerations that the code stores as strings stay strings where a
  row can hold any string. Numbers are integers, scores are exact rationals: the code's floating point
  arithmetic is only modelled where its result is an integer or its rounding is written out.

  \<^bold>\<open>Bounds and fuel.\<close> The retry loop recurses on the attempts left, so it needs no fuel. The JSON parser takes
  fuel and is called with the length of its input, which \<open>fuel_enough\<close> shows to suffice; a walk over the
  meter's pages takes fuel above the number of rows, which \<open>pages_deliver_the_meter\<close> shows to suffice.
  Everything else is structural recursion or has a termination proof.

  \<^bold>\<open>What the lemmas show.\<close> Per component: its invariant and that every operation keeps it; each operation's
  outcome on every branch; agreement of the two readers of a policy (engine and gates), of the paged and the
  plain meter, of the lossy breaker window with the failures since the last success; round trips of
  principals, cursors, dates and JSON; and at most one probe, leader, kick per key, alert and delivery. Some
  theorems record behaviour that the code does not intend: overlapping removals of owners, stragglers of a
  breaker, postponed deadlines, alerts lost between claim and publish, jobs counted twice, retried creates.

  \<^bold>\<open>Not modelled.\<close> HTTP controllers and schemas of the validation library beyond the fields that the logic
  reads; the clients of source hosts, registries, clouds, chat and ticket systems; the SQL of row-level
  security (every query is restricted to its tenant instead); the scanners' analyses;
  the web client. They are effects around the logic above or separate analyses.
\<close>

section \<open>A retried create, end to end\<close>

text \<open>A \<^verbatim>\<open>POST /v1/scans\<close> that the gateway retries reaches the orchestrator once per attempt, each with
  the identifier \<open>sid k\<close> that the database draws for its scan; an attempt that the gateway gave up on may
  still run when the next one starts, so attempt \<open>k\<close> reads a state that is \<open>age k\<close> commits old.\<close>

definition delivered :: "kick_args \<Rightarrow> (nat \<Rightarrow> ident) \<Rightarrow> (nat \<Rightarrow> nat) \<Rightarrow> nat \<Rightarrow> (nat \<times> kick_args) list" where
  "delivered a sid age n = map (\<lambda>k. (age k, a\<lparr>pk_scanId := sid k\<rparr>)) [1..<Suc n]"

lemma delivered_nth: "i < n \<Longrightarrow> delivered a sid age n ! i = (age (Suc i), a\<lparr>pk_scanId := sid (Suc i)\<rparr>)"
  by (simp add: delivered_def del: upt_Suc)

lemma length_delivered [simp]: "length (delivered a sid age n) = n"
  by (simp add: delivered_def del: upt_Suc)

lemma keyless_batch:
  assumes "list_all2 (settled db) (delivered a sid age n) out" and "pk_key a = None"
  shows "length (filter accepted_new out) = n"
proof -
  have len: "length out = n" using assms(1) list_all2_lengthD by fastforce
  have "accepted_new (out ! i)" if "i < n" for i
  proof -
    have "settled db (delivered a sid age n ! i) (out ! i)"
      using list_all2_nthD[OF assms(1)] that by simp
    then show ?thesis using that assms(2) by (cases "out ! i") (auto simp: delivered_nth accepted_new_def split: if_splits)
  qed
  then have "filter accepted_new out = out" using len by (simp add: filter_id_conv all_set_conv_all_nth)
  then show ?thesis using len by simp
qed

lemma keyed_batch:
  assumes h: "history_ok h" and fresh: "batch_fresh (hd h) (delivered a sid age n)"
    and run: "accept_all h (delivered a sid age n) = (out, h')" and key: "pk_key a = Some k" and n: "1 \<le> n"
  shows "length (filter accepted_new out) = (if \<exists>s. scan_for_key (hd h) (pk_org a) k s then 0 else 1)"
proof -
  note c = accept_all_correct[OF h fresh run]
  have wf: "kicks_wf (hd h')" "kicks_wf (hd h)" using c h by (auto simp: history_ok_def)
  have len: "length out = n" using c list_all2_lengthD by fastforce
  have st: "settled (hd h') (age (Suc i), a\<lparr>pk_scanId := sid (Suc i)\<rparr>) (out ! i)" if "i < n" for i
    using c that by (auto simp: list_all2_conv_all_nth delivered_nth)
  have new: "scan_for_key (hd h') (pk_org a) k (sid (Suc i))" if "i < n" "accepted_new (out ! i)" for i
    using st[OF that(1)] that(2) key by (cases "out ! i") (auto simp: accepted_new_def split: if_splits)
  have inj: "i = j" if "i < n" "j < n" "sid (Suc i) = sid (Suc j)" for i j
  proof -
    have "distinct (map (pk_scanId \<circ> snd) (delivered a sid age n))" using fresh by (simp add: batch_fresh_def)
    moreover have "map (pk_scanId \<circ> snd) (delivered a sid age n) ! m = sid (Suc m)" if "m < n" for m
      using that by (simp add: delivered_nth)
    ultimately show ?thesis using that nth_eq_iff_index_eq by (metis length_delivered length_map)
  qed
  have fresh_id: "\<not> scan_for_key (hd h) (pk_org a) k (sid (Suc i))" if "i < n" for i
  proof -
    have "delivered a sid age n ! i \<in> set (delivered a sid age n)" using that by simp
    then have "fresh_for (hd h) (a\<lparr>pk_scanId := sid (Suc i)\<rparr>)"
      using fresh by (auto simp: batch_fresh_def delivered_nth[OF that])
    then show ?thesis using fresh_scan_id(2)[OF wf(2)] by (fastforce simp: scan_for_key_def)
  qed
  show ?thesis
  proof (cases "\<exists>s. scan_for_key (hd h) (pk_org a) k s")
    case True
    then obtain s0 where s0: "scan_for_key (hd h) (pk_org a) k s0" by blast
    have "\<not> accepted_new (out ! i)" if "i < n" for i
    proof
      assume "accepted_new (out ! i)"
      then have "s0 = sid (Suc i)"
        using new[OF that] scan_for_key_grows[OF _ s0] c scan_for_key_unique[OF wf(1)] by blast
      then show False using s0 fresh_id[OF that] by simp
    qed
    then have "filter accepted_new out = []" using len by (auto simp: filter_empty_conv in_set_conv_nth)
    then show ?thesis using True by simp
  next
    case False
    let ?I = "{i. i < length out \<and> accepted_new (out ! i)}"
    have "i = j" if "i \<in> ?I" "j \<in> ?I" for i j
      using that new[of i] new[of j] scan_for_key_unique[OF wf(1)] inj[of i j] len by blast
    then have "card ?I \<le> Suc 0" by (subst card_le_Suc0_iff_eq) auto
    moreover have "length (filter accepted_new out) \<noteq> 0"
    proof
      assume zero: "length (filter accepted_new out) = 0"
      obtain s where "scan_for_key (hd h') (pk_org a) k s"
        using st[of 0] n key by (cases "out ! 0") auto
      moreover have "scan_kicks (hd h') = scan_kicks (hd h)"
        using c zero by (auto simp: grows_def prefix_def)
      ultimately have "scan_for_key (hd h) (pk_org a) k s" by (simp add: scan_for_key_def)
      then show False using False by blast
    qed
    ultimately have "length (filter accepted_new out) = 1" by (simp only: length_filter_conv_card)
    then show ?thesis using False by (simp only: if_False)
  qed
qed


text \<open>
  C16 (a retried create is billed once, given a key). The gateway forwards an admitted
  \<^verbatim>\<open>POST /v1/scans\<close> under its retry policy, and each of its \<open>n\<close> attempts reaches the orchestrator, as
  when an answer is lost or late. Then \<open>1 \<le> n\<close>, \<open>n\<close> is at most the budget, and exactly the budget when
  every attempt has a retryable outcome. With an idempotency key the organisation's meter grows by one
  kick, or by none when the key was used before; without a key it grows by \<open>n\<close>: one click, \<open>n\<close> billed
  scans. The retry applies to every method, \<^verbatim>\<open>POST\<close> included.
\<close>

theorem retried_create_is_billed_once_given_a_key:
  assumes enter: "enter c t0 b = (True, b1)" and attempts: "1 \<le> maxAttempts c"
    and exec: "execute c t0 t1 att rnd b = ((r, sleeps, n), b')"
    and h: "history_ok h" and fresh: "batch_fresh (hd h) (delivered a sid age n)"
    and run: "accept_all h (delivered a sid age n) = (out, h')"
  defines "budget \<equiv> exec_budget c (fst (read_state c t0 b1))"
  shows "1 \<le> n \<and> n \<le> budget \<and> ((\<forall>k. 1 \<le> k \<and> k \<le> budget \<longrightarrow> retryable (att k)) \<longrightarrow> n = budget)
    \<and> length (scan_kicks (hd h')) - length (scan_kicks (hd h)) =
        (case pk_key a of None \<Rightarrow> n
         | Some k \<Rightarrow> if \<exists>s. scan_for_key (hd h) (pk_org a) k s then 0 else 1)"
proof -
  have "1 \<le> budget" using attempts by (simp add: budget_def exec_budget_def)
  from http_loop_char[OF this, of "baseDelayMs c" att rnd None] obtain m sl where
    m: "http_loop (baseDelayMs c) budget att rnd None 1 = (as_result (att m), counts_as_success (att m), sl, m)"
      "1 \<le> m" "m \<le> budget" "m < budget \<longrightarrow> \<not> retryable (att m)"
    by blast
  have n: "n = m" using exec m(1) enter by (auto simp: execute_def budget_def split: prod.splits)
  have "length (scan_kicks (hd h')) - length (scan_kicks (hd h)) = length (filter accepted_new out)"
    using accept_all_correct[OF h fresh run] by simp
  moreover have "length (filter accepted_new out) = n" if "pk_key a = None"
    using keyless_batch[OF _ that] accept_all_correct[OF h fresh run] by blast
  moreover have "length (filter accepted_new out) = (if \<exists>s. scan_for_key (hd h) (pk_org a) k s then 0 else 1)"
    if "pk_key a = Some k" for k using keyed_batch[OF h fresh run that] m(2) n by simp
  ultimately show ?thesis using m n by (auto split: option.split)
qed

definition lost_answers :: "nat \<Rightarrow> attempt_result" where
  "lost_answers k = Response 504"

definition numbered :: "nat \<Rightarrow> ident" where
  "numbered k = ''s'' @ replicate k CHR ''i''"

lemma demo_budget:
  "enter default_cb_config 0 new_breaker = (True, new_breaker)" "1 \<le> maxAttempts default_cb_config"
  "exec_budget default_cb_config (fst (read_state default_cb_config 0 new_breaker)) = 3"
  by (simp_all add: enter_def transitionIfCooldownElapsed_def new_breaker_def default_cb_config_def
      exec_budget_def read_state_def)

lemma demo_history: "history_ok [empty_db]"
  by (simp add: history_ok_def kicks_wf_def grows_def empty_db_def)

lemma demo_batch:
  "key \<noteq> Some [] \<Longrightarrow>
     batch_fresh (hd [empty_db]) (delivered (retried sid\<lparr>pk_key := key\<rparr>) numbered (\<lambda>_. 0) n)"
  by (simp add: empty_db_def batch_fresh_def fresh_for_def delivered_def retried_def numbered_def
      distinct_map inj_on_def del: upt_Suc)

theorem retried_create_is_billed_once_given_a_key_witness:
  "length (scan_kicks (hd (snd (accept_all [empty_db]
      (delivered (retried ''s''\<lparr>pk_key := None\<rparr>) numbered (\<lambda>_. 0) 3))))) = 3
   \<and> length (scan_kicks (hd (snd (accept_all [empty_db]
      (delivered (retried ''s''\<lparr>pk_key := Some ''ci-7''\<rparr>) numbered (\<lambda>_. 0) 3))))) = 1"
proof -
  obtain r sl n b' where ex: "execute default_cb_config 0 5 lost_answers (\<lambda>_. 0) new_breaker = ((r, sl, n), b')"
    by (metis prod.exhaust)
  have "\<forall>k. retryable (lost_answers k)" by (simp add: lost_answers_def isRetryableHttpStatus_def)
  note keyless = retried_create_is_billed_once_given_a_key[OF demo_budget(1,2) ex demo_history
      demo_batch[where sid = "''s''" and key = "None"] surjective_pairing, unfolded demo_budget(3)]
  note keyed = retried_create_is_billed_once_given_a_key[OF demo_budget(1,2) ex demo_history
      demo_batch[where sid = "''s''" and key = "Some ''ci-7''"] surjective_pairing, unfolded demo_budget(3)]
  have n: "n = 3" using keyless \<open>\<forall>k. retryable (lost_answers k)\<close> by simp
  show ?thesis using keyless keyed unfolding n by (simp add: retried_def empty_db_def scan_for_key_def)
qed

end
